(* ===== verification/Prelude.thy ===== *)
theory Prelude
  imports Main "HOL-Library.Word" "HOL-Library.AList"
begin

text \<open>
  Shared by every component: the errors the extension throws, the state-and-exception
  actions its async functions become, and the two containers of JavaScript whose iteration
  order the code relies on (a \<^verbatim>\<open>Map\<close> and a plain object).
  A JavaScript string is a HOL \<^typ>\<open>string\<close>: the code only compares, concatenates and
  slices strings, and a byte array is a list of 8-bit words.
\<close>

named_theorems js_simps \<open>unfolding of the action combinators and the result type\<close>

type_synonym bytes = "8 word list"

subsection \<open>Errors\<close>

text \<open>
  \<^verbatim>\<open>AccountRevokedError\<close> extends \<^verbatim>\<open>AuthExpiredError\<close> (sync/client.ts), so the
  \<^verbatim>\<open>instanceof\<close> test of the handlers is a predicate on the constructors.
  \<^verbatim>\<open>OperationError\<close>, \<^verbatim>\<open>DataError\<close> and \<^verbatim>\<open>InvalidCharacterError\<close> are the
  DOMExceptions of WebCrypto and atob.
\<close>

datatype js_error =
    JsError string
  | AuthExpiredError
  | AccountRevokedError
  | InvalidCredentialsError
  | OperationError
  | DataError
  | InvalidCharacterError

fun isAuthExpired :: "js_error \<Rightarrow> bool" where
  "isAuthExpired AuthExpiredError = True"
| "isAuthExpired AccountRevokedError = True"
| "isAuthExpired _ = False"

subsection \<open>Actions: state passing with exceptions\<close>

text \<open>
  An async function of the service worker reads and writes module state and may throw.
  What it wrote before it threw stays written, so the state is returned in both cases.
\<close>

type_synonym ('s, 'a) act = "'s \<Rightarrow> (js_error + 'a) \<times> 's"

definition retA :: "'a \<Rightarrow> ('s, 'a) act" where
  "retA x s = (Inr x, s)"

definition throwA :: "js_error \<Rightarrow> ('s, 'a) act" where
  "throwA e s = (Inl e, s)"

definition bindA :: "('s, 'a) act \<Rightarrow> ('a \<Rightarrow> ('s, 'b) act) \<Rightarrow> ('s, 'b) act" where
  "bindA m f s = (case m s of (Inl e, s') \<Rightarrow> (Inl e, s') | (Inr x, s') \<Rightarrow> f x s')"

definition catchA :: "('s, 'a) act \<Rightarrow> (js_error \<Rightarrow> ('s, 'a) act) \<Rightarrow> ('s, 'a) act" where
  "catchA m h s = (case m s of (Inl e, s') \<Rightarrow> h e s' | (Inr x, s') \<Rightarrow> (Inr x, s'))"

definition liftE :: "js_error + 'a \<Rightarrow> ('s, 'a) act" where
  "liftE r s = (r, s)"

lemma retA_simp [simp, js_simps]: "retA x s = (Inr x, s)"
  by (simp add: retA_def)

lemma throwA_simp [simp, js_simps]: "throwA e s = (Inl e, s)"
  by (simp add: throwA_def)

lemma liftE_simp [simp, js_simps]: "liftE r s = (r, s)"
  by (simp add: liftE_def)

lemma bindA_Inr [simp]: "m s = (Inr x, s') \<Longrightarrow> bindA m f s = f x s'"
  by (simp add: bindA_def)

lemma bindA_Inl [simp]: "m s = (Inl e, s') \<Longrightarrow> bindA m f s = (Inl e, s')"
  by (simp add: bindA_def)

lemma bindA_InrE:
  assumes "bindA m f s = (Inr y, t)"
  obtains x s' where "m s = (Inr x, s')" and "f x s' = (Inr y, t)"
  using assms by (auto simp: bindA_def split: prod.splits sum.splits)

text \<open>The exception-only part: a computation that may throw and has no state.\<close>

definition bindE :: "js_error + 'a \<Rightarrow> ('a \<Rightarrow> js_error + 'b) \<Rightarrow> js_error + 'b" where
  "bindE r f = (case r of Inl e \<Rightarrow> Inl e | Inr x \<Rightarrow> f x)"

lemma bindE_simps [simp, js_simps]:
  "bindE (Inl e) f = Inl e"
  "bindE (Inr x) f = f x"
  by (simp_all add: bindE_def)

lemma bindE_Inr_iff: "bindE r f = Inr y \<longleftrightarrow> (\<exists>x. r = Inr x \<and> f x = Inr y)"
  by (cases r) auto

text \<open>\<^verbatim>\<open>Promise.all(xs.map(f))\<close>: all results in order, or an error of one of them.\<close>

fun mapE :: "('a \<Rightarrow> js_error + 'b) \<Rightarrow> 'a list \<Rightarrow> js_error + 'b list" where
  "mapE f [] = Inr []"
| "mapE f (x # xs) = bindE (f x) (\<lambda>y. bindE (mapE f xs) (\<lambda>ys. Inr (y # ys)))"

lemma mapE_Inr_map: "(\<And>x. x \<in> set xs \<Longrightarrow> f x = Inr (g x)) \<Longrightarrow> mapE f xs = Inr (map g xs)"
  by (induction xs) auto

subsection \<open>JavaScript truthiness\<close>

text \<open>An optional string is falsy when it is absent or empty.\<close>

fun truthy :: "string option \<Rightarrow> bool" where
  "truthy None = False"
| "truthy (Some s) = (s \<noteq> [])"

lemma truthy_iff: "truthy x \<longleftrightarrow> (\<exists>s. x = Some s \<and> s \<noteq> [])"
  by (cases x) auto

definition orElse :: "'a option \<Rightarrow> 'a \<Rightarrow> 'a" where
  "orElse x d = (case x of None \<Rightarrow> d | Some v \<Rightarrow> v)"

lemma orElse_simps [simp, js_simps]: "orElse None d = d" "orElse (Some v) d = v"
  by (simp_all add: orElse_def)

end
