(* ===== verification/Types.thy ===== *)
theory Types
  imports Prelude
begin

text \<open>
  extension/src/types.ts: the values the popup and the background exchange. A missing optional
  field is \<^const>\<open>None\<close>.
\<close>

record profileInfo =
  pi_id :: string
  pi_name :: string

record pendingChanges =
  added :: nat
  removed :: nat
  modified :: nat

record importDiff =
  localOnly :: nat
  serverOnly :: nat

datatype sessionTimeout = OnRestart | Never

datatype importChoice = Overwrite | Merge | NewProfile

end
