(* ===== verification/Http.thy ===== *)
theory Http
  imports Types
begin

text \<open>
  What crosses the network between sync/client.ts and the server: one request constructor per
  route with the fields the client puts into it, a response with a status and a JSON body.
  The network and the server behind it are a parameter of the client (\<^verbatim>\<open>fetch\<close>): an action
  on a state of its own, which may also fail (offline, or the 30 s abort). Server.thy gives one
  such server, translated from the Rust sources.
\<close>

datatype request =
    PostRegister string string string string string
  | PostLogin string string
  | GetProfiles string
  | PostProfile string string string
  | PatchProfile string string string
  | DeleteProfile string string
  | DeleteAccount string string
  | PostChangePassword string string string string
  | GetSnapshot string string
  | PutSnapshot string string int string
  | PostPush string string string
  | GetPull string string int

datatype payload =
    NoJson
  | ErrorJson "string option"
  | RegisterJson string string
  | LoginJson string "profileInfo list" "string option"
  | ProfilesJson "profileInfo list"
  | ProfileJson profileInfo
  | TokenJson string
  | SnapshotJson int string
  | PushJson int
  | PullJson "(int \<times> string) list" "bool option"

record response =
  status :: nat
  body :: payload

type_synonym 'n fetch = "request \<Rightarrow> ('n, response) act"

definition res_ok :: "response \<Rightarrow> bool" where
  "res_ok res = (200 \<le> status res \<and> status res \<le> 299)"

text \<open>Decimal digits, for the status in an error message.\<close>

fun show_nat :: "nat \<Rightarrow> string" where
  "show_nat n =
     (if n < 10 then [char_of (48 + n)] else show_nat (n div 10) @ [char_of (48 + n mod 10)])"

declare show_nat.simps [simp del]

text \<open>And back.\<close>

definition digit :: "char \<Rightarrow> nat option" where
  "digit c = (let n = of_char c :: nat in if 48 \<le> n \<and> n \<le> 57 then Some (n - 48) else None)"

text \<open>Reading decimal digits; None without any digit or at another character.\<close>

fun digitsValue :: "nat \<Rightarrow> string \<Rightarrow> nat option" where
  "digitsValue acc [] = Some acc"
| "digitsValue acc (c # rest) = (case digit c of None \<Rightarrow> None | Some d \<Rightarrow> digitsValue (10 * acc + d) rest)"

lemma digits_append:
  "digitsValue acc (xs @ [c]) =
     (case digitsValue acc xs of None \<Rightarrow> None | Some v \<Rightarrow> map_option (\<lambda>d. 10 * v + d) (digit c))"
  by (induction acc xs rule: digitsValue.induct) (auto split: option.split)

lemma digit_char: "d < 10 \<Longrightarrow> digit (char_of (48 + d)) = Some d"
  by (simp add: digit_def Let_def take_bit_nat_eq_self)

lemma digitsValue_show_nat: "digitsValue 0 (show_nat n) = Some n"
proof (induction n rule: show_nat.induct)
  case (1 n)
  then show ?case
    by (cases "n < 10") (simp_all add: show_nat.simps [of n] digits_append digit_char)
qed

lemma show_nat_head: "\<exists>c rest. show_nat n = c # rest \<and> digit c \<noteq> None"
proof (induction n rule: show_nat.induct)
  case (1 n)
  show ?case
  proof (cases "n < 10")
    case True
    then show ?thesis using digit_char [of n] by (simp add: show_nat.simps [of n])
  next
    case False
    with 1 show ?thesis by (auto simp: show_nat.simps [of n])
  qed
qed

lemma show_nat_inj: "show_nat m = show_nat n \<Longrightarrow> m = n"
  by (metis digitsValue_show_nat option.inject)

end
