(* ===== verification/Base64.thy ===== *)
theory Base64
  imports Prelude
begin

text \<open>
  The byte/text conversions of extension/src/crypto/aes.ts: \<^verbatim>\<open>toBase64\<close> and
  \<^verbatim>\<open>fromBase64\<close>, over a model of the platform's \<^verbatim>\<open>btoa\<close> and \<^verbatim>\<open>atob\<close>
  (the forgiving-base64 algorithms of the WHATWG Infra standard). A binary string is a
  \<^typ>\<open>string\<close> whose characters are the bytes, which is what
  \<^verbatim>\<open>String.fromCharCode\<close> and \<^verbatim>\<open>charCodeAt\<close> convert between.
\<close>

subsection \<open>The alphabet\<close>

definition b64_alphabet :: string where
  "b64_alphabet = ''ABCDEFGHIJKLMNOPQRSTUVWXYZabcdefghijklmnopqrstuvwxyz0123456789+/''"

definition b64_char :: "nat \<Rightarrow> char" where
  "b64_char n = b64_alphabet ! n"

fun find_pos :: "'a \<Rightarrow> 'a list \<Rightarrow> nat option" where
  "find_pos x [] = None"
| "find_pos x (y # ys) = (if x = y then Some 0 else map_option Suc (find_pos x ys))"

definition b64_val :: "char \<Rightarrow> nat option" where
  "b64_val c = find_pos c b64_alphabet"

lemma find_pos_Some: "find_pos x xs = Some i \<Longrightarrow> i < length xs \<and> xs ! i = x"
  by (induction xs arbitrary: i) (auto split: if_splits)

lemma find_pos_nth: "distinct xs \<Longrightarrow> i < length xs \<Longrightarrow> find_pos (xs ! i) xs = Some i"
proof (induction xs arbitrary: i)
  case (Cons x xs)
  then show ?case by (cases i) auto
qed simp

lemma b64_alphabet_props [simp]:
  "distinct b64_alphabet" "length b64_alphabet = 64" "CHR ''='' \<notin> set b64_alphabet"
  by (simp_all add: b64_alphabet_def)

lemma b64_val_char [simp]: "n < 64 \<Longrightarrow> b64_val (b64_char n) = Some n"
  unfolding b64_val_def b64_char_def by (rule find_pos_nth) simp_all

lemma b64_char_in: "n < 64 \<Longrightarrow> b64_char n \<in> set b64_alphabet"
  unfolding b64_char_def by (metis b64_alphabet_props(2) nth_mem)

subsection \<open>btoa and atob\<close>

text \<open>Three bytes make four characters; one or two trailing bytes are padded.\<close>

fun b64_encode :: "nat list \<Rightarrow> string" where
  "b64_encode [] = []"
| "b64_encode [a] = [b64_char (a div 4), b64_char (a mod 4 * 16), CHR ''='', CHR ''='']"
| "b64_encode [a, b] =
     [b64_char (a div 4), b64_char (a mod 4 * 16 + b div 16), b64_char (b mod 16 * 4), CHR ''='']"
| "b64_encode (a # b # c # rest) =
     b64_char (a div 4) # b64_char (a mod 4 * 16 + b div 16)
     # b64_char (b mod 16 * 4 + c div 64) # b64_char (c mod 64) # b64_encode rest"

text \<open>
  Four sextets make three bytes; two left-over sextets make one byte (four bits dropped),
  three make two bytes (two bits dropped). One left-over sextet is refused before.
\<close>

fun b64_decode :: "nat list \<Rightarrow> nat list" where
  "b64_decode (a # b # c # d # rest) =
     (a * 4 + b div 16) # (b mod 16 * 16 + c div 4) # (c mod 4 * 64 + d) # b64_decode rest"
| "b64_decode [a, b, c] = [a * 4 + b div 16, b mod 16 * 16 + c div 4]"
| "b64_decode [a, b] = [a * 4 + b div 16]"
| "b64_decode _ = []"

definition btoa :: "string \<Rightarrow> string" where
  "btoa s = b64_encode (map of_char s)"

definition ascii_whitespace :: "char \<Rightarrow> bool" where
  "ascii_whitespace c = (of_char c \<in> {9, 10, 12, 13, 32 :: nat})"

definition strip_padding :: "string \<Rightarrow> string" where
  "strip_padding d =
     (if length d mod 4 = 0 then
        (if d \<noteq> [] \<and> last d = CHR ''='' then
           (let d1 = butlast d
            in if d1 \<noteq> [] \<and> last d1 = CHR ''='' then butlast d1 else d1)
         else d)
      else d)"

definition atob :: "string \<Rightarrow> js_error + string" where
  "atob s =
     (let d = strip_padding (filter (\<lambda>c. \<not> ascii_whitespace c) s)
      in if length d mod 4 = 1 \<or> (\<exists>c \<in> set d. b64_val c = None) then Inl InvalidCharacterError
         else Inr (map char_of (b64_decode (map (the \<circ> b64_val) d))))"

subsection \<open>toBase64 and fromBase64\<close>

definition toBase64 :: "bytes \<Rightarrow> string" where
  "toBase64 bs = btoa (map (\<lambda>b. char_of (unat b)) bs)"

definition fromBase64 :: "string \<Rightarrow> js_error + bytes" where
  "fromBase64 b64 = bindE (atob b64) (\<lambda>binary. Inr (map (\<lambda>c. word_of_nat (of_char c)) binary))"


subsection \<open>Round trip\<close>

text \<open>
  The encoder's output splits into the sextets and the padding, which
  \<^const>\<open>strip_padding\<close> removes again.
\<close>

fun b64_sextets :: "nat list \<Rightarrow> nat list" where
  "b64_sextets [] = []"
| "b64_sextets [a] = [a div 4, a mod 4 * 16]"
| "b64_sextets [a, b] = [a div 4, a mod 4 * 16 + b div 16, b mod 16 * 4]"
| "b64_sextets (a # b # c # rest) =
     (a div 4) # (a mod 4 * 16 + b div 16) # (b mod 16 * 4 + c div 64) # (c mod 64)
     # b64_sextets rest"

lemma b64_encode_split:
  "b64_encode ns = map b64_char (b64_sextets ns)
     @ replicate ((3 - length ns mod 3) mod 3) (CHR ''='')"
  by (induction ns rule: b64_encode.induct) (simp_all add: numeral_2_eq_2 mod_Suc)

lemma length_b64_sextets:
  "length (b64_sextets ns) mod 4 = (if length ns mod 3 = 0 then 0 else length ns mod 3 + 1)"
  by (induction ns rule: b64_sextets.induct) (auto simp: mod_Suc)

lemma b64_sextets_bound: "\<forall>n \<in> set ns. n < 256 \<Longrightarrow> \<forall>s \<in> set (b64_sextets ns). s < 64"
  by (induction ns rule: b64_sextets.induct) (auto simp: less_mult_imp_div_less)

lemma sextets_to_byte1: "b < 256 \<Longrightarrow> a div 4 * 4 + (a mod 4 * 16 + b div 16) div 16 = (a :: nat)"
  by (simp add: less_mult_imp_div_less)

lemma sextets_to_byte2:
  "b < 256 \<Longrightarrow> c < 256 \<Longrightarrow>
   (a mod 4 * 16 + b div 16) mod 16 * 16 + (b mod 16 * 4 + c div 64) div 4 = (b :: nat)"
proof -
  assume "b < 256" "c < 256"
  then have "b div 16 < 16" "c div 64 < 4" by (simp_all add: less_mult_imp_div_less)
  then show ?thesis by simp
qed

lemma sextets_to_byte3:
  "c < 256 \<Longrightarrow> (b mod 16 * 4 + c div 64) mod 4 * 64 + c mod 64 = (c :: nat)"
proof -
  assume "c < 256"
  then have "c div 64 < 4" by (simp add: less_mult_imp_div_less)
  then have "(b mod 16 * 4 + c div 64) mod 4 = c div 64" by (simp add: mod_mult_self3)
  then show ?thesis by simp
qed

lemma b64_decode_sextets: "\<forall>n \<in> set ns. n < 256 \<Longrightarrow> b64_decode (b64_sextets ns) = ns"
proof (induction ns rule: b64_sextets.induct)
  case (2 a)
  then show ?case by simp
next
  case (3 a b)
  then show ?case
    using sextets_to_byte1 [of b a] sextets_to_byte2 [of b 0 a] by simp
next
  case (4 a b c rest)
  then show ?case
    using sextets_to_byte1 [of b a] sextets_to_byte2 [of b c a] sextets_to_byte3 [of c b] by simp
qed simp

lemma b64_chars_in: "\<forall>n \<in> set ss. n < 64 \<Longrightarrow> set (map b64_char ss) \<subseteq> set b64_alphabet"
  using b64_char_in by auto

lemma strip_padding_encode:
  assumes "\<forall>n \<in> set ns. n < 256"
  shows "strip_padding (b64_encode ns) = map b64_char (b64_sextets ns)"
proof -
  let ?body = "map b64_char (b64_sextets ns)"
  have no_eq: "CHR ''='' \<notin> set ?body"
    using b64_chars_in [OF b64_sextets_bound [OF assms]] b64_alphabet_props(3) by blast
  then have last: "?body \<noteq> [] \<Longrightarrow> last ?body \<noteq> CHR ''=''"
    by (metis last_in_set)
  consider "length ns mod 3 = 0" | "length ns mod 3 = 1" | "length ns mod 3 = 2"
    by linarith
  then show ?thesis
  proof cases
    case 1
    then show ?thesis
      using last length_b64_sextets [of ns] by (auto simp: b64_encode_split strip_padding_def)
  next
    case 2
    then have "length ?body mod 4 = 2"
      using length_b64_sextets [of ns] by simp
    moreover have "b64_encode ns = ?body @ [CHR ''='', CHR ''='']"
      using 2 by (simp add: b64_encode_split numeral_2_eq_2)
    ultimately show ?thesis
      by (auto simp: strip_padding_def butlast_append mod_Suc)
  next
    case 3
    then have "length ?body mod 4 = 3"
      using length_b64_sextets [of ns] by simp
    moreover have "b64_encode ns = ?body @ [CHR ''='']"
      using 3 by (simp add: b64_encode_split)
    ultimately show ?thesis
      using last by (auto simp: strip_padding_def Let_def mod_Suc)
  qed
qed

lemma b64_encode_no_whitespace:
  assumes "\<forall>n \<in> set ns. n < 256"
  shows "filter (\<lambda>c. \<not> ascii_whitespace c) (b64_encode ns) = b64_encode ns"
proof (rule filter_True)
  have ws: "\<forall>c \<in> insert (CHR ''='') (set b64_alphabet). \<not> ascii_whitespace c"
    by (simp add: b64_alphabet_def ascii_whitespace_def)
  have "set (b64_encode ns) \<subseteq> insert (CHR ''='') (set b64_alphabet)"
    using b64_chars_in [OF b64_sextets_bound [OF assms]] by (auto simp: b64_encode_split)
  with ws show "\<forall>c \<in> set (b64_encode ns). \<not> ascii_whitespace c" by blast
qed

lemma atob_encode:
  assumes "\<forall>n \<in> set ns. n < 256"
  shows "atob (b64_encode ns) = Inr (map char_of ns)"
proof -
  let ?ss = "b64_sextets ns"
  have bound: "\<forall>s \<in> set ?ss. s < 64" by (rule b64_sextets_bound [OF assms])
  then have vals: "map (the \<circ> b64_val) (map b64_char ?ss) = ?ss"
    by (auto intro: map_idI)
  have "length ?ss mod 4 \<noteq> 1"
    using length_b64_sextets [of ns] by auto
  moreover have "\<forall>c \<in> set (map b64_char ?ss). b64_val c \<noteq> None"
    using bound by auto
  ultimately show ?thesis
    using vals b64_decode_sextets [OF assms]
    by (simp add: atob_def b64_encode_no_whitespace [OF assms] strip_padding_encode [OF assms]
        del: map_map)
qed

lemma atob_btoa: "atob (btoa s) = Inr s"
  unfolding btoa_def by (subst atob_encode) (auto simp: o_def)

lemma base64_roundtrip: "fromBase64 (toBase64 bs) = Inr bs"
proof -
  have "word_of_nat (of_char (char_of (unat b) :: char)) = b" for b :: "8 word"
    using unsigned_less [of b, where 'a = nat] by (simp add: take_bit_nat_eq_self)
  then show ?thesis
    by (simp add: fromBase64_def toBase64_def atob_btoa o_def)
qed

text \<open>The encoded length, which the server's body limits are stated in.\<close>

lemma length_toBase64: "length (toBase64 bs) = 4 * ((length bs + 2) div 3)"
proof -
  have "length (b64_encode ns) = 4 * ((length ns + 2) div 3)" for ns
    by (induction ns rule: b64_encode.induct) (simp_all add: algebra_simps, presburger)
  then show ?thesis by (simp add: toBase64_def btoa_def)
qed

subsection \<open>Property\<close>

text \<open>
  Every byte array survives the text encoding of the wire format:
  \<^verbatim>\<open>fromBase64(toBase64(bytes))\<close> never throws and returns exactly \<^verbatim>\<open>bytes\<close>.
\<close>

theorem fromBase64_toBase64: "fromBase64 (toBase64 bs) = Inr bs"
  by (rule base64_roundtrip)

end
