(* ===== verification/Crypto.thy ===== *)
theory Crypto
  imports Base64
begin

text \<open>
  extension/src/crypto: \<^verbatim>\<open>encrypt\<close>/\<^verbatim>\<open>decrypt\<close> (aes.ts) and
  \<^verbatim>\<open>deriveKeys\<close> (kdf.ts), and the two places of popup/index.tsx that re-wrap and
  unwrap the Protected Symmetric Key.
  WebCrypto's AES-GCM and HKDF and the Argon2id of @noble/hashes are not code of the
  repository: they are the fields of a record \<^verbatim>\<open>webcrypto\<close>, and what the code relies
  on (a GCM ciphertext opens under the key and IV that made it, importing a raw key fails on
  other lengths than 16, 24 and 32 bytes) is the predicate \<^verbatim>\<open>gcm_roundtrip\<close> and the
  definition \<^verbatim>\<open>importKey\<close>. A \<^verbatim>\<open>CryptoKey\<close> is its raw bytes.
\<close>

record webcrypto =
  gcm_encrypt :: "bytes \<Rightarrow> bytes \<Rightarrow> bytes \<Rightarrow> bytes"
  gcm_decrypt :: "bytes \<Rightarrow> bytes \<Rightarrow> bytes \<Rightarrow> bytes option"
  hkdf_sha256 :: "bytes \<Rightarrow> bytes \<Rightarrow> string \<Rightarrow> bytes"
  argon2id :: "string \<Rightarrow> string \<Rightarrow> bytes"

text \<open>
  The documented behaviour of AES-GCM the code relies on: decrypting what was encrypted
  under the same key and IV gives the plaintext back.
\<close>

definition gcm_roundtrip :: "webcrypto \<Rightarrow> bool" where
  "gcm_roundtrip W \<longleftrightarrow> (\<forall>key iv pt. gcm_decrypt W key iv (gcm_encrypt W key iv pt) = Some pt)"

text \<open>
  GCM authenticates: a ciphertext made under one key opens under no other. (Stated for the
  parameter, as an idealisation of the authentication tag.)
\<close>

definition gcm_authentic :: "webcrypto \<Rightarrow> bool" where
  "gcm_authentic W \<longleftrightarrow>
     (\<forall>key key' iv pt. key' \<noteq> key \<longrightarrow> gcm_decrypt W key' iv (gcm_encrypt W key iv pt) = None)"

text \<open>\<^verbatim>\<open>crypto.subtle.importKey("raw", bytes, AES-GCM)\<close>: AES keys have three lengths.\<close>

definition importKey :: "bytes \<Rightarrow> js_error + bytes" where
  "importKey raw = (if length raw \<in> {16, 24, 32} then Inr raw else Inl DataError)"

subsection \<open>aes.ts\<close>

text \<open>
  Wire format: 12-byte IV, then ciphertext and tag, in base64. The random IV is an argument
  (\<^verbatim>\<open>crypto.getRandomValues(new Uint8Array(12))\<close>).
\<close>

definition encrypt :: "webcrypto \<Rightarrow> bytes \<Rightarrow> bytes \<Rightarrow> bytes \<Rightarrow> string" where
  "encrypt W iv key plaintext = toBase64 (iv @ gcm_encrypt W key iv plaintext)"

definition decrypt :: "webcrypto \<Rightarrow> bytes \<Rightarrow> string \<Rightarrow> js_error + bytes" where
  "decrypt W key blob =
     bindE (fromBase64 blob) (\<lambda>data.
       (case gcm_decrypt W key (take 12 data) (drop 12 data) of
          None \<Rightarrow> Inl OperationError
        | Some plaintext \<Rightarrow> Inr plaintext))"

lemma decrypt_encrypt_key:
  assumes "length iv = 12"
  shows "decrypt W key' (encrypt W iv key pt) =
    (case gcm_decrypt W key' iv (gcm_encrypt W key iv pt) of
       None \<Rightarrow> Inl OperationError | Some p \<Rightarrow> Inr p)"
  using assms by (simp add: decrypt_def encrypt_def base64_roundtrip)

lemma decrypt_encrypt:
  assumes "gcm_roundtrip W" and "length iv = 12"
  shows "decrypt W key (encrypt W iv key pt) = Inr pt"
  using assms by (simp add: decrypt_encrypt_key gcm_roundtrip_def)

lemma decrypt_encrypt_wrong_key:
  assumes "gcm_authentic W" and "length iv = 12" and "key' \<noteq> key"
  shows "decrypt W key' (encrypt W iv key pt) = Inl OperationError"
  using assms by (simp add: decrypt_encrypt_key gcm_authentic_def)

subsection \<open>kdf.ts\<close>

record derived_keys =
  authKey :: string
  wrappingKeyBytes :: bytes

definition toLower :: "char \<Rightarrow> char" where
  "toLower c = (if 65 \<le> (of_char c :: nat) \<and> (of_char c :: nat) \<le> 90 then char_of (of_char c + 32 :: nat) else c)"

definition toLowerCase :: "string \<Rightarrow> string" where
  "toLowerCase s = map toLower s"

definition deriveKeys :: "webcrypto \<Rightarrow> string \<Rightarrow> string \<Rightarrow> derived_keys" where
  "deriveKeys W masterPassword email =
     (let masterKeyBytes = argon2id W masterPassword (toLowerCase email @ '':bsync-salt-v1'');
          authKeyBits = hkdf_sha256 W masterKeyBytes (replicate 32 0) ''bsync-auth-v1'';
          wrappingKeyBits = hkdf_sha256 W masterKeyBytes (replicate 32 0) ''bsync-wrapping-v1''
      in \<lparr>authKey = btoa (map (\<lambda>b. char_of (unat b)) authKeyBits),
          wrappingKeyBytes = wrappingKeyBits\<rparr>)"

lemma toLower_idem [simp]: "toLower (toLower c) = toLower c"
proof -
  have "(of_char (char_of n :: char) :: nat) = n" if "n < 256" for n :: nat
    using that by (simp add: take_bit_nat_eq_self)
  then show ?thesis by (auto simp: toLower_def)
qed

text \<open>
  The keys depend on the e-mail address only up to the case of its letters, so the keys a
  client derives agree with the lower-cased address the server stores.
\<close>

lemma deriveKeys_toLowerCase: "deriveKeys W pw (toLowerCase email) = deriveKeys W pw email"
  by (simp add: deriveKeys_def toLowerCase_def Let_def o_def)

subsection \<open>The Protected Symmetric Key (popup/index.tsx)\<close>

text \<open>
  \<^verbatim>\<open>unlock\<close>: derive the wrapping key from the typed password, read the PSK from local
  storage and open it. The key handed to the background is the decrypted symmetric key.
\<close>

definition unlockKey :: "webcrypto \<Rightarrow> string \<Rightarrow> string \<Rightarrow> string option \<Rightarrow> js_error + bytes" where
  "unlockKey W password email stored =
     (if \<not> truthy stored then Inl (JsError ''No protected key found - please sign in again.'')
      else bindE (importKey (wrappingKeyBytes (deriveKeys W password email))) (\<lambda>wrappingKey.
        (case decrypt W wrappingKey (the stored) of
           Inl _ \<Rightarrow> Inl (JsError ''Incorrect password.'')
         | Inr symmetricKeyBytes \<Rightarrow> Inr symmetricKeyBytes)))"

record change_password_message =
  cp_oldAuthKey :: string
  cp_newAuthKey :: string
  cp_newPsk :: string

text \<open>
  \<^verbatim>\<open>changePassword\<close> up to the message it sends: the two guards, both key derivations,
  opening the PSK with the old wrapping key and sealing it under the new one.
\<close>

definition changePassword ::
  "webcrypto \<Rightarrow> bytes \<Rightarrow> string \<Rightarrow> string \<Rightarrow> string \<Rightarrow> string \<Rightarrow> string option
     \<Rightarrow> js_error + change_password_message" where
  "changePassword W iv currentPassword newPassword confirmPassword email stored =
     (if newPassword \<noteq> confirmPassword then Inl (JsError ''New passwords do not match.'')
      else if length newPassword < 1 then Inl (JsError ''New password cannot be empty.'')
      else
        (let oldKeys = deriveKeys W currentPassword email;
             newKeys = deriveKeys W newPassword email
         in if \<not> truthy stored then Inl (JsError ''No protected key found - please sign in again.'')
            else bindE (importKey (wrappingKeyBytes oldKeys)) (\<lambda>oldWrappingKey.
              (case decrypt W oldWrappingKey (the stored) of
                 Inl _ \<Rightarrow> Inl (JsError ''Current password is incorrect.'')
               | Inr symmetricKeyBytes \<Rightarrow>
                   bindE (importKey (wrappingKeyBytes newKeys)) (\<lambda>newWrappingKey.
                     Inr \<lparr>cp_oldAuthKey = authKey oldKeys, cp_newAuthKey = authKey newKeys,
                          cp_newPsk = encrypt W iv newWrappingKey symmetricKeyBytes\<rparr>)))))"

lemma encrypt_nonempty: "encrypt W iv key pt = [] \<longleftrightarrow> iv @ gcm_encrypt W key iv pt = []"
proof -
  have "4 * ((n + 2) div 3) = 0 \<longleftrightarrow> n = 0" for n :: nat by presburger
  then show ?thesis
    unfolding encrypt_def by (metis length_0_conv length_toBase64)
qed

lemma changePassword_InrE:
  assumes "changePassword W iv old new new2 email stored = Inr m"
  obtains k where
    "new2 = new" "new \<noteq> []" "truthy stored"
    "unlockKey W old email stored = Inr k"
    "importKey (wrappingKeyBytes (deriveKeys W new email)) =
       Inr (wrappingKeyBytes (deriveKeys W new email))"
    "cp_oldAuthKey m = authKey (deriveKeys W old email)"
    "cp_newAuthKey m = authKey (deriveKeys W new email)"
    "cp_newPsk m = encrypt W iv (wrappingKeyBytes (deriveKeys W new email)) k"
  using assms
  by (auto simp: changePassword_def unlockKey_def Let_def bindE_Inr_iff importKey_def
      split: if_splits sum.splits)

subsection \<open>An instance for the witnesses\<close>

text \<open>
  A cipher that satisfies both hypotheses: a self-delimiting copy of the key in front of the
  plaintext (each key byte behind a 1, a 0 at the end), so that no other key matches.
\<close>

fun delimit :: "bytes \<Rightarrow> bytes" where
  "delimit [] = [0]"
| "delimit (b # bs) = 1 # b # delimit bs"

fun undelimit :: "bytes \<Rightarrow> bytes \<Rightarrow> bytes option" where
  "undelimit [] (x # rest) = (if x = 0 then Some rest else None)"
| "undelimit (b # bs) (x # y # rest) = (if x = 1 \<and> y = b then undelimit bs rest else None)"
| "undelimit _ _ = None"

definition example_webcrypto :: webcrypto where
  "example_webcrypto =
     \<lparr>gcm_encrypt = (\<lambda>key iv pt. delimit key @ pt),
      gcm_decrypt = (\<lambda>key iv ct. undelimit key ct),
      hkdf_sha256 = (\<lambda>mk salt info. take 32 (mk @ replicate 32 0)),
      argon2id = (\<lambda>pw salt. map (\<lambda>c. word_of_nat (of_char c)) pw)\<rparr>"

lemma undelimit_delimit: "undelimit key (delimit key @ pt) = Some pt"
  by (induction key) auto

lemma undelimit_other: "key' \<noteq> key \<Longrightarrow> undelimit key' (delimit key @ pt) = None"
proof (induction key arbitrary: key')
  case Nil
  then show ?case by (cases key'; cases pt) auto
next
  case (Cons b key)
  then show ?case by (cases key') auto
qed

lemma example_webcrypto_ok: "gcm_roundtrip example_webcrypto" "gcm_authentic example_webcrypto"
  by (simp_all add: gcm_roundtrip_def gcm_authentic_def example_webcrypto_def undelimit_delimit
      undelimit_other)

subsection \<open>Properties\<close>

text \<open>
  A delta, snapshot or key sealed by \<^verbatim>\<open>encrypt\<close> is opened by \<^verbatim>\<open>decrypt\<close> with
  the same key, whatever the 12-byte IV and the plaintext, and any other key makes
  \<^verbatim>\<open>decrypt\<close> throw an OperationError (given the round trip and the authenticity of GCM).
\<close>

theorem encrypt_decrypt:
  assumes "gcm_roundtrip W" and "gcm_authentic W" and "length iv = 12"
  shows "decrypt W key' (encrypt W iv key pt) = (if key' = key then Inr pt else Inl OperationError)"
  using assms by (simp add: decrypt_encrypt decrypt_encrypt_wrong_key)

theorem encrypt_decrypt_witness:
  "decrypt example_webcrypto [1, 2] (encrypt example_webcrypto (replicate 12 7) [1, 2] [9, 8]) = Inr [9, 8]
   \<and> decrypt example_webcrypto [1] (encrypt example_webcrypto (replicate 12 7) [1, 2] [9, 8]) = Inl OperationError"
  using encrypt_decrypt [OF example_webcrypto_ok, of "replicate 12 7" "[1, 2]" "[1, 2]" "[9, 8]"]
    encrypt_decrypt [OF example_webcrypto_ok, of "replicate 12 7" "[1]" "[1, 2]" "[9, 8]"]
  by simp

text \<open>
  Changing the master password never changes the data key: when the popup's
  \<^verbatim>\<open>changePassword\<close> succeeds, unlocking with the new password against the new PSK gives
  exactly the symmetric key the old password opened, and, where the two passwords derive
  different wrapping keys, the old password is answered ``Incorrect password.''.
\<close>

theorem changePassword_keeps_key:
  assumes gcm: "gcm_roundtrip W" "gcm_authentic W" and iv: "length iv = 12"
    and change: "changePassword W iv old new confirm email stored = Inr m"
  shows "unlockKey W new email (Some (cp_newPsk m)) = unlockKey W old email stored
    \<and> (\<exists>k. unlockKey W old email stored = Inr k)
    \<and> (wrappingKeyBytes (deriveKeys W old email) \<noteq> wrappingKeyBytes (deriveKeys W new email) \<longrightarrow>
         unlockKey W old email (Some (cp_newPsk m)) = Inl (JsError ''Incorrect password.''))"
proof -
  let ?wo = "wrappingKeyBytes (deriveKeys W old email)"
  let ?wn = "wrappingKeyBytes (deriveKeys W new email)"
  from change obtain k where k: "unlockKey W old email stored = Inr k"
    and imp: "importKey ?wn = Inr ?wn"
    and psk: "cp_newPsk m = encrypt W iv ?wn k"
    by (rule changePassword_InrE)
  have old_imp: "importKey ?wo = Inr ?wo"
    using k by (auto simp: unlockKey_def bindE_Inr_iff importKey_def split: if_splits)
  have "iv \<noteq> []" using iv by auto
  then have nonempty: "truthy (Some (cp_newPsk m))"
    by (simp add: psk encrypt_nonempty)
  have "unlockKey W new email (Some (cp_newPsk m)) = Inr k"
    using nonempty imp by (simp add: unlockKey_def psk decrypt_encrypt [OF gcm(1) iv])
  moreover have "unlockKey W old email (Some (cp_newPsk m)) = Inl (JsError ''Incorrect password.'')"
    if "?wo \<noteq> ?wn"
    using nonempty old_imp that
    by (simp add: unlockKey_def psk decrypt_encrypt_wrong_key [OF gcm(2) iv])
  ultimately show ?thesis using k by simp
qed

text \<open>A password changed from ``old'' to ``new'', over a data key of two bytes.\<close>

definition example_psk :: string where
  "example_psk = encrypt example_webcrypto (replicate 12 7)
     (wrappingKeyBytes (deriveKeys example_webcrypto ''old'' ''A@b.c'')) [5, 6]"

lemma example_password:
  "unlockKey example_webcrypto ''old'' ''A@b.c'' (Some example_psk) = Inr [5, 6]"
  "wrappingKeyBytes (deriveKeys example_webcrypto ''old'' ''A@b.c'') \<noteq> wrappingKeyBytes (deriveKeys example_webcrypto ''new'' ''A@b.c'')"
  "\<exists>m. changePassword example_webcrypto (replicate 12 7) ''old'' ''new'' ''new'' ''A@b.c'' (Some example_psk) = Inr m"
proof -
  let ?W = example_webcrypto and ?iv = "replicate 12 7"
  let ?wk = "\<lambda>pw. wrappingKeyBytes (deriveKeys ?W pw ''A@b.c'')"
  have wk: "?wk ''old'' = [111, 108, 100] @ replicate 29 0" "?wk ''new'' = [110, 101, 119] @ replicate 29 0"
    by (simp_all add: deriveKeys_def example_webcrypto_def Let_def numeral_eq_Suc)
  then have imp: "importKey (?wk ''old'') = Inr (?wk ''old'')" "importKey (?wk ''new'') = Inr (?wk ''new'')"
    by (simp_all add: importKey_def)
  from wk show "?wk ''old'' \<noteq> ?wk ''new''" by simp
  show "unlockKey ?W ''old'' ''A@b.c'' (Some example_psk) = Inr [5, 6]"
    by (simp add: example_psk_def unlockKey_def encrypt_nonempty imp decrypt_encrypt [OF example_webcrypto_ok(1)])
  show "\<exists>m. changePassword ?W ?iv ''old'' ''new'' ''new'' ''A@b.c'' (Some example_psk) = Inr m"
    by (simp add: example_psk_def changePassword_def Let_def encrypt_nonempty imp decrypt_encrypt [OF example_webcrypto_ok(1)])
qed

end
