(* ===== verification/Session.thy ===== *)
theory Session
  imports Types Crypto
begin

text \<open>
  extension/src/auth/session.ts: the in-memory session, the session-timeout setting and their
  copies in \<^verbatim>\<open>chrome.storage.local\<close> (survives a browser restart) and
  \<^verbatim>\<open>chrome.storage.session\<close> (cleared when the browser closes). Every accessor and mutator
  is a function on one state; \<^verbatim>\<open>chrome.storage\<close> writes take effect in the order they are
  issued. Losing the service worker and restarting the browser are steps of the environment.
  The lemmas say where copies of the encryption key can be: \<^verbatim>\<open>key_custody\<close> is an invariant
  of every operation, \<^verbatim>\<open>mirrored\<close> of every operation after a restore.
\<close>

subsection \<open>State\<close>

record session =
  jwt :: string
  email :: string
  encryptionKey :: "bytes option"
  encryptionKeyRaw :: "bytes option"
  protectedSymmetricKey :: string
  userId :: string
  profiles :: "profileInfo list"
  activeProfileId :: string

record local_store =
  ls_jwt :: "string option"
  ls_email :: "string option"
  ls_profiles :: "profileInfo list option"
  ls_activeProfileId :: "string option"
  ls_protectedSymmetricKey :: "string option"
  ls_sessionTimeout :: "sessionTimeout option"
  ls_encryptionKeyRaw :: "bytes option"

text \<open>The background also parks an unresolved import conflict in session storage.\<close>

record session_store =
  ss_encryptionKeyRaw :: "bytes option"
  ss_pendingImport :: "(string \<times> importDiff) option"

record auth =
  sess :: "session option"
  timeout :: sessionTimeout
  lstore :: local_store
  sstore :: session_store

definition emptyLocal :: local_store where
  "emptyLocal = \<lparr>ls_jwt = None, ls_email = None, ls_profiles = None, ls_activeProfileId = None,
     ls_protectedSymmetricKey = None, ls_sessionTimeout = None, ls_encryptionKeyRaw = None\<rparr>"

definition emptySession :: session_store where
  "emptySession = \<lparr>ss_encryptionKeyRaw = None, ss_pendingImport = None\<rparr>"

text \<open>A fresh install: \<^verbatim>\<open>_session = null\<close>, \<^verbatim>\<open>_sessionTimeout = "on_restart"\<close>.\<close>

definition freshAuth :: auth where
  "freshAuth = \<lparr>sess = None, timeout = OnRestart, lstore = emptyLocal, sstore = emptySession\<rparr>"

definition notLoggedIn :: js_error where
  "notLoggedIn = JsError ''Not logged in''"

subsection \<open>Mutators\<close>

definition setSessionTimeout :: "sessionTimeout \<Rightarrow> auth \<Rightarrow> auth" where
  "setSessionTimeout value a =
     (let ls = (lstore a)\<lparr>ls_sessionTimeout := Some value\<rparr>;
          raw = (case sess a of None \<Rightarrow> None | Some s \<Rightarrow> encryptionKeyRaw s)
      in a\<lparr>timeout := value,
           lstore := (if value = Never \<and> raw \<noteq> None then ls\<lparr>ls_encryptionKeyRaw := raw\<rparr>
                      else if value = OnRestart then ls\<lparr>ls_encryptionKeyRaw := None\<rparr>
                      else ls)\<rparr>)"

text \<open>\<^verbatim>\<open>setSession\<close> takes a session whose two key fields are present.\<close>

definition setSession ::
  "string \<Rightarrow> string \<Rightarrow> bytes \<Rightarrow> bytes \<Rightarrow> string \<Rightarrow> string \<Rightarrow> profileInfo list \<Rightarrow> string \<Rightarrow> auth \<Rightarrow> auth" where
  "setSession token mail key raw psk uid profs active a =
     a\<lparr>sess := Some \<lparr>jwt = token, email = mail, encryptionKey = Some key, encryptionKeyRaw = Some raw,
          protectedSymmetricKey = psk, userId = uid, profiles = profs, activeProfileId = active\<rparr>,
       lstore := (let ls = (lstore a)\<lparr>ls_jwt := Some token, ls_email := Some mail, ls_profiles := Some profs,
                        ls_activeProfileId := Some active, ls_protectedSymmetricKey := Some psk\<rparr>
                  in if timeout a = Never then ls\<lparr>ls_encryptionKeyRaw := Some raw\<rparr> else ls),
       sstore := (sstore a)\<lparr>ss_encryptionKeyRaw := Some raw\<rparr>\<rparr>"

definition clearSession :: "auth \<Rightarrow> auth" where
  "clearSession a =
     a\<lparr>sess := None, sstore := emptySession,
       lstore := (lstore a)\<lparr>ls_jwt := None, ls_email := None, ls_profiles := None,
         ls_activeProfileId := None, ls_protectedSymmetricKey := None, ls_encryptionKeyRaw := None\<rparr>\<rparr>"

definition updateProtectedSymmetricKey :: "string \<Rightarrow> (auth, unit) act" where
  "updateProtectedSymmetricKey psk a =
     (case sess a of None \<Rightarrow> (Inl notLoggedIn, a)
      | Some s \<Rightarrow> (Inr (), a\<lparr>sess := Some (s\<lparr>protectedSymmetricKey := psk\<rparr>),
          lstore := (lstore a)\<lparr>ls_protectedSymmetricKey := Some psk\<rparr>\<rparr>))"

definition updateJwt :: "string \<Rightarrow> (auth, unit) act" where
  "updateJwt token a =
     (case sess a of None \<Rightarrow> (Inl notLoggedIn, a)
      | Some s \<Rightarrow> (Inr (), a\<lparr>sess := Some (s\<lparr>jwt := token\<rparr>),
          lstore := (lstore a)\<lparr>ls_jwt := Some token\<rparr>\<rparr>))"

definition lockSession :: "auth \<Rightarrow> auth" where
  "lockSession a =
     (case sess a of None \<Rightarrow> a
      | Some s \<Rightarrow> a\<lparr>sess := Some (s\<lparr>encryptionKey := None, encryptionKeyRaw := None\<rparr>),
          sstore := (sstore a)\<lparr>ss_encryptionKeyRaw := None\<rparr>,
          lstore := (lstore a)\<lparr>ls_encryptionKeyRaw := None\<rparr>\<rparr>)"

definition setEncryptionKey :: "bytes \<Rightarrow> bytes \<Rightarrow> (auth, unit) act" where
  "setEncryptionKey key raw a =
     (case sess a of None \<Rightarrow> (Inl (JsError ''No session to unlock''), a)
      | Some s \<Rightarrow> (Inr (), a\<lparr>sess := Some (s\<lparr>encryptionKey := Some key, encryptionKeyRaw := Some raw\<rparr>),
          sstore := (sstore a)\<lparr>ss_encryptionKeyRaw := Some raw\<rparr>,
          lstore := (if timeout a = Never then (lstore a)\<lparr>ls_encryptionKeyRaw := Some raw\<rparr> else lstore a)\<rparr>))"

text \<open>
  \<^verbatim>\<open>restoreFromSessionStorage\<close>: the setting is loaded first, the session only when all
  five items are truthy; the key comes from session storage, or from local storage when the
  setting is ``never'', and a key that cannot be imported is dropped.
\<close>

definition restoreFromSessionStorage :: "auth \<Rightarrow> bool \<times> auth" where
  "restoreFromSessionStorage a =
     (let ls = lstore a;
          t = orElse (ls_sessionTimeout ls) OnRestart;
          a1 = a\<lparr>timeout := t\<rparr>
      in if \<not> truthy (ls_jwt ls) \<or> \<not> truthy (ls_email ls) \<or> ls_profiles ls = None
            \<or> \<not> truthy (ls_activeProfileId ls) \<or> \<not> truthy (ls_protectedSymmetricKey ls)
         then (False, a1)
         else
           (let keyNumbers = (case ss_encryptionKeyRaw (sstore a) of Some k \<Rightarrow> Some k
                              | None \<Rightarrow> if t = Never then ls_encryptionKeyRaw ls else None);
                key = (case keyNumbers of None \<Rightarrow> None
                       | Some b \<Rightarrow> (case importKey b of Inr k \<Rightarrow> Some k | Inl _ \<Rightarrow> None));
                a2 = (if keyNumbers \<noteq> None \<and> key = None
                      then a1\<lparr>sstore := (sstore a)\<lparr>ss_encryptionKeyRaw := None\<rparr>,
                              lstore := (if t = Never then ls\<lparr>ls_encryptionKeyRaw := None\<rparr> else ls)\<rparr>
                      else a1)
            in (True, a2\<lparr>sess := Some \<lparr>jwt = the (ls_jwt ls), email = the (ls_email ls),
                  encryptionKey = key, encryptionKeyRaw = key,
                  protectedSymmetricKey = the (ls_protectedSymmetricKey ls), userId = [],
                  profiles = the (ls_profiles ls), activeProfileId = the (ls_activeProfileId ls)\<rparr>\<rparr>)))"

subsection \<open>Accessors\<close>

definition isLoggedIn :: "auth \<Rightarrow> bool" where
  "isLoggedIn a = (sess a \<noteq> None)"

definition isLocked :: "auth \<Rightarrow> bool" where
  "isLocked a = (case sess a of None \<Rightarrow> False | Some s \<Rightarrow> encryptionKey s = None)"

definition getEmail :: "auth \<Rightarrow> string option" where
  "getEmail a = map_option email (sess a)"

definition getJwt :: "auth \<Rightarrow> js_error + string" where
  "getJwt a = (case sess a of None \<Rightarrow> Inl notLoggedIn | Some s \<Rightarrow> Inr (jwt s))"

definition getEncryptionKey :: "auth \<Rightarrow> js_error + bytes" where
  "getEncryptionKey a =
     (case sess a of None \<Rightarrow> Inl notLoggedIn
      | Some s \<Rightarrow> (case encryptionKey s of
          None \<Rightarrow> Inl (JsError ''Session is locked - encryption key not available'')
        | Some k \<Rightarrow> Inr k))"

definition getProtectedSymmetricKey :: "auth \<Rightarrow> js_error + string" where
  "getProtectedSymmetricKey a =
     (case sess a of None \<Rightarrow> Inl notLoggedIn | Some s \<Rightarrow> Inr (protectedSymmetricKey s))"

definition getActiveProfileId :: "auth \<Rightarrow> js_error + string" where
  "getActiveProfileId a = (case sess a of None \<Rightarrow> Inl notLoggedIn | Some s \<Rightarrow> Inr (activeProfileId s))"

definition getProfiles :: "auth \<Rightarrow> profileInfo list" where
  "getProfiles a = (case sess a of None \<Rightarrow> [] | Some s \<Rightarrow> profiles s)"

definition getActiveProfile :: "auth \<Rightarrow> profileInfo option" where
  "getActiveProfile a =
     (case sess a of None \<Rightarrow> None | Some s \<Rightarrow> find (\<lambda>p. pi_id p = activeProfileId s) (profiles s))"

subsection \<open>Profiles\<close>

definition storeProfiles :: "profileInfo list \<Rightarrow> session \<Rightarrow> auth \<Rightarrow> auth" where
  "storeProfiles ps s a =
     a\<lparr>sess := Some (s\<lparr>profiles := ps\<rparr>), lstore := (lstore a)\<lparr>ls_profiles := Some ps\<rparr>\<rparr>"

definition addProfile :: "profileInfo \<Rightarrow> (auth, unit) act" where
  "addProfile p a =
     (case sess a of None \<Rightarrow> (Inl notLoggedIn, a)
      | Some s \<Rightarrow> (Inr (), storeProfiles (profiles s @ [p]) s a))"

definition removeProfile :: "string \<Rightarrow> auth \<Rightarrow> auth" where
  "removeProfile profileId a =
     (case sess a of None \<Rightarrow> a
      | Some s \<Rightarrow> storeProfiles (filter (\<lambda>p. pi_id p \<noteq> profileId) (profiles s)) s a)"

definition updateProfiles :: "profileInfo list \<Rightarrow> auth \<Rightarrow> auth" where
  "updateProfiles ps a = (case sess a of None \<Rightarrow> a | Some s \<Rightarrow> storeProfiles ps s a)"

definition switchProfile :: "string \<Rightarrow> (auth, unit) act" where
  "switchProfile profileId a =
     (case sess a of None \<Rightarrow> (Inl notLoggedIn, a)
      | Some s \<Rightarrow>
          if find (\<lambda>p. pi_id p = profileId) (profiles s) = None
          then (Inl (JsError ''Profile not found''), a)
          else (Inr (), a\<lparr>sess := Some (s\<lparr>activeProfileId := profileId\<rparr>),
                  lstore := (lstore a)\<lparr>ls_activeProfileId := Some profileId\<rparr>\<rparr>))"


subsection \<open>Steps\<close>

text \<open>The environment: the service worker is unloaded, or the whole browser closes.\<close>

definition swRestart :: "auth \<Rightarrow> auth" where
  "swRestart a = a\<lparr>sess := None, timeout := OnRestart\<rparr>"

definition browserRestart :: "auth \<Rightarrow> auth" where
  "browserRestart a = (swRestart a)\<lparr>sstore := emptySession\<rparr>"

text \<open>
  The operations as the code calls them: the key handed to \<^verbatim>\<open>setSession\<close> and
  \<^verbatim>\<open>setEncryptionKey\<close> is the import of the raw bytes handed over with it.
\<close>

inductive auth_op :: "auth \<Rightarrow> auth \<Rightarrow> bool" where
  op_timeout: "auth_op a (setSessionTimeout t a)"
| op_session: "importKey raw = Inr key \<Longrightarrow> auth_op a (setSession tok em key raw psk uid ps act a)"
| op_clear: "auth_op a (clearSession a)"
| op_psk: "auth_op a (snd (updateProtectedSymmetricKey psk a))"
| op_jwt: "auth_op a (snd (updateJwt tok a))"
| op_lock: "auth_op a (lockSession a)"
| op_unlock: "importKey raw = Inr key \<Longrightarrow> auth_op a (snd (setEncryptionKey key raw a))"
| op_add: "auth_op a (snd (addProfile p a))"
| op_remove: "auth_op a (removeProfile pid a)"
| op_update: "auth_op a (updateProfiles ps a)"
| op_switch: "auth_op a (snd (switchProfile pid a))"
| op_park: "auth_op a (a\<lparr>sstore := (sstore a)\<lparr>ss_pendingImport := parked\<rparr>\<rparr>)"

text \<open>Those that neither open nor lock nor unlock a session; signing out is one of them.\<close>

inductive quiet_op :: "auth \<Rightarrow> auth \<Rightarrow> bool" where
  quiet_timeout: "quiet_op a (setSessionTimeout t a)"
| quiet_clear: "quiet_op a (clearSession a)"
| quiet_psk: "quiet_op a (snd (updateProtectedSymmetricKey psk a))"
| quiet_jwt: "quiet_op a (snd (updateJwt tok a))"
| quiet_add: "quiet_op a (snd (addProfile p a))"
| quiet_remove: "quiet_op a (removeProfile pid a)"
| quiet_update: "quiet_op a (updateProfiles ps a)"
| quiet_switch: "quiet_op a (snd (switchProfile pid a))"
| quiet_park: "quiet_op a (a\<lparr>sstore := (sstore a)\<lparr>ss_pendingImport := parked\<rparr>\<rparr>)"

lemma quiet_is_op: "quiet_op a b \<Longrightarrow> auth_op a b"
  by (induction rule: quiet_op.induct) (rule auth_op.intros)+

inductive auth_step :: "auth \<Rightarrow> auth \<Rightarrow> bool" where
  step_op: "auth_op a b \<Longrightarrow> auth_step a b"
| step_restore: "auth_step a (snd (restoreFromSessionStorage a))"
| step_sw: "auth_step a (swRestart a)"
| step_browser: "auth_step a (browserRestart a)"

inductive auth_reachable :: "auth \<Rightarrow> bool" where
  start: "auth_reachable freshAuth"
| step: "auth_reachable a \<Longrightarrow> auth_step a b \<Longrightarrow> auth_reachable b"

lemmas auth_defs = setSessionTimeout_def setSession_def clearSession_def
  updateProtectedSymmetricKey_def updateJwt_def lockSession_def setEncryptionKey_def
  addProfile_def removeProfile_def updateProfiles_def switchProfile_def storeProfiles_def
  swRestart_def browserRestart_def emptySession_def emptyLocal_def Let_def

text \<open>A quiet operation leaves both flags of the session alone, or ends the session.\<close>

lemma quiet_flags: "quiet_op a b \<Longrightarrow> isLoggedIn b = isLoggedIn a \<and> isLocked b = isLocked a \<or> \<not> isLoggedIn b"
  by (induction rule: quiet_op.induct) (auto simp: auth_defs isLoggedIn_def isLocked_def split: option.splits)

lemma locked_is_logged_in: "isLocked a \<Longrightarrow> isLoggedIn a"
  by (simp add: isLoggedIn_def isLocked_def split: option.splits)

lemma timeout_neq [simp]: "t \<noteq> OnRestart \<longleftrightarrow> t = Never" "t \<noteq> Never \<longleftrightarrow> t = OnRestart"
  by (cases t; simp)+

lemma importKey_Inr [simp]: "importKey raw = Inr key \<longleftrightarrow> key = raw \<and> length raw \<in> {16, 24, 32}"
  by (auto simp: importKey_def)

subsection \<open>Where copies of the key are\<close>

text \<open>
  Local storage holds the key only under the persisted setting ``never''; the two key fields of
  the session agree; a locked session has no copy of the key anywhere.
\<close>

definition key_custody :: "auth \<Rightarrow> bool" where
  "key_custody a \<longleftrightarrow>
     (ls_sessionTimeout (lstore a) \<noteq> Some Never \<longrightarrow>
        ls_encryptionKeyRaw (lstore a) = None \<and> timeout a = OnRestart) \<and>
     (case sess a of None \<Rightarrow> True
      | Some s \<Rightarrow> encryptionKey s = encryptionKeyRaw s \<and>
          (encryptionKey s = None \<longrightarrow>
             ss_encryptionKeyRaw (sstore a) = None \<and> ls_encryptionKeyRaw (lstore a) = None))"

lemma key_custody_op: "auth_op a b \<Longrightarrow> key_custody a \<Longrightarrow> key_custody b"
  by (induction rule: auth_op.induct)
    (auto simp: auth_defs key_custody_def split: option.splits if_splits)

lemma key_custody_restore:
  assumes "key_custody a"
  shows "key_custody (snd (restoreFromSessionStorage a))"
proof (cases "fst (restoreFromSessionStorage a)")
  case True
  with assms show ?thesis
    by (cases "ss_encryptionKeyRaw (sstore a)"; cases "ls_encryptionKeyRaw (lstore a)")
      (auto simp: restoreFromSessionStorage_def key_custody_def orElse_def Let_def
        split: option.splits sum.splits if_splits)
next
  case False
  with assms show ?thesis
    by (auto simp: restoreFromSessionStorage_def key_custody_def orElse_def Let_def
        split: option.splits if_splits)
qed

lemma key_custody_step: "auth_step a b \<Longrightarrow> key_custody a \<Longrightarrow> key_custody b"
proof (induction rule: auth_step.induct)
  case (step_op a b)
  then show ?case by (rule key_custody_op)
next
  case (step_restore a)
  then show ?case by (rule key_custody_restore)
qed (auto simp: auth_defs key_custody_def)

lemma key_custody_reachable: "auth_reachable a \<Longrightarrow> key_custody a"
proof (induction rule: auth_reachable.induct)
  case start
  show ?case by (simp add: key_custody_def freshAuth_def emptyLocal_def)
qed (rule key_custody_step)

subsection \<open>What storage mirrors\<close>

text \<open>
  After a restore, and for as long as the service worker lives, local storage is a copy of the
  session and of the setting; session storage holds the session's key or nothing.
\<close>

definition mirrored :: "auth \<Rightarrow> bool" where
  "mirrored a \<longleftrightarrow>
     timeout a = orElse (ls_sessionTimeout (lstore a)) OnRestart \<and>
     (case sess a of
        None \<Rightarrow> ls_jwt (lstore a) = None \<and> ls_encryptionKeyRaw (lstore a) = None
                  \<and> ss_encryptionKeyRaw (sstore a) = None
      | Some s \<Rightarrow>
          encryptionKey s = encryptionKeyRaw s \<and>
          (\<forall>k. encryptionKey s = Some k \<longrightarrow> length k \<in> {16, 24, 32}) \<and>
          ls_jwt (lstore a) = Some (jwt s) \<and> ls_email (lstore a) = Some (email s) \<and>
          ls_profiles (lstore a) = Some (profiles s) \<and>
          ls_activeProfileId (lstore a) = Some (activeProfileId s) \<and>
          ls_protectedSymmetricKey (lstore a) = Some (protectedSymmetricKey s) \<and>
          ls_encryptionKeyRaw (lstore a) = (if timeout a = Never then encryptionKeyRaw s else None) \<and>
          ss_encryptionKeyRaw (sstore a) \<in> {None, encryptionKeyRaw s})"

text \<open>The server's tokens and ids, the user's e-mail address and a sealed key are not empty.\<close>

definition nonempty_session :: "auth \<Rightarrow> bool" where
  "nonempty_session a =
     (case sess a of None \<Rightarrow> True
      | Some s \<Rightarrow> jwt s \<noteq> [] \<and> email s \<noteq> [] \<and> activeProfileId s \<noteq> [] \<and> protectedSymmetricKey s \<noteq> [])"

lemma mirrored_op: "auth_op a b \<Longrightarrow> mirrored a \<Longrightarrow> key_custody a \<Longrightarrow> mirrored b"
proof (induction rule: auth_op.induct)
  case (op_timeout a t)
  then show ?case
    by (cases "sess a"; cases t) (auto simp: auth_defs mirrored_def key_custody_def)
next
  case (op_session raw key a tok em psk uid ps act)
  then show ?case
    by (auto simp: auth_defs mirrored_def key_custody_def orElse_def split: option.splits)
next
  case (op_unlock raw key a)
  then show ?case by (cases "sess a") (auto simp: auth_defs mirrored_def)
qed (auto simp: auth_defs mirrored_def split: option.splits)

text \<open>
  The lives of a service worker: each begins with a restore, after an install, after the worker
  was unloaded or after the browser was closed, and goes on with operations.
\<close>

inductive auth_life :: "auth \<Rightarrow> bool" where
  install: "auth_life (snd (restoreFromSessionStorage freshAuth))"
| sw_boot: "auth_life a \<Longrightarrow> auth_life (snd (restoreFromSessionStorage (swRestart a)))"
| browser_boot: "auth_life a \<Longrightarrow> auth_life (snd (restoreFromSessionStorage (browserRestart a)))"
| live: "auth_life a \<Longrightarrow> auth_op a b \<Longrightarrow> nonempty_session b \<Longrightarrow> auth_life b"

lemma restore_after_swRestart:
  assumes "mirrored a" "nonempty_session a" "sess a = Some s"
  shows "restoreFromSessionStorage (swRestart a) =
    (True, a\<lparr>timeout := timeout a,
       sess := Some (let k = (if ss_encryptionKeyRaw (sstore a) = None \<and> timeout a = OnRestart
                               then None else encryptionKey s)
                     in s\<lparr>userId := [], encryptionKey := k, encryptionKeyRaw := k\<rparr>)\<rparr>)"
  using assms
  by (cases "timeout a"; cases "encryptionKey s"; cases "ss_encryptionKeyRaw (sstore a)")
    (auto simp: mirrored_def nonempty_session_def auth_defs restoreFromSessionStorage_def orElse_def
      importKey_def split: option.splits)

lemma restore_after_browserRestart:
  assumes "mirrored a" "nonempty_session a" "sess a = Some s"
  shows "restoreFromSessionStorage (browserRestart a) =
    (True, (browserRestart a)\<lparr>timeout := timeout a,
       sess := Some (let k = (if timeout a = Never then encryptionKey s else None)
                     in s\<lparr>userId := [], encryptionKey := k, encryptionKeyRaw := k\<rparr>)\<rparr>)"
  using assms
  by (cases "timeout a"; cases "encryptionKey s")
    (auto simp: mirrored_def nonempty_session_def auth_defs restoreFromSessionStorage_def orElse_def
      importKey_def split: option.splits)

lemma restore_logged_out:
  assumes "mirrored a" "sess a = None"
  shows "snd (restoreFromSessionStorage (swRestart a)) = a"
    and "snd (restoreFromSessionStorage (browserRestart a)) = a\<lparr>sstore := emptySession\<rparr>"
  using assms
  by (auto simp: restoreFromSessionStorage_def mirrored_def swRestart_def browserRestart_def Let_def)

lemma mirrored_boot:
  assumes "mirrored a" "nonempty_session a"
  shows "mirrored (snd (restoreFromSessionStorage (swRestart a)))
       \<and> nonempty_session (snd (restoreFromSessionStorage (swRestart a)))"
    and "mirrored (snd (restoreFromSessionStorage (browserRestart a)))
       \<and> nonempty_session (snd (restoreFromSessionStorage (browserRestart a)))"
proof -
  show "mirrored (snd (restoreFromSessionStorage (swRestart a)))
       \<and> nonempty_session (snd (restoreFromSessionStorage (swRestart a)))"
  proof (cases "sess a")
    case None
    with assms show ?thesis by (simp add: restore_logged_out)
  next
    case (Some s)
    from assms Some show ?thesis
      unfolding restore_after_swRestart [OF assms Some]
      by (cases "timeout a"; cases "ss_encryptionKeyRaw (sstore a)")
        (auto simp: mirrored_def nonempty_session_def Let_def)
  qed
  show "mirrored (snd (restoreFromSessionStorage (browserRestart a)))
       \<and> nonempty_session (snd (restoreFromSessionStorage (browserRestart a)))"
  proof (cases "sess a")
    case None
    with assms show ?thesis
      by (simp add: restore_logged_out mirrored_def nonempty_session_def emptySession_def)
  next
    case (Some s)
    from assms Some show ?thesis
      unfolding restore_after_browserRestart [OF assms Some]
      by (cases "timeout a") (auto simp: mirrored_def nonempty_session_def
          browserRestart_def swRestart_def emptySession_def Let_def)
  qed
qed

lemma auth_life_inv: "auth_life a \<Longrightarrow> auth_reachable a \<and> mirrored a \<and> nonempty_session a"
proof (induction rule: auth_life.induct)
  case install
  have "auth_reachable (snd (restoreFromSessionStorage freshAuth))"
    by (blast intro: auth_reachable.intros step_restore)
  then show ?case
    by (simp add: restoreFromSessionStorage_def freshAuth_def emptyLocal_def emptySession_def
        mirrored_def nonempty_session_def)
next
  case (sw_boot a)
  then have "auth_reachable (snd (restoreFromSessionStorage (swRestart a)))"
    using auth_reachable.step [OF auth_reachable.step [OF _ step_sw] step_restore] by blast
  with sw_boot mirrored_boot(1) [of a] show ?case by blast
next
  case (browser_boot a)
  then have "auth_reachable (snd (restoreFromSessionStorage (browserRestart a)))"
    using auth_reachable.step [OF auth_reachable.step [OF _ step_browser] step_restore] by blast
  with browser_boot mirrored_boot(2) [of a] show ?case by blast
next
  case (live a b)
  then show ?case
    by (blast intro: auth_reachable.step step_op mirrored_op key_custody_reachable)
qed

subsection \<open>Profiles of the session\<close>

lemma find_profile_id: "find (\<lambda>p. pi_id p = pid) ps = Some p \<Longrightarrow> pi_id p = pid"
  by (auto simp: find_Some_iff)

lemma switchProfile_ok:
  assumes "switchProfile pid a = (Inr (), b)"
  shows "getActiveProfileId b = Inr pid \<and> (\<exists>p. getActiveProfile b = Some p \<and> pi_id p = pid)
   \<and> getProfiles b = getProfiles a"
proof -
  from assms obtain s p where "sess a = Some s" and p: "find (\<lambda>p. pi_id p = pid) (profiles s) = Some p"
    and "b = a\<lparr>sess := Some (s\<lparr>activeProfileId := pid\<rparr>),
                  lstore := (lstore a)\<lparr>ls_activeProfileId := Some pid\<rparr>\<rparr>"
    by (auto simp: switchProfile_def split: option.splits if_splits)
  with find_profile_id [OF p] show ?thesis
    by (simp add: getActiveProfileId_def getActiveProfile_def getProfiles_def)
qed

lemma switchProfile_error:
  "switchProfile pid a = (Inl e, b) \<Longrightarrow> b = a"
  by (auto simp: switchProfile_def split: option.splits if_splits)

lemma find_None_ids: "find (\<lambda>p. pi_id p = pid) ps = None \<longleftrightarrow> pid \<notin> pi_id ` set ps"
  by (auto simp: find_None_iff)

lemma switchProfile_result:
  "fst (switchProfile pid a) =
     (if \<not> isLoggedIn a then Inl notLoggedIn
      else if pid \<notin> pi_id ` set (getProfiles a) then Inl (JsError ''Profile not found'')
      else Inr ())"
  by (auto simp: switchProfile_def isLoggedIn_def getProfiles_def find_None_ids split: option.splits)

subsection \<open>Properties\<close>

text \<open>
  In every reachable state, whatever the order of operations, service-worker restarts and
  browser restarts: a locked session has no copy of the encryption key in memory, in session
  storage or in local storage (\<^verbatim>\<open>getEncryptionKey\<close> throws), and local storage holds the key
  only while the persisted session timeout is ``never''.
\<close>

theorem locked_has_no_key:
  assumes "auth_reachable a"
  shows "(isLocked a \<longrightarrow> getEncryptionKey a = Inl (JsError ''Session is locked - encryption key not available'')
            \<and> ss_encryptionKeyRaw (sstore a) = None \<and> ls_encryptionKeyRaw (lstore a) = None
            \<and> map_option encryptionKeyRaw (sess a) = Some None)
    \<and> (ls_encryptionKeyRaw (lstore a) \<noteq> None \<longrightarrow> ls_sessionTimeout (lstore a) = Some Never)"
  using key_custody_reachable [OF assms]
  by (auto simp: key_custody_def isLocked_def getEncryptionKey_def split: option.splits)

text \<open>
  Restarting the browser keeps exactly what the setting says: after any sequence of
  operations since start-up, closing the browser and restoring gives back the same JWT, e-mail,
  profiles, active profile and PSK, and the encryption key is there (the session unlocked)
  exactly when the timeout is ``never''; under ``on restart'' the session comes back locked.
\<close>

theorem browser_restart_roundtrip:
  assumes "auth_life a" and "sess a = Some s"
  shows "\<exists>b t. restoreFromSessionStorage (browserRestart a) = (True, b) \<and> sess b = Some t
    \<and> jwt t = jwt s \<and> email t = email s \<and> profiles t = profiles s
    \<and> activeProfileId t = activeProfileId s \<and> protectedSymmetricKey t = protectedSymmetricKey s
    \<and> encryptionKey t = (if timeout a = Never then encryptionKey s else None)
    \<and> isLocked b = (timeout a = OnRestart \<or> isLocked a)"
proof -
  from auth_life_inv [OF assms(1)] have "mirrored a" "nonempty_session a" by simp_all
  from restore_after_browserRestart [OF this assms(2)] assms(2) show ?thesis
    by (auto simp: Let_def isLocked_def)
qed

lemma example_session_life:
  assumes "length raw = 32"
  shows "auth_life (setSession ''jwt'' ''a@b.c'' raw raw ''psk'' [] [\<lparr>pi_id = ''p'', pi_name = ''Default''\<rparr>] ''p''
    (setSessionTimeout t (snd (restoreFromSessionStorage freshAuth))))"
  using assms
  by (intro auth_life.live [OF _ op_session] auth_life.live [OF _ op_timeout] auth_life.install)
    (simp_all add: nonempty_session_def setSession_def setSessionTimeout_def restoreFromSessionStorage_def
      freshAuth_def emptyLocal_def Let_def)

theorem locked_has_no_key_witness:
  "getEncryptionKey (lockSession (setSession ''jwt'' ''a@b.c'' (replicate 32 1) (replicate 32 1) ''psk'' []
       [\<lparr>pi_id = ''p'', pi_name = ''Default''\<rparr>] ''p''
       (setSessionTimeout Never (snd (restoreFromSessionStorage freshAuth)))))
     = Inl (JsError ''Session is locked - encryption key not available'')"
proof -
  let ?a = "lockSession (setSession ''jwt'' ''a@b.c'' (replicate 32 1) (replicate 32 1) ''psk'' []
       [\<lparr>pi_id = ''p'', pi_name = ''Default''\<rparr>] ''p''
       (setSessionTimeout Never (snd (restoreFromSessionStorage freshAuth))))"
  have "auth_reachable ?a"
    using auth_life_inv [OF example_session_life, of "replicate 32 1" Never]
    by (blast intro: auth_reachable.step step_op op_lock length_replicate)
  moreover have "isLocked ?a"
    by (simp add: isLocked_def lockSession_def setSession_def)
  ultimately show ?thesis
    using locked_has_no_key [of ?a] by blast
qed

theorem browser_restart_roundtrip_witness:
  "\<exists>b t. restoreFromSessionStorage (browserRestart (setSession ''jwt'' ''a@b.c'' (replicate 32 1)
         (replicate 32 1) ''psk'' [] [\<lparr>pi_id = ''p'', pi_name = ''Default''\<rparr>] ''p''
         (setSessionTimeout Never (snd (restoreFromSessionStorage freshAuth))))) = (True, b)
     \<and> sess b = Some t \<and> encryptionKey t = Some (replicate 32 1) \<and> \<not> isLocked b"
proof -
  let ?a = "setSession ''jwt'' ''a@b.c'' (replicate 32 1) (replicate 32 1) ''psk'' []
       [\<lparr>pi_id = ''p'', pi_name = ''Default''\<rparr>] ''p''
       (setSessionTimeout Never (snd (restoreFromSessionStorage freshAuth)))"
  have life: "auth_life ?a" by (rule example_session_life) simp
  obtain s where s: "sess ?a = Some s" and f: "jwt s = ''jwt''" "email s = ''a@b.c''"
    "activeProfileId s = ''p''" "protectedSymmetricKey s = ''psk''" "encryptionKey s = Some (replicate 32 1)"
    by (simp add: setSession_def)
  have "timeout ?a = Never" "\<not> isLocked ?a"
    by (simp_all add: setSession_def setSessionTimeout_def isLocked_def Let_def)
  then show ?thesis
    using browser_restart_roundtrip [OF life s] f by auto
qed

text \<open>
  The setting ``on restart'' is not respected in one history. Whenever a session is unlocked
  under ``never'', the browser is restarted (the restore leaves the session unlocked, with the
  key read from local storage), and the user then changes the timeout to ``on restart'', the only
  stored copy of the key is removed, because the restore did not write it to session storage.
  When the service worker is then merely unloaded and started again, with no browser restart,
  the session comes back locked.
\<close>

theorem timeout_change_then_sw_restart_locks:
  assumes "auth_life a" and "sess a = Some s" and "timeout a = Never" and "encryptionKey s = Some k"
  shows "\<exists>b c. restoreFromSessionStorage (browserRestart a) = (True, b) \<and> isLoggedIn b \<and> \<not> isLocked b
     \<and> restoreFromSessionStorage (swRestart (setSessionTimeout OnRestart b)) = (True, c) \<and> isLocked c"
proof -
  let ?b = "snd (restoreFromSessionStorage (browserRestart a))"
  have inv: "mirrored a" "nonempty_session a"
    using auth_life_inv [OF assms(1)] by simp_all
  obtain s' where b: "fst (restoreFromSessionStorage (browserRestart a))" "sess ?b = Some s'"
      "encryptionKey s' = Some k" "ss_encryptionKeyRaw (sstore ?b) = None"
    using restore_after_browserRestart [OF inv assms(2)] assms(3,4)
    by (simp add: browserRestart_def emptySession_def Let_def)
  have life: "auth_life ?b" by (rule auth_life.browser_boot [OF assms(1)])
  let ?c = "setSessionTimeout OnRestart ?b"
  have c: "sess ?c = Some s'" "timeout ?c = OnRestart" "ss_encryptionKeyRaw (sstore ?c) = None"
    using b by (simp_all add: setSessionTimeout_def Let_def)
  have "nonempty_session ?c"
    using auth_life_inv [OF life] b(2) c(1) by (simp add: nonempty_session_def)
  with life have "auth_life ?c" by (rule auth_life.live [OF _ op_timeout])
  then have "mirrored ?c" "nonempty_session ?c"
    using auth_life_inv by blast+
  from restore_after_swRestart [OF this c(1)] c
  have "fst (restoreFromSessionStorage (swRestart ?c))"
    and "isLocked (snd (restoreFromSessionStorage (swRestart ?c)))"
    by (simp_all add: isLocked_def Let_def)
  moreover have "isLoggedIn ?b" "\<not> isLocked ?b"
    using b by (simp_all add: isLoggedIn_def isLocked_def)
  ultimately show ?thesis
    using b(1) by (metis prod.collapse)
qed

theorem timeout_change_then_sw_restart_locks_witness:
  "\<exists>b c. restoreFromSessionStorage (browserRestart (setSession ''jwt'' ''a@b.c'' (replicate 32 1)
         (replicate 32 1) ''psk'' [] [\<lparr>pi_id = ''p'', pi_name = ''Default''\<rparr>] ''p''
         (setSessionTimeout Never (snd (restoreFromSessionStorage freshAuth))))) = (True, b)
     \<and> \<not> isLocked b
     \<and> restoreFromSessionStorage (swRestart (setSessionTimeout OnRestart b)) = (True, c) \<and> isLocked c"
proof -
  let ?a = "setSession ''jwt'' ''a@b.c'' (replicate 32 1) (replicate 32 1) ''psk'' []
       [\<lparr>pi_id = ''p'', pi_name = ''Default''\<rparr>] ''p''
       (setSessionTimeout Never (snd (restoreFromSessionStorage freshAuth)))"
  have life: "auth_life ?a" by (rule example_session_life) simp
  obtain s where s: "sess ?a = Some s" "encryptionKey s = Some (replicate 32 1)"
    by (simp add: setSession_def)
  have "timeout ?a = Never"
    by (simp add: setSession_def setSessionTimeout_def Let_def)
  from timeout_change_then_sw_restart_locks [OF life s(1) this s(2)] show ?thesis by blast
qed

end
