(* ===== verification/Storage.thy ===== *)
theory Storage
  imports Prelude "HOL-Library.List_Lexorder" "HOL-Library.Char_ord" "HOL-Library.Product_Lexorder"
begin

text \<open>
  extension/src/storage/db.ts: the three IndexedDB object stores and the operations on them.
  \<^verbatim>\<open>meta\<close> and \<^verbatim>\<open>loro\<close> are keyed by an out-of-line string; \<^verbatim>\<open>deltaQueue\<close> has the
  record's \<^verbatim>\<open>id\<close> as its key path and an index on \<^verbatim>\<open>timestamp\<close>, which
  \<^verbatim>\<open>getAll\<close> reads in index order (ties in the order of the primary key).
  A transaction of the model always commits; crashes between two transactions are modelled by
  the components that issue them.
  Two interfaces are stated as locales and interpreted on this model: a key/value store and a
  queue that is read without being consumed and acknowledged afterwards.
\<close>

subsection \<open>The database\<close>

record queuedDelta =
  qd_id :: string
  qd_profileId :: string
  qd_encryptedDelta :: string
  qd_timestamp :: int

text \<open>The values the extension stores under \<^verbatim>\<open>meta\<close>: a number, or an id mapping.\<close>

datatype meta_val = MNum int | MObj "(string \<times> string) list"

record idb =
  meta :: "string \<rightharpoonup> meta_val"
  deltaQueue :: "queuedDelta list"
  loroStore :: "string \<rightharpoonup> bytes"

definition emptyDb :: idb where
  "emptyDb = \<lparr>meta = Map.empty, deltaQueue = [], loroStore = Map.empty\<rparr>"

subsection \<open>Keys\<close>

definition lastSeqKey :: "string \<Rightarrow> string" where
  "lastSeqKey profileId = ''lastSeqId-'' @ profileId"

definition chromeIdMapKey :: "string \<Rightarrow> string" where
  "chromeIdMapKey profileId = ''chromeIdMap-'' @ profileId"

definition lastSnapshotUploadKey :: "string \<Rightarrow> string" where
  "lastSnapshotUploadKey profileId = ''lastSnapshotUpload-'' @ profileId"

definition snapshotKey :: "string \<Rightarrow> string" where
  "snapshotKey profileId = ''snapshot-'' @ profileId"

lemmas key_defs = lastSeqKey_def chromeIdMapKey_def lastSnapshotUploadKey_def snapshotKey_def

lemma keys_distinct [simp]:
  "lastSeqKey p \<noteq> chromeIdMapKey q" "chromeIdMapKey p \<noteq> lastSeqKey q"
  "lastSeqKey p \<noteq> lastSnapshotUploadKey q" "lastSnapshotUploadKey p \<noteq> lastSeqKey q"
  "chromeIdMapKey p \<noteq> lastSnapshotUploadKey q" "lastSnapshotUploadKey p \<noteq> chromeIdMapKey q"
  by (simp_all add: key_defs)

lemma keys_inj [simp]:
  "lastSeqKey p = lastSeqKey q \<longleftrightarrow> p = q" "chromeIdMapKey p = chromeIdMapKey q \<longleftrightarrow> p = q"
  "lastSnapshotUploadKey p = lastSnapshotUploadKey q \<longleftrightarrow> p = q" "snapshotKey p = snapshotKey q \<longleftrightarrow> p = q"
  by (simp_all add: key_defs)

subsection \<open>Meta and snapshots\<close>

definition getMeta :: "idb \<Rightarrow> string \<Rightarrow> meta_val option" where
  "getMeta db key = meta db key"

definition setMeta :: "string \<Rightarrow> meta_val \<Rightarrow> idb \<Rightarrow> idb" where
  "setMeta key v db = db\<lparr>meta := (meta db)(key \<mapsto> v)\<rparr>"

definition loadSnapshot :: "idb \<Rightarrow> string \<Rightarrow> bytes option" where
  "loadSnapshot db profileId = loroStore db (snapshotKey profileId)"

definition saveSnapshot :: "string \<Rightarrow> bytes \<Rightarrow> idb \<Rightarrow> idb" where
  "saveSnapshot profileId data db = db\<lparr>loroStore := (loroStore db)(snapshotKey profileId \<mapsto> data)\<rparr>"

text \<open>\<^verbatim>\<open>(await getMeta<number>(key)) ?? 0\<close>, as every reader of a cursor writes it.\<close>

definition getMetaNum :: "idb \<Rightarrow> string \<Rightarrow> int" where
  "getMetaNum db key = (case getMeta db key of Some (MNum n) \<Rightarrow> n | _ \<Rightarrow> 0)"

subsection \<open>Delta queue\<close>

definition enqueue :: "queuedDelta \<Rightarrow> idb \<Rightarrow> idb" where
  "enqueue delta db =
     db\<lparr>deltaQueue := filter (\<lambda>d. qd_id d \<noteq> qd_id delta) (deltaQueue db) @ [delta]\<rparr>"

definition queueOrder :: "idb \<Rightarrow> queuedDelta list" where
  "queueOrder db = sort_key (\<lambda>d. (qd_timestamp d, qd_id d)) (deltaQueue db)"

text \<open>
  \<^verbatim>\<open>index.getAll(undefined, limit)\<close>: the first \<^verbatim>\<open>limit\<close> records of the index
  (a count of 0 means no limit).
\<close>

definition peekQueue :: "nat \<Rightarrow> idb \<Rightarrow> queuedDelta list" where
  "peekQueue limit db = (if limit = 0 then queueOrder db else take limit (queueOrder db))"

definition dequeue :: "string list \<Rightarrow> idb \<Rightarrow> idb" where
  "dequeue ids db =
     (if ids = [] then db
      else db\<lparr>deltaQueue := fold (\<lambda>i. filter (\<lambda>d. qd_id d \<noteq> i)) ids (deltaQueue db)\<rparr>)"

definition queueSize :: "idb \<Rightarrow> nat" where
  "queueSize db = length (deltaQueue db)"

definition clearDeltaQueue :: "idb \<Rightarrow> idb" where
  "clearDeltaQueue db = db\<lparr>deltaQueue := []\<rparr>"

definition clearAllLocalData :: "idb \<Rightarrow> idb" where
  "clearAllLocalData db = db\<lparr>meta := Map.empty, deltaQueue := [], loroStore := Map.empty\<rparr>"

definition deleteProfileData :: "string \<Rightarrow> idb \<Rightarrow> idb" where
  "deleteProfileData profileId db =
     db\<lparr>loroStore := (loroStore db)(snapshotKey profileId := None),
        meta := ((meta db)(chromeIdMapKey profileId := None))
                  (lastSeqKey profileId := None, lastSnapshotUploadKey profileId := None)\<rparr>"

text \<open>The store's key path makes ids unique.\<close>

definition queue_ok :: "idb \<Rightarrow> bool" where
  "queue_ok db \<longleftrightarrow> distinct (map qd_id (deltaQueue db))"

lemma fold_filter_ids:
  "fold (\<lambda>i. filter (\<lambda>d. qd_id d \<noteq> i)) ids xs = filter (\<lambda>d. qd_id d \<notin> set ids) xs"
  by (induction ids arbitrary: xs) (auto intro: filter_cong)

lemma deltaQueue_dequeue: "deltaQueue (dequeue ids db) = filter (\<lambda>d. qd_id d \<notin> set ids) (deltaQueue db)"
  by (simp add: dequeue_def fold_filter_ids)

lemma queueOrder_dequeue: "queueOrder (dequeue ids db) = filter (\<lambda>d. qd_id d \<notin> set ids) (queueOrder db)"
  by (simp add: queueOrder_def deltaQueue_dequeue filter_sort)

lemma set_queueOrder [simp]: "set (queueOrder db) = set (deltaQueue db)"
  by (simp add: queueOrder_def)

lemma queueOrder_distinct: "queue_ok db \<Longrightarrow> distinct (map qd_id (queueOrder db))"
  by (simp add: queue_ok_def queueOrder_def distinct_map)

lemma queue_ok_enqueue: "queue_ok db \<Longrightarrow> queue_ok (enqueue d db)"
  by (auto simp: queue_ok_def enqueue_def distinct_map inj_on_def)

lemma queue_ok_dequeue: "queue_ok db \<Longrightarrow> queue_ok (dequeue ids db)"
  by (auto simp: queue_ok_def deltaQueue_dequeue distinct_map inj_on_def)

subsection \<open>Interface: key/value store\<close>

locale kv_store =
  fixes kv_get :: "'s \<Rightarrow> 'k \<Rightarrow> 'v option"
    and kv_put :: "'k \<Rightarrow> 'v \<Rightarrow> 's \<Rightarrow> 's"
  assumes kv_get_put: "kv_get (kv_put k v s) k' = (if k' = k then Some v else kv_get s k')"
begin

lemma kv_get_same [simp]: "kv_get (kv_put k v s) k = Some v"
  by (simp add: kv_get_put)

lemma kv_get_other: "k' \<noteq> k \<Longrightarrow> kv_get (kv_put k v s) k' = kv_get s k'"
  by (simp add: kv_get_put)

text \<open>After a sequence of writes a key holds its last write, or its old value.\<close>

lemma kv_get_writes:
  "kv_get (fold (\<lambda>(k, v). kv_put k v) ws s) k =
     (case map_of (rev ws) k of Some v \<Rightarrow> Some v | None \<Rightarrow> kv_get s k)"
  by (induction ws rule: rev_induct) (auto simp: kv_get_put)

end

interpretation meta_kv: kv_store getMeta setMeta
  by unfold_locales (simp add: getMeta_def setMeta_def)

interpretation snapshot_kv: kv_store loadSnapshot saveSnapshot
  by unfold_locales (simp add: loadSnapshot_def saveSnapshot_def)

subsection \<open>Interface: a queue that is peeked and then acknowledged\<close>

locale ack_queue =
  fixes q_items :: "'q \<Rightarrow> 'i list"
    and q_key :: "'i \<Rightarrow> 'k"
    and q_peek :: "nat \<Rightarrow> 'q \<Rightarrow> 'i list"
    and q_ack :: "'k list \<Rightarrow> 'q \<Rightarrow> 'q"
    and q_invar :: "'q \<Rightarrow> bool"
  assumes q_peek_take: "q_invar q \<Longrightarrow> 0 < n \<Longrightarrow> q_peek n q = take n (q_items q)"
    and q_ack_items: "q_invar q \<Longrightarrow> q_items (q_ack ks q) = filter (\<lambda>i. q_key i \<notin> set ks) (q_items q)"
    and q_keys_distinct: "q_invar q \<Longrightarrow> distinct (map q_key (q_items q))"
    and q_ack_invar: "q_invar q \<Longrightarrow> q_invar (q_ack ks q)"
begin

text \<open>Acknowledging the first items of a peeked batch removes exactly those.\<close>

lemma ack_prefix:
  assumes "q_invar q" and "0 < n" and "k \<le> length (q_peek n q)"
  shows "q_items (q_ack (map q_key (take k (q_peek n q))) q) = drop k (q_items q)"
proof -
  let ?xs = "q_items q"
  have "take k (q_peek n q) = take k ?xs"
    using assms by (auto simp: q_peek_take min_def split: if_splits)
  moreover have "filter (\<lambda>i. q_key i \<notin> q_key ` set (take k ?xs)) (take k ?xs @ drop k ?xs) = drop k ?xs"
  proof -
    have "distinct (map q_key (take k ?xs @ drop k ?xs))"
      using q_keys_distinct [OF assms(1)] by simp
    then have "\<forall>i \<in> set (drop k ?xs). q_key i \<notin> q_key ` set (take k ?xs)"
      unfolding map_append distinct_append set_map by blast
    then have "filter (\<lambda>i. q_key i \<notin> q_key ` set (take k ?xs)) (drop k ?xs) = drop k ?xs"
      by (simp add: filter_id_conv)
    moreover have "filter (\<lambda>i. q_key i \<notin> q_key ` set (take k ?xs)) (take k ?xs) = []"
      by (simp add: filter_empty_conv)
    ultimately show ?thesis unfolding filter_append by simp
  qed
  ultimately show ?thesis
    using assms(1) by (simp add: q_ack_items)
qed

end

interpretation delta_queue: ack_queue queueOrder qd_id peekQueue dequeue queue_ok
  by unfold_locales (simp_all add: peekQueue_def queueOrder_dequeue queueOrder_distinct queue_ok_dequeue)

subsection \<open>Frame facts\<close>

lemma db_frames [simp]:
  "meta (saveSnapshot p d db) = meta db" "deltaQueue (saveSnapshot p d db) = deltaQueue db"
  "loroStore (setMeta k v db) = loroStore db" "deltaQueue (setMeta k v db) = deltaQueue db"
  "meta (enqueue x db) = meta db" "loroStore (enqueue x db) = loroStore db"
  "meta (dequeue ids db) = meta db" "loroStore (dequeue ids db) = loroStore db"
  by (simp_all add: saveSnapshot_def setMeta_def enqueue_def dequeue_def)

lemma getMeta_saveSnapshot [simp]: "getMeta (saveSnapshot p d db) k = getMeta db k"
  by (simp add: getMeta_def)

lemma loadSnapshot_setMeta [simp]: "loadSnapshot (setMeta k v db) p = loadSnapshot db p"
  by (simp add: loadSnapshot_def)

end
