(* ===== verification/Delta_Queue.thy ===== *)
theory Delta_Queue
  imports Session Storage
begin

text \<open>
  extension/src/sync/delta-queue.ts: sealing a delta for the queue, and the two ends of the
  queue that the push loop uses. The random UUID, the clock and the random IV are arguments.
\<close>

definition enqueueDelta ::
  "webcrypto \<Rightarrow> bytes \<Rightarrow> string \<Rightarrow> int \<Rightarrow> auth \<Rightarrow> bytes \<Rightarrow> (idb, unit) act" where
  "enqueueDelta W iv uuid now a rawDelta db =
     (case getEncryptionKey a of
        Inl e \<Rightarrow> (Inl e, db)
      | Inr key \<Rightarrow>
          (let encryptedDelta = encrypt W iv key rawDelta
           in (case getActiveProfileId a of
                 Inl e \<Rightarrow> (Inl e, db)
               | Inr profileId \<Rightarrow>
                   (Inr (), enqueue \<lparr>qd_id = uuid, qd_profileId = profileId,
                       qd_encryptedDelta = encryptedDelta, qd_timestamp = now\<rparr> db))))"

definition peek :: "nat \<Rightarrow> idb \<Rightarrow> queuedDelta list" where
  "peek limit db = peekQueue limit db"

definition acknowledge :: "string list \<Rightarrow> idb \<Rightarrow> idb" where
  "acknowledge ids db = dequeue ids db"

text \<open>A queued delta is tagged with the active profile and opens to the raw delta again.\<close>

lemma enqueueDelta_InrD:
  assumes "enqueueDelta W iv uuid now a raw db = (Inr (), db')"
  obtains key pid where "getEncryptionKey a = Inr key" "getActiveProfileId a = Inr pid"
    "db' = enqueue \<lparr>qd_id = uuid, qd_profileId = pid, qd_encryptedDelta = encrypt W iv key raw,
                     qd_timestamp = now\<rparr> db"
  using assms by (auto simp: enqueueDelta_def Let_def split: sum.splits)

end
