(* ===== verification/Sync_Client.thy ===== *)
theory Sync_Client
  imports Http Delta_Queue
begin

text \<open>
  extension/src/sync/client.ts, the HTTP half: the error mapping, one function per route, the
  push of the delta queue and the paged pull. Every function takes the \<^verbatim>\<open>fetch\<close> it calls
  and threads the network state. A 2xx body of another shape than its route sends is an error
  (\<^verbatim>\<open>badBody\<close>); in the code it is a field that reads as undefined.
  The pull loop has no bound of its own (the server says when to stop), so it is a partial
  function; that it returns is part of its theorem.
\<close>

definition badBody :: js_error where
  "badBody = JsError ''Unexpected response body''"

subsection \<open>Errors\<close>

definition readErrorMessage :: "response \<Rightarrow> string \<Rightarrow> string" where
  "readErrorMessage res fallback =
     (case body res of ErrorJson e \<Rightarrow> if truthy e then the e else fallback | _ \<Rightarrow> fallback)"

definition throwIfNotOk :: "response \<Rightarrow> string \<Rightarrow> js_error + unit" where
  "throwIfNotOk res prefix =
     (if res_ok res then Inr ()
      else if status res = 401 then Inl AuthExpiredError
      else if status res = 403 then Inl AccountRevokedError
      else Inl (JsError (readErrorMessage res (prefix @ '': '' @ show_nat (status res)))))"

text \<open>\<^verbatim>\<open>fetchWithTimeout\<close>, \<^verbatim>\<open>throwIfNotOk\<close> and \<^verbatim>\<open>res.json()\<close> in sequence.\<close>

definition fetchJson :: "'n fetch \<Rightarrow> request \<Rightarrow> string \<Rightarrow> ('n, payload) act" where
  "fetchJson fetch req prefix =
     bindA (fetch req) (\<lambda>res. bindA (liftE (throwIfNotOk res prefix)) (\<lambda>_. retA (body res)))"

subsection \<open>Routes\<close>

definition apiRegister ::
  "'n fetch \<Rightarrow> string \<Rightarrow> string \<Rightarrow> string \<Rightarrow> string \<Rightarrow> string \<Rightarrow> ('n, string \<times> string) act" where
  "apiRegister fetch mail auth profileName metadata psk =
     bindA (fetchJson fetch (PostRegister mail auth profileName metadata psk) ''register failed'')
       (\<lambda>data. case data of RegisterJson token profileId \<Rightarrow> retA (token, profileId) | _ \<Rightarrow> throwA badBody)"

text \<open>On login a 401 means wrong credentials, not an expired session.\<close>

definition apiLogin ::
  "'n fetch \<Rightarrow> string \<Rightarrow> string \<Rightarrow> ('n, string \<times> profileInfo list \<times> string option) act" where
  "apiLogin fetch mail auth =
     bindA (fetch (PostLogin mail auth)) (\<lambda>res.
       if status res = 401 then throwA InvalidCredentialsError
       else bindA (liftE (throwIfNotOk res ''login failed'')) (\<lambda>_.
         case body res of LoginJson token ps psk \<Rightarrow> retA (token, ps, psk) | _ \<Rightarrow> throwA badBody))"

definition apiGetProfiles :: "'n fetch \<Rightarrow> string \<Rightarrow> ('n, profileInfo list) act" where
  "apiGetProfiles fetch token =
     bindA (fetchJson fetch (GetProfiles token) ''get profiles failed'')
       (\<lambda>data. case data of ProfilesJson ps \<Rightarrow> retA ps | _ \<Rightarrow> throwA badBody)"

definition apiCreateProfile :: "'n fetch \<Rightarrow> string \<Rightarrow> string \<Rightarrow> string \<Rightarrow> ('n, profileInfo) act" where
  "apiCreateProfile fetch name metadata token =
     bindA (fetchJson fetch (PostProfile token name metadata) ''create profile failed'')
       (\<lambda>data. case data of ProfileJson p \<Rightarrow> retA p | _ \<Rightarrow> throwA badBody)"

definition apiRenameProfile :: "'n fetch \<Rightarrow> string \<Rightarrow> string \<Rightarrow> string \<Rightarrow> ('n, unit) act" where
  "apiRenameProfile fetch profileId name token =
     bindA (fetch (PatchProfile token profileId name)) (\<lambda>res. liftE (throwIfNotOk res ''rename profile failed''))"

definition apiDeleteProfile :: "'n fetch \<Rightarrow> string \<Rightarrow> string \<Rightarrow> ('n, unit) act" where
  "apiDeleteProfile fetch profileId token =
     bindA (fetch (DeleteProfile token profileId)) (\<lambda>res. liftE (throwIfNotOk res ''delete profile failed''))"

definition apiDeleteAccount :: "'n fetch \<Rightarrow> string \<Rightarrow> string \<Rightarrow> ('n, unit) act" where
  "apiDeleteAccount fetch token auth =
     bindA (fetch (DeleteAccount token auth)) (\<lambda>res. liftE (throwIfNotOk res ''delete account failed''))"

definition apiChangePassword ::
  "'n fetch \<Rightarrow> string \<Rightarrow> string \<Rightarrow> string \<Rightarrow> string \<Rightarrow> ('n, string) act" where
  "apiChangePassword fetch oldAuth newAuth newPsk token =
     bindA (fetchJson fetch (PostChangePassword token oldAuth newAuth newPsk) ''change password failed'')
       (\<lambda>data. case data of TokenJson t \<Rightarrow> retA t | _ \<Rightarrow> throwA badBody)"

text \<open>A 404 means that no snapshot was uploaded yet.\<close>

definition apiGetServerSnapshot :: "'n fetch \<Rightarrow> auth \<Rightarrow> string \<Rightarrow> ('n, (int \<times> string) option) act" where
  "apiGetServerSnapshot fetch a profileId =
     bindA (liftE (getJwt a)) (\<lambda>token.
     bindA (fetch (GetSnapshot token profileId)) (\<lambda>res.
       if status res = 404 then retA None
       else bindA (liftE (throwIfNotOk res ''get snapshot failed'')) (\<lambda>_.
         case body res of SnapshotJson n p \<Rightarrow> retA (Some (n, p)) | _ \<Rightarrow> throwA badBody)))"

definition apiPutServerSnapshot :: "'n fetch \<Rightarrow> auth \<Rightarrow> string \<Rightarrow> int \<Rightarrow> string \<Rightarrow> ('n, unit) act" where
  "apiPutServerSnapshot fetch a profileId snapshotSeq encryptedPayload =
     bindA (liftE (getJwt a)) (\<lambda>token.
     bindA (fetch (PutSnapshot token profileId snapshotSeq encryptedPayload)) (\<lambda>res.
       liftE (throwIfNotOk res ''put snapshot failed'')))"

subsection \<open>Push\<close>

text \<open>
  The loop over the batch: \<^verbatim>\<open>succeeded\<close> collects what leaves the queue. A 403 for the
  active profile throws; 400, 403 and 404 discard the item; any other failure stops the loop.
\<close>

fun pushLoop ::
  "'n fetch \<Rightarrow> string \<Rightarrow> string \<Rightarrow> queuedDelta list \<Rightarrow> string list \<Rightarrow> ('n, string list) act" where
  "pushLoop fetch token active [] succeeded n = (Inr succeeded, n)"
| "pushLoop fetch token active (item # rest) succeeded n =
     (case fetch (PostPush token (qd_profileId item) (qd_encryptedDelta item)) n of
        (Inl e, n') \<Rightarrow> (Inl e, n')
      | (Inr res, n') \<Rightarrow>
          if res_ok res then pushLoop fetch token active rest (succeeded @ [qd_id item]) n'
          else if status res = 403 \<and> qd_profileId item = active then (Inl AccountRevokedError, n')
          else if status res = 400 \<or> status res = 403 \<or> status res = 404
          then pushLoop fetch token active rest (succeeded @ [qd_id item]) n'
          else (Inr succeeded, n'))"

definition pushPendingInner :: "'n fetch \<Rightarrow> auth \<Rightarrow> (idb \<times> 'n, unit) act" where
  "pushPendingInner fetch a = (\<lambda>(db, n).
     (let batch = peek 50 db
      in if batch = [] then (Inr (), (db, n))
         else
           (case getJwt a of Inl e \<Rightarrow> (Inl e, (db, n))
            | Inr token \<Rightarrow>
               (case getActiveProfileId a of Inl e \<Rightarrow> (Inl e, (db, n))
                | Inr active \<Rightarrow>
                   (case pushLoop fetch token active batch [] n of
                      (Inl e, n') \<Rightarrow> (Inl e, (db, n'))
                    | (Inr succeeded, n') \<Rightarrow> (Inr (), (acknowledge succeeded db, n')))))))"

subsection \<open>Pull\<close>

record rawDelta =
  sequenceId :: int
  payload :: bytes

definition decryptEntry :: "webcrypto \<Rightarrow> bytes \<Rightarrow> int \<times> string \<Rightarrow> js_error + rawDelta" where
  "decryptEntry W encKey d =
     bindE (decrypt W encKey (snd d)) (\<lambda>p. Inr \<lparr>sequenceId = fst d, payload = p\<rparr>)"

partial_function (option) pullLoop ::
  "'n fetch \<Rightarrow> webcrypto \<Rightarrow> string \<Rightarrow> string \<Rightarrow> bytes \<Rightarrow> int \<Rightarrow> rawDelta list \<Rightarrow> 'n
     \<Rightarrow> ((js_error + rawDelta list) \<times> 'n) option" where
  "pullLoop fetch W token profileId encKey cursor result n =
     (case fetchJson fetch (GetPull token profileId cursor) ''pull failed'' n of
        (Inl e, n') \<Rightarrow> Some (Inl e, n')
      | (Inr data, n') \<Rightarrow>
         (case data of
            PullJson deltas has_more \<Rightarrow>
              (case mapE (decryptEntry W encKey) deltas of
                 Inl e \<Rightarrow> Some (Inl e, n')
               | Inr page \<Rightarrow>
                   if has_more \<noteq> Some True \<or> length page = 0 then Some (Inr (result @ page), n')
                   else pullLoop fetch W token profileId encKey
                          (sequenceId (page ! (length page - 1))) (result @ page) n')
          | _ \<Rightarrow> Some (Inl badBody, n')))"

definition pullSince ::
  "'n fetch \<Rightarrow> webcrypto \<Rightarrow> auth \<Rightarrow> int \<Rightarrow> string option \<Rightarrow> 'n
     \<Rightarrow> ((js_error + rawDelta list) \<times> 'n) option" where
  "pullSince fetch W a sinceSeq explicitProfileId n =
     (case (case explicitProfileId of Some p \<Rightarrow> Inr p | None \<Rightarrow> getActiveProfileId a) of
        Inl e \<Rightarrow> Some (Inl e, n)
      | Inr profileId \<Rightarrow>
         (case getJwt a of Inl e \<Rightarrow> Some (Inl e, n)
          | Inr token \<Rightarrow>
             (case getEncryptionKey a of Inl e \<Rightarrow> Some (Inl e, n)
              | Inr encKey \<Rightarrow> pullLoop fetch W token profileId encKey sinceSeq [] n)))"


subsection \<open>What one push call does to the queue\<close>

text \<open>The server's answers to a batch sent item by item, whatever the loop makes of them.\<close>

fun answers :: "'n fetch \<Rightarrow> string \<Rightarrow> queuedDelta list \<Rightarrow> 'n \<Rightarrow> (js_error + response) list" where
  "answers fetch token [] n = []"
| "answers fetch token (item # rest) n =
     (case fetch (PostPush token (qd_profileId item) (qd_encryptedDelta item)) n of
        (r, n') \<Rightarrow> r # answers fetch token rest n')"

text \<open>Delivered, or refused for good: the item may leave the queue.\<close>

definition settled :: "string \<Rightarrow> queuedDelta \<times> (js_error + response) \<Rightarrow> bool" where
  "settled active x =
     (case snd x of Inl e \<Rightarrow> False
      | Inr res \<Rightarrow> res_ok res \<or> status res = 400 \<or> status res = 404
                  \<or> (status res = 403 \<and> qd_profileId (fst x) \<noteq> active))"

definition settledCount :: "'n fetch \<Rightarrow> string \<Rightarrow> string \<Rightarrow> queuedDelta list \<Rightarrow> 'n \<Rightarrow> nat" where
  "settledCount fetch token active items n =
     length (takeWhile (settled active) (zip items (answers fetch token items n)))"

lemma length_answers [simp]: "length (answers fetch token items n) = length items"
  by (induction items arbitrary: n) (auto split: prod.splits)

lemma settledCount_le: "settledCount fetch token active items n \<le> length items"
  unfolding settledCount_def
  by (metis length_answers length_takeWhile_le length_zip min.idem)

lemma settledCount_Cons:
  "settledCount fetch token active (i # its) n =
     (case fetch (PostPush token (qd_profileId i) (qd_encryptedDelta i)) n of
        (r, n') \<Rightarrow> if settled active (i, r) then Suc (settledCount fetch token active its n') else 0)"
  by (auto simp: settledCount_def split: prod.splits)

lemma pushLoop_exact:
  "fst (pushLoop fetch token active items succeeded n) =
     (let k = settledCount fetch token active items n
      in if k = length items then Inr (succeeded @ map qd_id items)
         else (case answers fetch token items n ! k of
                 Inl e \<Rightarrow> Inl e
               | Inr res \<Rightarrow> if status res = 403 then Inl AccountRevokedError
                            else Inr (succeeded @ map qd_id (take k items))))"
proof (induction items arbitrary: succeeded n)
  case Nil
  then show ?case by (simp add: settledCount_def)
next
  case (Cons i its)
  obtain r n' where r: "fetch (PostPush token (qd_profileId i) (qd_encryptedDelta i)) n = (r, n')"
    by (cases "fetch (PostPush token (qd_profileId i) (qd_encryptedDelta i)) n")
  show ?case
  proof (cases "settled active (i, r)")
    case True
    then show ?thesis
      using r Cons.IH [of "succeeded @ [qd_id i]" n']
      by (auto simp: settledCount_Cons settled_def Let_def split: sum.splits)
  next
    case False
    then show ?thesis
      using r by (auto simp: settledCount_Cons settled_def Let_def split: sum.splits)
  qed
qed

lemma pushPendingInner_cases:
  assumes "queue_ok db" and "getJwt a = Inr token" and "getActiveProfileId a = Inr active"
    and items: "items = take 50 (queueOrder db)"
    and k: "k = settledCount fetch token active items n"
    and r: "pushPendingInner fetch a (db, n) = (r, (db', n'))"
  shows "(r = Inr () \<and> queueOrder db' = drop k (queueOrder db)
            \<and> (k = length items \<or> (\<exists>res. answers fetch token items n ! k = Inr res \<and> status res \<noteq> 403)))
       \<or> (k < length items \<and> db' = db
            \<and> (answers fetch token items n ! k = Inl (projl r) \<and> isl r
               \<or> (\<exists>res. answers fetch token items n ! k = Inr res \<and> status res = 403
                      \<and> r = Inl AccountRevokedError)))"
proof -
  have batch: "peek 50 db = items" and pk: "peekQueue 50 db = items"
    using assms(1) by (simp_all add: peek_def delta_queue.q_peek_take items)
  have ack: "queueOrder (acknowledge (map qd_id (take j items)) db) = drop j (queueOrder db)"
    if "j \<le> length items" for j
    using delta_queue.ack_prefix [OF assms(1), of 50 j] that by (simp add: pk acknowledge_def)
  have le: "k \<le> length items" by (simp add: k settledCount_le)
  show ?thesis
  proof (cases "items = []")
    case True
    then show ?thesis
      using r k batch by (auto simp: pushPendingInner_def settledCount_def items)
  next
    case False
    obtain pl n2 where pl: "pushLoop fetch token active items [] n = (pl, n2)"
      by (cases "pushLoop fetch token active items [] n")
    have out: "(r, (db', n')) = (case pl of Inl e \<Rightarrow> (Inl e, (db, n2))
                      | Inr ids \<Rightarrow> (Inr (), (acknowledge ids db, n2)))"
      using r False assms(2,3) by (auto simp: pushPendingInner_def batch pl Let_def split: sum.splits)
    have pl_eq: "pl = (if k = length items then Inr (map qd_id items)
         else (case answers fetch token items n ! k of
                 Inl e \<Rightarrow> Inl e
               | Inr res \<Rightarrow> if status res = 403 then Inl AccountRevokedError
                            else Inr (map qd_id (take k items))))"
      using pushLoop_exact [of fetch token active items "[]" n] by (simp only: pl k Let_def fst_conv append.left_neutral)
    show ?thesis
    proof (cases "k = length items")
      case True
      then show ?thesis using out pl_eq ack [of k] by simp
    next
      case False
      with le have "k < length items" by simp
      then show ?thesis
        using False out pl_eq ack [OF le]
        by (cases "answers fetch token items n ! k") (auto split: if_splits)
    qed
  qed
qed

definition accepts_all :: "'n fetch \<Rightarrow> string \<Rightarrow> bool" where
  "accepts_all fetch token \<longleftrightarrow>
     (\<forall>p d n. \<exists>res n'. fetch (PostPush token p d) n = (Inr res, n') \<and> res_ok res)"

lemma pushPendingInner_healthy:
  assumes "queue_ok db" and "getJwt a = Inr token" and "getActiveProfileId a = Inr active"
    and "accepts_all fetch token"
  shows "fst (pushPendingInner fetch a (db, n)) = Inr ()"
    and "queueOrder (fst (snd (pushPendingInner fetch a (db, n)))) = drop 50 (queueOrder db)"
proof -
  have all: "settledCount fetch token active items m = length items" for items m
  proof (induction items arbitrary: m)
    case (Cons i its)
    obtain res m' where "fetch (PostPush token (qd_profileId i) (qd_encryptedDelta i)) m = (Inr res, m')"
      "res_ok res" using assms(4) unfolding accepts_all_def by blast
    with Cons show ?case by (simp add: settledCount_Cons settled_def)
  qed (simp add: settledCount_def)
  obtain r db' n' where r: "pushPendingInner fetch a (db, n) = (r, (db', n'))"
    by (metis prod.collapse)
  from pushPendingInner_cases [OF assms(1-3) refl refl this]
  have "r = Inr ()" "queueOrder db' = drop (length (take 50 (queueOrder db))) (queueOrder db)"
    unfolding all by auto
  then show "fst (pushPendingInner fetch a (db, n)) = Inr ()"
    and "queueOrder (fst (snd (pushPendingInner fetch a (db, n)))) = drop 50 (queueOrder db)"
    by (simp_all add: r min_def)
qed

subsection \<open>Properties\<close>

text \<open>
  C37. A push call acknowledges exactly what the server settled: over the at most 50 oldest
  deltas of the queue, with \<^verbatim>\<open>k\<close> the length of the longest prefix that the server accepts or
  refuses for good, a call that returns leaves the queue without exactly those \<^verbatim>\<open>k\<close> deltas
  and in the same order. A call that throws leaves the queue untouched; it throws exactly when the
  first unsettled answer is a network failure (that error) or a 403 for the active profile
  (AccountRevokedError).
\<close>

theorem push_acknowledges_settled_prefix:
  assumes "queue_ok db" and "getJwt a = Inr token" and "getActiveProfileId a = Inr active"
    and "items = take 50 (queueOrder db)"
    and "k = settledCount fetch token active items n"
    and "pushPendingInner fetch a (db, n) = (r, (db', n'))"
  shows "queueOrder db' = (if isl r then queueOrder db else drop k (queueOrder db))
    \<and> (\<forall>e. r = Inl e \<longleftrightarrow> k < length items \<and>
         (answers fetch token items n ! k = Inl e
          \<or> (\<exists>res. answers fetch token items n ! k = Inr res \<and> status res = 403) \<and> e = AccountRevokedError))"
  using pushPendingInner_cases [OF assms] settledCount_le [of fetch token active items n] assms(5)
  by (cases r) auto

text \<open>A queue of \<^verbatim>\<open>m\<close> deltas and a network that answers every request with one status.\<close>

definition example_queue :: "nat \<Rightarrow> idb" where
  "example_queue m = emptyDb\<lparr>deltaQueue :=
     map (\<lambda>i. \<lparr>qd_id = replicate i (CHR ''a''), qd_profileId = ''p1'', qd_encryptedDelta = ''AA=='',
                qd_timestamp = int i\<rparr>) [0..<m]\<rparr>"

definition example_net :: "nat \<Rightarrow> nat fetch" where
  "example_net st req n = (Inr \<lparr>status = (if n = 0 then st else 200), body = NoJson\<rparr>, n - 1)"

definition example_auth :: auth where
  "example_auth = setSession ''tok'' ''a@b.c'' (replicate 16 1) (replicate 16 1) ''psk'' ''u1''
     [\<lparr>pi_id = ''p1'', pi_name = ''Default''\<rparr>] ''p1'' freshAuth"

lemma example_queue_ok: "queue_ok (example_queue m)"
  by (auto simp: queue_ok_def example_queue_def distinct_map inj_on_def
      dest: arg_cong [where f = length])

lemma example_auth_simps:
  "getJwt example_auth = Inr ''tok''" "getActiveProfileId example_auth = Inr ''p1''"
  "getEncryptionKey example_auth = Inr (replicate 16 1)"
  by (simp_all add: example_auth_def setSession_def getJwt_def getActiveProfileId_def getEncryptionKey_def)

lemma push_acknowledges_settled_prefix_witness:
  "\<exists>items k r db' n'. items = take 50 (queueOrder (example_queue 3))
     \<and> k = settledCount (example_net 500) ''tok'' ''p1'' items 2
     \<and> pushPendingInner (example_net 500) example_auth (example_queue 3, 2) = (r, (db', n'))
     \<and> queueOrder db' = (if isl r then queueOrder (example_queue 3) else drop k (queueOrder (example_queue 3)))"
proof -
  obtain r db' n' where "pushPendingInner (example_net 500) example_auth (example_queue 3, 2) = (r, (db', n'))"
    by (metis prod.collapse)
  from push_acknowledges_settled_prefix [OF example_queue_ok example_auth_simps(1,2) refl refl this] this
  show ?thesis by blast
qed

text \<open>
  One push call drains one batch: even when the server accepts every push, a call returns
  normally and removes exactly the 50 oldest deltas; the rest of a longer queue waits for the
  next trigger.
\<close>

theorem push_drains_one_batch:
  assumes "queue_ok db" and "getJwt a = Inr token" and "getActiveProfileId a = Inr active"
    and "accepts_all fetch token"
  shows "fst (pushPendingInner fetch a (db, n)) = Inr ()
    \<and> queueOrder (fst (snd (pushPendingInner fetch a (db, n)))) = drop 50 (queueOrder db)"
  using pushPendingInner_healthy [OF assms] by simp

lemma push_drains_one_batch_witness:
  "length (queueOrder (fst (snd (pushPendingInner (example_net 200) example_auth (example_queue 120, 0))))) = 70"
proof -
  have "accepts_all (example_net 200) ''tok''"
    by (simp add: accepts_all_def example_net_def res_ok_def)
  from push_drains_one_batch [OF example_queue_ok example_auth_simps(1,2) this, of 120]
  show ?thesis by (simp add: queueOrder_def example_queue_def)
qed

end
