(* ===== verification/Server_Tables.thy ===== *)
theory Server_Tables
  imports Sync_Client
begin

text \<open>
  The server's tables (server/migrations), the errors its handlers answer with (error.rs) and the
  authentication of a request (auth.rs). Rows are kept in the order they were inserted, which is the
  order of their created_at. JWTs, base64, Argon2id and uuidv7 are crates or the database, so they
  are parameters; a database error is not modelled beyond the constraints the code reacts to.
\<close>

subsection \<open>Tables\<close>

record user_row =
  u_id :: string
  u_email :: string
  u_auth_hash :: string
  u_psk :: string
  u_token_version :: int

record profile_row =
  p_id :: string
  p_user :: string
  p_name :: string
  p_metadata :: bytes

record delta_row =
  d_seq :: int
  d_profile :: string
  d_payload :: bytes

record srv =
  users :: "user_row list"
  profile_rows :: "profile_row list"
  deltas :: "delta_row list"
  snapshots :: "string \<rightharpoonup> int \<times> bytes"
  next_seq :: int
  next_uuid :: nat
  next_salt :: nat

text \<open>
  The crates and PostgreSQL's uuidv7: signing and verifying a JWT for a user id and a token version
  (None where the crate returns an error), the STANDARD base64 engine, Argon2id with a drawn salt
  and its verification against a stored hash (None for a stored text that is no hash).
\<close>

record crates =
  issue_token :: "string \<Rightarrow> int \<Rightarrow> string option"
  verify_token :: "string \<Rightarrow> (string \<times> int) option"
  b64_engine_decode :: "string \<Rightarrow> bytes option"
  b64_engine_encode :: "bytes \<Rightarrow> string"
  hash_password :: "nat \<Rightarrow> string \<Rightarrow> string option"
  verify_password :: "string \<Rightarrow> string \<Rightarrow> bool option"
  uuidv7 :: "nat \<Rightarrow> string"

text \<open>
  The codec agrees with the browser's on what the client sends: it reads every canonical
  encoding, and writes canonical ones.
\<close>

definition codec_ok :: "crates \<Rightarrow> bool" where
  "codec_ok C \<longleftrightarrow> (\<forall>bs. b64_engine_decode C (toBase64 bs) = Some bs \<and> b64_engine_encode C bs = toBase64 bs)"

text \<open>
  What the crates promise: a token that was issued verifies to its claims (within the 30 days of its
  life), hashing succeeds and a hash verifies for the hashed key and no other (collisions idealised
  away), and no uuid is drawn twice.
\<close>

definition crates_ok :: "crates \<Rightarrow> bool" where
  "crates_ok C \<longleftrightarrow> codec_ok C
     \<and> (\<forall>uid v. 0 \<le> v \<longrightarrow> (\<exists>t. issue_token C uid v = Some t \<and> verify_token C t = Some (uid, v)))
     \<and> (\<forall>n k. \<exists>h. hash_password C n k = Some h \<and> (\<forall>k'. verify_password C h k' = Some (k' = k)))
     \<and> inj (uuidv7 C)"

subsection \<open>Errors and authentication\<close>

definition reply :: "nat \<Rightarrow> payload \<Rightarrow> response" where
  "reply st b = \<lparr>status = st, body = b\<rparr>"

definition badRequest :: "string \<Rightarrow> response" where
  "badRequest msg = reply 400 (ErrorJson (Some msg))"

definition forbidden :: response where
  "forbidden = reply 403 (ErrorJson (Some ''forbidden''))"

definition unauthorized :: response where
  "unauthorized = reply 401 (ErrorJson (Some ''unauthorized''))"

definition internalError :: response where
  "internalError = reply 500 (ErrorJson (Some ''internal server error''))"

definition databaseError :: response where
  "databaseError = reply 500 (ErrorJson (Some ''database error''))"

text \<open>
  \<^verbatim>\<open>AuthUser\<close>: the token verifies and its version is the user's current one. Its
  rejection is a bare status.
\<close>

definition authUser :: "crates \<Rightarrow> srv \<Rightarrow> string \<Rightarrow> response + string" where
  "authUser C s token =
     (case verify_token C token of
        None \<Rightarrow> Inl (reply 401 NoJson)
      | Some (uid, ver) \<Rightarrow>
          (case find (\<lambda>u. u_id u = uid) (users s) of
             Some u \<Rightarrow> if u_token_version u = ver then Inr uid else Inl (reply 401 NoJson)
           | None \<Rightarrow> Inl (reply 401 NoJson)))"

definition profile_belongs_to_user :: "srv \<Rightarrow> string \<Rightarrow> string \<Rightarrow> bool" where
  "profile_belongs_to_user s profileId uid =
     (\<exists>p \<in> set (profile_rows s). p_id p = profileId \<and> p_user p = uid)"

subsection \<open>An instance for the witnesses\<close>

text \<open>Tokens and hashes that spell out what they were made of.\<close>

definition example_crates :: crates where
  "example_crates =
     \<lparr>issue_token = (\<lambda>uid v. Some (replicate (nat v) (CHR ''v'') @ CHR ''.'' # uid)),
      verify_token = (\<lambda>t. if t = ''tok'' then Some (''u1'', 0)
         else if dropWhile (\<lambda>c. c = CHR ''v'') t = [] then None
         else Some (tl (dropWhile (\<lambda>c. c = CHR ''v'') t), int (length (takeWhile (\<lambda>c. c = CHR ''v'') t)))),
      b64_engine_decode = (\<lambda>s. case fromBase64 s of Inl _ \<Rightarrow> None | Inr bs \<Rightarrow> Some bs),
      b64_engine_encode = toBase64,
      hash_password = (\<lambda>n k. Some (replicate n (CHR ''s'') @ CHR ''.'' # k)),
      verify_password = (\<lambda>h k. Some (dropWhile (\<lambda>c. c = CHR ''s'') h = CHR ''.'' # k)),
      uuidv7 = (\<lambda>n. CHR ''#'' # replicate n (CHR ''0''))\<rparr>"

definition example_srv :: srv where
  "example_srv =
     \<lparr>users = [\<lparr>u_id = ''u1'', u_email = ''a@b.c'', u_auth_hash = ''.key'', u_psk = ''psk'', u_token_version = 0\<rparr>],
      profile_rows = [\<lparr>p_id = ''p1'', p_user = ''u1'', p_name = ''Default'', p_metadata = []\<rparr>],
      deltas = [\<lparr>d_seq = 1, d_profile = ''p1'', d_payload = [4, 2]\<rparr>, \<lparr>d_seq = 2, d_profile = ''p1'', d_payload = [7]\<rparr>],
      snapshots = [''p1'' \<mapsto> (1, [4])], next_seq = 3, next_uuid = 0, next_salt = 0\<rparr>"

lemma example_crates_ok: "codec_ok example_crates"
  by (simp add: codec_ok_def example_crates_def base64_roundtrip)

lemma example_crates_sound: "crates_ok example_crates"
proof -
  have "\<exists>t. issue_token example_crates uid v = Some t \<and> verify_token example_crates t = Some (uid, v)" if "0 \<le> v" for uid v
  proof (cases "nat v")
    case 0
    with that show ?thesis by (simp add: example_crates_def)
  next
    case (Suc n)
    with that show ?thesis
      by (simp add: example_crates_def dropWhile_append takeWhile_append dropWhile_replicate)
  qed
  moreover have "\<exists>h. hash_password example_crates n k = Some h \<and> (\<forall>k'. verify_password example_crates h k' = Some (k' = k))" for n k
    by (auto simp: example_crates_def dropWhile_append dropWhile_replicate)
  moreover have "inj (uuidv7 example_crates)"
    by (auto simp: inj_on_def example_crates_def dest: arg_cong [where f = length])
  ultimately show ?thesis
    using example_crates_ok by (simp add: crates_ok_def)
qed

end
