(* ===== verification/Server_Accounts.thy ===== *)
theory Server_Accounts
  imports Server_Tables
begin

text \<open>
  The account and profile routes of the server (server/src/routes/auth.rs, routes/profiles.rs and
  their queries in db/queries.rs). A handler that reads, then computes and then writes in another
  transaction is two definitions, so that another request can be placed between the halves:
  \<^verbatim>\<open>register_prepare\<close> and \<^verbatim>\<open>register_insert\<close>, \<^verbatim>\<open>login_verify\<close> and \<^verbatim>\<open>login_issue\<close>,
  \<^verbatim>\<open>create_check\<close> and \<^verbatim>\<open>create_insert\<close>. change_password and delete_account lock the user row
  (SELECT FOR UPDATE) for the whole transaction and are one step.
\<close>

subsection \<open>Queries\<close>

definition find_user :: "srv \<Rightarrow> string \<Rightarrow> user_row option" where
  "find_user s uid = find (\<lambda>u. u_id u = uid) (users s)"

definition find_user_by_email :: "srv \<Rightarrow> string \<Rightarrow> user_row option" where
  "find_user_by_email s mail = find (\<lambda>u. u_email u = mail) (users s)"

text \<open>None where the insert violates users_email_key.\<close>

definition create_user :: "crates \<Rightarrow> string \<Rightarrow> string \<Rightarrow> string \<Rightarrow> srv \<Rightarrow> user_row option \<times> srv" where
  "create_user C mail auth_hash psk s =
     (let s' = s\<lparr>next_uuid := Suc (next_uuid s)\<rparr>;
          u = \<lparr>u_id = uuidv7 C (next_uuid s), u_email = mail, u_auth_hash = auth_hash, u_psk = psk,
               u_token_version = 0\<rparr>
      in if find_user_by_email s mail \<noteq> None then (None, s') else (Some u, s'\<lparr>users := users s' @ [u]\<rparr>))"

text \<open>None where the user of the foreign key is gone.\<close>

definition create_profile :: "crates \<Rightarrow> string \<Rightarrow> string \<Rightarrow> bytes \<Rightarrow> srv \<Rightarrow> profile_row option \<times> srv" where
  "create_profile C uid name metadata s =
     (let s' = s\<lparr>next_uuid := Suc (next_uuid s)\<rparr>;
          p = \<lparr>p_id = uuidv7 C (next_uuid s), p_user = uid, p_name = name, p_metadata = metadata\<rparr>
      in if find_user s uid = None then (None, s') else (Some p, s'\<lparr>profile_rows := profile_rows s' @ [p]\<rparr>))"

definition find_profiles_by_user :: "srv \<Rightarrow> string \<Rightarrow> profile_row list" where
  "find_profiles_by_user s uid = filter (\<lambda>p. p_user p = uid) (profile_rows s)"

definition count_profiles_by_user :: "srv \<Rightarrow> string \<Rightarrow> nat" where
  "count_profiles_by_user s uid = length (find_profiles_by_user s uid)"

definition rename_profile :: "string \<Rightarrow> string \<Rightarrow> string \<Rightarrow> srv \<Rightarrow> srv" where
  "rename_profile profileId uid name s =
     s\<lparr>profile_rows := map (\<lambda>p. if p_id p = profileId \<and> p_user p = uid then p\<lparr>p_name := name\<rparr> else p) (profile_rows s)\<rparr>"

text \<open>Deleting profiles deletes their deltas and snapshots (ON DELETE CASCADE), deleting a user its profiles.\<close>

definition delete_profiles_where :: "(profile_row \<Rightarrow> bool) \<Rightarrow> srv \<Rightarrow> srv" where
  "delete_profiles_where P s =
     (let gone = map p_id (filter P (profile_rows s))
      in s\<lparr>profile_rows := filter (\<lambda>p. \<not> P p) (profile_rows s),
           deltas := filter (\<lambda>d. d_profile d \<notin> set gone) (deltas s),
           snapshots := (\<lambda>p. if p \<in> set gone then None else snapshots s p)\<rparr>)"

definition delete_profile :: "string \<Rightarrow> string \<Rightarrow> srv \<Rightarrow> srv" where
  "delete_profile profileId uid = delete_profiles_where (\<lambda>p. p_id p = profileId \<and> p_user p = uid)"

definition delete_user :: "string \<Rightarrow> srv \<Rightarrow> srv" where
  "delete_user uid s =
     (delete_profiles_where (\<lambda>p. p_user p = uid) s)\<lparr>users := filter (\<lambda>u. u_id u \<noteq> uid) (users s)\<rparr>"

subsection \<open>Helpers\<close>

text \<open>\<^verbatim>\<open>str::trim\<close> removes what Unicode calls white space; up to U+00FF these are seven characters.\<close>

definition whiteSpace :: "char \<Rightarrow> bool" where
  "whiteSpace c = (let n = of_char c :: nat in (9 \<le> n \<and> n \<le> 13) \<or> n = 32 \<or> n = 133 \<or> n = 160)"

definition trimName :: "string \<Rightarrow> string" where
  "trimName s = rev (dropWhile whiteSpace (rev (dropWhile whiteSpace s)))"

definition hash_auth_key :: "crates \<Rightarrow> string \<Rightarrow> srv \<Rightarrow> (response + string) \<times> srv" where
  "hash_auth_key C auth_key s =
     (case hash_password C (next_salt s) auth_key of
        None \<Rightarrow> (Inl internalError, s\<lparr>next_salt := Suc (next_salt s)\<rparr>)
      | Some h \<Rightarrow> (Inr h, s\<lparr>next_salt := Suc (next_salt s)\<rparr>))"

definition verify_auth_key :: "crates \<Rightarrow> string \<Rightarrow> string \<Rightarrow> response + unit" where
  "verify_auth_key C auth_key stored_hash =
     (case verify_password C stored_hash auth_key of
        None \<Rightarrow> Inl internalError
      | Some ok \<Rightarrow> if ok then Inr () else Inl unauthorized)"

definition tokenReply :: "crates \<Rightarrow> string \<Rightarrow> int \<Rightarrow> (string \<Rightarrow> payload) \<Rightarrow> response" where
  "tokenReply C uid version f =
     (case issue_token C uid version of None \<Rightarrow> internalError | Some token \<Rightarrow> reply 200 (f token))"

subsection \<open>Register\<close>

record registration =
  r_email :: string
  r_name :: string
  r_metadata :: bytes
  r_hash :: string

text \<open>Everything is validated before anything is written.\<close>

definition register_prepare ::
  "crates \<Rightarrow> string \<Rightarrow> string \<Rightarrow> string \<Rightarrow> string \<Rightarrow> srv \<Rightarrow> (response + registration) \<times> srv" where
  "register_prepare C mail auth_hash profile_name metadata s =
     (let mail' = toLowerCase mail; name = trimName profile_name
      in if name = [] then (Inl (badRequest ''profile name cannot be empty''), s)
         else (case b64_engine_decode C metadata of
                 None \<Rightarrow> (Inl (badRequest ''invalid base64 for encrypted_profile_metadata''), s)
               | Some metadata_bytes \<Rightarrow>
                   if find_user_by_email s mail' \<noteq> None then (Inl (badRequest ''email already registered''), s)
                   else (case hash_auth_key C auth_hash s of
                           (Inl r, s') \<Rightarrow> (Inl r, s')
                         | (Inr stored_hash, s') \<Rightarrow>
                             (Inr \<lparr>r_email = mail', r_name = name, r_metadata = metadata_bytes, r_hash = stored_hash\<rparr>, s'))))"

text \<open>The user and the first profile in one transaction.\<close>

definition register_insert :: "crates \<Rightarrow> registration \<Rightarrow> string \<Rightarrow> srv \<Rightarrow> response \<times> srv" where
  "register_insert C r psk s =
     (case create_user C (r_email r) (r_hash r) psk s of
        (None, s') \<Rightarrow> (badRequest ''email already registered'', s')
      | (Some u, s') \<Rightarrow>
          (case create_profile C (u_id u) (r_name r) (r_metadata r) s' of
             (None, s'') \<Rightarrow> (databaseError, s\<lparr>next_uuid := next_uuid s''\<rparr>)
           | (Some p, s'') \<Rightarrow> (tokenReply C (u_id u) 0 (\<lambda>token. RegisterJson token (p_id p)), s'')))"

definition register ::
  "crates \<Rightarrow> string \<Rightarrow> string \<Rightarrow> string \<Rightarrow> string \<Rightarrow> string \<Rightarrow> srv \<Rightarrow> response \<times> srv" where
  "register C mail auth_hash profile_name metadata psk s =
     (case register_prepare C mail auth_hash profile_name metadata s of
        (Inl r, s') \<Rightarrow> (r, s')
      | (Inr r, s') \<Rightarrow> register_insert C r psk s')"

subsection \<open>Login\<close>

definition login_verify :: "crates \<Rightarrow> string \<Rightarrow> string \<Rightarrow> srv \<Rightarrow> response + user_row" where
  "login_verify C mail auth_hash s =
     (case find_user_by_email s (toLowerCase mail) of
        None \<Rightarrow> Inl unauthorized
      | Some u \<Rightarrow> (case verify_auth_key C auth_hash (u_auth_hash u) of Inl r \<Rightarrow> Inl r | Inr _ \<Rightarrow> Inr u))"

text \<open>The version of the token is read by a query of its own, the protected key is that of the verified row.\<close>

definition profileInfos :: "profile_row list \<Rightarrow> profileInfo list" where
  "profileInfos = map (\<lambda>p. \<lparr>pi_id = p_id p, pi_name = p_name p\<rparr>)"

definition login_issue :: "crates \<Rightarrow> user_row \<Rightarrow> srv \<Rightarrow> response" where
  "login_issue C u s =
     (let ps = find_profiles_by_user s (u_id u)
      in case find_user s (u_id u) of
           None \<Rightarrow> databaseError
         | Some now \<Rightarrow> tokenReply C (u_id u) (u_token_version now)
                         (\<lambda>token. LoginJson token (profileInfos ps) (Some (u_psk u))))"

definition login_account :: "crates \<Rightarrow> string \<Rightarrow> string \<Rightarrow> srv \<Rightarrow> response" where
  "login_account C mail auth_hash s =
     (case login_verify C mail auth_hash s of Inl r \<Rightarrow> r | Inr u \<Rightarrow> login_issue C u s)"

subsection \<open>Change password and delete account\<close>

text \<open>token_version is an INTEGER: PostgreSQL refuses the update that would leave its range.\<close>

definition change_password ::
  "crates \<Rightarrow> string \<Rightarrow> string \<Rightarrow> string \<Rightarrow> string \<Rightarrow> srv \<Rightarrow> response \<times> srv" where
  "change_password C uid old_auth_hash new_auth_hash new_psk s =
     (case find_user s uid of
        None \<Rightarrow> (unauthorized, s)
      | Some u \<Rightarrow>
          (case verify_auth_key C old_auth_hash (u_auth_hash u) of
             Inl r \<Rightarrow> (r, s)
           | Inr _ \<Rightarrow>
               (case hash_auth_key C new_auth_hash s of
                  (Inl r, s') \<Rightarrow> (r, s')
                | (Inr new_stored_hash, s') \<Rightarrow>
                    (let new_version = u_token_version u + 1
                     in if 2 ^ 31 \<le> new_version then (databaseError, s')
                        else (tokenReply C uid new_version TokenJson,
                              s'\<lparr>users := map (\<lambda>v. if u_id v = uid
                                     then v\<lparr>u_auth_hash := new_stored_hash, u_psk := new_psk,
                                            u_token_version := u_token_version v + 1\<rparr>
                                     else v) (users s')\<rparr>)))))"

definition delete_account :: "crates \<Rightarrow> string \<Rightarrow> string \<Rightarrow> srv \<Rightarrow> response \<times> srv" where
  "delete_account C uid auth_hash s =
     (case find_user s uid of
        None \<Rightarrow> (unauthorized, s)
      | Some u \<Rightarrow>
          (case verify_auth_key C auth_hash (u_auth_hash u) of
             Inl r \<Rightarrow> (r, s)
           | Inr _ \<Rightarrow> (reply 204 NoJson, delete_user uid s)))"

subsection \<open>Profiles\<close>

definition maxProfilesPerUser :: nat where
  "maxProfilesPerUser = 20"

definition list_profiles :: "string \<Rightarrow> srv \<Rightarrow> response" where
  "list_profiles uid s = reply 200 (ProfilesJson (profileInfos (find_profiles_by_user s uid)))"

definition create_check :: "crates \<Rightarrow> string \<Rightarrow> string \<Rightarrow> string \<Rightarrow> srv \<Rightarrow> response + bytes" where
  "create_check C uid name metadata s =
     (if trimName name = [] then Inl (badRequest ''profile name cannot be empty'')
      else if maxProfilesPerUser \<le> count_profiles_by_user s uid
      then Inl (badRequest ''cannot exceed 20 profiles per account'')
      else (case b64_engine_decode C metadata of
              None \<Rightarrow> Inl (badRequest ''invalid base64 for encrypted_metadata'')
            | Some data \<Rightarrow> Inr data))"

definition create_insert :: "crates \<Rightarrow> string \<Rightarrow> string \<Rightarrow> bytes \<Rightarrow> srv \<Rightarrow> response \<times> srv" where
  "create_insert C uid name data s =
     (case create_profile C uid (trimName name) data s of
        (None, s') \<Rightarrow> (databaseError, s')
      | (Some p, s') \<Rightarrow> (reply 200 (ProfileJson \<lparr>pi_id = p_id p, pi_name = p_name p\<rparr>), s'))"

definition create_profile_route :: "crates \<Rightarrow> string \<Rightarrow> string \<Rightarrow> string \<Rightarrow> srv \<Rightarrow> response \<times> srv" where
  "create_profile_route C uid name metadata s =
     (case create_check C uid name metadata s of
        Inl r \<Rightarrow> (r, s)
      | Inr data \<Rightarrow> create_insert C uid name data s)"

definition rename_profile_route :: "string \<Rightarrow> string \<Rightarrow> string \<Rightarrow> srv \<Rightarrow> response \<times> srv" where
  "rename_profile_route uid profileId name s =
     (if trimName name = [] then (badRequest ''profile name cannot be empty'', s)
      else if \<not> profile_belongs_to_user s profileId uid then (forbidden, s)
      else (reply 204 NoJson, rename_profile profileId uid (trimName name) s))"

definition delete_profile_route :: "string \<Rightarrow> string \<Rightarrow> srv \<Rightarrow> response \<times> srv" where
  "delete_profile_route uid profileId s =
     (if \<not> profile_belongs_to_user s profileId uid then (forbidden, s)
      else (reply 204 NoJson, delete_profile profileId uid s))"

subsection \<open>What the handlers do to the tables\<close>

lemma authUser_Inr_iff:
  "authUser C s token = Inr uid \<longleftrightarrow>
     (\<exists>ver u. verify_token C token = Some (uid, ver) \<and> find_user s uid = Some u \<and> u_token_version u = ver)"
  by (auto simp: authUser_def find_user_def split: option.splits prod.splits if_splits)

lemma find_user_Some: "find_user s uid = Some u \<Longrightarrow> u \<in> set (users s) \<and> u_id u = uid"
  by (auto simp: find_user_def find_Some_iff)

lemma find_user_None: "find_user s uid = None \<longleftrightarrow> uid \<notin> u_id ` set (users s)"
  by (auto simp: find_user_def find_None_iff)

lemma find_user_by_email_Some: "find_user_by_email s mail = Some u \<Longrightarrow> u \<in> set (users s) \<and> u_email u = mail"
  by (auto simp: find_user_by_email_def find_Some_iff)

lemma find_user_by_email_None: "find_user_by_email s mail = None \<longleftrightarrow> mail \<notin> u_email ` set (users s)"
  by (auto simp: find_user_by_email_def find_None_iff)

lemma delete_profiles_where_simps [simp]:
  "users (delete_profiles_where P s) = users s"
  "profile_rows (delete_profiles_where P s) = filter (\<lambda>p. \<not> P p) (profile_rows s)"
  "next_seq (delete_profiles_where P s) = next_seq s"
  "next_uuid (delete_profiles_where P s) = next_uuid s"
  by (simp_all add: delete_profiles_where_def Let_def)

lemma deltas_delete_profiles_where:
  "deltas (delete_profiles_where P s) = filter (\<lambda>d. d_profile d \<notin> p_id ` {p \<in> set (profile_rows s). P p}) (deltas s)"
  by (simp add: delete_profiles_where_def Let_def)

lemma snapshots_delete_profiles_where:
  "snapshots (delete_profiles_where P s) q =
     (if q \<in> p_id ` {p \<in> set (profile_rows s). P p} then None else snapshots s q)"
  by (simp add: delete_profiles_where_def Let_def)

end
