(* ===== verification/Server.thy ===== *)
theory Server
  imports Server_Accounts
begin

text \<open>
  The sync routes of the server (server/src/routes/sync.rs, db/queries.rs): the push, pull and
  snapshot handlers. \<^verbatim>\<open>serve\<close> routes every request of Http.thy, the account and profile
  handlers of Server_Accounts.thy included, and is the \<^verbatim>\<open>fetch\<close> the client's end-to-end theorems
  are stated over.
  A push allocates its sequence id at INSERT and becomes visible at COMMIT (sequences of
  PostgreSQL are not transactional), so it is two steps: \<^verbatim>\<open>push_insert\<close> and \<^verbatim>\<open>push_commit\<close>.
\<close>

subsection \<open>Push\<close>

text \<open>INSERT takes the next value of the sequence; COMMIT makes the row visible.\<close>

definition push_insert :: "string \<Rightarrow> bytes \<Rightarrow> srv \<Rightarrow> delta_row \<times> srv" where
  "push_insert profileId data s =
     (\<lparr>d_seq = next_seq s, d_profile = profileId, d_payload = data\<rparr>, s\<lparr>next_seq := next_seq s + 1\<rparr>)"

definition push_commit :: "delta_row \<Rightarrow> srv \<Rightarrow> srv" where
  "push_commit row s = s\<lparr>deltas := deltas s @ [row]\<rparr>"

definition push :: "crates \<Rightarrow> string \<Rightarrow> string \<Rightarrow> string \<Rightarrow> srv \<Rightarrow> response \<times> srv" where
  "push C uid profileId encrypted_delta s =
     (if \<not> profile_belongs_to_user s profileId uid then (forbidden, s)
      else (case b64_engine_decode C encrypted_delta of
              None \<Rightarrow> (badRequest ''invalid base64 for encrypted_delta'', s)
            | Some data \<Rightarrow>
                (case push_insert profileId data s of
                   (row, s') \<Rightarrow> (reply 200 (PushJson (d_seq row)), push_commit row s'))))"

subsection \<open>Pull\<close>

definition rows_since :: "srv \<Rightarrow> string \<Rightarrow> int \<Rightarrow> delta_row list" where
  "rows_since s profileId since_seq =
     sort_key d_seq (filter (\<lambda>d. d_profile d = profileId \<and> since_seq < d_seq d) (deltas s))"

text \<open>One row more than a page is selected to see whether another page exists.\<close>

definition fetch_deltas_since :: "srv \<Rightarrow> string \<Rightarrow> int \<Rightarrow> delta_row list \<times> bool" where
  "fetch_deltas_since s profileId since_seq =
     (let rows = take 501 (rows_since s profileId since_seq)
      in (take 500 rows, length rows > 500))"

definition pull :: "crates \<Rightarrow> string \<Rightarrow> string \<Rightarrow> int \<Rightarrow> srv \<Rightarrow> response" where
  "pull C uid profileId since_seq s =
     (if since_seq < 0 then badRequest ''since_seq must be >= 0''
      else if \<not> profile_belongs_to_user s profileId uid then forbidden
      else (case fetch_deltas_since s profileId since_seq of
              (rows, has_more) \<Rightarrow>
                reply 200 (PullJson (map (\<lambda>d. (d_seq d, b64_engine_encode C (d_payload d))) rows)
                             (Some has_more))))"

subsection \<open>Snapshots\<close>

definition get_snapshot :: "crates \<Rightarrow> string \<Rightarrow> string \<Rightarrow> srv \<Rightarrow> response" where
  "get_snapshot C uid profileId s =
     (if \<not> profile_belongs_to_user s profileId uid then forbidden
      else (case snapshots s profileId of
              Some (n, data) \<Rightarrow> reply 200 (SnapshotJson n (b64_engine_encode C data))
            | None \<Rightarrow> reply 404 (ErrorJson (Some ''not found''))))"

definition max_sequence_id :: "srv \<Rightarrow> string \<Rightarrow> int option" where
  "max_sequence_id s profileId =
     (case map d_seq (filter (\<lambda>d. d_profile d = profileId) (deltas s)) of
        [] \<Rightarrow> None | n # ns \<Rightarrow> Some (fold max ns n))"

text \<open>The upsert only moves forward.\<close>

definition upsert_profile_snapshot :: "string \<Rightarrow> int \<Rightarrow> bytes \<Rightarrow> srv \<Rightarrow> srv" where
  "upsert_profile_snapshot profileId n data s =
     (case snapshots s profileId of
        Some (m, old) \<Rightarrow> if m < n then s\<lparr>snapshots := (snapshots s)(profileId \<mapsto> (n, data))\<rparr> else s
      | None \<Rightarrow> s\<lparr>snapshots := (snapshots s)(profileId \<mapsto> (n, data))\<rparr>)"

definition put_snapshot ::
  "crates \<Rightarrow> string \<Rightarrow> string \<Rightarrow> int \<Rightarrow> string \<Rightarrow> srv \<Rightarrow> response \<times> srv" where
  "put_snapshot C uid profileId snapshot_seq encrypted_payload s =
     (if \<not> profile_belongs_to_user s profileId uid then (forbidden, s)
      else (case max_sequence_id s profileId of
              None \<Rightarrow> (badRequest ''no deltas exist for this profile'', s)
            | Some mx \<Rightarrow>
                if mx < snapshot_seq then (badRequest ''snapshot_seq exceeds the latest committed delta'', s)
                else (case b64_engine_decode C encrypted_payload of
                        None \<Rightarrow> (badRequest ''invalid base64 for encrypted_payload'', s)
                      | Some data \<Rightarrow> (reply 204 NoJson, upsert_profile_snapshot profileId snapshot_seq data s))))"

subsection \<open>Routing\<close>

definition serve :: "crates \<Rightarrow> srv fetch" where
  "serve C req s =
     (let withUser = (\<lambda>token k. case authUser C s token of Inl r \<Rightarrow> (Inr r, s)
                        | Inr uid \<Rightarrow> (case k uid of (r, s') \<Rightarrow> (Inr r, s')))
      in (case req of
            PostRegister mail auth name metadata psk \<Rightarrow>
              (case register C mail auth name metadata psk s of (r, s') \<Rightarrow> (Inr r, s'))
          | PostLogin mail auth \<Rightarrow> (Inr (login_account C mail auth s), s)
          | PostChangePassword token old new psk \<Rightarrow> withUser token (\<lambda>uid. change_password C uid old new psk s)
          | DeleteAccount token auth \<Rightarrow> withUser token (\<lambda>uid. delete_account C uid auth s)
          | GetProfiles token \<Rightarrow> withUser token (\<lambda>uid. (list_profiles uid s, s))
          | PostProfile token name metadata \<Rightarrow> withUser token (\<lambda>uid. create_profile_route C uid name metadata s)
          | PatchProfile token profileId name \<Rightarrow> withUser token (\<lambda>uid. rename_profile_route uid profileId name s)
          | DeleteProfile token profileId \<Rightarrow> withUser token (\<lambda>uid. delete_profile_route uid profileId s)
          | PostPush token profileId delta \<Rightarrow> withUser token (\<lambda>uid. push C uid profileId delta s)
          | GetPull token profileId since \<Rightarrow> withUser token (\<lambda>uid. (pull C uid profileId since s, s))
          | GetSnapshot token profileId \<Rightarrow> withUser token (\<lambda>uid. (get_snapshot C uid profileId s, s))
          | PutSnapshot token profileId n data \<Rightarrow> withUser token (\<lambda>uid. put_snapshot C uid profileId n data s)))"

subsection \<open>Invariant\<close>

text \<open>Ids are unique and below the next value of the sequence, and a snapshot covers committed rows.\<close>

definition srv_ok :: "srv \<Rightarrow> bool" where
  "srv_ok s \<longleftrightarrow> distinct (map d_seq (deltas s)) \<and> (\<forall>d \<in> set (deltas s). 0 < d_seq d \<and> d_seq d < next_seq s)
     \<and> 0 < next_seq s
     \<and> (\<forall>p n data. snapshots s p = Some (n, data) \<longrightarrow> (\<exists>m. max_sequence_id s p = Some m \<and> n \<le> m))"

lemma fold_max_mem: "fold max ns (n :: int) \<in> insert n (set ns) \<and> (\<forall>x \<in> insert n (set ns). x \<le> fold max ns n)"
proof (induction ns arbitrary: n)
  case (Cons a ns)
  from Cons [of "max a n"] show ?case by (auto simp: max_def split: if_splits)
qed simp

lemma max_sequence_id_Some_iff:
  "max_sequence_id s p = Some m \<longleftrightarrow>
     (\<exists>d \<in> set (deltas s). d_profile d = p \<and> d_seq d = m)
     \<and> (\<forall>d \<in> set (deltas s). d_profile d = p \<longrightarrow> d_seq d \<le> m)"
proof (cases "map d_seq (filter (\<lambda>d. d_profile d = p) (deltas s))")
  case Nil
  then show ?thesis by (auto simp: max_sequence_id_def filter_empty_conv)
next
  case (Cons n ns)
  let ?S = "set (n # ns)"
  have S: "?S = d_seq ` {d \<in> set (deltas s). d_profile d = p}"
    unfolding Cons [symmetric] by simp
  have "max_sequence_id s p = Some (fold max ns n)"
    by (simp add: max_sequence_id_def Cons)
  moreover have "fold max ns n = m \<longleftrightarrow> m \<in> ?S \<and> (\<forall>x \<in> ?S. x \<le> m)"
    using fold_max_mem [of ns n] by (metis antisym list.simps(15))
  moreover have "(m \<in> ?S \<and> (\<forall>x \<in> ?S. x \<le> m)) \<longleftrightarrow>
      (\<exists>d \<in> set (deltas s). d_profile d = p \<and> d_seq d = m)
      \<and> (\<forall>d \<in> set (deltas s). d_profile d = p \<longrightarrow> d_seq d \<le> m)"
    unfolding S by blast
  ultimately show ?thesis by simp
qed

definition appended :: "string \<Rightarrow> bytes \<Rightarrow> srv \<Rightarrow> srv" where
  "appended p data s =
     s\<lparr>deltas := deltas s @ [\<lparr>d_seq = next_seq s, d_profile = p, d_payload = data\<rparr>], next_seq := next_seq s + 1\<rparr>"

lemma appended_simps [simp]:
  "deltas (appended p data s) = deltas s @ [\<lparr>d_seq = next_seq s, d_profile = p, d_payload = data\<rparr>]"
  "next_seq (appended p data s) = next_seq s + 1" "snapshots (appended p data s) = snapshots s"
  "users (appended p data s) = users s" "profile_rows (appended p data s) = profile_rows s"
  "next_uuid (appended p data s) = next_uuid s"
  by (simp_all add: appended_def)

lemma push_commit_insert: "push_insert p data s = (row, s') \<Longrightarrow> push_commit row s' = appended p data s"
  by (auto simp: push_insert_def push_commit_def appended_def)

lemma push_commit_simps [simp]:
  "deltas (push_commit row s) = deltas s @ [row]" "next_seq (push_commit row s) = next_seq s"
  "snapshots (push_commit row s) = snapshots s" "users (push_commit row s) = users s"
  "profile_rows (push_commit row s) = profile_rows s"
  by (simp_all add: push_commit_def)

text \<open>Committing keeps the invariant at any time after the insert that drew the id.\<close>

lemma srv_ok_commit:
  assumes "srv_ok s" and "d_seq row \<notin> d_seq ` set (deltas s)" and "0 < d_seq row" and "d_seq row < next_seq s"
  shows "srv_ok (push_commit row s)"
proof -
  let ?t = "push_commit row s"
  have "\<exists>m'. max_sequence_id ?t q = Some m' \<and> n \<le> m'" if "snapshots s q = Some (n, d)" for q n d
  proof -
    from that assms(1) obtain m where m: "max_sequence_id s q = Some m" "n \<le> m"
      unfolding srv_ok_def by blast
    then have "max_sequence_id ?t q = Some (if q = d_profile row then max m (d_seq row) else m)"
      by (auto simp: max_sequence_id_Some_iff max_def)
    then show ?thesis using m(2) by (auto simp: max_def)
  qed
  then show ?thesis
    using assms by (auto simp: srv_ok_def)
qed

lemma srv_ok_next: "srv_ok s \<Longrightarrow> srv_ok (s\<lparr>next_seq := next_seq s + 1\<rparr>)"
  by (auto simp: srv_ok_def max_sequence_id_def)

lemma srv_ok_appended:
  assumes "srv_ok s"
  shows "srv_ok (appended p data s)"
proof -
  let ?s = "s\<lparr>next_seq := next_seq s + 1\<rparr>" and ?row = "\<lparr>d_seq = next_seq s, d_profile = p, d_payload = data\<rparr>"
  have "srv_ok (push_commit ?row ?s)"
    using srv_ok_next [OF assms] assms by (intro srv_ok_commit) (auto simp: srv_ok_def)
  moreover have "push_commit ?row ?s = appended p data s"
    by (simp add: push_commit_def appended_def)
  ultimately show ?thesis by simp
qed

lemma srv_ok_push_commit: "srv_ok s \<Longrightarrow> push_insert p data s = (row, s') \<Longrightarrow> srv_ok (push_commit row s')"
  by (simp add: push_commit_insert srv_ok_appended)

lemma srv_ok_upsert:
  assumes "srv_ok s" and "max_sequence_id s p = Some m" and "n \<le> m"
  shows "srv_ok (upsert_profile_snapshot p n data s)"
proof -
  have max_eq: "max_sequence_id (s\<lparr>snapshots := f\<rparr>) q = max_sequence_id s q" for f q
    by (simp add: max_sequence_id_def)
  show ?thesis
    using assms by (auto simp: srv_ok_def upsert_profile_snapshot_def max_eq split: option.splits)
qed

text \<open>A profile that is deleted takes its deltas and its snapshot along, the others keep theirs.\<close>

lemma max_sequence_id_deleted:
  assumes "q \<notin> p_id ` {p \<in> set (profile_rows s). P p}"
  shows "max_sequence_id (delete_profiles_where P s) q = max_sequence_id s q"
proof -
  have "filter (\<lambda>d. d_profile d = q) (deltas (delete_profiles_where P s)) = filter (\<lambda>d. d_profile d = q) (deltas s)"
    unfolding deltas_delete_profiles_where filter_filter using assms by (intro filter_cong refl) blast
  then show ?thesis by (simp add: max_sequence_id_def)
qed

lemma srv_ok_delete_profiles_where: "srv_ok s \<Longrightarrow> srv_ok (delete_profiles_where P s)"
  by (auto simp: srv_ok_def deltas_delete_profiles_where snapshots_delete_profiles_where max_sequence_id_deleted
      distinct_map inj_on_def)

subsection \<open>The writes of a request\<close>

text \<open>
  Whatever a handler does to the tables is a sequence of these writes, on behalf of the user the
  request was authenticated for (None for the register route). Every invariant is proved write by
  write and holds for the handlers by \<^verbatim>\<open>serve_writes\<close>.
\<close>

inductive table_write :: "crates \<Rightarrow> string option \<Rightarrow> srv \<Rightarrow> srv \<Rightarrow> bool" for C :: crates where
  Salt: "table_write C a s (s\<lparr>next_salt := Suc (next_salt s)\<rparr>)"
| SignUp: "find_user_by_email s mail = None \<Longrightarrow> toLowerCase mail = mail \<Longrightarrow>
    u = \<lparr>u_id = uuidv7 C (next_uuid s), u_email = mail, u_auth_hash = h, u_psk = psk, u_token_version = 0\<rparr> \<Longrightarrow>
    p = \<lparr>p_id = uuidv7 C (Suc (next_uuid s)), p_user = u_id u, p_name = name, p_metadata = data\<rparr> \<Longrightarrow>
    table_write C None s (s\<lparr>users := users s @ [u], profile_rows := profile_rows s @ [p],
                            next_uuid := Suc (Suc (next_uuid s))\<rparr>)"
| Password: "find_user s uid = Some u \<Longrightarrow> u_token_version u + 1 < 2 ^ 31 \<Longrightarrow>
    table_write C (Some uid) s
      (s\<lparr>users := map (\<lambda>v. if u_id v = uid
            then v\<lparr>u_auth_hash := h, u_psk := psk, u_token_version := u_token_version v + 1\<rparr> else v) (users s)\<rparr>)"
| Leave: "table_write C (Some uid) s (delete_user uid s)"
| Create: "find_user s uid \<noteq> None \<Longrightarrow> count_profiles_by_user s uid < maxProfilesPerUser \<Longrightarrow>
    p = \<lparr>p_id = uuidv7 C (next_uuid s), p_user = uid, p_name = name, p_metadata = data\<rparr> \<Longrightarrow>
    table_write C (Some uid) s (s\<lparr>next_uuid := Suc (next_uuid s), profile_rows := profile_rows s @ [p]\<rparr>)"
| Rename: "table_write C (Some uid) s (rename_profile profileId uid name s)"
| Drop: "table_write C (Some uid) s (delete_profile profileId uid s)"
| Push: "profile_belongs_to_user s profileId uid \<Longrightarrow> table_write C (Some uid) s (appended profileId data s)"
| Snapshot: "profile_belongs_to_user s profileId uid \<Longrightarrow> max_sequence_id s profileId = Some m \<Longrightarrow> n \<le> m \<Longrightarrow>
    table_write C (Some uid) s (upsert_profile_snapshot profileId n data s)"

abbreviation table_writes :: "crates \<Rightarrow> string option \<Rightarrow> srv \<Rightarrow> srv \<Rightarrow> bool" where
  "table_writes C a \<equiv> (table_write C a)\<^sup>*\<^sup>*"

lemma hash_auth_key_cases:
  assumes "hash_auth_key C k s = (r, s')"
  shows "s' = s\<lparr>next_salt := Suc (next_salt s)\<rparr>"
  using assms by (auto simp: hash_auth_key_def split: option.splits)

lemma register_writes: "table_writes C None s (snd (register C mail auth name metadata psk s))"
proof (cases "register_prepare C mail auth name metadata s")
  case (Pair r s')
  show ?thesis
  proof (cases r)
    case (Inl e)
    have "s' = s \<or> s' = s\<lparr>next_salt := Suc (next_salt s)\<rparr>"
      using Pair Inl by (auto simp: register_prepare_def Let_def dest: hash_auth_key_cases
          split: if_splits option.splits sum.splits prod.splits)
    then show ?thesis using Pair Inl table_write.Salt [of C None s] by (auto simp: register_def)
  next
    case (Inr reg)
    then have s': "s' = s\<lparr>next_salt := Suc (next_salt s)\<rparr>" and "find_user_by_email s (r_email reg) = None"
        and "toLowerCase (r_email reg) = r_email reg"
      using Pair by (auto simp: register_prepare_def Let_def toLowerCase_def o_def dest: hash_auth_key_cases
          split: if_splits option.splits sum.splits prod.splits)
    then have new: "find_user_by_email s' (r_email reg) = None" "toLowerCase (r_email reg) = r_email reg"
      by (simp_all add: find_user_by_email_def)
    let ?u = "\<lparr>u_id = uuidv7 C (next_uuid s'), u_email = r_email reg, u_auth_hash = r_hash reg, u_psk = psk, u_token_version = 0\<rparr>"
    let ?p = "\<lparr>p_id = uuidv7 C (Suc (next_uuid s')), p_user = u_id ?u, p_name = r_name reg, p_metadata = r_metadata reg\<rparr>"
    have "snd (register_insert C reg psk s') =
        s'\<lparr>users := users s' @ [?u], profile_rows := profile_rows s' @ [?p], next_uuid := Suc (Suc (next_uuid s'))\<rparr>"
      using new(1) by (simp add: register_insert_def create_user_def create_profile_def Let_def find_user_None)
    with table_write.SignUp [OF new refl refl] have "table_write C None s' (snd (register_insert C reg psk s'))"
      by simp
    moreover have "table_write C None s s'" unfolding s' by (rule table_write.Salt)
    ultimately have "table_writes C None s (snd (register_insert C reg psk s'))" by (meson converse_rtranclp_into_rtranclp r_into_rtranclp)
    then show ?thesis using Pair Inr by (simp add: register_def)
  qed
qed

lemma change_password_writes: "table_writes C (Some uid) s (snd (change_password C uid old new psk s))"
proof (cases "find_user s uid")
  case (Some u)
  obtain r s' where h: "hash_auth_key C new s = (r, s')" by (cases "hash_auth_key C new s")
  from hash_auth_key_cases [OF this] have s': "s' = s\<lparr>next_salt := Suc (next_salt s)\<rparr>" .
  have w: "table_write C (Some uid) s s'" unfolding s' by (rule table_write.Salt)
  have u: "find_user s' uid = Some u" using Some by (simp add: s' find_user_def)
  have "snd (change_password C uid old new psk s) \<in> {s, s'} \<or> u_token_version u + 1 < 2 ^ 31 \<and>
      snd (change_password C uid old new psk s) = s'\<lparr>users := map (\<lambda>v. if u_id v = uid
            then v\<lparr>u_auth_hash := projr r, u_psk := psk, u_token_version := u_token_version v + 1\<rparr> else v) (users s')\<rparr>"
    using Some h by (cases "verify_auth_key C old (u_auth_hash u)"; cases r) (simp_all add: change_password_def Let_def)
  then consider "snd (change_password C uid old new psk s) \<in> {s, s'}"
    | "u_token_version u + 1 < 2 ^ 31" "snd (change_password C uid old new psk s) =
        s'\<lparr>users := map (\<lambda>v. if u_id v = uid
            then v\<lparr>u_auth_hash := projr r, u_psk := psk, u_token_version := u_token_version v + 1\<rparr> else v) (users s')\<rparr>"
    by blast
  then show ?thesis
  proof cases
    case 1
    then show ?thesis using w by auto
  next
    case 2
    from table_write.Password [OF u 2(1)] w show ?thesis
      unfolding 2(2) by (meson converse_rtranclp_into_rtranclp r_into_rtranclp)
  qed
qed (simp add: change_password_def)

lemma create_profile_writes: "table_writes C (Some uid) s (snd (create_profile_route C uid name metadata s))"
  if "find_user s uid \<noteq> None"
  using that table_write.Create [OF that _ refl, of C]
  by (auto simp: create_profile_route_def create_check_def create_insert_def create_profile_def Let_def r_into_rtranclp
      split: option.splits)

lemma push_writes: "table_writes C (Some uid) s (snd (push C uid profileId delta s))"
  using table_write.Push [of s profileId uid C]
  by (auto simp: push_def push_commit_insert r_into_rtranclp split: option.splits prod.splits)

lemma put_snapshot_writes: "table_writes C (Some uid) s (snd (put_snapshot C uid profileId n data s))"
  using table_write.Snapshot [of s profileId uid] by (simp add: put_snapshot_def r_into_rtranclp split: option.splits)

lemma delete_account_writes: "table_writes C (Some uid) s (snd (delete_account C uid auth s))"
  using r_into_rtranclp [of "table_write C (Some uid)", OF table_write.Leave]
  by (simp add: delete_account_def split: option.splits sum.splits)

lemma rename_profile_writes: "table_writes C (Some uid) s (snd (rename_profile_route uid profileId name s))"
  using r_into_rtranclp [of "table_write C (Some uid)", OF table_write.Rename] by (simp add: rename_profile_route_def)

lemma delete_profile_writes: "table_writes C (Some uid) s (snd (delete_profile_route uid profileId s))"
  using r_into_rtranclp [of "table_write C (Some uid)", OF table_write.Drop] by (simp add: delete_profile_route_def)

lemmas handler_writes = change_password_writes create_profile_writes push_writes put_snapshot_writes
  delete_account_writes rename_profile_writes delete_profile_writes

text \<open>Who a request acts for.\<close>

fun tokenOf :: "request \<Rightarrow> string option" where
  "tokenOf (PostRegister _ _ _ _ _) = None"
| "tokenOf (PostLogin _ _) = None"
| "tokenOf (GetProfiles token) = Some token"
| "tokenOf (PostProfile token _ _) = Some token"
| "tokenOf (PatchProfile token _ _) = Some token"
| "tokenOf (DeleteProfile token _) = Some token"
| "tokenOf (DeleteAccount token _) = Some token"
| "tokenOf (PostChangePassword token _ _ _) = Some token"
| "tokenOf (GetSnapshot token _) = Some token"
| "tokenOf (PutSnapshot token _ _ _) = Some token"
| "tokenOf (PostPush token _ _) = Some token"
| "tokenOf (GetPull token _ _) = Some token"

lemma serve_refused:
  "tokenOf req = Some token \<Longrightarrow> authUser C s token = Inl r \<Longrightarrow> serve C req s = (Inr r, s)"
  by (cases req) (simp_all add: serve_def)

lemma serve_writes:
  assumes "tokenOf req = Some token" and "authUser C s token = Inr uid"
  shows "table_writes C (Some uid) s (snd (serve C req s))"
proof -
  have "find_user s uid \<noteq> None" using assms(2) by (auto simp: authUser_Inr_iff)
  with assms show ?thesis
    by (cases req) (auto simp: serve_def split_beta intro: handler_writes)
qed

text \<open>What every write keeps, every request keeps.\<close>

lemma serve_keeps:
  assumes step: "\<And>a s t. table_write C a s t \<Longrightarrow> I s \<Longrightarrow> I t" and "I s"
  shows "I (snd (serve C req s))"
proof -
  have many: "I t" if "table_writes C a s t" for a t
    using that assms(2) by (induction rule: rtranclp_induct) (auto intro: step)
  show ?thesis
  proof (cases "tokenOf req")
    case None
    then show ?thesis
      using many [OF register_writes] assms(2) by (cases req) (simp_all add: serve_def split_beta)
  next
    case (Some token)
    then show ?thesis
      using many [OF serve_writes [OF Some]] assms(2) by (cases "authUser C s token") (simp_all add: serve_refused)
  qed
qed

subsection \<open>Sequence ids and snapshots\<close>

lemma srv_ok_cong:
  "deltas t = deltas s \<Longrightarrow> snapshots t = snapshots s \<Longrightarrow> next_seq t = next_seq s \<Longrightarrow> srv_ok t = srv_ok s"
  by (simp add: srv_ok_def max_sequence_id_def)

lemma srv_ok_write: "table_write C a s t \<Longrightarrow> srv_ok s \<Longrightarrow> srv_ok t"
proof (induction rule: table_write.induct)
  case (Leave uid s)
  then have "srv_ok (delete_profiles_where (\<lambda>p. p_user p = uid) s)" by (simp add: srv_ok_delete_profiles_where)
  then show ?case by (subst srv_ok_cong) (simp_all add: delete_user_def)
qed (auto simp: rename_profile_def delete_profile_def srv_ok_delete_profiles_where srv_ok_appended srv_ok_upsert
    intro: srv_ok_cong [THEN iffD2])

lemma srv_ok_serve: "srv_ok s \<Longrightarrow> srv_ok (snd (serve C req s))"
  by (rule serve_keeps [OF srv_ok_write])

lemma next_seq_serve: "n \<le> next_seq s \<Longrightarrow> n \<le> next_seq (snd (serve C req s))"
proof (rule serve_keeps [where I = "\<lambda>s. n \<le> next_seq s"])
  show "n \<le> next_seq t" if "table_write C a s t" and "n \<le> next_seq s" for a s t
    using that by cases (auto simp: rename_profile_def delete_profile_def delete_user_def upsert_profile_snapshot_def
        split: option.splits)
qed

lemma example_srv_ok: "srv_ok example_srv"
  by (auto simp: srv_ok_def example_srv_def max_sequence_id_def)

end
