(* ===== verification/Sync_Protocol.thy ===== *)
theory Sync_Protocol
  imports Server
begin

text \<open>
  The client's push and pull (Sync_Client.thy) run against the server of Server.thy: paging
  is complete, a pushed delta is pulled as the bytes it was queued with, snapshots only move
  forward, and what the sequence ids do not guarantee when two pushes overlap.
\<close>

subsection \<open>A page and what is left after it\<close>

definition profile_rows_since :: "srv \<Rightarrow> string \<Rightarrow> int \<Rightarrow> delta_row set" where
  "profile_rows_since s p since = {d \<in> set (deltas s). d_profile d = p \<and> since < d_seq d}"

lemma set_rows_since [simp]: "set (rows_since s p since) = profile_rows_since s p since"
  by (auto simp: rows_since_def profile_rows_since_def)

lemma sorted_map_last: "sorted (map f xs) \<Longrightarrow> x \<in> set xs \<Longrightarrow> f x \<le> f (last xs)"
  by (induction xs) auto

lemma rows_since_ascending:
  assumes "srv_ok s"
  shows "sorted_wrt (<) (map d_seq (rows_since s p since))"
proof -
  have "distinct (map d_seq (rows_since s p since))"
    using assms by (auto simp: srv_ok_def rows_since_def distinct_map intro: inj_on_subset)
  then show ?thesis
    by (simp add: strict_sorted_iff) (simp add: rows_since_def)
qed

lemma filter_after_take:
  fixes f :: "'a \<Rightarrow> int"
  assumes "sorted_wrt (<) (map f xs)" and "0 < k" and "k \<le> length xs"
  shows "filter (\<lambda>x. f (xs ! (k - 1)) < f x) xs = drop k xs"
proof -
  have lt: "f (xs ! i) < f (xs ! j)" if "i < j" "j < length xs" for i j
    using assms(1) that by (auto simp: sorted_wrt_iff_nth_less)
  have le: "f (xs ! i) \<le> f (xs ! (k - 1))" if "i < k" for i
  proof (cases "i = k - 1")
    case False
    with that assms(3) have "i < k - 1" "k - 1 < length xs" by auto
    from lt [OF this] show ?thesis by simp
  qed simp
  have "filter (\<lambda>x. f (xs ! (k - 1)) < f x) (take k xs) = []"
    using le by (force simp: filter_empty_conv in_set_conv_nth)
  moreover have "filter (\<lambda>x. f (xs ! (k - 1)) < f x) (drop k xs) = drop k xs"
    using lt [of "k - 1"] assms(2) by (auto simp: filter_id_conv in_set_conv_nth)
  ultimately show ?thesis
    by (metis append_take_drop_id filter_append self_append_conv2)
qed

lemma rows_since_next_page:
  assumes "srv_ok s" and "0 < k" and "k \<le> length (rows_since s p since)"
  shows "rows_since s p (d_seq (rows_since s p since ! (k - 1))) = drop k (rows_since s p since)"
proof -
  let ?R = "rows_since s p since"
  let ?c = "d_seq (?R ! (k - 1))"
  have "?R ! (k - 1) \<in> set ?R"
    using assms(2,3) by (intro nth_mem) simp
  then have "since < ?c"
    by (simp add: profile_rows_since_def)
  then have "rows_since s p ?c = filter (\<lambda>d. ?c < d_seq d) ?R"
    by (auto simp: rows_since_def filter_sort intro!: arg_cong [where f = "sort_key d_seq"] filter_cong)
  with filter_after_take [OF rows_since_ascending [OF assms(1)] assms(2,3)] show ?thesis by simp
qed

subsection \<open>Pull\<close>

lemma serve_pull:
  assumes "authUser C s token = Inr uid" and "profile_belongs_to_user s p uid" and "0 \<le> since"
  shows "serve C (GetPull token p since) s =
    (Inr (reply 200 (PullJson (map (\<lambda>d. (d_seq d, b64_engine_encode C (d_payload d)))
        (take 500 (rows_since s p since))) (Some (500 < length (rows_since s p since))))), s)"
  using assms by (simp add: serve_def pull_def fetch_deltas_since_def Let_def min_def)

text \<open>
  The hypotheses of a pull: the token is the current one of the profile's owner, and every
  stored payload after the cursor opens under the client's key (\<^verbatim>\<open>plain\<close> is what it opens to).
\<close>

definition can_pull ::
  "crates \<Rightarrow> webcrypto \<Rightarrow> srv \<Rightarrow> string \<Rightarrow> string \<Rightarrow> bytes \<Rightarrow> int \<Rightarrow> (delta_row \<Rightarrow> bytes) \<Rightarrow> bool" where
  "can_pull C W s token p key since plain \<longleftrightarrow>
     srv_ok s \<and> codec_ok C \<and> 0 \<le> since
     \<and> (\<exists>uid. authUser C s token = Inr uid \<and> profile_belongs_to_user s p uid)
     \<and> (\<forall>d \<in> profile_rows_since s p since. decrypt W key (toBase64 (d_payload d)) = Inr (plain d))"

definition opened :: "(delta_row \<Rightarrow> bytes) \<Rightarrow> delta_row \<Rightarrow> rawDelta" where
  "opened plain d = \<lparr>sequenceId = d_seq d, payload = plain d\<rparr>"

lemma can_pull_page:
  assumes "can_pull C W s token p key since plain" and "set rows \<subseteq> profile_rows_since s p since"
  shows "mapE (decryptEntry W key) (map (\<lambda>d. (d_seq d, b64_engine_encode C (d_payload d))) rows)
           = Inr (map (opened plain) rows)"
proof -
  have "decryptEntry W key (d_seq d, b64_engine_encode C (d_payload d)) = Inr (opened plain d)"
    if "d \<in> set rows" for d
    using assms that by (auto simp: can_pull_def codec_ok_def decryptEntry_def opened_def)
  then show ?thesis
    by (induction rows) auto
qed

lemma can_pull_mono:
  assumes "can_pull C W s token p key since plain" and "since \<le> since'"
  shows "can_pull C W s token p key since' plain"
  using assms by (auto simp: can_pull_def profile_rows_since_def)

lemma pullLoop_complete:
  assumes "can_pull C W s token p key since plain"
  shows "pullLoop (serve C) W token p key since acc s =
           Some (Inr (acc @ map (opened plain) (rows_since s p since)), s)"
  using assms
proof (induction "length (rows_since s p since)" arbitrary: since acc rule: less_induct)
  case less
  let ?R = "rows_since s p since"
  obtain uid where ok: "srv_ok s" "0 \<le> since" "authUser C s token = Inr uid" "profile_belongs_to_user s p uid"
    using less.prems by (auto simp: can_pull_def)
  have json: "fetchJson (serve C) (GetPull token p since) ''pull failed'' s =
      (Inr (PullJson (map (\<lambda>d. (d_seq d, b64_engine_encode C (d_payload d))) (take 500 ?R))
          (Some (500 < length ?R))), s)"
    unfolding fetchJson_def bindA_def serve_pull [OF ok(3,4,2)]
    by (simp add: reply_def throwIfNotOk_def res_ok_def)
  have page: "mapE (decryptEntry W key)
      (map (\<lambda>d. (d_seq d, b64_engine_encode C (d_payload d))) (take 500 ?R)) =
      Inr (map (opened plain) (take 500 ?R))"
    using set_take_subset [of 500 ?R] by (intro can_pull_page [OF less.prems]) simp
  show ?case
  proof (cases "500 < length ?R")
    case False
    then show ?thesis
      using page by (subst pullLoop.simps) (simp add: json)
  next
    case True
    let ?c = "d_seq (?R ! 499)"
    have R': "rows_since s p ?c = drop 500 ?R"
      using rows_since_next_page [OF ok(1), of 500 p since] True by simp
    have "?R ! 499 \<in> set ?R"
      using True by (intro nth_mem) simp
    then have "since \<le> ?c" by (simp add: profile_rows_since_def)
    then have "can_pull C W s token p key ?c plain"
      by (rule can_pull_mono [OF less.prems])
    then have "pullLoop (serve C) W token p key ?c (acc @ map (opened plain) (take 500 ?R)) s =
        Some (Inr ((acc @ map (opened plain) (take 500 ?R)) @ map (opened plain) (drop 500 ?R)), s)"
      using less.hyps [of ?c] True unfolding R' by simp
    moreover have "sequenceId (map (opened plain) (take 500 ?R) ! (length (map (opened plain) (take 500 ?R)) - 1)) = ?c"
      using True by (simp add: opened_def)
    moreover have "(acc @ map (opened plain) (take 500 ?R)) @ map (opened plain) (drop 500 ?R)
        = acc @ map (opened plain) ?R"
      by (metis append.assoc append_take_drop_id map_append)
    ultimately show ?thesis
      using True by (subst pullLoop.simps) (simp add: json page)
  qed
qed

subsection \<open>Push\<close>

text \<open>The rows a sequence of pushes appends: consecutive ids, in the order of the pushes.\<close>

fun pushedRows :: "int \<Rightarrow> (string \<times> bytes) list \<Rightarrow> delta_row list" where
  "pushedRows n [] = []"
| "pushedRows n ((p, data) # xs) = \<lparr>d_seq = n, d_profile = p, d_payload = data\<rparr> # pushedRows (n + 1) xs"

lemma fold_appended:
  "fold (\<lambda>(p, data). appended p data) xs s =
     s\<lparr>deltas := deltas s @ pushedRows (next_seq s) xs, next_seq := next_seq s + int (length xs)\<rparr>"
  by (induction xs arbitrary: s) (auto simp: appended_def algebra_simps)

lemma pushedRows_ids: "map d_seq (pushedRows n xs) = map (\<lambda>i. n + int i) [0..<length xs]"
  by (induction n xs rule: pushedRows.induct)
     (simp_all add: upt_conv_Cons map_Suc_upt [symmetric] o_def algebra_simps del: upt_Suc)

lemma pushedRows_ge: "d \<in> set (pushedRows n xs) \<Longrightarrow> n \<le> d_seq d"
  by (induction n xs rule: pushedRows.induct) auto

lemma pushedRows_profile:
  "map d_payload (filter (\<lambda>d. d_profile d = p) (pushedRows n xs)) = map snd (filter (\<lambda>x. fst x = p) xs)"
  by (induction n xs rule: pushedRows.induct) auto

lemma rows_since_pushed:
  assumes "srv_ok s"
  shows "rows_since (fold (\<lambda>(p, data). appended p data) xs s) p (next_seq s - 1) =
           filter (\<lambda>d. d_profile d = p) (pushedRows (next_seq s) xs)"
proof -
  have "\<not> next_seq s - 1 < d_seq d" if "d \<in> set (deltas s)" for d
    using assms that by (auto simp: srv_ok_def)
  moreover have "next_seq s - 1 < d_seq d" if "d \<in> set (pushedRows (next_seq s) xs)" for d
    using pushedRows_ge [OF that] by simp
  ultimately have "filter (\<lambda>d. d_profile d = p \<and> next_seq s - 1 < d_seq d)
      (deltas s @ pushedRows (next_seq s) xs) = filter (\<lambda>d. d_profile d = p) (pushedRows (next_seq s) xs)"
    by (auto simp: filter_empty_conv intro!: filter_cong)
  moreover have "sorted (map d_seq (pushedRows n xs))" for n
    unfolding pushedRows_ids by (auto simp: sorted_iff_nth_mono)
  then have "sort_key d_seq (filter (\<lambda>d. d_profile d = p) (pushedRows (next_seq s) xs)) =
      filter (\<lambda>d. d_profile d = p) (pushedRows (next_seq s) xs)"
    by (intro sort_key_id_if_sorted sorted_filter)
  ultimately show ?thesis
    by (simp add: rows_since_def fold_appended)
qed

lemma serve_push:
  assumes "authUser C s token = Inr uid" and "profile_belongs_to_user s p uid" and "codec_ok C"
  shows "serve C (PostPush token p (toBase64 data)) s =
           (Inr (reply 200 (PushJson (next_seq s))), appended p data s)"
  using assms by (simp add: serve_def push_def codec_ok_def push_insert_def push_commit_def appended_def)

text \<open>\<^verbatim>\<open>pushable\<close>: the item's profile is the user's, and its text encodes these bytes.\<close>

definition pushable :: "srv \<Rightarrow> string \<Rightarrow> (queuedDelta \<Rightarrow> bytes) \<Rightarrow> queuedDelta \<Rightarrow> bool" where
  "pushable s uid data i \<longleftrightarrow>
     profile_belongs_to_user s (qd_profileId i) uid \<and> qd_encryptedDelta i = toBase64 (data i)"

lemma authUser_appended [simp]: "authUser C (appended p data s) = authUser C s"
  unfolding authUser_def appended_simps ..

lemma belongs_appended [simp]: "profile_belongs_to_user (appended p data s) = profile_belongs_to_user s"
  by (simp add: profile_belongs_to_user_def fun_eq_iff)

lemma users_cong:
  assumes "users t = users s" and "profile_rows t = profile_rows s"
  shows "authUser C t token = authUser C s token"
    and "profile_belongs_to_user t p uid = profile_belongs_to_user s p uid"
  unfolding authUser_def profile_belongs_to_user_def assms by (rule refl)+

lemma srv_ok_fold_appended: "srv_ok s \<Longrightarrow> srv_ok (fold (\<lambda>(p, b). appended p b) xs s)"
  by (induction xs arbitrary: s) (auto intro: srv_ok_appended)

text \<open>After the pushes the owner can pull them, when every pushed payload opens.\<close>

lemma pushed_pullable:
  assumes "srv_ok s" and "codec_ok C" and "authUser C s token = Inr uid" and "profile_belongs_to_user s p uid"
    and opens: "\<And>x. x \<in> set xs \<Longrightarrow> decrypt W key (toBase64 (snd x)) = Inr (unseal (snd x))"
    and t: "t = fold (\<lambda>(p, b). appended p b) xs s"
  shows "can_pull C W t token p key (next_seq s - 1) (\<lambda>d. unseal (d_payload d))"
    and "map d_payload (rows_since t p (next_seq s - 1)) = map snd (filter (\<lambda>x. fst x = p) xs)"
proof -
  show payloads: "map d_payload (rows_since t p (next_seq s - 1)) = map snd (filter (\<lambda>x. fst x = p) xs)"
    unfolding t rows_since_pushed [OF assms(1)] by (rule pushedRows_profile)
  have "decrypt W key (toBase64 (d_payload d)) = Inr (unseal (d_payload d))"
    if "d \<in> profile_rows_since t p (next_seq s - 1)" for d
  proof -
    have "d_payload d \<in> set (map d_payload (rows_since t p (next_seq s - 1)))"
      using that by simp
    then show ?thesis
      unfolding payloads using opens by auto
  qed
  moreover have "users t = users s" "profile_rows t = profile_rows s"
    unfolding t fold_appended by simp_all
  note users_cong [OF this]
  ultimately show "can_pull C W t token p key (next_seq s - 1) (\<lambda>d. unseal (d_payload d))"
    using srv_ok_fold_appended [OF assms(1), of xs] assms(1-4)
    by (auto simp: can_pull_def t srv_ok_def [of s])
qed

lemma pushLoop_serve:
  assumes "authUser C s token = Inr uid" and "codec_ok C"
    and "\<And>i. i \<in> set items \<Longrightarrow> pushable s uid data i"
  shows "pushLoop (serve C) token active items acc s =
           (Inr (acc @ map qd_id items),
            fold (\<lambda>(p, b). appended p b) (map (\<lambda>i. (qd_profileId i, data i)) items) s)"
  using assms
proof (induction items arbitrary: acc s)
  case (Cons i its)
  then have i: "profile_belongs_to_user s (qd_profileId i) uid" "qd_encryptedDelta i = toBase64 (data i)"
    by (simp_all add: pushable_def)
  have "\<And>j. j \<in> set its \<Longrightarrow> pushable (appended (qd_profileId i) (data i) s) uid data j"
    using Cons.prems(3) by (simp add: pushable_def)
  with Cons.IH [of "appended (qd_profileId i) (data i) s" "acc @ [qd_id i]"] Cons.prems(1,2)
  show ?case
    using serve_push [OF Cons.prems(1) i(1) Cons.prems(2), of "data i"]
    by (simp add: i(2) reply_def res_ok_def)
qed simp

lemma pushPendingInner_serve:
  assumes "queue_ok db" and "getJwt a = Inr token" and "getActiveProfileId a = Inr active"
    and "authUser C s token = Inr uid" and "codec_ok C"
    and "\<And>i. i \<in> set (take 50 (queueOrder db)) \<Longrightarrow> pushable s uid data i"
  shows "fst (pushPendingInner (serve C) a (db, s)) = Inr ()"
    and "queueOrder (fst (snd (pushPendingInner (serve C) a (db, s)))) = drop 50 (queueOrder db)"
    and "snd (snd (pushPendingInner (serve C) a (db, s))) =
           fold (\<lambda>(p, b). appended p b) (map (\<lambda>i. (qd_profileId i, data i)) (take 50 (queueOrder db))) s"
proof -
  let ?items = "take 50 (queueOrder db)"
  have pk: "peek 50 db = ?items" "peekQueue 50 db = ?items"
    using assms(1) by (simp_all add: peek_def delta_queue.q_peek_take)
  have eq: "pushPendingInner (serve C) a (db, s) =
      (Inr (), (acknowledge (map qd_id ?items) db,
        fold (\<lambda>(p, b). appended p b) (map (\<lambda>i. (qd_profileId i, data i)) ?items) s))"
    using pushLoop_serve [OF assms(4,5,6), where acc = "[]" and active = active] assms(2,3)
    by (simp add: pushPendingInner_def pk Let_def acknowledge_def dequeue_def)
  show "fst (pushPendingInner (serve C) a (db, s)) = Inr ()"
    and "snd (snd (pushPendingInner (serve C) a (db, s))) =
           fold (\<lambda>(p, b). appended p b) (map (\<lambda>i. (qd_profileId i, data i)) ?items) s"
    by (simp_all add: eq)
  show "queueOrder (fst (snd (pushPendingInner (serve C) a (db, s)))) = drop 50 (queueOrder db)"
    using delta_queue.ack_prefix [OF assms(1), of 50 "length ?items"]
    by (cases "length (queueOrder db) \<le> 50") (simp_all add: eq acknowledge_def pk)
qed

subsection \<open>Properties\<close>

lemma pullSince_complete:
  assumes "can_pull C W s token p key since plain" and "getJwt a = Inr token" and "getEncryptionKey a = Inr key"
  shows "pullSince (serve C) W a since (Some p) s =
           Some (Inr (map (opened plain) (rows_since s p since)), s)"
  using pullLoop_complete [OF assms(1), of "[]"] assms(2,3) by (simp add: pullSince_def)

lemma opened_ids: "map sequenceId (map (opened plain) rows) = map d_seq rows"
  by (simp add: opened_def)

text \<open>
  C2. Paging is complete: against the server, with a valid token of the profile's owner and
  payloads that open under the client's key, \<^verbatim>\<open>pullSince\<close> returns (its loop ends, however
  many pages of 500 there are) exactly the deltas of the profile with an id after the cursor, each
  once, in ascending order of their ids, and with the bytes that were encrypted.
\<close>

theorem pull_complete:
  assumes "can_pull C W s token p key since plain" and "getJwt a = Inr token" and "getEncryptionKey a = Inr key"
  shows "\<exists>rs. pullSince (serve C) W a since (Some p) s = Some (Inr rs, s)
     \<and> sorted_wrt (<) (map sequenceId rs)
     \<and> set rs = (\<lambda>d. \<lparr>sequenceId = d_seq d, payload = plain d\<rparr>) `
           {d \<in> set (deltas s). d_profile d = p \<and> since < d_seq d}"
proof -
  have "srv_ok s" using assms(1) by (simp add: can_pull_def)
  moreover have "set (map (opened plain) (rows_since s p since)) =
      (\<lambda>d. \<lparr>sequenceId = d_seq d, payload = plain d\<rparr>) ` {d \<in> set (deltas s). d_profile d = p \<and> since < d_seq d}"
    by (simp add: opened_def [abs_def] profile_rows_since_def)
  ultimately show ?thesis
    using pullSince_complete [OF assms] rows_since_ascending opened_ids by metis
qed

text \<open>A server holding any number of deltas of one profile, sealed under the example key.\<close>

definition example_key :: bytes where
  "example_key = replicate 16 1"

definition example_sealed :: "bytes \<Rightarrow> bytes" where
  "example_sealed pt = replicate 12 0 @ gcm_encrypt example_webcrypto example_key (replicate 12 0) pt"

definition example_srv_with :: "nat \<Rightarrow> srv" where
  "example_srv_with m = example_srv
     \<lparr>deltas := map (\<lambda>i. \<lparr>d_seq = int i + 1, d_profile = ''p1'', d_payload = example_sealed [word_of_nat i]\<rparr>) [0..<m],
      snapshots := Map.empty, next_seq := int m + 1\<rparr>"

lemma example_sealed_opens:
  "decrypt example_webcrypto example_key (toBase64 (example_sealed pt)) = Inr pt"
  using decrypt_encrypt [OF example_webcrypto_ok(1), of "replicate 12 0" example_key pt]
  by (simp add: encrypt_def example_sealed_def)

lemma example_can_pull:
  "can_pull example_crates example_webcrypto (example_srv_with m) ''tok'' ''p1'' example_key 0
     (\<lambda>d. [word_of_int (d_seq d - 1)])"
proof -
  have "srv_ok (example_srv_with m)"
    by (auto simp: srv_ok_def example_srv_with_def distinct_map inj_on_def)
  moreover have "authUser example_crates (example_srv_with m) ''tok'' = Inr ''u1''"
    by (simp add: authUser_def example_crates_def example_srv_with_def example_srv_def)
  moreover have "profile_belongs_to_user (example_srv_with m) ''p1'' ''u1''"
    by (simp add: profile_belongs_to_user_def example_srv_with_def example_srv_def)
  moreover have "decrypt example_webcrypto example_key (toBase64 (d_payload d)) = Inr [word_of_int (d_seq d - 1)]"
    if "d \<in> set (deltas (example_srv_with m))" for d
    using that by (auto simp: example_srv_with_def example_sealed_opens)
  ultimately show ?thesis
    by (auto simp: can_pull_def example_crates_ok profile_rows_since_def)
qed

lemma pull_complete_witness:
  "\<exists>rs. pullSince (serve example_crates) example_webcrypto example_auth 0 (Some ''p1'') (example_srv_with 1200)
       = Some (Inr rs, example_srv_with 1200)
     \<and> sorted_wrt (<) (map sequenceId rs) \<and> card (set rs) = 1200"
proof -
  let ?s = "example_srv_with 1200"
  have key: "getEncryptionKey example_auth = Inr example_key"
    by (simp add: example_auth_simps example_key_def)
  have eq: "{d \<in> set (deltas ?s). d_profile d = ''p1'' \<and> 0 < d_seq d} = set (deltas ?s)"
    by (auto simp: example_srv_with_def)
  have "card ((\<lambda>d. \<lparr>sequenceId = d_seq d, payload = [word_of_int (d_seq d - 1)] :: bytes\<rparr>) ` set (deltas ?s)) = card (set (deltas ?s))"
    by (rule card_image) (auto simp: inj_on_def example_srv_with_def)
  moreover have "card (set (deltas ?s)) = length (deltas ?s)"
    by (rule distinct_card) (auto simp: example_srv_with_def distinct_map inj_on_def)
  moreover have "length (deltas ?s) = 1200"
    by (simp add: example_srv_with_def)
  ultimately show ?thesis
    using pull_complete [OF example_can_pull example_auth_simps(1) key, of 1200] unfolding eq by auto
qed

text \<open>
  C1. Replication of one batch, end to end: device A queued raw deltas sealed under the
  account's key; one push call delivers all of the (at most 50) oldest and removes exactly these
  from its queue. A device B of the account that had seen everything before then pulls, for each
  profile, exactly A's raw deltas of that profile in the order of A's queue.
\<close>

theorem push_then_pull:
  assumes srv: "srv_ok s" "codec_ok C" and gcm: "gcm_roundtrip W"
    and A: "queue_ok db" "getJwt a = Inr tokA" "getActiveProfileId a = Inr active" "authUser C s tokA = Inr uid"
    and sealed: "\<forall>i \<in> set (take 50 (queueOrder db)). profile_belongs_to_user s (qd_profileId i) uid
         \<and> (\<exists>iv. length iv = 12 \<and> qd_encryptedDelta i = encrypt W iv key (raw i))"
    and B: "getJwt b = Inr tokB" "getEncryptionKey b = Inr key" "authUser C s tokB = Inr uid"
      "profile_belongs_to_user s p uid"
    and push: "pushPendingInner (serve C) a (db, s) = (r, (db', s'))"
  shows "r = Inr () \<and> queueOrder db' = drop 50 (queueOrder db)
    \<and> (\<exists>rs. pullSince (serve C) W b (next_seq s - 1) (Some p) s' = Some (Inr rs, s')
          \<and> map payload rs = map raw (filter (\<lambda>i. qd_profileId i = p) (take 50 (queueOrder db))))"
proof -
  let ?items = "take 50 (queueOrder db)"
  from sealed obtain iv where iv: "\<forall>i \<in> set ?items. profile_belongs_to_user s (qd_profileId i) uid
      \<and> length (iv i) = 12 \<and> qd_encryptedDelta i = encrypt W (iv i) key (raw i)"
    by metis
  define data where "data i = iv i @ gcm_encrypt W key (iv i) (raw i)" for i
  define xs where "xs = map (\<lambda>i. (qd_profileId i, data i)) ?items"
  have opens: "decrypt W key (toBase64 (data i)) = Inr (raw i)" if "i \<in> set ?items" for i
    using decrypt_encrypt [OF gcm, of "iv i" key "raw i"] iv that by (simp add: encrypt_def data_def)
  have "pushable s uid data i" if "i \<in> set ?items" for i
    using iv that by (simp add: pushable_def encrypt_def data_def)
  note pushed = pushPendingInner_serve [OF A(1-4) srv(2) this]
  have s': "s' = fold (\<lambda>(p, b). appended p b) xs s"
    using pushed(3) push by (simp add: xs_def)
  define unseal where "unseal b = projr (decrypt W key (toBase64 b))" for b
  have "decrypt W key (toBase64 (snd x)) = Inr (unseal (snd x))" if "x \<in> set xs" for x
    using that opens by (auto simp: xs_def unseal_def)
  note pull = pushed_pullable [OF srv B(3,4) this s']
  have "map payload (map (opened (\<lambda>d. unseal (d_payload d))) (rows_since s' p (next_seq s - 1))) =
      map unseal (map d_payload (rows_since s' p (next_seq s - 1)))"
    by (simp add: opened_def)
  also have "\<dots> = map unseal (map snd (filter (\<lambda>x. fst x = p) xs))"
    by (simp only: pull(2))
  also have "\<dots> = map raw (filter (\<lambda>i. qd_profileId i = p) ?items)"
    by (auto simp: xs_def filter_map o_def opens unseal_def)
  finally have "map payload (map (opened (\<lambda>d. unseal (d_payload d))) (rows_since s' p (next_seq s - 1))) =
      map raw (filter (\<lambda>i. qd_profileId i = p) ?items)" .
  moreover have "r = Inr ()" "queueOrder db' = drop 50 (queueOrder db)"
    using pushed(1,2) push by simp_all
  ultimately show ?thesis
    using pullSince_complete [OF pull(1) B(1,2)] by blast
qed

definition example_delta :: queuedDelta where
  "example_delta = \<lparr>qd_id = ''d1'', qd_profileId = ''p1'',
     qd_encryptedDelta = encrypt example_webcrypto (replicate 12 0) example_key [3, 1], qd_timestamp = 5\<rparr>"

lemma push_then_pull_witness:
  "\<exists>r db' s' rs. pushPendingInner (serve example_crates) example_auth (emptyDb\<lparr>deltaQueue := [example_delta]\<rparr>, example_srv)
       = (r, (db', s')) \<and> r = Inr () \<and> queueOrder db' = []
     \<and> pullSince (serve example_crates) example_webcrypto example_auth 2 (Some ''p1'') s' = Some (Inr rs, s')
     \<and> map payload rs = [[3, 1]]"
proof -
  let ?db = "emptyDb\<lparr>deltaQueue := [example_delta]\<rparr>"
  have q: "queueOrder ?db = [example_delta]" and ok: "queue_ok ?db"
    by (simp_all add: queueOrder_def queue_ok_def)
  have auth: "authUser example_crates example_srv ''tok'' = Inr ''u1''"
    and owner: "profile_belongs_to_user example_srv ''p1'' ''u1''"
    by (simp_all add: authUser_def example_crates_def example_srv_def profile_belongs_to_user_def)
  have key: "getEncryptionKey example_auth = Inr example_key"
    by (simp add: example_auth_simps example_key_def)
  have "\<exists>iv. length iv = 12 \<and> qd_encryptedDelta example_delta = encrypt example_webcrypto iv example_key [3, 1]"
    by (rule exI [of _ "replicate 12 0"]) (simp add: example_delta_def)
  then have sealed: "\<forall>i \<in> set (take 50 (queueOrder ?db)). profile_belongs_to_user example_srv (qd_profileId i) ''u1''
      \<and> (\<exists>iv. length iv = 12 \<and> qd_encryptedDelta i = encrypt example_webcrypto iv example_key [3, 1])"
    using owner by (simp add: q) (simp add: example_delta_def)
  obtain r db' s' where r: "pushPendingInner (serve example_crates) example_auth (?db, example_srv) = (r, (db', s'))"
    by (metis prod.collapse)
  from push_then_pull [OF example_srv_ok example_crates_ok example_webcrypto_ok(1) ok example_auth_simps(1,2) auth
      sealed example_auth_simps(1) key auth owner r]
  moreover have "qd_profileId example_delta = ''p1''" and n: "next_seq example_srv - 1 = 2"
    by (simp_all add: example_delta_def example_srv_def)
  ultimately show ?thesis using r unfolding q n by auto
qed

text \<open>
  C40. A sequence id is drawn when a push inserts and becomes visible when it commits. When two
  pushes of one profile overlap, A inserting before B and B committing first, a device that pulls
  between the two commits and advances its cursor to the last id it received has lost A's delta:
  the pull does not contain it, and no later pull from that cursor does, although the delta is
  committed and was acknowledged to its author.
\<close>

theorem overtaken_push_is_never_pulled:
  assumes "srv_ok s" and "codec_ok C" and "0 \<le> since" and "since < next_seq s"
    and auth: "authUser C s token = Inr uid" "profile_belongs_to_user s p uid"
    and a: "getJwt a = Inr token" "getEncryptionKey a = Inr key"
    and opens: "\<forall>pl \<in> insert dataA (insert dataB (d_payload ` set (deltas s))).
       decrypt W key (toBase64 pl) = Inr (plain pl)"
    and A: "push_insert p dataA s = (rowA, s1)" and B: "push_insert p dataB s1 = (rowB, s2)"
    and s3: "s3 = push_commit rowB s2" and s4: "s4 = push_commit rowA s3"
  shows "rowA \<in> set (deltas s4) \<and> since < d_seq rowA
    \<and> (\<exists>rs. pullSince (serve C) W a since (Some p) s3 = Some (Inr rs, s3)
         \<and> rs \<noteq> [] \<and> d_seq rowA \<notin> sequenceId ` set rs
         \<and> pullSince (serve C) W a (sequenceId (last rs)) (Some p) s4 = Some (Inr [], s4))"
proof -
  let ?n = "next_seq s"
  have rows: "rowA = \<lparr>d_seq = ?n, d_profile = p, d_payload = dataA\<rparr>"
      "rowB = \<lparr>d_seq = ?n + 1, d_profile = p, d_payload = dataB\<rparr>"
    and s2: "s2 = s\<lparr>next_seq := ?n + 2\<rparr>"
    using A B by (auto simp: push_insert_def)
  then have seqs: "d_seq rowA = ?n" "d_seq rowB = ?n + 1" by simp_all
  have old: "d_seq d < ?n" if "d \<in> set (deltas s)" for d
    using assms(1) that by (simp add: srv_ok_def)
  have "srv_ok s2"
    using srv_ok_next [OF srv_ok_next [OF assms(1)]] by (simp add: s2 add.commute)
  moreover have "0 < ?n" using assms(1) by (simp add: srv_ok_def)
  moreover have new: "?n \<notin> d_seq ` set (deltas s)" "?n + 1 \<notin> d_seq ` set (deltas s)"
    using old by force+
  ultimately have ok3: "srv_ok s3"
    unfolding s3 by (intro srv_ok_commit) (simp_all add: s2 rows)
  with new \<open>0 < ?n\<close> have ok4: "srv_ok s4"
    unfolding s4 by (intro srv_ok_commit) (simp_all add: s3 s2 rows)
  have same: "users t = users s" "profile_rows t = profile_rows s" if "t \<in> {s3, s4}" for t
    using that by (auto simp: s4 s3 s2)
  have pullable: "can_pull C W t token p key c (\<lambda>d. plain (d_payload d))" if "t \<in> {s3, s4}" "0 \<le> c" for t c
  proof -
    have "d_payload d \<in> insert dataA (insert dataB (d_payload ` set (deltas s)))" if "d \<in> set (deltas t)" for d
      using that \<open>t \<in> {s3, s4}\<close> by (auto simp: s4 s3 s2 rows)
    with opens have "decrypt W key (toBase64 (d_payload d)) = Inr (plain (d_payload d))" if "d \<in> set (deltas t)" for d
      using that by blast
    then show ?thesis
      using users_cong [OF same [OF that(1)]] that ok3 ok4 assms(2) auth
      by (auto simp: can_pull_def profile_rows_since_def)
  qed
  let ?R = "rows_since s3 p since"
  have in_R: "d \<in> set ?R \<longleftrightarrow> d = rowB \<or> d \<in> set (deltas s) \<and> d_profile d = p \<and> since < d_seq d" for d
    using assms(4) by (auto simp: profile_rows_since_def s3 s2 rows)
  then have ne: "?R \<noteq> []" by (metis empty_iff list.set(1))
  have lastR: "d_seq (last ?R) = ?n + 1"
  proof -
    have "sorted (map d_seq ?R)" by (simp add: rows_since_def)
    then have "d_seq rowB \<le> d_seq (last ?R)"
      by (rule sorted_map_last) (simp only: in_R simp_thms)
    moreover have "d_seq (last ?R) \<le> ?n + 1"
      using in_R [THEN iffD1, OF last_in_set [OF ne]] old [of "last ?R"] by (auto simp: rows)
    ultimately show ?thesis by (simp add: rows)
  qed
  have "\<not> ?n + 1 < d_seq d" if "d \<in> set (deltas s4)" for d
    using that old [of d] by (auto simp: s4 s3 s2 rows)
  then have "profile_rows_since s4 p (?n + 1) = {}"
    by (auto simp: profile_rows_since_def)
  then have "rows_since s4 p (?n + 1) = []" by (metis set_rows_since set_empty)
  then have later: "pullSince (serve C) W a (?n + 1) (Some p) s4 = Some (Inr [], s4)"
    using pullSince_complete [OF pullable a, of s4 "?n + 1"] assms(1) by (simp add: srv_ok_def)
  have "sequenceId (last (map (opened (\<lambda>d. plain (d_payload d))) ?R)) = ?n + 1"
    using lastR ne by (simp add: last_map opened_def)
  moreover have "?n \<notin> d_seq ` set ?R"
  proof
    assume "?n \<in> d_seq ` set ?R"
    then obtain d where "?n = d_seq d" "d \<in> set ?R" by (rule imageE)
    then show False
      using old [of d] seqs unfolding in_R by auto
  qed
  then have "d_seq rowA \<notin> sequenceId ` set (map (opened (\<lambda>d. plain (d_payload d))) ?R)"
    by (simp add: opened_def image_image rows del: set_rows_since)
  ultimately show ?thesis
    using pullSince_complete [OF pullable a, of s3 since] assms(3,4) later ne
    by (intro conjI exI [of _ "map (opened (\<lambda>d. plain (d_payload d))) ?R"]) (simp_all add: s4 rows)
qed

lemma overtaken_push_is_never_pulled_witness:
  "\<exists>rowA rowB s1 s2 s3 s4 rs. push_insert ''p1'' (example_sealed [8]) (example_srv_with 3) = (rowA, s1)
     \<and> push_insert ''p1'' (example_sealed [9]) s1 = (rowB, s2)
     \<and> s3 = push_commit rowB s2 \<and> s4 = push_commit rowA s3 \<and> rowA \<in> set (deltas s4)
     \<and> pullSince (serve example_crates) example_webcrypto example_auth 3 (Some ''p1'') s3 = Some (Inr rs, s3)
     \<and> d_seq rowA \<notin> sequenceId ` set rs
     \<and> pullSince (serve example_crates) example_webcrypto example_auth (sequenceId (last rs)) (Some ''p1'') s4
         = Some (Inr [], s4)"
proof -
  let ?s = "example_srv_with 3"
  have cp: "can_pull example_crates example_webcrypto ?s ''tok'' ''p1'' example_key 0 (\<lambda>d. [word_of_int (d_seq d - 1)])"
    by (rule example_can_pull)
  have auth: "authUser example_crates ?s ''tok'' = Inr ''u1''" "profile_belongs_to_user ?s ''p1'' ''u1''"
    by (simp_all add: authUser_def example_crates_def example_srv_with_def example_srv_def profile_belongs_to_user_def)
  have key: "getEncryptionKey example_auth = Inr example_key"
    by (simp add: example_auth_simps example_key_def)
  have opens: "\<forall>pl \<in> insert (example_sealed [8]) (insert (example_sealed [9]) (d_payload ` set (deltas ?s))).
      decrypt example_webcrypto example_key (toBase64 pl) = Inr (projr (decrypt example_webcrypto example_key (toBase64 pl)))"
    by (auto simp: example_srv_with_def example_sealed_opens)
  obtain rowA s1 where A: "push_insert ''p1'' (example_sealed [8]) ?s = (rowA, s1)" by (metis prod.collapse)
  obtain rowB s2 where B: "push_insert ''p1'' (example_sealed [9]) s1 = (rowB, s2)" by (metis prod.collapse)
  have "srv_ok ?s" "(0::int) \<le> 3" "3 < next_seq ?s"
    using cp by (simp_all add: can_pull_def example_srv_with_def)
  from overtaken_push_is_never_pulled [OF this(1) example_crates_ok this(2,3) auth example_auth_simps(1) key opens A B refl refl] A B
  show ?thesis by blast
qed

end
