(* ===== verification/Bookmark_Tree.thy ===== *)
theory Bookmark_Tree
  imports Prelude "HOL-Library.Multiset"
begin

text \<open>
  extension/src/bookmarks/bridge.ts, its first part: the browser's bookmark tree, the
  translation of the root containers between browsers (lines 31-137), and the breadth-first
  walk over the managed part of the tree that six functions of the file repeat
  (\<^verbatim>\<open>managedWalk\<close>). The specification of the walk is \<^verbatim>\<open>managed\<close>, the nodes below
  the known root containers, without browser-specific containers.
\<close>

subsection \<open>chrome.bookmarks.BookmarkTreeNode\<close>

datatype tree_node =
  TreeNode (tn_id: string) (tn_parentId: "string option") (tn_index: "int option")
    (tn_title: string) (tn_url: "string option") (tn_children: "tree_node list")

primrec tree_size :: "tree_node \<Rightarrow> nat" where
  "tree_size (TreeNode i p ix t u cs) = Suc (sum_list (map tree_size cs))"

lemma tree_size_children: "tree_size n = Suc (sum_list (map tree_size (tn_children n)))"
  by (cases n) simp

lemma tree_size_pos [simp]: "0 < tree_size n"
  by (simp add: tree_size_children)

subsection \<open>Root containers\<close>

record roots =
  nativeToCanonical :: "(string \<times> string) list"
  canonicalToNative :: "(string \<times> string) list"
  allNativeRootIds :: "string list"

definition CANONICAL_ROOT_IDS :: "string list" where
  "CANONICAL_ROOT_IDS = [''0'', ''1'', ''2'', ''3'']"

definition FIREFOX_ROOT_CANONICAL :: "(string \<times> string) list" where
  "FIREFOX_ROOT_CANONICAL =
     [(''root________'', ''0''), (''toolbar_____'', ''1''), (''unfiled_____'', ''2''), (''mobile______'', ''3'')]"

definition defaultRoots :: roots where
  "defaultRoots =
     \<lparr>nativeToCanonical = map (\<lambda>c. (c, c)) CANONICAL_ROOT_IDS,
      canonicalToNative = map (\<lambda>c. (c, c)) CANONICAL_ROOT_IDS,
      allNativeRootIds = CANONICAL_ROOT_IDS\<rparr>"

definition addNativeRoot :: "tree_node \<Rightarrow> roots \<Rightarrow> roots" where
  "addNativeRoot child R =
     (case map_of FIREFOX_ROOT_CANONICAL (tn_id child) of
        None \<Rightarrow> R
      | Some canonical \<Rightarrow>
          R\<lparr>nativeToCanonical := AList.update (tn_id child) canonical (nativeToCanonical R),
            allNativeRootIds := List.insert (tn_id child) (allNativeRootIds R),
            canonicalToNative :=
              (if map_of (canonicalToNative R) canonical = None \<or> tn_id child = ''unfiled_____''
               then AList.update canonical (tn_id child) (canonicalToNative R)
               else canonicalToNative R)\<rparr>)"

definition addDefaultRoot :: "string \<Rightarrow> roots \<Rightarrow> roots" where
  "addDefaultRoot canonical R =
     (if map_of (canonicalToNative R) canonical = None
      then R\<lparr>canonicalToNative := AList.update canonical canonical (canonicalToNative R)\<rparr> else R)"

definition initBrowserRoots :: "tree_node \<Rightarrow> roots \<Rightarrow> roots" where
  "initBrowserRoots root R =
     (if tn_id root = ''0'' then R
      else
        (let virtualId = tn_id root;
             R0 = \<lparr>nativeToCanonical = AList.update virtualId ''0'' [(''0'', ''0'')],
                   canonicalToNative = [(''0'', virtualId)],
                   allNativeRootIds = List.insert virtualId CANONICAL_ROOT_IDS\<rparr>
         in fold addDefaultRoot [''1'', ''2'', ''3''] (fold addNativeRoot (tn_children root) R0)))"

definition isAnyRootId :: "roots \<Rightarrow> string \<Rightarrow> bool" where
  "isAnyRootId R i = (i \<in> set (allNativeRootIds R))"

definition isVirtualRootId :: "roots \<Rightarrow> string \<Rightarrow> bool" where
  "isVirtualRootId R i = (i = ''0'' \<or> i = orElse (map_of (canonicalToNative R) ''0'') ''0'')"

text \<open>
  What the tables are for: every canonical id has a native container to write to, reading that
  container's id gives the canonical id back, and no container but the virtual root counts as
  virtual.
\<close>

definition roots_ok :: "roots \<Rightarrow> bool" where
  "roots_ok R \<longleftrightarrow>
     (\<forall>c \<in> set CANONICAL_ROOT_IDS. \<exists>n. map_of (canonicalToNative R) c = Some n \<and> n \<in> set (allNativeRootIds R)
        \<and> (map_of (nativeToCanonical R) n = Some c \<or> map_of (nativeToCanonical R) n = None \<and> n = c)
        \<and> (c \<noteq> ''0'' \<longrightarrow> \<not> isVirtualRootId R n))
     \<and> set CANONICAL_ROOT_IDS \<subseteq> set (allNativeRootIds R)
     \<and> dom (map_of (nativeToCanonical R)) \<subseteq> set (allNativeRootIds R)
     \<and> ran (map_of (nativeToCanonical R)) \<subseteq> set CANONICAL_ROOT_IDS
     \<and> dom (map_of (canonicalToNative R)) \<subseteq> set CANONICAL_ROOT_IDS
     \<and> (\<forall>i. i \<in> set (allNativeRootIds R) \<longrightarrow> map_of (nativeToCanonical R) i = None \<longrightarrow> i \<in> set CANONICAL_ROOT_IDS)"

lemma roots_ok_default: "roots_ok defaultRoots"
  by (auto simp: roots_ok_def defaultRoots_def CANONICAL_ROOT_IDS_def isVirtualRootId_def ran_def split: if_splits)

text \<open>
  The tables as maps: \<^verbatim>\<open>C\<close> from canonical, \<^verbatim>\<open>N\<close> from native, \<^verbatim>\<open>A\<close> all root ids.
  \<^verbatim>\<open>partial_tables\<close> holds while the children of a Firefox root are read.
\<close>

definition returns :: "(string \<rightharpoonup> string) \<Rightarrow> string \<Rightarrow> string \<Rightarrow> bool" where
  "returns N c n \<longleftrightarrow> N n = Some c \<or> N n = None \<and> n = c"

definition partial_tables ::
  "string \<Rightarrow> (string \<rightharpoonup> string) \<Rightarrow> (string \<rightharpoonup> string) \<Rightarrow> string set \<Rightarrow> bool" where
  "partial_tables v C N A \<longleftrightarrow>
     C ''0'' = Some v
     \<and> (\<forall>c n. C c = Some n \<longrightarrow> c \<in> set CANONICAL_ROOT_IDS \<and> n \<in> A \<and> returns N c n
                \<and> (c \<noteq> ''0'' \<longrightarrow> n \<noteq> v \<and> n \<noteq> ''0''))
     \<and> set CANONICAL_ROOT_IDS \<subseteq> A \<and> dom N \<subseteq> A \<and> A - dom N \<subseteq> set CANONICAL_ROOT_IDS
     \<and> (\<forall>c \<in> {''1'', ''2'', ''3''}. N c = None)
     \<and> (\<forall>i c. N i = Some c \<longrightarrow> c = ''0'' \<and> (i = v \<or> i = ''0'') \<or> map_of FIREFOX_ROOT_CANONICAL i = Some c)"

definition partial_roots :: "string \<Rightarrow> roots \<Rightarrow> bool" where
  "partial_roots v R =
     partial_tables v (map_of (canonicalToNative R)) (map_of (nativeToCanonical R)) (set (allNativeRootIds R))"

lemma firefox_canonical:
  "map_of FIREFOX_ROOT_CANONICAL i = Some c \<Longrightarrow>
     c \<in> set CANONICAL_ROOT_IDS \<and> i \<notin> set CANONICAL_ROOT_IDS"
  by (auto simp: FIREFOX_ROOT_CANONICAL_def CANONICAL_ROOT_IDS_def split: if_splits)

lemma firefox_zero: "map_of FIREFOX_ROOT_CANONICAL i = Some ''0'' \<Longrightarrow> i \<noteq> ''unfiled_____''"
  by (auto simp: FIREFOX_ROOT_CANONICAL_def)

lemma partial_tables_N:
  assumes "partial_tables v C N A" and f: "map_of FIREFOX_ROOT_CANONICAL i = Some c" and "i \<noteq> v"
  shows "partial_tables v C (N(i \<mapsto> c)) (insert i A)"
proof -
  note i = firefox_canonical [OF f]
  have same: "c' = c" if "N i = Some c'" for c'
  proof -
    have "i \<noteq> ''0''" using i by (auto simp: CANONICAL_ROOT_IDS_def)
    moreover have "c' = ''0'' \<and> (i = v \<or> i = ''0'') \<or> map_of FIREFOX_ROOT_CANONICAL i = Some c'"
      using assms(1) that unfolding partial_tables_def by blast
    ultimately show ?thesis using f assms(3) by auto
  qed
  have "returns (N(i \<mapsto> c)) c' n" if "C c' = Some n" for c' n
  proof (cases "n = i")
    case True
    then have "returns N c' i" "c' \<in> set CANONICAL_ROOT_IDS"
      using assms(1) that by (auto simp: partial_tables_def)
    then show ?thesis using same i True by (auto simp: returns_def)
  next
    case False
    with assms(1) that show ?thesis by (simp add: partial_tables_def returns_def)
  qed
  moreover have "(N(i \<mapsto> c)) k = None" if "k \<in> {''1'', ''2'', ''3''}" for k
    using assms(1) i that by (auto simp: partial_tables_def CANONICAL_ROOT_IDS_def)
  ultimately show ?thesis
    using assms(1) f unfolding partial_tables_def by auto
qed

lemma partial_tables_C:
  assumes "partial_tables v C N A" and "c \<in> set CANONICAL_ROOT_IDS" and "c \<noteq> ''0''"
    and "n \<in> A" and "returns N c n" and "n \<noteq> v" and "n \<noteq> ''0''"
  shows "partial_tables v (C(c \<mapsto> n)) N A"
  using assms unfolding partial_tables_def by (auto split: if_splits)

lemma partial_roots_addNativeRoot:
  assumes "partial_roots v R" and "tn_id child \<noteq> v"
  shows "partial_roots v (addNativeRoot child R)"
proof (cases "map_of FIREFOX_ROOT_CANONICAL (tn_id child)")
  case None
  then show ?thesis using assms(1) by (simp add: addNativeRoot_def)
next
  case (Some c)
  let ?C = "map_of (canonicalToNative R)" and ?N = "(map_of (nativeToCanonical R))(tn_id child \<mapsto> c)"
    and ?A = "insert (tn_id child) (set (allNativeRootIds R))"
  note f = firefox_canonical [OF Some]
  have N: "partial_tables v ?C ?N ?A"
    using assms Some by (simp add: partial_roots_def partial_tables_N)
  show ?thesis
  proof (cases "?C c = None \<or> tn_id child = ''unfiled_____''")
    case True
    have "c \<noteq> ''0''"
      using True N firefox_zero [of "tn_id child"] Some by (auto simp: partial_tables_def)
    moreover have "tn_id child \<noteq> ''0''"
      using f by (auto simp: CANONICAL_ROOT_IDS_def)
    ultimately have "partial_tables v (?C(c \<mapsto> tn_id child)) ?N ?A"
      using f assms(2) by (intro partial_tables_C [OF N]) (auto simp: returns_def)
    with True Some show ?thesis
      by (simp add: partial_roots_def addNativeRoot_def update_conv')
  next
    case False
    with N Some show ?thesis by (auto simp: partial_roots_def addNativeRoot_def update_conv')
  qed
qed

lemma partial_roots_addDefaultRoot:
  assumes "partial_roots v R" and "c \<in> {''1'', ''2'', ''3''}" and "v \<noteq> c"
  shows "partial_roots v (addDefaultRoot c R)"
proof (cases "map_of (canonicalToNative R) c")
  case None
  have "partial_tables v ((map_of (canonicalToNative R))(c \<mapsto> c)) (map_of (nativeToCanonical R)) (set (allNativeRootIds R))"
    by (rule partial_tables_C)
       (use assms in \<open>auto simp: partial_roots_def partial_tables_def returns_def CANONICAL_ROOT_IDS_def\<close>)
  with None show ?thesis by (simp add: partial_roots_def addDefaultRoot_def update_conv')
next
  case (Some n)
  with assms(1) show ?thesis by (simp add: addDefaultRoot_def)
qed

text \<open>
  The initial tables. \<^verbatim>\<open>partial_tables\<close> has no entry for the canonical ids other than
  0, and a child of the root is not the root.
\<close>

lemma partial_tables_init:
  "v \<notin> set CANONICAL_ROOT_IDS \<Longrightarrow>
     partial_tables v [''0'' \<mapsto> v] [''0'' \<mapsto> ''0'', v \<mapsto> ''0''] (insert v (set CANONICAL_ROOT_IDS))"
  by (auto simp: partial_tables_def returns_def CANONICAL_ROOT_IDS_def split: if_splits)

lemma partial_roots_children:
  "partial_roots v R \<Longrightarrow> v \<notin> tn_id ` set cs \<Longrightarrow> partial_roots v (fold addNativeRoot cs R)"
  by (induction cs arbitrary: R) (auto simp: partial_roots_addNativeRoot)

lemma partial_roots_ok:
  assumes "partial_roots v R" and "\<forall>c \<in> {''1'', ''2'', ''3''}. map_of (canonicalToNative R) c \<noteq> None"
  shows "roots_ok R"
proof -
  let ?C = "map_of (canonicalToNative R)" and ?N = "map_of (nativeToCanonical R)"
  note t = assms(1) [unfolded partial_roots_def partial_tables_def]
  have dom: "?C c \<noteq> None" if "c \<in> set CANONICAL_ROOT_IDS" for c
    using that t assms(2) by (auto simp: CANONICAL_ROOT_IDS_def)
  have virt: "isVirtualRootId R i \<longleftrightarrow> i = ''0'' \<or> i = v" for i
    using t by (simp add: isVirtualRootId_def)
  have "\<exists>n. ?C c = Some n \<and> n \<in> set (allNativeRootIds R) \<and> (?N n = Some c \<or> ?N n = None \<and> n = c)
      \<and> (c \<noteq> ''0'' \<longrightarrow> \<not> isVirtualRootId R n)" if "c \<in> set CANONICAL_ROOT_IDS" for c
    using dom [OF that] t unfolding virt returns_def by fastforce
  moreover have "c \<in> set CANONICAL_ROOT_IDS" if "?N i = Some c" for i c
  proof -
    from t that have "c = ''0'' \<or> map_of FIREFOX_ROOT_CANONICAL i = Some c" by blast
    then show ?thesis using firefox_canonical [of i c] by (auto simp: CANONICAL_ROOT_IDS_def)
  qed
  ultimately show ?thesis
    using t unfolding roots_ok_def by (auto simp: ran_def)
qed

lemma addDefaultRoot_dom:
  "map_of (canonicalToNative (addDefaultRoot c R)) d \<noteq> None \<longleftrightarrow> d = c \<or> map_of (canonicalToNative R) d \<noteq> None"
  by (auto simp: addDefaultRoot_def update_conv')

lemma roots_ok_init:
  assumes "roots_ok R" and "tn_id root \<notin> {''1'', ''2'', ''3''}" and "tn_id root \<notin> tn_id ` set (tn_children root)"
  shows "roots_ok (initBrowserRoots root R)"
proof (cases "tn_id root = ''0''")
  case True
  with assms(1) show ?thesis by (simp add: initBrowserRoots_def)
next
  case False
  let ?v = "tn_id root"
  let ?R0 = "\<lparr>nativeToCanonical = AList.update ?v ''0'' [(''0'', ''0'')], canonicalToNative = [(''0'', ?v)],
      allNativeRootIds = List.insert ?v CANONICAL_ROOT_IDS\<rparr>"
  let ?R1 = "fold addNativeRoot (tn_children root) ?R0"
  let ?R2 = "addDefaultRoot ''3'' (addDefaultRoot ''2'' (addDefaultRoot ''1'' ?R1))"
  have "partial_roots ?v ?R0"
    using partial_tables_init [of ?v] False assms(2)
    by (simp add: partial_roots_def CANONICAL_ROOT_IDS_def fun_upd_twist)
  then have "partial_roots ?v ?R1"
    using assms(3) by (rule partial_roots_children)
  then have "partial_roots ?v ?R2"
    using assms(2) by (intro partial_roots_addDefaultRoot) auto
  moreover have "\<forall>c \<in> {''1'', ''2'', ''3''}. map_of (canonicalToNative ?R2) c \<noteq> None"
    unfolding addDefaultRoot_dom by simp
  ultimately have "roots_ok ?R2"
    by (rule partial_roots_ok)
  with False show ?thesis by (simp add: initBrowserRoots_def Let_def)
qed

subsection \<open>The walk over the managed tree\<close>

text \<open>
  The queue loop of mergeLocalChangesIntoDoc, computeOfflineChanges, computeLocalImportDiff,
  mergeImportIntoDoc, reconcile and bootstrapFromChrome: roots are entered but not visited, a
  container directly below the virtual root that is not a known root is skipped with its subtree.
\<close>

definition excluded :: "roots \<Rightarrow> tree_node \<Rightarrow> bool" where
  "excluded R n = (case tn_parentId n of None \<Rightarrow> False | Some p \<Rightarrow> isVirtualRootId R p)"

function managedWalk :: "roots \<Rightarrow> tree_node list \<Rightarrow> tree_node list" where
  "managedWalk R [] = []"
| "managedWalk R (n # queue) =
     (if isAnyRootId R (tn_id n) then managedWalk R (queue @ tn_children n)
      else if excluded R n then managedWalk R queue
      else n # managedWalk R (queue @ tn_children n))"
  by pat_completeness auto
termination
  by (relation "measure (\<lambda>(R, queue). sum_list (map tree_size queue))") (auto simp: tree_size_children)

lemma managedWalk_induct [case_names Nil Root Excluded Visit]:
  assumes "P []"
    and "\<And>n q. isAnyRootId R (tn_id n) \<Longrightarrow> P (q @ tn_children n) \<Longrightarrow> P (n # q)"
    and "\<And>n q. \<not> isAnyRootId R (tn_id n) \<Longrightarrow> excluded R n \<Longrightarrow> P q \<Longrightarrow> P (n # q)"
    and "\<And>n q. \<not> isAnyRootId R (tn_id n) \<Longrightarrow> \<not> excluded R n \<Longrightarrow> P (q @ tn_children n) \<Longrightarrow> P (n # q)"
  shows "P queue"
  using assms by (induction R queue rule: managedWalk.induct) (metis assms)+

text \<open>The specification: the managed nodes below a node, in preorder.\<close>

primrec managed :: "roots \<Rightarrow> tree_node \<Rightarrow> tree_node list" where
  "managed R (TreeNode i p ix t u cs) =
     (if isAnyRootId R i then concat (map (managed R) cs)
      else if excluded R (TreeNode i p ix t u cs) then []
      else TreeNode i p ix t u cs # concat (map (managed R) cs))"

lemma managed_eq:
  "managed R n =
     (if isAnyRootId R (tn_id n) then concat (map (managed R) (tn_children n))
      else if excluded R n then []
      else n # concat (map (managed R) (tn_children n)))"
  by (cases n) simp

lemma mset_managedWalk: "mset (managedWalk R queue) = mset (concat (map (managed R) queue))"
proof (induction queue rule: managedWalk_induct [of _ R])
  case (Root n q)
  then show ?case by (simp add: managed_eq [of R n] add.commute)
next
  case (Excluded n q)
  then show ?case by (simp add: managed_eq [of R n])
next
  case (Visit n q)
  then show ?case by (simp add: managed_eq [of R n] add.commute)
qed simp

text \<open>A tree as the browser delivers it: children name their parent, ids are nonempty.\<close>

primrec wf_node :: "tree_node \<Rightarrow> bool" where
  "wf_node (TreeNode i p ix t u cs) =
     (i \<noteq> [] \<and> (\<forall>c \<in> set cs. tn_parentId c = Some i) \<and> list_all (\<lambda>b. b) (map wf_node cs))"

lemma wf_node_eq:
  "wf_node n \<longleftrightarrow> tn_id n \<noteq> [] \<and> (\<forall>c \<in> set (tn_children n). tn_parentId c = Some (tn_id n) \<and> wf_node c)"
  by (cases n) (auto simp: list_all_iff)

primrec tree_ids :: "tree_node \<Rightarrow> string list" where
  "tree_ids (TreeNode i p ix t u cs) = i # concat (map tree_ids cs)"

lemma tree_ids_eq: "tree_ids n = tn_id n # concat (map tree_ids (tn_children n))"
  by (cases n) simp

text \<open>Every node's parent is a root or was visited before it.\<close>

fun parents_first :: "string set \<Rightarrow> tree_node list \<Rightarrow> bool" where
  "parents_first A [] = True"
| "parents_first A (n # ns) =
     ((\<exists>p \<in> A. tn_parentId n = Some p) \<and> parents_first (insert (tn_id n) A) ns)"

definition reached :: "roots \<Rightarrow> string set \<Rightarrow> tree_node \<Rightarrow> bool" where
  "reached R A n \<longleftrightarrow> wf_node n \<and> (isAnyRootId R (tn_id n) \<or> (\<exists>p \<in> A. tn_parentId n = Some p))"

lemma reached_children:
  assumes "wf_node n" and "tn_id n \<in> A" and "c \<in> set (tn_children n)"
  shows "reached R A c"
  using assms by (auto simp: reached_def wf_node_eq [of n])

lemma reached_mono: "reached R A n \<Longrightarrow> A \<subseteq> B \<Longrightarrow> reached R B n"
  by (auto simp: reached_def)

lemma managedWalk_parents_first:
  assumes "\<forall>n \<in> set queue. reached R A n" and "set (allNativeRootIds R) \<subseteq> A"
  shows "parents_first A (managedWalk R queue)"
  using assms
proof (induction queue arbitrary: A rule: managedWalk_induct [of _ R])
  case (Root n q)
  then have "wf_node n" "tn_id n \<in> A" by (auto simp: reached_def isAnyRootId_def)
  with Root show ?case by (auto intro: reached_children)
next
  case (Visit n q)
  then have n: "wf_node n" "\<exists>p \<in> A. tn_parentId n = Some p" by (auto simp: reached_def)
  have "\<forall>m \<in> set (q @ tn_children n). reached R (insert (tn_id n) A) m"
    using Visit.prems n(1) by (auto intro: reached_mono [where B = "insert (tn_id n) A"] reached_children)
  with Visit n(2) show ?case by auto
qed simp_all

lemma managed_ids_subset: "set (map tn_id (managed R n)) \<subseteq> set (tree_ids n)"
proof (induction n)
  case (TreeNode i p ix t u cs)
  have "tn_id m \<in> set (tree_ids c)" if "m \<in> set (managed R c)" "c \<in> set cs" for m c
    using TreeNode [OF that(2)] that(1) by auto
  then show ?case by (auto simp del: managed.simps simp: managed_eq [of R "TreeNode i p ix t u cs"])
qed

lemma distinct_concat_map_subset:
  assumes "distinct (concat (map f xs))" and "\<And>x. x \<in> set xs \<Longrightarrow> distinct (g x) \<and> set (g x) \<subseteq> set (f x)"
  shows "distinct (concat (map g xs))"
  using assms
proof (induction xs)
  case (Cons x xs)
  have "set (concat (map g xs)) \<subseteq> set (concat (map f xs))" using Cons.prems(2) by fastforce
  with Cons show ?case by auto blast
qed simp

lemma managed_ids_distinct: "distinct (tree_ids n) \<Longrightarrow> distinct (map tn_id (managed R n))"
proof (induction n)
  case (TreeNode i p ix t u cs)
  have "distinct (concat (map (\<lambda>c. map tn_id (managed R c)) cs))"
  proof (rule distinct_concat_map_subset)
    show "distinct (concat (map tree_ids cs))" using TreeNode.prems by simp
    fix c assume "c \<in> set cs"
    with TreeNode show "distinct (map tn_id (managed R c)) \<and> set (map tn_id (managed R c)) \<subseteq> set (tree_ids c)"
      using managed_ids_subset by (auto simp: distinct_concat_iff)
  qed
  then have "distinct (map tn_id (concat (map (managed R) cs)))"
    by (simp add: map_concat o_def)
  moreover have "i \<notin> set (map tn_id (concat (map (managed R) cs)))"
    using TreeNode.prems managed_ids_subset by fastforce
  ultimately show ?case by simp
qed

text \<open>The visited nodes carry nonempty ids and are not roots.\<close>

lemma managed_not_root: "m \<in> set (managed R n) \<Longrightarrow> \<not> isAnyRootId R (tn_id m) \<and> \<not> excluded R m"
  by (induction n) (auto split: if_splits)

lemma managed_wf: "wf_node n \<Longrightarrow> m \<in> set (managed R n) \<Longrightarrow> wf_node m"
proof (induction n)
  case (TreeNode i p ix t u cs)
  then show ?case by (auto simp: list_all_iff split: if_splits)
qed

end
