(* ===== verification/Loro_Doc.thy ===== *)
theory Loro_Doc
  imports Prelude
begin

text \<open>
  extension/src/crdt/loro-doc.ts: the wrapper around one Loro document. Loro (loro-wasm) is not
  code of the repository, so a document is a type parameter and its operations are the fields
  of the record \<^verbatim>\<open>loro\<close>; what the bookmark code relies on (the map container
  \<^verbatim>\<open>bookmarks\<close> reads back what was set and deleted) is \<^verbatim>\<open>loro_map_ok\<close>.
  The module variable \<^verbatim>\<open>_doc\<close> is an option; every accessor throws before initDoc.
\<close>

datatype node_type = BookmarkT | FolderT

text \<open>
  \<^verbatim>\<open>BookmarkNode\<close>; an absent url is None (the WASM layer turns undefined into null, and
  every reader normalises the two).
\<close>

record bookmark_node =
  bn_title :: string
  bn_url :: "string option"
  bn_parentId :: string
  bn_index :: int
  bn_type :: node_type

type_synonym bookmarks = "(string \<times> bookmark_node) list"

record 'd loro =
  loro_new :: 'd
  loro_import :: "bytes \<Rightarrow> 'd \<Rightarrow> js_error + 'd"
  loro_exportSnapshot :: "'d \<Rightarrow> bytes"
  loro_exportFrom :: "bytes \<Rightarrow> 'd \<Rightarrow> bytes"
  loro_version :: "'d \<Rightarrow> bytes"
  loro_set :: "string \<Rightarrow> bookmark_node \<Rightarrow> 'd \<Rightarrow> 'd"
  loro_delete :: "string \<Rightarrow> 'd \<Rightarrow> 'd"
  loro_toJSON :: "'d \<Rightarrow> bookmarks"

definition loro_map_ok :: "'d loro \<Rightarrow> bool" where
  "loro_map_ok L \<longleftrightarrow>
     loro_toJSON L (loro_new L) = []
     \<and> (\<forall>d. distinct (map fst (loro_toJSON L d)))
     \<and> (\<forall>i n d. map_of (loro_toJSON L (loro_set L i n d)) = (map_of (loro_toJSON L d))(i \<mapsto> n))
     \<and> (\<forall>i d. map_of (loro_toJSON L (loro_delete L i d)) = (map_of (loro_toJSON L d))(i := None))"

subsection \<open>The wrapper\<close>

text \<open>A snapshot that fails to import leaves a new empty document behind (\<^verbatim>\<open>_doc\<close> is set first).\<close>

definition initDoc :: "'d loro \<Rightarrow> bytes option \<Rightarrow> ('d option, unit) act" where
  "initDoc L snapshot d0 =
     (case snapshot of
        None \<Rightarrow> (Inr (), Some (loro_new L))
      | Some s \<Rightarrow> (case loro_import L s (loro_new L) of
                     Inl e \<Rightarrow> (Inl e, Some (loro_new L))
                   | Inr d \<Rightarrow> (Inr (), Some d)))"

definition loroDoc :: "'d option \<Rightarrow> js_error + 'd" where
  "loroDoc d0 = (case d0 of None \<Rightarrow> Inl (JsError ''Loro doc not initialized - call initDoc() first'')
                 | Some d \<Rightarrow> Inr d)"

definition exportSnapshot :: "'d loro \<Rightarrow> 'd option \<Rightarrow> js_error + bytes" where
  "exportSnapshot L d0 = bindE (loroDoc d0) (\<lambda>d. Inr (loro_exportSnapshot L d))"

definition exportEmptySnapshot :: "'d loro \<Rightarrow> bytes" where
  "exportEmptySnapshot L = loro_exportSnapshot L (loro_new L)"

definition exportFrom :: "'d loro \<Rightarrow> bytes option \<Rightarrow> 'd option \<Rightarrow> js_error + bytes" where
  "exportFrom L sinceVersion d0 =
     bindE (loroDoc d0) (\<lambda>d.
       case sinceVersion of None \<Rightarrow> Inr (loro_exportSnapshot L d) | Some v \<Rightarrow> Inr (loro_exportFrom L v d))"

definition importUpdate :: "'d loro \<Rightarrow> bytes \<Rightarrow> ('d option, unit) act" where
  "importUpdate L data d0 =
     (case bindE (loroDoc d0) (loro_import L data) of
        Inl e \<Rightarrow> (Inl e, d0) | Inr d \<Rightarrow> (Inr (), Some d))"

definition getBookmarksFromSnapshot :: "'d loro \<Rightarrow> bytes \<Rightarrow> js_error + bookmarks" where
  "getBookmarksFromSnapshot L snapshot =
     bindE (loro_import L snapshot (loro_new L)) (\<lambda>d. Inr (loro_toJSON L d))"

definition currentVersion :: "'d loro \<Rightarrow> 'd option \<Rightarrow> js_error + bytes" where
  "currentVersion L d0 = bindE (loroDoc d0) (\<lambda>d. Inr (loro_version L d))"

definition setBookmark :: "'d loro \<Rightarrow> string \<Rightarrow> bookmark_node \<Rightarrow> ('d option, unit) act" where
  "setBookmark L i node d0 =
     (case loroDoc d0 of Inl e \<Rightarrow> (Inl e, d0) | Inr d \<Rightarrow> (Inr (), Some (loro_set L i node d)))"

definition deleteBookmark :: "'d loro \<Rightarrow> string \<Rightarrow> ('d option, unit) act" where
  "deleteBookmark L i d0 =
     (case loroDoc d0 of Inl e \<Rightarrow> (Inl e, d0) | Inr d \<Rightarrow> (Inr (), Some (loro_delete L i d)))"

definition getAllBookmarks :: "'d loro \<Rightarrow> 'd option \<Rightarrow> js_error + bookmarks" where
  "getAllBookmarks L d0 = bindE (loroDoc d0) (\<lambda>d. Inr (loro_toJSON L d))"

subsection \<open>The map container\<close>

lemma toJSON_new [simp]: "loro_map_ok L \<Longrightarrow> loro_toJSON L (loro_new L) = []"
  unfolding loro_map_ok_def by blast

lemma toJSON_distinct: "loro_map_ok L \<Longrightarrow> distinct (map fst (loro_toJSON L d))"
  unfolding loro_map_ok_def by blast

lemma toJSON_set [simp]:
  "loro_map_ok L \<Longrightarrow> map_of (loro_toJSON L (loro_set L i n d)) = (map_of (loro_toJSON L d))(i \<mapsto> n)"
  unfolding loro_map_ok_def by blast

lemma toJSON_delete [simp]:
  "loro_map_ok L \<Longrightarrow> map_of (loro_toJSON L (loro_delete L i d)) = (map_of (loro_toJSON L d))(i := None)"
  unfolding loro_map_ok_def by blast

lemma toJSON_mem_iff: "loro_map_ok L \<Longrightarrow> (i, n) \<in> set (loro_toJSON L d) \<longleftrightarrow> map_of (loro_toJSON L d) i = Some n"
  by (simp add: map_of_eq_Some_iff toJSON_distinct)

text \<open>A concrete document for the witnesses: the map itself.\<close>

definition example_loro :: "bookmarks loro" where
  "example_loro =
     \<lparr>loro_new = [], loro_import = (\<lambda>data d. Inl (JsError ''decode error'')), loro_exportSnapshot = (\<lambda>d. []),
      loro_exportFrom = (\<lambda>v d. []), loro_version = (\<lambda>d. [word_of_nat (length d)]),
      loro_set = AList.update, loro_delete = AList.delete,
      loro_toJSON = (\<lambda>d. AList.clearjunk d)\<rparr>"

lemma example_loro_ok: "loro_map_ok example_loro"
  by (simp add: loro_map_ok_def example_loro_def map_of_clearjunk distinct_clearjunk update_conv' delete_conv')

end
