(* ===== verification/Id_Mapping.thy ===== *)
theory Id_Mapping
  imports Bookmark_Tree Loro_Doc Storage Session
begin

text \<open>
  extension/src/bookmarks/bridge.ts, lines 139-201: the state of the bridge (the live document,
  the two id maps and the version cursor), its persistence, and the translation of parents.
  The two maps must stay inverse to each other; the operations that keep them so are stated as
  the interface \<^verbatim>\<open>id_bimap\<close>, interpreted on the code's pair of maps.
  The document is the one initDoc created (\<^verbatim>\<open>loroDoc\<close> has succeeded); random UUIDs are
  drawn from a stream \<^verbatim>\<open>uuid\<close> by the counter \<^verbatim>\<open>uuids\<close>.
\<close>

record 'd bridge =
  doc :: 'd
  loroToChrome :: "(string \<times> string) list"
  chromeToLoro :: "(string \<times> string) list"
  lastVersion :: "bytes option"
  uuids :: nat

definition link :: "string \<Rightarrow> string \<Rightarrow> 'd bridge \<Rightarrow> 'd bridge" where
  "link loroId chromeId b =
     b\<lparr>loroToChrome := AList.update loroId chromeId (loroToChrome b),
       chromeToLoro := AList.update chromeId loroId (chromeToLoro b)\<rparr>"

definition unlink :: "string \<Rightarrow> string \<Rightarrow> 'd bridge \<Rightarrow> 'd bridge" where
  "unlink loroId chromeId b =
     b\<lparr>loroToChrome := AList.delete loroId (loroToChrome b),
       chromeToLoro := AList.delete chromeId (chromeToLoro b)\<rparr>"

definition l2c :: "'d bridge \<Rightarrow> string \<Rightarrow> string option" where
  "l2c b = map_of (loroToChrome b)"

definition c2l :: "'d bridge \<Rightarrow> string \<Rightarrow> string option" where
  "c2l b = map_of (chromeToLoro b)"

subsection \<open>Interface: a pair of inverse maps\<close>

locale id_bimap =
  fixes fwd :: "'m \<Rightarrow> 'a \<Rightarrow> 'b option"
    and bwd :: "'m \<Rightarrow> 'b \<Rightarrow> 'a option"
    and lnk :: "'a \<Rightarrow> 'b \<Rightarrow> 'm \<Rightarrow> 'm"
    and unl :: "'a \<Rightarrow> 'b \<Rightarrow> 'm \<Rightarrow> 'm"
  assumes fwd_lnk: "fwd (lnk a b m) = (fwd m)(a \<mapsto> b)"
    and bwd_lnk: "bwd (lnk a b m) = (bwd m)(b \<mapsto> a)"
    and fwd_unl: "fwd (unl a b m) = (fwd m)(a := None)"
    and bwd_unl: "bwd (unl a b m) = (bwd m)(b := None)"
begin

definition inverse_maps :: "'m \<Rightarrow> bool" where
  "inverse_maps m \<longleftrightarrow> (\<forall>a b. fwd m a = Some b \<longleftrightarrow> bwd m b = Some a)"

lemma inverse_mapsD: "inverse_maps m \<Longrightarrow> fwd m a = Some b \<longleftrightarrow> bwd m b = Some a"
  by (simp add: inverse_maps_def)

lemma fwd_inj: "inverse_maps m \<Longrightarrow> fwd m a = Some b \<Longrightarrow> fwd m a' = Some b \<Longrightarrow> a = a'"
  by (auto simp: inverse_maps_def)

lemma inverse_maps_lnk:
  "inverse_maps m \<Longrightarrow> fwd m a = None \<Longrightarrow> bwd m b = None \<Longrightarrow> inverse_maps (lnk a b m)"
  unfolding inverse_maps_def fwd_lnk bwd_lnk by (auto, metis option.distinct(1))

lemma inverse_maps_unl:
  "inverse_maps m \<Longrightarrow> fwd m a = Some b \<Longrightarrow> inverse_maps (unl a b m)"
  unfolding inverse_maps_def fwd_unl bwd_unl by (auto, metis option.inject)

lemma ran_fwd: "inverse_maps m \<Longrightarrow> b \<in> ran (fwd m) \<longleftrightarrow> bwd m b \<noteq> None"
  by (auto simp: inverse_maps_def ran_def)

end

interpretation id_map: id_bimap l2c c2l link unlink
  by unfold_locales (simp_all add: l2c_def c2l_def link_def unlink_def update_conv' delete_conv')

text \<open>
  The invariant of the mapping: the maps are inverse, have one entry per key, and no id is the
  empty string (the code tests ids for truthiness).
\<close>

definition mapping_ok :: "'d bridge \<Rightarrow> bool" where
  "mapping_ok b \<longleftrightarrow> id_map.inverse_maps b
     \<and> distinct (map fst (loroToChrome b)) \<and> distinct (map fst (chromeToLoro b))
     \<and> l2c b [] = None \<and> c2l b [] = None"

lemma mapping_ok_iff: "mapping_ok b \<Longrightarrow> l2c b l = Some c \<longleftrightarrow> c2l b c = Some l"
  by (simp add: mapping_ok_def id_map.inverse_mapsD)

lemma mapping_ok_nonempty: "mapping_ok b \<Longrightarrow> l2c b l = Some c \<Longrightarrow> l \<noteq> [] \<and> c \<noteq> []"
  by (metis mapping_ok_def mapping_ok_iff option.distinct(1))

lemma mapping_ok_link:
  "mapping_ok b \<Longrightarrow> l2c b l = None \<Longrightarrow> c2l b c = None \<Longrightarrow> l \<noteq> [] \<Longrightarrow> c \<noteq> [] \<Longrightarrow> mapping_ok (link l c b)"
  by (auto simp: mapping_ok_def id_map.inverse_maps_lnk id_map.fwd_lnk id_map.bwd_lnk)
     (simp_all add: link_def distinct_update)

lemma mapping_ok_unlink: "mapping_ok b \<Longrightarrow> l2c b l = Some c \<Longrightarrow> mapping_ok (unlink l c b)"
  by (auto simp: mapping_ok_def id_map.inverse_maps_unl id_map.fwd_unl id_map.bwd_unl)
     (simp_all add: unlink_def distinct_delete)

lemma truthy_l2c: "mapping_ok b \<Longrightarrow> truthy (l2c b l) \<longleftrightarrow> l2c b l \<noteq> None"
  using mapping_ok_nonempty [of b l] by (auto simp: truthy_iff)

lemma truthy_c2l: "mapping_ok b \<Longrightarrow> truthy (c2l b c) \<longleftrightarrow> c2l b c \<noteq> None"
  using mapping_ok_nonempty [of b _ c] by (auto simp: truthy_iff mapping_ok_iff)

subsection \<open>Frames\<close>

lemma bridge_frames [simp]:
  "doc (link l c b) = doc b" "lastVersion (link l c b) = lastVersion b" "uuids (link l c b) = uuids b"
  "doc (unlink l c b) = doc b" "lastVersion (unlink l c b) = lastVersion b" "uuids (unlink l c b) = uuids b"
  "l2c (b\<lparr>doc := d\<rparr>) = l2c b" "c2l (b\<lparr>doc := d\<rparr>) = c2l b"
  "l2c (b\<lparr>uuids := k\<rparr>) = l2c b" "c2l (b\<lparr>uuids := k\<rparr>) = c2l b"
  "l2c (b\<lparr>lastVersion := v\<rparr>) = l2c b" "c2l (b\<lparr>lastVersion := v\<rparr>) = c2l b"
  by (simp_all add: link_def unlink_def l2c_def c2l_def)

lemma mapping_ok_frames [simp]:
  "mapping_ok (b\<lparr>doc := d\<rparr>) = mapping_ok b" "mapping_ok (b\<lparr>uuids := k\<rparr>) = mapping_ok b"
  "mapping_ok (b\<lparr>lastVersion := v\<rparr>) = mapping_ok b"
  by (simp_all add: mapping_ok_def id_map.inverse_maps_def)

lemmas link_simps [simp] = id_map.fwd_lnk id_map.bwd_lnk id_map.fwd_unl id_map.bwd_unl

subsection \<open>Persistence\<close>

definition hasEstablishedMapping :: "'d bridge \<Rightarrow> bool" where
  "hasEstablishedMapping b = (0 < length (loroToChrome b))"

text \<open>\<^verbatim>\<open>new Map(entries)\<close>: a later entry of a key replaces the value of an earlier one.\<close>

definition newMap :: "('k \<times> 'v) list \<Rightarrow> ('k \<times> 'v) list" where
  "newMap entries = fold (\<lambda>(k, v). AList.update k v) entries []"

definition loadMapping :: "string \<Rightarrow> idb \<Rightarrow> 'd bridge \<Rightarrow> 'd bridge" where
  "loadMapping profileId db b =
     (let entries = (case getMeta db (chromeIdMapKey profileId) of Some (MObj es) \<Rightarrow> es | _ \<Rightarrow> [])
      in b\<lparr>loroToChrome := newMap entries, chromeToLoro := newMap (map (\<lambda>(l, c). (c, l)) entries)\<rparr>)"

definition saveMapping :: "auth \<Rightarrow> 'd bridge \<Rightarrow> (idb, unit) act" where
  "saveMapping a b db =
     (case getActiveProfileId a of
        Inl e \<Rightarrow> (Inl e, db)
      | Inr pid \<Rightarrow> (Inr (), setMeta (chromeIdMapKey pid) (MObj (loroToChrome b)) db))"

subsection \<open>Translation of parents\<close>

definition toNode :: "tree_node \<Rightarrow> string \<Rightarrow> bookmark_node" where
  "toNode item parentLoroId =
     \<lparr>bn_title = tn_title item, bn_url = tn_url item, bn_parentId = parentLoroId,
      bn_index = orElse (tn_index item) 0,
      bn_type = (if truthy (tn_url item) then BookmarkT else FolderT)\<rparr>"

definition chromeParentToLoro :: "roots \<Rightarrow> 'd bridge \<Rightarrow> string \<Rightarrow> string" where
  "chromeParentToLoro R b chromeParentId =
     (case map_of (nativeToCanonical R) chromeParentId of
        Some canonical \<Rightarrow> canonical
      | None \<Rightarrow> orElse (c2l b chromeParentId) chromeParentId)"

definition loroParentToChrome :: "roots \<Rightarrow> 'd bridge \<Rightarrow> string \<Rightarrow> string" where
  "loroParentToChrome R b loroParentId =
     (case map_of (canonicalToNative R) loroParentId of
        Some native \<Rightarrow> native
      | None \<Rightarrow> orElse (l2c b loroParentId) loroParentId)"

definition isValidChromeParentId :: "roots \<Rightarrow> 'd bridge \<Rightarrow> string \<Rightarrow> bool" where
  "isValidChromeParentId R b i =
     (if isVirtualRootId R i then False
      else if i \<in> set (allNativeRootIds R) then True
      else c2l b i \<noteq> None)"

text \<open>No root container is mapped, on either side.\<close>

definition roots_unmapped :: "roots \<Rightarrow> 'd bridge \<Rightarrow> bool" where
  "roots_unmapped R b \<longleftrightarrow>
     (\<forall>i. isAnyRootId R i \<longrightarrow> c2l b i = None) \<and> (\<forall>c \<in> set CANONICAL_ROOT_IDS. l2c b c = None)"

subsection \<open>Properties\<close>

lemma newMap_distinct: "distinct (map fst es) \<Longrightarrow> newMap es = es"
proof (induction es rule: rev_induct)
  case (snoc e es)
  have "k \<notin> fst ` set es \<Longrightarrow> AList.update k v es = es @ [(k, v)]" for k v
    by (induction es) auto
  with snoc show ?case by (cases e) (auto simp: newMap_def)
qed (simp add: newMap_def)

lemma loadMapping_result:
  assumes "getMeta db (chromeIdMapKey p) = Some (MObj (loroToChrome b))" and "mapping_ok b"
  shows "l2c (loadMapping p db b0) = l2c b" and "c2l (loadMapping p db b0) = c2l b"
    and "loroToChrome (loadMapping p db b0) = loroToChrome b"
proof -
  let ?es = "loroToChrome b"
  have d: "distinct (map fst ?es)" and inv: "id_map.inverse_maps b"
    using assms(2) by (auto simp: mapping_ok_def)
  have entry: "(l, c) \<in> set ?es \<longleftrightarrow> c2l b c = Some l" for l c
    using id_map.inverse_mapsD [OF inv, of l c] d by (simp add: l2c_def)
  have "distinct (map snd ?es)"
    using d entry by (auto simp: distinct_map inj_on_def)
  then have d': "distinct (map fst (map (\<lambda>(l, c). (c, l)) ?es))"
    by (simp add: o_def case_prod_unfold)
  have "map_of (map (\<lambda>(l, c). (c, l)) ?es) c = c2l b c" for c
  proof (cases "c2l b c")
    case None
    then show ?thesis using entry by (auto simp: map_of_eq_None_iff)
  next
    case (Some l)
    then have "(c, l) \<in> set (map (\<lambda>(l, c). (c, l)) ?es)" using entry by force
    with Some d' show ?thesis by (simp add: map_of_is_SomeI)
  qed
  then show "c2l (loadMapping p db b0) = c2l b"
    using assms(1) newMap_distinct [OF d'] by (simp add: loadMapping_def Let_def c2l_def fun_eq_iff)
  show "l2c (loadMapping p db b0) = l2c b" "loroToChrome (loadMapping p db b0) = loroToChrome b"
    using assms(1) newMap_distinct [OF d] by (simp_all add: loadMapping_def Let_def l2c_def)
qed

lemma parents_roundtrip_ok:
  assumes "roots_ok R" and "mapping_ok b" and "roots_unmapped R b"
    and p: "p \<in> set CANONICAL_ROOT_IDS \<or> l2c b p \<noteq> None"
  shows "chromeParentToLoro R b (loroParentToChrome R b p) = p
    \<and> (p \<in> set CANONICAL_ROOT_IDS \<longrightarrow> p \<noteq> ''0'' \<longrightarrow> isValidChromeParentId R b (loroParentToChrome R b p))"
proof (cases "p \<in> set CANONICAL_ROOT_IDS")
  case True
  then obtain n where n: "map_of (canonicalToNative R) p = Some n" "n \<in> set (allNativeRootIds R)"
    "map_of (nativeToCanonical R) n = Some p \<or> map_of (nativeToCanonical R) n = None \<and> n = p"
    "p \<noteq> ''0'' \<longrightarrow> \<not> isVirtualRootId R n"
    using assms(1) unfolding roots_ok_def by blast
  then have "c2l b n = None" using assms(3) by (simp add: roots_unmapped_def isAnyRootId_def)
  with n show ?thesis by (auto simp: loroParentToChrome_def chromeParentToLoro_def isValidChromeParentId_def)
next
  case False
  with p obtain c where c: "l2c b p = Some c" by blast
  then have ret: "c2l b c = Some p" using assms(2) by (simp add: mapping_ok_iff)
  have "map_of (canonicalToNative R) p = None"
    using False assms(1) by (auto simp: roots_ok_def)
  moreover have "c \<notin> set (allNativeRootIds R)"
    using assms(3) ret by (auto simp: roots_unmapped_def isAnyRootId_def)
  then have "map_of (nativeToCanonical R) c = None"
    using assms(1) by (auto simp: roots_ok_def)
  ultimately show ?thesis
    using c ret False by (auto simp: loroParentToChrome_def chromeParentToLoro_def isValidChromeParentId_def)
qed

text \<open>
  Parent ids survive the trip through the browser: with the tables initBrowserRoots builds for
  any browser (its root not named 1, 2 or 3 and not its own child), translating a canonical root or
  a mapped folder to a native id and back gives it back, and the native container of every root
  but the virtual one is accepted as a parent by isValidChromeParentId.
\<close>

theorem parent_translation_roundtrip:
  assumes "tn_id root \<notin> {''1'', ''2'', ''3''}" and "tn_id root \<notin> tn_id ` set (tn_children root)"
    and "R = initBrowserRoots root defaultRoots" and "mapping_ok b" and "roots_unmapped R b"
    and "p \<in> set CANONICAL_ROOT_IDS \<or> l2c b p \<noteq> None"
  shows "chromeParentToLoro R b (loroParentToChrome R b p) = p
    \<and> (p \<in> set CANONICAL_ROOT_IDS \<longrightarrow> p \<noteq> ''0'' \<longrightarrow> isValidChromeParentId R b (loroParentToChrome R b p))"
  using parents_roundtrip_ok [OF roots_ok_init [OF roots_ok_default assms(1,2)]] assms(3-) by blast

definition example_firefox :: tree_node where
  "example_firefox = TreeNode ''root________'' None None '''' None
     [TreeNode ''menu________'' (Some ''root________'') (Some 0) ''Menu'' None [],
      TreeNode ''toolbar_____'' (Some ''root________'') (Some 1) ''Toolbar'' None [],
      TreeNode ''unfiled_____'' (Some ''root________'') (Some 2) ''Other'' None []]"

definition example_map :: "unit bridge" where
  "example_map = \<lparr>doc = (), loroToChrome = [], chromeToLoro = [], lastVersion = None, uuids = 0\<rparr>"

lemma example_map_maps: "l2c example_map l = None" "c2l example_map c = None"
  by (simp_all add: l2c_def c2l_def example_map_def)

lemma example_map_ok: "mapping_ok example_map"
  by (simp add: mapping_ok_def id_map.inverse_maps_def example_map_maps) (simp add: example_map_def)

lemma parent_translation_roundtrip_witness:
  "chromeParentToLoro (initBrowserRoots example_firefox defaultRoots) example_map
     (loroParentToChrome (initBrowserRoots example_firefox defaultRoots) example_map ''1'') = ''1''
   \<and> isValidChromeParentId (initBrowserRoots example_firefox defaultRoots) example_map
      (loroParentToChrome (initBrowserRoots example_firefox defaultRoots) example_map ''1'')"
proof -
  let ?R = "initBrowserRoots example_firefox defaultRoots"
  have "roots_unmapped ?R example_map"
    by (simp add: roots_unmapped_def example_map_maps)
  moreover have "tn_id example_firefox \<notin> {''1'', ''2'', ''3''}"
    "tn_id example_firefox \<notin> tn_id ` set (tn_children example_firefox)"
    by (simp_all add: example_firefox_def)
  ultimately show ?thesis
    using parent_translation_roundtrip [of example_firefox ?R example_map "''1''"] example_map_ok
    by (simp add: CANONICAL_ROOT_IDS_def)
qed

text \<open>
  The mapping survives a restart: what saveMapping stores for the active profile,
  loadMapping reads back as the same two maps, still inverse to each other.
\<close>

theorem mapping_persists:
  assumes "mapping_ok b" and "getActiveProfileId a = Inr p" and "saveMapping a b db = (Inr (), db')"
  shows "l2c (loadMapping p db' b0) = l2c b \<and> c2l (loadMapping p db' b0) = c2l b
    \<and> (hasEstablishedMapping (loadMapping p db' b0) \<longleftrightarrow> hasEstablishedMapping b)"
proof -
  have "getMeta db' (chromeIdMapKey p) = Some (MObj (loroToChrome b))"
    using assms(2,3) by (auto simp: saveMapping_def meta_kv.kv_get_put)
  from loadMapping_result [OF this assms(1), of b0] show ?thesis
    by (simp add: hasEstablishedMapping_def)
qed

lemma mapping_persists_witness:
  "\<exists>db'. saveMapping (setSession ''t'' ''e'' [1] [1] ''k'' ''u'' [] ''p1'' freshAuth) (link ''l'' ''c'' example_map) emptyDb
       = (Inr (), db') \<and> l2c (loadMapping ''p1'' db' example_map) ''l'' = Some ''c''"
proof -
  let ?a = "setSession ''t'' ''e'' [1] [1] ''k'' ''u'' [] ''p1'' freshAuth"
  have m: "mapping_ok (link ''l'' ''c'' example_map)"
    by (rule mapping_ok_link [OF example_map_ok]) (simp_all add: example_map_maps)
  have p: "getActiveProfileId ?a = Inr ''p1''" by (simp add: getActiveProfileId_def setSession_def)
  then obtain db' where s: "saveMapping ?a (link ''l'' ''c'' example_map) emptyDb = (Inr (), db')"
    by (simp add: saveMapping_def)
  from mapping_persists [OF m p s, of example_map] s show ?thesis by simp
qed

end
