(* ===== verification/Bridge_Merge.thy ===== *)
theory Bridge_Merge
  imports Id_Mapping
begin

text \<open>
  extension/src/bookmarks/bridge.ts: what flows from the browser into the document --
  bootstrapFromChrome, mergeLocalChangesIntoDoc, computeOfflineChanges, computeLocalImportDiff
  and mergeImportIntoDoc. \<^verbatim>\<open>getTree\<close> is an argument (the trees it returned).
  Loops that only read the tables that direct the walk are folds over \<^verbatim>\<open>managedWalk\<close>;
  the two that write the mapping while walking are translated as they stand and shown equal to such
  a fold.
\<close>

subsection \<open>Shared steps\<close>

definition bookmarks :: "'d loro \<Rightarrow> 'd bridge \<Rightarrow> bookmarks" where
  "bookmarks L b = loro_toJSON L (doc b)"

definition putBookmark :: "'d loro \<Rightarrow> string \<Rightarrow> bookmark_node \<Rightarrow> 'd bridge \<Rightarrow> 'd bridge" where
  "putBookmark L loroId node b = b\<lparr>doc := loro_set L loroId node (doc b)\<rparr>"

definition dropBookmark :: "'d loro \<Rightarrow> string \<Rightarrow> 'd bridge \<Rightarrow> 'd bridge" where
  "dropBookmark L loroId b = b\<lparr>doc := loro_delete L loroId (doc b)\<rparr>"

text \<open>A new node: a fresh UUID, its parent translated, both maps extended, the document set.\<close>

definition addNode :: "'d loro \<Rightarrow> (nat \<Rightarrow> string) \<Rightarrow> roots \<Rightarrow> tree_node \<Rightarrow> 'd bridge \<Rightarrow> 'd bridge" where
  "addNode L uuid R node b =
     (let loroId = uuid (uuids b);
          parentLoroId = chromeParentToLoro R b (orElse (tn_parentId node) ''1'');
          b' = link loroId (tn_id node) (b\<lparr>uuids := Suc (uuids b)\<rparr>)
      in putBookmark L loroId (toNode node parentLoroId) b')"

definition currentChrome :: "roots \<Rightarrow> tree_node list \<Rightarrow> (string \<times> tree_node) list" where
  "currentChrome R tree = fold (\<lambda>n. AList.update (tn_id n) n) (managedWalk R tree) []"

subsection \<open>bootstrapFromChrome\<close>

function bootstrapLoop ::
  "'d loro \<Rightarrow> (nat \<Rightarrow> string) \<Rightarrow> roots \<Rightarrow> tree_node list \<Rightarrow> 'd bridge \<Rightarrow> nat \<Rightarrow> nat \<times> 'd bridge" where
  "bootstrapLoop L uuid R [] b cnt = (cnt, b)"
| "bootstrapLoop L uuid R (node # queue) b cnt =
     (if isAnyRootId R (tn_id node) then bootstrapLoop L uuid R (queue @ tn_children node) b cnt
      else if excluded R node then bootstrapLoop L uuid R queue b cnt
      else bootstrapLoop L uuid R (queue @ tn_children node) (addNode L uuid R node b) (Suc cnt))"
  by pat_completeness auto
termination
  by (relation "measure (\<lambda>(L, uuid, R, queue, b, cnt). sum_list (map tree_size queue))")
     (auto simp: tree_size_children)

definition bootstrapFromChrome ::
  "'d loro \<Rightarrow> (nat \<Rightarrow> string) \<Rightarrow> roots \<Rightarrow> string \<Rightarrow> tree_node \<Rightarrow> 'd bridge \<times> idb \<Rightarrow> nat \<times> 'd bridge \<times> idb" where
  "bootstrapFromChrome L uuid R profileId tree = (\<lambda>(b, db).
     (case bootstrapLoop L uuid R (tn_children tree) b 0 of
        (cnt, b') \<Rightarrow> (cnt, b'\<lparr>lastVersion := Some (loro_version L (doc b'))\<rparr>,
                        setMeta (chromeIdMapKey profileId) (MObj (loroToChrome b')) db)))"

lemma bootstrapLoop_walk:
  "bootstrapLoop L uuid R queue b cnt =
     (cnt + length (managedWalk R queue), fold (addNode L uuid R) (managedWalk R queue) b)"
  by (induction queue arbitrary: b cnt rule: managedWalk_induct [of _ R]) simp_all

subsection \<open>mergeLocalChangesIntoDoc\<close>

definition addMissing :: "'d loro \<Rightarrow> (nat \<Rightarrow> string) \<Rightarrow> roots \<Rightarrow> tree_node \<Rightarrow> 'd bridge \<Rightarrow> 'd bridge" where
  "addMissing L uuid R node b = (if c2l b (tn_id node) \<noteq> None then b else addNode L uuid R node b)"

definition dropGone :: "'d loro \<Rightarrow> (string \<times> tree_node) list \<Rightarrow> string \<Rightarrow> 'd bridge \<Rightarrow> 'd bridge" where
  "dropGone L current loroId b =
     (if \<not> truthy (l2c b loroId) then b
      else (let chromeId = the (l2c b loroId)
            in if map_of current chromeId = None then unlink loroId chromeId (dropBookmark L loroId b) else b))"

definition updateChanged ::
  "'d loro \<Rightarrow> roots \<Rightarrow> (string \<times> tree_node) list \<Rightarrow> string \<times> bookmark_node \<Rightarrow> 'd bridge \<Rightarrow> 'd bridge" where
  "updateChanged L R current = (\<lambda>(loroId, node) b.
     if \<not> truthy (l2c b loroId) then b
     else
       (case map_of current (the (l2c b loroId)) of
          None \<Rightarrow> b
        | Some chromeNode \<Rightarrow>
            (let parentLoroId = chromeParentToLoro R b (orElse (tn_parentId chromeNode) ''1'')
             in if tn_title chromeNode \<noteq> bn_title node \<or> tn_url chromeNode \<noteq> bn_url node
                   \<or> parentLoroId \<noteq> bn_parentId node \<or> tn_index chromeNode \<noteq> Some (bn_index node)
                then putBookmark L loroId (toNode chromeNode parentLoroId) b else b)))"

definition mergeLocalChanges ::
  "'d loro \<Rightarrow> (nat \<Rightarrow> string) \<Rightarrow> roots \<Rightarrow> tree_node list \<Rightarrow> 'd bridge \<Rightarrow> 'd bridge" where
  "mergeLocalChanges L uuid R tree b =
     (let current = currentChrome R tree;
          b1 = fold (addMissing L uuid R) (managedWalk R tree) b;
          b2 = fold (dropGone L current) (map fst (bookmarks L b1)) b1
      in fold (updateChanged L R current) (bookmarks L b2) b2)"

definition mergeLocalChangesIntoDoc ::
  "'d loro \<Rightarrow> (nat \<Rightarrow> string) \<Rightarrow> roots \<Rightarrow> auth \<Rightarrow> tree_node list \<Rightarrow> ('d bridge \<times> idb, unit) act" where
  "mergeLocalChangesIntoDoc L uuid R a tree = (\<lambda>(b, db).
     (let b' = mergeLocalChanges L uuid R tree b
      in case saveMapping a b' db of (r, db') \<Rightarrow> (r, (b', db'))))"

subsection \<open>computeOfflineChanges\<close>

definition pushTo :: "string \<Rightarrow> 'v \<Rightarrow> (string \<times> 'v list) list \<Rightarrow> (string \<times> 'v list) list" where
  "pushTo k v m = AList.update k (orElse (map_of m k) [] @ [v]) m"

definition sortedIds :: "(string \<times> int) list \<Rightarrow> string list" where
  "sortedIds entries = map fst (sort_key snd entries)"

definition ordersDiffer :: "string list \<Rightarrow> string list \<Rightarrow> bool" where
  "ordersDiffer loroOrder chromeOrder =
     list_ex (\<lambda>i. length chromeOrder \<le> i \<or> loroOrder ! i \<noteq> chromeOrder ! i) [0..<length loroOrder]"

type_synonym by_parent = "(string \<times> (string \<times> int) list) list"

definition compareEntry ::
  "roots \<Rightarrow> 'd bridge \<Rightarrow> (string \<times> tree_node) list \<Rightarrow> string \<times> bookmark_node
     \<Rightarrow> nat \<times> by_parent \<times> by_parent \<Rightarrow> nat \<times> by_parent \<times> by_parent" where
  "compareEntry R b current = (\<lambda>(loroId, node) (modified, loroByParent, chromeByParent).
     if \<not> truthy (l2c b loroId) then (modified, loroByParent, chromeByParent)
     else
       (case map_of current (the (l2c b loroId)) of
          None \<Rightarrow> (modified, loroByParent, chromeByParent)
        | Some chromeNode \<Rightarrow>
            (let parentLoroId = chromeParentToLoro R b (orElse (tn_parentId chromeNode) ''1'')
             in if tn_title chromeNode \<noteq> bn_title node \<or> tn_url chromeNode \<noteq> bn_url node
                   \<or> parentLoroId \<noteq> bn_parentId node
                then (Suc modified, loroByParent, chromeByParent)
                else (modified, pushTo (bn_parentId node) (loroId, bn_index node) loroByParent,
                      pushTo parentLoroId (loroId, orElse (tn_index chromeNode) 0) chromeByParent))))"

definition computeOfflineChanges ::
  "'d loro \<Rightarrow> roots \<Rightarrow> tree_node list \<Rightarrow> 'd bridge \<Rightarrow> nat \<times> nat \<times> nat" where
  "computeOfflineChanges L R tree b =
     (let current = currentChrome R tree;
          added = length (filter (\<lambda>(chromeId, n). c2l b chromeId = None) current);
          removed = length (filter (\<lambda>(loroId, chromeId). map_of current chromeId = None) (loroToChrome b));
          (modified, loroByParent, chromeByParent) = fold (compareEntry R b current) (bookmarks L b) (0, [], []);
          reordered = length (filter (\<lambda>(parentId, loroEntries).
             ordersDiffer (sortedIds loroEntries) (sortedIds (orElse (map_of chromeByParent parentId) []))) loroByParent)
      in (added, removed, modified + reordered))"

subsection \<open>Frames\<close>

lemma put_frames [simp]:
  "l2c (putBookmark L l n b) = l2c b" "c2l (putBookmark L l n b) = c2l b"
  "loroToChrome (putBookmark L l n b) = loroToChrome b" "uuids (putBookmark L l n b) = uuids b"
  "mapping_ok (putBookmark L l n b) = mapping_ok b"
  "l2c (dropBookmark L l b) = l2c b" "c2l (dropBookmark L l b) = c2l b"
  "uuids (dropBookmark L l b) = uuids b" "mapping_ok (dropBookmark L l b) = mapping_ok b"
  by (simp_all add: putBookmark_def dropBookmark_def)

lemma bookmarks_frames [simp]:
  "bookmarks L (link l c b) = bookmarks L b" "bookmarks L (unlink l c b) = bookmarks L b"
  "bookmarks L (b\<lparr>uuids := k\<rparr>) = bookmarks L b" "bookmarks L (b\<lparr>lastVersion := v\<rparr>) = bookmarks L b"
  by (simp_all add: bookmarks_def)

lemma bookmarks_put [simp]:
  "loro_map_ok L \<Longrightarrow> map_of (bookmarks L (putBookmark L l n b)) = (map_of (bookmarks L b))(l \<mapsto> n)"
  "loro_map_ok L \<Longrightarrow> map_of (bookmarks L (dropBookmark L l b)) = (map_of (bookmarks L b))(l := None)"
  by (simp_all add: bookmarks_def putBookmark_def dropBookmark_def)

lemma bookmarks_distinct: "loro_map_ok L \<Longrightarrow> distinct (map fst (bookmarks L b))"
  by (simp add: bookmarks_def toJSON_distinct)

lemma chromeParentToLoro_cong: "c2l b p = c2l b' p \<Longrightarrow> chromeParentToLoro R b p = chromeParentToLoro R b' p"
  by (simp add: chromeParentToLoro_def split: option.split)

text \<open>\<^verbatim>\<open>currentChrome\<close> as a map, when ids are distinct.\<close>

lemma fold_update_ids:
  "map_of (fold (\<lambda>n. AList.update (tn_id n) n) ns m) c =
     (case find (\<lambda>n. tn_id n = c) (rev ns) of Some n \<Rightarrow> Some n | None \<Rightarrow> map_of m c)"
  by (induction ns arbitrary: m rule: rev_induct) (auto simp: update_conv')

lemma currentChrome_Some:
  assumes "distinct (map tn_id (managedWalk R tree))"
  shows "map_of (currentChrome R tree) c = Some n \<longleftrightarrow> n \<in> set (managedWalk R tree) \<and> tn_id n = c"
proof -
  have "find (\<lambda>n. tn_id n = c) (rev ns) = Some n \<longleftrightarrow> n \<in> set ns \<and> tn_id n = c"
    if "distinct (map tn_id ns)" for ns
    using that
  proof (induction ns rule: rev_induct)
    case (snoc x ns)
    then show ?case by (auto simp: rev_image_eqI)
  qed simp
  from this [OF assms] show ?thesis
    by (cases "find (\<lambda>n. tn_id n = c) (rev (managedWalk R tree))") (simp_all add: currentChrome_def fold_update_ids)
qed

lemma currentChrome_None:
  "map_of (currentChrome R tree) c = None \<longleftrightarrow> c \<notin> tn_id ` set (managedWalk R tree)"
proof -
  have "map_of (currentChrome R tree) c = None \<longleftrightarrow> find (\<lambda>n. tn_id n = c) (rev (managedWalk R tree)) = None"
    by (simp add: currentChrome_def fold_update_ids split: option.split)
  then show ?thesis by (auto simp: find_None_iff)
qed

lemma currentChrome_distinct: "distinct (map fst (currentChrome R tree))"
proof -
  have "distinct (map fst m) \<Longrightarrow> distinct (map fst (fold (\<lambda>n. AList.update (tn_id n) n) ns m))" for ns m
    by (induction ns arbitrary: m) (simp_all add: distinct_update)
  then show ?thesis by (simp add: currentChrome_def)
qed

end
