(* ===== verification/Merge_Correct.thy ===== *)
theory Merge_Correct
  imports Bridge_Merge
begin

text \<open>
  Correctness of Bridge_Merge.thy: the document after bootstrapping mirrors the managed tree,
  merging offline changes brings it back to mirroring, and the number of changes reported
  afterwards is zero.
\<close>

declare managedWalk.simps [simp del]

subsection \<open>Invariant of the bridge\<close>

text \<open>
  What the code relies on of crypto.randomUUID: the ids still to be drawn are distinct, not
  empty, not a canonical root id, and neither in the document nor in the mapping.
\<close>

definition fresh :: "'d loro \<Rightarrow> (nat \<Rightarrow> string) \<Rightarrow> 'd bridge \<Rightarrow> bool" where
  "fresh L uuid b \<longleftrightarrow> inj uuid
     \<and> (\<forall>k \<ge> uuids b. uuid k \<noteq> [] \<and> uuid k \<notin> set CANONICAL_ROOT_IDS
          \<and> l2c b (uuid k) = None \<and> map_of (bookmarks L b) (uuid k) = None)"

definition bridge_ok :: "'d loro \<Rightarrow> (nat \<Rightarrow> string) \<Rightarrow> roots \<Rightarrow> 'd bridge \<Rightarrow> bool" where
  "bridge_ok L uuid R b \<longleftrightarrow> loro_map_ok L \<and> roots_ok R \<and> mapping_ok b \<and> roots_unmapped R b \<and> fresh L uuid b"

text \<open>The parent id translates to something the document knows: a root, or a mapped folder.\<close>

definition resolves :: "roots \<Rightarrow> 'd bridge \<Rightarrow> string \<Rightarrow> bool" where
  "resolves R b p \<longleftrightarrow> isAnyRootId R p \<or> c2l b p \<noteq> None"

text \<open>One step keeps what the bridge knew and the meaning of parents it could resolve.\<close>

definition extends :: "'d loro \<Rightarrow> roots \<Rightarrow> 'd bridge \<Rightarrow> 'd bridge \<Rightarrow> bool" where
  "extends L R b b' \<longleftrightarrow>
     (\<forall>c l. c2l b c = Some l \<longrightarrow> c2l b' c = Some l)
     \<and> (\<forall>l n. map_of (bookmarks L b) l = Some n \<longrightarrow> map_of (bookmarks L b') l = Some n)
     \<and> (\<forall>p. resolves R b p \<longrightarrow> chromeParentToLoro R b' p = chromeParentToLoro R b p)"

lemma extends_refl [simp]: "extends L R b b"
  by (simp add: extends_def)

lemma extends_resolves: "extends L R b b' \<Longrightarrow> resolves R b p \<Longrightarrow> resolves R b' p"
  by (auto simp: extends_def resolves_def)

lemma extends_trans: "extends L R b1 b2 \<Longrightarrow> extends L R b2 b3 \<Longrightarrow> extends L R b1 b3"
  using extends_resolves [of L R b1 b2] by (auto simp: extends_def)

text \<open>A visited node, as the document has it after it was added.\<close>

definition recorded :: "'d loro \<Rightarrow> roots \<Rightarrow> 'd bridge \<Rightarrow> tree_node \<Rightarrow> bool" where
  "recorded L R b n \<longleftrightarrow>
     (\<exists>l p. c2l b (tn_id n) = Some l \<and> tn_parentId n = Some p
        \<and> map_of (bookmarks L b) l = Some (toNode n (chromeParentToLoro R b p)))"

lemma recorded_extends:
  assumes "recorded L R b n" and "extends L R b b'" and "tn_parentId n = Some p" and "resolves R b p"
  shows "recorded L R b' n"
  using assms unfolding recorded_def extends_def by auto

lemma resolves_mapped: "c2l b p \<noteq> None \<Longrightarrow> resolves R b p"
  by (simp add: resolves_def)

subsection \<open>Adding a node\<close>

definition addable :: "roots \<Rightarrow> 'd bridge \<Rightarrow> tree_node \<Rightarrow> bool" where
  "addable R b n \<longleftrightarrow> tn_id n \<noteq> [] \<and> \<not> isAnyRootId R (tn_id n) \<and> (\<exists>p. tn_parentId n = Some p \<and> resolves R b p)"

lemma c2l_addNode: "c2l (addNode L uuid R n b) = (c2l b)(tn_id n \<mapsto> uuid (uuids b))"
  by (simp add: addNode_def Let_def)

lemma l2c_addNode: "l2c (addNode L uuid R n b) = (l2c b)(uuid (uuids b) \<mapsto> tn_id n)"
  by (simp add: addNode_def Let_def)

lemma bookmarks_addNode:
  "loro_map_ok L \<Longrightarrow> map_of (bookmarks L (addNode L uuid R n b)) = (map_of (bookmarks L b))
     (uuid (uuids b) \<mapsto> toNode n (chromeParentToLoro R b (orElse (tn_parentId n) ''1'')))"
  by (simp add: addNode_def Let_def)

lemma uuids_addNode [simp]: "uuids (addNode L uuid R n b) = Suc (uuids b)"
  by (simp add: addNode_def Let_def)

lemma chromeParent_addNode:
  assumes "resolves R b p" and "c2l b (tn_id n) = None" and "\<not> isAnyRootId R (tn_id n)"
  shows "chromeParentToLoro R (addNode L uuid R n b) p = chromeParentToLoro R b p"
proof -
  have "p \<noteq> tn_id n" using assms by (auto simp: resolves_def)
  then have "c2l (addNode L uuid R n b) p = c2l b p" by (simp add: c2l_addNode)
  then show ?thesis by (rule chromeParentToLoro_cong)
qed

text \<open>A fresh id linked to an unmapped bookmark keeps the invariant, whatever node is stored.\<close>

lemma bridge_ok_new:
  assumes "bridge_ok L uuid R b" and "c2l b c = None" and "c \<noteq> []" and "\<not> isAnyRootId R c"
  shows "bridge_ok L uuid R (putBookmark L (uuid (uuids b)) nd (link (uuid (uuids b)) c (b\<lparr>uuids := Suc (uuids b)\<rparr>)))"
proof -
  let ?l = "uuid (uuids b)" and ?b = "putBookmark L (uuid (uuids b)) nd (link (uuid (uuids b)) c (b\<lparr>uuids := Suc (uuids b)\<rparr>))"
  have L: "loro_map_ok L" and R: "roots_ok R" and m: "mapping_ok b" and u: "roots_unmapped R b" and f: "fresh L uuid b"
    using assms(1) by (simp_all add: bridge_ok_def)
  have l: "?l \<noteq> []" "?l \<notin> set CANONICAL_ROOT_IDS" "l2c b ?l = None"
    using f by (simp_all add: fresh_def)
  have "mapping_ok ?b"
    using mapping_ok_link [of "b\<lparr>uuids := Suc (uuids b)\<rparr>" ?l c] m l assms by simp
  moreover have "roots_unmapped R ?b"
    using u assms(4) l(2) by (auto simp: roots_unmapped_def)
  moreover have "fresh L uuid ?b"
    using f by (auto simp: fresh_def L inj_def Suc_le_eq)
  ultimately show ?thesis
    using L R by (simp add: bridge_ok_def)
qed

lemma addNode_step:
  assumes "bridge_ok L uuid R b" and "addable R b n" and "c2l b (tn_id n) = None"
  shows "bridge_ok L uuid R (addNode L uuid R n b)" and "extends L R b (addNode L uuid R n b)"
    and "recorded L R (addNode L uuid R n b) n"
proof -
  let ?l = "uuid (uuids b)" and ?b = "addNode L uuid R n b"
  have L: "loro_map_ok L" using assms(1) by (simp add: bridge_ok_def)
  have l: "map_of (bookmarks L b) ?l = None"
    using assms(1) by (simp add: bridge_ok_def fresh_def)
  obtain p where n: "tn_id n \<noteq> []" "\<not> isAnyRootId R (tn_id n)" "tn_parentId n = Some p" "resolves R b p"
    using assms(2) by (auto simp: addable_def)
  show "bridge_ok L uuid R ?b"
    unfolding addNode_def Let_def by (rule bridge_ok_new [OF assms(1,3) n(1,2)])
  show "extends L R b ?b"
    using l assms(3) chromeParent_addNode [OF _ assms(3) n(2)]
    by (auto simp: extends_def c2l_addNode bookmarks_addNode [OF L])
  show "recorded L R ?b n"
    using chromeParent_addNode [OF n(4) assms(3) n(2)] n(3)
    by (simp add: recorded_def c2l_addNode bookmarks_addNode [OF L])
qed

text \<open>
  What adding the missing nodes of a list achieves: the invariant, an extension, every node is
  mapped and its parent resolves, what was unmapped is recorded, and no entry without a mapping is
  added to the document.
\<close>

definition adds :: "'d loro \<Rightarrow> (nat \<Rightarrow> string) \<Rightarrow> roots \<Rightarrow> 'd bridge \<Rightarrow> tree_node list \<Rightarrow> 'd bridge \<Rightarrow> bool" where
  "adds L uuid R b ns e \<longleftrightarrow>
     bridge_ok L uuid R e \<and> extends L R b e
     \<and> (\<forall>n \<in> set ns. c2l e (tn_id n) \<noteq> None)
     \<and> (\<forall>n \<in> set ns. \<exists>p. tn_parentId n = Some p \<and> resolves R e p)
     \<and> (\<forall>c. c2l e c \<noteq> None \<longrightarrow> c2l b c = None \<longrightarrow> (\<exists>n \<in> set ns. tn_id n = c \<and> recorded L R e n))
     \<and> (\<forall>l. map_of (bookmarks L e) l \<noteq> None \<longrightarrow> map_of (bookmarks L b) l = None \<longrightarrow> l2c e l \<noteq> None)
     \<and> (\<forall>l. l2c e l \<noteq> None \<longrightarrow> l2c b l = None \<longrightarrow> map_of (bookmarks L b) l = None)"

lemma addMissing_fold:
  assumes "bridge_ok L uuid R b" and "parents_first A ns" and "\<forall>p \<in> A. resolves R b p"
    and "\<forall>n \<in> set ns. tn_id n \<noteq> [] \<and> \<not> isAnyRootId R (tn_id n)"
  shows "adds L uuid R b ns (fold (addMissing L uuid R) ns b)"
  using assms
proof (induction ns arbitrary: A b)
  case (Cons n ns)
  let ?b = "addMissing L uuid R n b"
  let ?e = "fold (addMissing L uuid R) ns ?b"
  obtain p where p: "p \<in> A" "tn_parentId n = Some p" using Cons.prems(2) by auto
  have add: "addable R b n" using Cons.prems(3,4) p by (auto simp: addable_def)
  have step: "bridge_ok L uuid R ?b" "extends L R b ?b" "c2l ?b (tn_id n) \<noteq> None"
    "c2l b (tn_id n) = None \<Longrightarrow> recorded L R ?b n"
    "map_of (bookmarks L ?b) l \<noteq> None \<Longrightarrow> map_of (bookmarks L b) l = None \<Longrightarrow> l2c ?b l \<noteq> None"
    "l2c ?b l \<noteq> None \<Longrightarrow> l2c b l = None \<Longrightarrow> map_of (bookmarks L b) l = None" for l
    using addNode_step [OF Cons.prems(1) add] Cons.prems(1)
    by (auto simp: addMissing_def c2l_addNode l2c_addNode bookmarks_addNode bridge_ok_def fresh_def split: if_splits)
  have "\<forall>q \<in> insert (tn_id n) A. resolves R ?b q"
    using Cons.prems(3) extends_resolves [OF step(2)] step(3) by (auto simp: resolves_mapped)
  note IH = Cons.IH [OF step(1) _ this] 
  from IH Cons.prems(2,4) have "adds L uuid R ?b ns ?e" by auto
  then have e: "bridge_ok L uuid R ?e" "extends L R ?b ?e"
    "\<forall>m \<in> set ns. c2l ?e (tn_id m) \<noteq> None" "\<forall>m \<in> set ns. \<exists>p. tn_parentId m = Some p \<and> resolves R ?e p"
    "\<And>c. c2l ?e c \<noteq> None \<Longrightarrow> c2l ?b c = None \<Longrightarrow> \<exists>m \<in> set ns. tn_id m = c \<and> recorded L R ?e m"
    "\<And>l. map_of (bookmarks L ?e) l \<noteq> None \<Longrightarrow> map_of (bookmarks L ?b) l = None \<Longrightarrow> l2c ?e l \<noteq> None"
    "\<And>l. l2c ?e l \<noteq> None \<Longrightarrow> l2c ?b l = None \<Longrightarrow> map_of (bookmarks L ?b) l = None"
    unfolding adds_def by blast+
  have res: "resolves R ?b p" "resolves R ?e p"
    using Cons.prems(3) p(1) extends_resolves [OF step(2)] extends_resolves [OF e(2)] by auto
  have new: "\<exists>m \<in> set (n # ns). tn_id m = c \<and> recorded L R ?e m" if "c2l ?e c \<noteq> None" "c2l b c = None" for c
  proof (cases "c2l ?b c")
    case None
    then show ?thesis using e(5) that by auto
  next
    case (Some l)
    then have "c = tn_id n" "recorded L R ?b n"
      using that step(4) by (auto simp: addMissing_def c2l_addNode split: if_splits)
    then show ?thesis using recorded_extends [OF _ e(2) p(2) res(1)] by auto
  qed
  have "l2c ?e l \<noteq> None" if "map_of (bookmarks L ?e) l \<noteq> None" "map_of (bookmarks L b) l = None" for l
  proof (cases "map_of (bookmarks L ?b) l")
    case None
    then show ?thesis using e(6) that by auto
  next
    case (Some x)
    with step(5) that obtain c where "l2c ?b l = Some c" by auto
    then have "c2l ?b c = Some l" using step(1) mapping_ok_iff by (auto simp: bridge_ok_def)
    then have "c2l ?e c = Some l" using e(2) by (auto simp: extends_def)
    then have "l2c ?e l = Some c" using e(1) mapping_ok_iff by (auto simp: bridge_ok_def)
    then show ?thesis by simp
  qed
  moreover have "map_of (bookmarks L b) l = None" if "l2c ?e l \<noteq> None" "l2c b l = None" for l
    using that step(6) e(7) [of l] step(2) by (cases "l2c ?b l"; cases "map_of (bookmarks L b) l") (auto simp: extends_def)
  moreover have "c2l ?e (tn_id n) \<noteq> None"
    using step(3) e(2) by (auto simp: extends_def)
  ultimately show ?case
    unfolding adds_def using e(1,3,4) extends_trans [OF step(2) e(2)] new p(2) res(2) by auto
qed (auto simp: adds_def)

subsection \<open>Dropping what is gone, updating what changed\<close>

definition gone :: "(string \<times> tree_node) list \<Rightarrow> 'd bridge \<Rightarrow> string \<Rightarrow> bool" where
  "gone current b l \<longleftrightarrow> (\<exists>c. l2c b l = Some c \<and> map_of current c = None)"

lemma dropGone_eq:
  "mapping_ok b \<Longrightarrow> dropGone L current l b =
     (if gone current b l then unlink l (the (l2c b l)) (dropBookmark L l b) else b)"
  by (auto simp: dropGone_def gone_def Let_def truthy_l2c)

lemma dropGone_step:
  assumes "loro_map_ok L" and "mapping_ok b"
  shows "mapping_ok (dropGone L current l b)"
    and "l2c (dropGone L current l b) k = (if k = l \<and> gone current b l then None else l2c b k)"
    and "map_of (bookmarks L (dropGone L current l b)) k = (if k = l \<and> gone current b l then None else map_of (bookmarks L b) k)"
    and "c2l (dropGone L current l b) c = (if gone current b l \<and> l2c b l = Some c then None else c2l b c)"
  using assms mapping_ok_unlink [of "dropBookmark L l b" l]
  by (auto simp: dropGone_eq gone_def)

lemma dropGone_fold:
  assumes "loro_map_ok L" and "mapping_ok b"
  shows "mapping_ok (fold (dropGone L current) ks b)
    \<and> (\<forall>k. l2c (fold (dropGone L current) ks b) k = (if k \<in> set ks \<and> gone current b k then None else l2c b k))
    \<and> (\<forall>k. map_of (bookmarks L (fold (dropGone L current) ks b)) k =
             (if k \<in> set ks \<and> gone current b k then None else map_of (bookmarks L b) k))
    \<and> (\<forall>c. map_of current c \<noteq> None \<longrightarrow> c2l (fold (dropGone L current) ks b) c = c2l b c)"
  using assms(2)
proof (induction ks arbitrary: b)
  case (Cons l ks)
  let ?b = "dropGone L current l b"
  note s = dropGone_step [OF assms(1) Cons.prems]
  have gone': "gone current ?b k \<longleftrightarrow> gone current b k \<and> k \<noteq> l" for k
    by (auto simp: gone_def s(2))
  have "c2l ?b c = c2l b c" if "map_of current c \<noteq> None" for c
    using that by (auto simp: s(4) gone_def)
  with Cons.IH [OF s(1) [of current l]] show ?case
    by (auto simp: s(2,3) gone')
qed simp

definition agrees :: "roots \<Rightarrow> 'd bridge \<Rightarrow> tree_node \<Rightarrow> bookmark_node \<Rightarrow> bool" where
  "agrees R b n nd \<longleftrightarrow> bn_title nd = tn_title n \<and> bn_url nd = tn_url n
     \<and> bn_parentId nd = chromeParentToLoro R b (orElse (tn_parentId n) ''1'') \<and> bn_index nd = orElse (tn_index n) 0"

lemma agrees_toNode: "agrees R b n (toNode n (chromeParentToLoro R b (orElse (tn_parentId n) ''1'')))"
  by (simp add: agrees_def toNode_def)

lemma agrees_cong: "c2l b = c2l b' \<Longrightarrow> agrees R b n nd = agrees R b' n nd"
  by (simp add: agrees_def chromeParentToLoro_cong [of b _ b'])

lemma updateChanged_frames [simp]:
  "l2c (updateChanged L R current e b) = l2c b" "c2l (updateChanged L R current e b) = c2l b"
  "loroToChrome (updateChanged L R current e b) = loroToChrome b"
  "mapping_ok (updateChanged L R current e b) = mapping_ok b"
  by (cases e; cases "map_of current (the (l2c b (fst e)))"; simp add: updateChanged_def Let_def)+

lemma updateChanged_other:
  "loro_map_ok L \<Longrightarrow> k \<noteq> fst e \<Longrightarrow>
     map_of (bookmarks L (updateChanged L R current e b)) k = map_of (bookmarks L b) k"
  by (cases e; cases "map_of current (the (l2c b (fst e)))") (simp_all add: updateChanged_def Let_def)

lemma updateChanged_agrees:
  assumes "loro_map_ok L" and "mapping_ok b" and "map_of (bookmarks L b) l = Some nd"
    and "l2c b l = Some c" and "map_of current c = Some n"
  shows "\<exists>nd'. map_of (bookmarks L (updateChanged L R current (l, nd) b)) l = Some nd' \<and> agrees R b n nd'"
  using assms agrees_toNode [of R b n] mapping_ok_nonempty [OF assms(2,4)]
  by (auto simp: updateChanged_def Let_def agrees_def)

lemma updateChanged_unmapped:
  assumes "l2c b l = None \<or> map_of current (the (l2c b l)) = None"
  shows "updateChanged L R current (l, nd) b = b"
  using assms by (cases "l2c b l") (auto simp: updateChanged_def split: option.split)

lemma updateChanged_fold:
  assumes L: "loro_map_ok L" and "mapping_ok b" and "distinct (map fst es)"
    and "\<forall>(l, nd) \<in> set es. map_of (bookmarks L b) l = Some nd"
  shows "mapping_ok (fold (updateChanged L R current) es b)
    \<and> l2c (fold (updateChanged L R current) es b) = l2c b
    \<and> c2l (fold (updateChanged L R current) es b) = c2l b
    \<and> loroToChrome (fold (updateChanged L R current) es b) = loroToChrome b
    \<and> (\<forall>l. l \<notin> fst ` set es \<or> l2c b l = None \<or> map_of current (the (l2c b l)) = None \<longrightarrow>
          map_of (bookmarks L (fold (updateChanged L R current) es b)) l = map_of (bookmarks L b) l)
    \<and> (\<forall>l c n. l \<in> fst ` set es \<longrightarrow> l2c b l = Some c \<longrightarrow> map_of current c = Some n \<longrightarrow>
          (\<exists>nd. map_of (bookmarks L (fold (updateChanged L R current) es b)) l = Some nd \<and> agrees R b n nd))"
  using assms(2-)
proof (induction es arbitrary: b)
  case (Cons e es)
  obtain l nd where e: "e = (l, nd)" by (cases e)
  let ?b = "updateChanged L R current e b"
  have other: "map_of (bookmarks L ?b) k = map_of (bookmarks L b) k" if "k \<noteq> l" for k
    using updateChanged_other [OF L] that e by simp
  have notin: "l \<notin> fst ` set es" using Cons.prems(2) e by simp
  have "\<forall>(k, nd') \<in> set es. map_of (bookmarks L ?b) k = Some nd'"
  proof safe
    fix k nd' assume k: "(k, nd') \<in> set es"
    then have "k \<noteq> l" using notin by force
    with other [OF this] k Cons.prems(3) show "map_of (bookmarks L ?b) k = Some nd'" by auto
  qed
  with Cons.IH [of ?b] Cons.prems(1,2) have "mapping_ok (fold (updateChanged L R current) es ?b)" and IH:
    "l2c (fold (updateChanged L R current) es ?b) = l2c b" "c2l (fold (updateChanged L R current) es ?b) = c2l b"
    "loroToChrome (fold (updateChanged L R current) es ?b) = loroToChrome b"
    "\<And>k. k \<notin> fst ` set es \<or> l2c b k = None \<or> map_of current (the (l2c b k)) = None \<Longrightarrow>
       map_of (bookmarks L (fold (updateChanged L R current) es ?b)) k = map_of (bookmarks L ?b) k"
    "\<And>k c n. k \<in> fst ` set es \<Longrightarrow> l2c b k = Some c \<Longrightarrow> map_of current c = Some n \<Longrightarrow>
       \<exists>nd. map_of (bookmarks L (fold (updateChanged L R current) es ?b)) k = Some nd \<and> agrees R b n nd"
    by (simp_all add: agrees_cong [of ?b b])
  have l: "map_of (bookmarks L b) l = Some nd" using Cons.prems(3) e by simp
  have unch: "?b = b" if "l2c b l = None \<or> map_of current (the (l2c b l)) = None"
    using updateChanged_unmapped [OF that] e by simp
  have "map_of (bookmarks L (fold (updateChanged L R current) es ?b)) k = map_of (bookmarks L b) k"
    if "k \<notin> fst ` set (e # es) \<or> l2c b k = None \<or> map_of current (the (l2c b k)) = None" for k
    using that IH(4) [of k] other [of k] unch e by (cases "k = l") auto
  moreover have "\<exists>nd. map_of (bookmarks L (fold (updateChanged L R current) es ?b)) k = Some nd \<and> agrees R b n nd"
    if k: "k \<in> fst ` set (e # es)" "l2c b k = Some c" "map_of current c = Some n" for k c n
  proof (cases "k = l")
    case True
    then show ?thesis
      using updateChanged_agrees [OF L Cons.prems(1) l] IH(4) [of l] notin k(2,3) e by auto
  next
    case False
    with k e have "k \<in> fst ` set es" by simp
    from IH(5) [OF this k(2,3)] show ?thesis .
  qed
  ultimately show ?case
    using IH(1-3) \<open>mapping_ok (fold (updateChanged L R current) es ?b)\<close> by simp
qed simp

subsection \<open>The merge\<close>

text \<open>The tree getTree returns: well formed, distinct ids, its root a known root.\<close>

definition tree_ok :: "roots \<Rightarrow> tree_node \<Rightarrow> bool" where
  "tree_ok R t \<longleftrightarrow> wf_node t \<and> distinct (tree_ids t) \<and> isAnyRootId R (tn_id t)"

definition managedNodes :: "roots \<Rightarrow> tree_node \<Rightarrow> tree_node set" where
  "managedNodes R t = set (managed R t)"

lemma wf_node_id: "wf_node n \<Longrightarrow> tn_id n \<noteq> []"
  by (cases n) simp

lemma tree_walk:
  assumes "tree_ok R t"
  shows "set (managedWalk R [t]) = managedNodes R t"
    and "distinct (map tn_id (managedWalk R [t]))"
    and "parents_first (set (allNativeRootIds R)) (managedWalk R [t])"
    and "\<forall>n \<in> set (managedWalk R [t]). tn_id n \<noteq> [] \<and> \<not> isAnyRootId R (tn_id n)"
proof -
  have ms: "mset (managedWalk R [t]) = mset (managed R t)"
    using mset_managedWalk [of R "[t]"] by simp
  then have set_eq: "set (managedWalk R [t]) = set (managed R t)"
    by (rule mset_eq_setD)
  then show "set (managedWalk R [t]) = managedNodes R t" by (simp add: managedNodes_def)
  have "mset (map tn_id (managedWalk R [t])) = mset (map tn_id (managed R t))"
    using ms by simp
  then show "distinct (map tn_id (managedWalk R [t]))"
    using managed_ids_distinct [of t R] assms mset_eq_imp_distinct_iff by (metis tree_ok_def)
  show "parents_first (set (allNativeRootIds R)) (managedWalk R [t])"
    using assms by (intro managedWalk_parents_first) (auto simp: tree_ok_def reached_def)
  show "\<forall>n \<in> set (managedWalk R [t]). tn_id n \<noteq> [] \<and> \<not> isAnyRootId R (tn_id n)"
    using managed_not_root managed_wf assms wf_node_id unfolding set_eq tree_ok_def by blast
qed

lemma roots_resolve: "\<forall>p \<in> set (allNativeRootIds R). resolves R b p"
  by (simp add: resolves_def isAnyRootId_def)

definition isGone :: "roots \<Rightarrow> tree_node \<Rightarrow> string \<Rightarrow> bool" where
  "isGone R t c \<longleftrightarrow> c \<notin> tn_id ` managedNodes R t"

text \<open>
  The state before, after step 1 (additions), after step 2 (removals) and at the end, with what each
  step makes of the maps and the document.
\<close>

definition merge_stages ::
  "'d loro \<Rightarrow> (nat \<Rightarrow> string) \<Rightarrow> roots \<Rightarrow> tree_node \<Rightarrow> 'd bridge \<Rightarrow> 'd bridge \<Rightarrow> 'd bridge \<Rightarrow> 'd bridge \<Rightarrow> bool" where
  "merge_stages L uuid R t b b1 b2 b' \<longleftrightarrow>
     bridge_ok L uuid R b \<and> adds L uuid R b (managedWalk R [t]) b1 \<and> mapping_ok b2 \<and> mapping_ok b'
     \<and> (\<forall>k. l2c b2 k = (if map_of (bookmarks L b1) k \<noteq> None \<and> gone (currentChrome R [t]) b1 k then None else l2c b1 k))
     \<and> (\<forall>k. map_of (bookmarks L b2) k =
         (if map_of (bookmarks L b1) k \<noteq> None \<and> gone (currentChrome R [t]) b1 k then None else map_of (bookmarks L b1) k))
     \<and> (\<forall>c. c \<in> tn_id ` managedNodes R t \<longrightarrow> c2l b2 c = c2l b1 c)
     \<and> l2c b' = l2c b2 \<and> c2l b' = c2l b2
     \<and> (\<forall>l. map_of (bookmarks L b2) l = None \<or> l2c b2 l = None \<or> isGone R t (the (l2c b2 l)) \<longrightarrow>
         map_of (bookmarks L b') l = map_of (bookmarks L b2) l)
     \<and> (\<forall>l. \<forall>n \<in> managedNodes R t. map_of (bookmarks L b2) l \<noteq> None \<and> l2c b2 l = Some (tn_id n) \<longrightarrow>
         (\<exists>nd. map_of (bookmarks L b') l = Some nd \<and> agrees R b2 n nd))"

lemma currentChrome_live:
  assumes "tree_ok R t"
  shows "map_of (currentChrome R [t]) c = Some n \<longleftrightarrow> n \<in> managedNodes R t \<and> tn_id n = c"
    and "map_of (currentChrome R [t]) c = None \<longleftrightarrow> isGone R t c"
  using currentChrome_Some [OF tree_walk(2) [OF assms]] tree_walk(1) [OF assms]
  by (simp_all add: currentChrome_None isGone_def)

lemma merge_has_stages:
  assumes b: "bridge_ok L uuid R b" and t: "tree_ok R t" and b': "b' = mergeLocalChanges L uuid R [t] b"
  obtains b1 b2 where "merge_stages L uuid R t b b1 b2 b'"
proof -
  let ?ns = "managedWalk R [t]" and ?cur = "currentChrome R [t]"
  define b1 where "b1 = fold (addMissing L uuid R) ?ns b"
  define b2 where "b2 = fold (dropGone L ?cur) (map fst (bookmarks L b1)) b1"
  have b3: "b' = fold (updateChanged L R ?cur) (bookmarks L b2) b2"
    by (simp add: b' mergeLocalChanges_def b1_def b2_def Let_def)
  note w = tree_walk [OF t]
  have L: "loro_map_ok L" using b by (simp add: bridge_ok_def)
  have keys: "l \<in> set (map fst (bookmarks L x)) \<longleftrightarrow> map_of (bookmarks L x) l \<noteq> None" for l x
    by (simp add: map_of_eq_None_iff)
  have adds: "adds L uuid R b ?ns b1"
    unfolding b1_def by (rule addMissing_fold [OF b w(3) roots_resolve w(4)])
  then have "mapping_ok b1" unfolding adds_def bridge_ok_def by blast
  note dropped = dropGone_fold [OF L this, of ?cur "map fst (bookmarks L b1)", folded b2_def, unfolded keys]
  then have mb2: "mapping_ok b2" by blast
  have "\<forall>(l, nd) \<in> set (bookmarks L b2). map_of (bookmarks L b2) l = Some nd"
    using bookmarks_distinct [OF L, of b2] by auto
  note u = updateChanged_fold [OF L mb2 bookmarks_distinct [OF L] this, of R ?cur, folded b3]
  have "\<forall>l. map_of (bookmarks L b2) l = None \<or> l2c b2 l = None \<or> isGone R t (the (l2c b2 l)) \<longrightarrow>
      map_of (bookmarks L b') l = map_of (bookmarks L b2) l"
    using u currentChrome_live(2) [OF t] keys [of _ b2] by (auto simp: map_of_eq_None_iff)
  moreover have "\<forall>l. \<forall>n \<in> managedNodes R t. map_of (bookmarks L b2) l \<noteq> None \<and> l2c b2 l = Some (tn_id n) \<longrightarrow>
      (\<exists>nd. map_of (bookmarks L b') l = Some nd \<and> agrees R b2 n nd)"
    using u currentChrome_live(1) [OF t] keys [of _ b2] by auto
  moreover have "\<forall>c. c \<in> tn_id ` managedNodes R t \<longrightarrow> c2l b2 c = c2l b1 c"
    using dropped currentChrome_live(2) [OF t] unfolding isGone_def by blast
  ultimately have "merge_stages L uuid R t b b1 b2 b'"
    using b adds mb2 dropped u unfolding merge_stages_def by blast
  then show thesis by (rule that)
qed

lemma stages:
  assumes "merge_stages L uuid R t b b1 b2 b'" and t: "tree_ok R t"
  shows "mapping_ok b'" and "mapping_ok b2" and "bridge_ok L uuid R b1" and "extends L R b b1"
    and "n \<in> managedNodes R t \<Longrightarrow> c2l b1 (tn_id n) \<noteq> None"
    and "c2l b1 c \<noteq> None \<Longrightarrow> c2l b c = None \<Longrightarrow> \<exists>n \<in> managedNodes R t. tn_id n = c \<and> recorded L R b1 n"
    and "map_of (bookmarks L b1) l \<noteq> None \<Longrightarrow> map_of (bookmarks L b) l = None \<Longrightarrow> l2c b1 l \<noteq> None"
    and "l2c b1 l \<noteq> None \<Longrightarrow> l2c b l = None \<Longrightarrow> map_of (bookmarks L b) l = None"
    and "l2c b2 k = (if map_of (bookmarks L b1) k \<noteq> None \<and> gone (currentChrome R [t]) b1 k then None else l2c b1 k)"
    and "map_of (bookmarks L b2) k =
       (if map_of (bookmarks L b1) k \<noteq> None \<and> gone (currentChrome R [t]) b1 k then None else map_of (bookmarks L b1) k)"
    and "\<not> isGone R t c \<Longrightarrow> c2l b2 c = c2l b1 c"
    and "l2c b' = l2c b2" and "c2l b' = c2l b2"
    and "map_of (bookmarks L b2) l = None \<or> l2c b2 l = None \<or> isGone R t (the (l2c b2 l)) \<Longrightarrow>
       map_of (bookmarks L b') l = map_of (bookmarks L b2) l"
    and "map_of (bookmarks L b2) l \<noteq> None \<Longrightarrow> l2c b2 l = Some (tn_id n) \<Longrightarrow> n \<in> managedNodes R t \<Longrightarrow>
       \<exists>nd. map_of (bookmarks L b') l = Some nd \<and> agrees R b' n nd"
    and "l2c b1 l = Some c \<longleftrightarrow> c2l b1 c = Some l" and "l2c b l = Some c \<longleftrightarrow> c2l b c = Some l"
    and "map_of (bookmarks L b) l = Some nd \<Longrightarrow> map_of (bookmarks L b1) l = Some nd"
    and "l2c b l = Some c \<Longrightarrow> l2c b1 l = Some c"
proof -
  have a: "adds L uuid R b (managedWalk R [t]) b1" using assms(1) unfolding merge_stages_def by blast
  have mb: "mapping_ok b" and m1: "mapping_ok b1"
    using assms(1) a unfolding merge_stages_def adds_def bridge_ok_def by blast+
  note inv = mapping_ok_iff [OF m1] mapping_ok_iff [OF mb]
  show "mapping_ok b'" "mapping_ok b2" "l2c b' = l2c b2" and c: "c2l b' = c2l b2"
    and "l2c b2 k = (if map_of (bookmarks L b1) k \<noteq> None \<and> gone (currentChrome R [t]) b1 k then None else l2c b1 k)"
    and "map_of (bookmarks L b2) k =
       (if map_of (bookmarks L b1) k \<noteq> None \<and> gone (currentChrome R [t]) b1 k then None else map_of (bookmarks L b1) k)"
    and "\<not> isGone R t c \<Longrightarrow> c2l b2 c = c2l b1 c"
    and "map_of (bookmarks L b2) l = None \<or> l2c b2 l = None \<or> isGone R t (the (l2c b2 l)) \<Longrightarrow>
       map_of (bookmarks L b') l = map_of (bookmarks L b2) l"
    using assms(1) unfolding merge_stages_def isGone_def by blast+
  show "map_of (bookmarks L b2) l \<noteq> None \<Longrightarrow> l2c b2 l = Some (tn_id n) \<Longrightarrow> n \<in> managedNodes R t \<Longrightarrow>
       \<exists>nd. map_of (bookmarks L b') l = Some nd \<and> agrees R b' n nd"
    using assms(1) agrees_cong [OF c] unfolding merge_stages_def by metis
  show "bridge_ok L uuid R b1" and ext: "extends L R b b1" and "n \<in> managedNodes R t \<Longrightarrow> c2l b1 (tn_id n) \<noteq> None"
    and "c2l b1 c \<noteq> None \<Longrightarrow> c2l b c = None \<Longrightarrow> \<exists>n \<in> managedNodes R t. tn_id n = c \<and> recorded L R b1 n"
    and "map_of (bookmarks L b1) l \<noteq> None \<Longrightarrow> map_of (bookmarks L b) l = None \<Longrightarrow> l2c b1 l \<noteq> None"
    and "l2c b1 l \<noteq> None \<Longrightarrow> l2c b l = None \<Longrightarrow> map_of (bookmarks L b) l = None"
    using a unfolding adds_def tree_walk(1) [OF t] by blast+
  show "l2c b1 l = Some c \<longleftrightarrow> c2l b1 c = Some l" and "l2c b l = Some c \<longleftrightarrow> c2l b c = Some l" by (rule inv)+
  show "map_of (bookmarks L b) l = Some nd \<Longrightarrow> map_of (bookmarks L b1) l = Some nd"
    and "l2c b l = Some c \<Longrightarrow> l2c b1 l = Some c"
    using ext inv by (simp_all add: extends_def)
qed

lemma merged_node:
  assumes s: "merge_stages L uuid R t b b1 b2 b'" and t: "tree_ok R t" and n: "n \<in> managedNodes R t"
  shows "\<exists>l. c2l b' (tn_id n) = Some l \<and> (c2l b (tn_id n) = None \<or> map_of (bookmarks L b) l \<noteq> None \<longrightarrow>
          (\<exists>nd. map_of (bookmarks L b') l = Some nd \<and> agrees R b' n nd))"
proof -
  note S = stages [OF s t]
  have live: "\<not> isGone R t (tn_id n)" using n by (simp add: isGone_def)
  obtain l where l: "c2l b1 (tn_id n) = Some l" using S(5) [OF n] by blast
  then have l1: "l2c b1 l = Some (tn_id n)" by (simp add: S(16))
  then have ng: "\<not> gone (currentChrome R [t]) b1 l" using live currentChrome_live(2) [OF t] by (simp add: gone_def)
  have "\<exists>nd. map_of (bookmarks L b') l = Some nd \<and> agrees R b' n nd"
    if "c2l b (tn_id n) = None \<or> map_of (bookmarks L b) l \<noteq> None"
  proof -
    have "map_of (bookmarks L b1) l \<noteq> None"
    proof (cases "c2l b (tn_id n)")
      case None
      with S(6) [of "tn_id n"] l show ?thesis by (auto simp: recorded_def)
    next
      case (Some x)
      with that S(18) show ?thesis by auto
    qed
    then show ?thesis using S(15) [of l n] ng l1 n by (simp add: S(9,10))
  qed
  then show ?thesis using l live by (auto simp: S(13) S(11))
qed

lemma merged_entry:
  assumes s: "merge_stages L uuid R t b b1 b2 b'" and t: "tree_ok R t" and nd: "map_of (bookmarks L b') l = Some nd"
  shows "l2c b' l = None \<and> map_of (bookmarks L b) l = Some nd
      \<or> (\<exists>n \<in> managedNodes R t. c2l b' (tn_id n) = Some l \<and> agrees R b' n nd)"
proof (cases "l2c b2 l")
  note S = stages [OF s t]
  case None
  then have "map_of (bookmarks L b2) l = Some nd" using nd S(14) by simp
  then have "map_of (bookmarks L b1) l = Some nd" "l2c b1 l = None"
    using None by (auto simp: S(9,10) split: if_splits)
  then have "map_of (bookmarks L b) l = Some nd"
    using S(7) [of l] S(18) [of l] by (cases "map_of (bookmarks L b) l") auto
  with None show ?thesis by (simp add: S(12))
next
  note S = stages [OF s t]
  case (Some c)
  then have l1: "l2c b1 l = Some c" by (auto simp: S(9) split: if_splits)
  have b2l: "map_of (bookmarks L b2) l \<noteq> None"
    using nd S(14) [of l] by (cases "map_of (bookmarks L b2) l") auto
  then have ng: "\<not> isGone R t c"
    using l1 currentChrome_live(2) [OF t] by (auto simp: S(10) gone_def split: if_splits)
  then obtain n where n: "n \<in> managedNodes R t" "tn_id n = c" by (auto simp: isGone_def)
  have "agrees R b' n nd" using S(15) [OF b2l, of n] Some n nd by auto
  moreover have "c2l b' c = Some l" using l1 ng by (simp add: S(13) S(11) S(16))
  ultimately show ?thesis using n by blast
qed

lemma merged_gone:
  assumes s: "merge_stages L uuid R t b b1 b2 b'" and t: "tree_ok R t"
  shows "l2c b l = Some c \<Longrightarrow> isGone R t c \<Longrightarrow> map_of (bookmarks L b) l \<noteq> None \<Longrightarrow>
      map_of (bookmarks L b') l = None \<and> l2c b' l = None"
    and "l2c b l = None \<Longrightarrow> map_of (bookmarks L b) l \<noteq> None \<Longrightarrow> map_of (bookmarks L b') l = map_of (bookmarks L b) l"
    and "l2c b' l = Some c \<Longrightarrow> isGone R t c \<Longrightarrow> l2c b l = Some c"
    and "c2l b c = Some l \<Longrightarrow> \<not> isGone R t c \<Longrightarrow> c2l b' c = Some l"
proof -
  note S = stages [OF s t]
  show "map_of (bookmarks L b') l = None \<and> l2c b' l = None"
    if "l2c b l = Some c" "isGone R t c" "map_of (bookmarks L b) l \<noteq> None"
  proof -
    have "gone (currentChrome R [t]) b1 l"
      using S(19) [OF that(1)] that(2) currentChrome_live(2) [OF t] by (simp add: gone_def)
    moreover have "map_of (bookmarks L b1) l \<noteq> None" using that(3) S(18) by blast
    ultimately show ?thesis using S(14) [of l] by (simp add: S(9,10,12))
  qed
  show "map_of (bookmarks L b') l = map_of (bookmarks L b) l"
    if "l2c b l = None" "map_of (bookmarks L b) l \<noteq> None"
  proof -
    have "l2c b1 l = None" using S(8) [of l] that by blast
    moreover from that(2) S(18) have "map_of (bookmarks L b1) l = map_of (bookmarks L b) l" by auto
    ultimately show ?thesis using S(14) [of l] by (simp add: S(9,10) gone_def)
  qed
  show "l2c b l = Some c" if "l2c b' l = Some c" "isGone R t c"
  proof (rule ccontr)
    assume n: "l2c b l \<noteq> Some c"
    have "l2c b1 l = Some c" using that(1) by (auto simp: S(9,12) split: if_splits)
    with n S(4) have "c2l b c = None" "c2l b1 c \<noteq> None"
      unfolding S(16,17) by (cases "c2l b c"; force simp: extends_def)+
    with S(6) that(2) show False by (auto simp: isGone_def)
  qed
  show "c2l b' c = Some l" if "c2l b c = Some l" "\<not> isGone R t c"
    using S(4) that by (simp add: extends_def S(11,13))
qed

lemma merged_roots:
  assumes s: "merge_stages L uuid R t b b1 b2 b'" and t: "tree_ok R t"
  shows "roots_unmapped R b'"
proof -
  note S = stages [OF s t]
  have sub: "l2c b1 l = Some c" if "l2c b' l = Some c" for l c
    using that by (auto simp: S(9,12) split: if_splits)
  have "c2l b' c = None" if c: "c2l b1 c = None" for c
  proof (cases "c2l b' c")
    case (Some l)
    then have "l2c b' l = Some c" using mapping_ok_iff [OF S(1)] by simp
    then have "c2l b1 c = Some l" using sub S(16) by blast
    with c show ?thesis by simp
  qed
  moreover have "l2c b' l = None" if "l2c b1 l = None" for l
    using that sub [of l] by (cases "l2c b' l") auto
  ultimately show ?thesis
    using S(3) unfolding bridge_ok_def roots_unmapped_def by blast
qed

lemma merge_result:
  assumes b: "bridge_ok L uuid R b" and t: "tree_ok R t" and b': "b' = mergeLocalChanges L uuid R [t] b"
  shows "mapping_ok b'"
    and "\<And>n. n \<in> managedNodes R t \<Longrightarrow> \<exists>l. c2l b' (tn_id n) = Some l
          \<and> (c2l b (tn_id n) = None \<or> map_of (bookmarks L b) l \<noteq> None \<longrightarrow>
               (\<exists>nd. map_of (bookmarks L b') l = Some nd \<and> agrees R b' n nd))"
    and "\<And>l nd. map_of (bookmarks L b') l = Some nd \<Longrightarrow> l2c b' l = None \<and> map_of (bookmarks L b) l = Some nd
          \<or> (\<exists>n \<in> managedNodes R t. c2l b' (tn_id n) = Some l \<and> agrees R b' n nd)"
    and "\<And>l c. l2c b l = Some c \<Longrightarrow> isGone R t c \<Longrightarrow> map_of (bookmarks L b) l \<noteq> None \<Longrightarrow>
           map_of (bookmarks L b') l = None \<and> l2c b' l = None"
    and "\<And>l. l2c b l = None \<Longrightarrow> map_of (bookmarks L b) l \<noteq> None \<Longrightarrow>
           map_of (bookmarks L b') l = map_of (bookmarks L b) l"
    and "\<And>l c. l2c b' l = Some c \<Longrightarrow> isGone R t c \<Longrightarrow> l2c b l = Some c"
    and "\<And>l c. c2l b c = Some l \<Longrightarrow> \<not> isGone R t c \<Longrightarrow> c2l b' c = Some l"
    and "roots_unmapped R b'"
proof -
  obtain b1 b2 where s: "merge_stages L uuid R t b b1 b2 b'" by (rule merge_has_stages [OF assms])
  note laws = stages(1) [OF s t] merged_node [OF s t] merged_entry [OF s t] merged_gone [OF s t] merged_roots [OF s t]
  show "mapping_ok b'" and "roots_unmapped R b'" by (rule laws)+
  show "\<And>n. n \<in> managedNodes R t \<Longrightarrow> \<exists>l. c2l b' (tn_id n) = Some l
          \<and> (c2l b (tn_id n) = None \<or> map_of (bookmarks L b) l \<noteq> None \<longrightarrow>
               (\<exists>nd. map_of (bookmarks L b') l = Some nd \<and> agrees R b' n nd))"
    and "\<And>l nd. map_of (bookmarks L b') l = Some nd \<Longrightarrow> l2c b' l = None \<and> map_of (bookmarks L b) l = Some nd
          \<or> (\<exists>n \<in> managedNodes R t. c2l b' (tn_id n) = Some l \<and> agrees R b' n nd)"
    and "\<And>l c. l2c b l = Some c \<Longrightarrow> isGone R t c \<Longrightarrow> map_of (bookmarks L b) l \<noteq> None \<Longrightarrow>
           map_of (bookmarks L b') l = None \<and> l2c b' l = None"
    and "\<And>l. l2c b l = None \<Longrightarrow> map_of (bookmarks L b) l \<noteq> None \<Longrightarrow>
           map_of (bookmarks L b') l = map_of (bookmarks L b) l"
    and "\<And>l c. l2c b' l = Some c \<Longrightarrow> isGone R t c \<Longrightarrow> l2c b l = Some c"
    and "\<And>l c. c2l b c = Some l \<Longrightarrow> \<not> isGone R t c \<Longrightarrow> c2l b' c = Some l"
    by (rule laws; assumption)+
qed

subsection \<open>Counting offline changes\<close>

lemma ordersDiffer_same: "\<not> ordersDiffer xs xs"
  by (auto simp: ordersDiffer_def list_ex_iff)

lemma compareEntry_agrees:
  assumes "mapping_ok b"
    and "\<And>c n. l2c b l = Some c \<Longrightarrow> map_of current c = Some n \<Longrightarrow> agrees R b n nd"
  shows "\<exists>m'. compareEntry R b current (l, nd) (k, m, m) = (k, m', m')"
proof (cases "l2c b l")
  case None
  then show ?thesis by (simp add: compareEntry_def)
next
  case (Some c)
  then have "truthy (l2c b l)" using truthy_l2c [OF assms(1), of l] by simp
  with Some assms(2) show ?thesis
    by (cases "map_of current c") (auto simp: compareEntry_def agrees_def Let_def)
qed

lemma compareEntry_fold:
  assumes "mapping_ok b"
    and "\<And>l nd c n. (l, nd) \<in> set es \<Longrightarrow> l2c b l = Some c \<Longrightarrow> map_of current c = Some n \<Longrightarrow> agrees R b n nd"
  shows "\<exists>m'. fold (compareEntry R b current) es (k, m, m) = (k, m', m')"
  using assms(2)
proof (induction es arbitrary: m)
  case (Cons e es)
  obtain l nd where e: "e = (l, nd)" by (cases e)
  have "\<exists>m'. compareEntry R b current (l, nd) (k, m, m) = (k, m', m')"
    by (rule compareEntry_agrees [OF assms(1)]) (use Cons.prems e in auto)
  then obtain m1 where "compareEntry R b current e (k, m, m) = (k, m1, m1)"
    unfolding e by blast
  moreover obtain m2 where "fold (compareEntry R b current) es (k, m1, m1) = (k, m2, m2)"
    using Cons.IH [of m1] Cons.prems by (meson list.set_intros(2))
  ultimately show ?case by simp
qed simp

lemma computeOfflineChanges_zero:
  assumes "loro_map_ok L" and "mapping_ok b" and t: "tree_ok R t"
    and mapped: "\<And>n. n \<in> managedNodes R t \<Longrightarrow> c2l b (tn_id n) \<noteq> None"
    and live: "\<And>l c. l2c b l = Some c \<Longrightarrow> \<not> isGone R t c"
    and agree: "\<And>l nd n. map_of (bookmarks L b) l = Some nd \<Longrightarrow> l2c b l = Some (tn_id n) \<Longrightarrow>
        n \<in> managedNodes R t \<Longrightarrow> agrees R b n nd"
  shows "computeOfflineChanges L R [t] b = (0, 0, 0)"
proof -
  let ?cur = "currentChrome R [t]"
  note w = tree_walk [OF t]
  have curS: "map_of ?cur c = Some n \<longleftrightarrow> n \<in> managedNodes R t \<and> tn_id n = c" for c n
    using currentChrome_Some [OF w(2)] w(1) by simp
  have curN: "map_of ?cur c = None \<longleftrightarrow> isGone R t c" for c
    by (simp add: currentChrome_None w(1) isGone_def)
  have "c2l b c \<noteq> None" if "(c, n) \<in> set ?cur" for c n
    using map_of_is_SomeI [OF currentChrome_distinct that] mapped curS by auto
  then have added: "filter (\<lambda>(c, n). c2l b c = None) ?cur = []"
    by (force simp: filter_empty_conv)
  have "map_of ?cur c \<noteq> None" if "(l, c) \<in> set (loroToChrome b)" for l c
  proof -
    have "l2c b l = Some c"
      using that assms(2) by (simp add: l2c_def mapping_ok_def)
    then show ?thesis using live curN by blast
  qed
  then have removed: "filter (\<lambda>(l, c). map_of ?cur c = None) (loroToChrome b) = []"
    by (auto simp: filter_empty_conv)
  have "\<exists>m. fold (compareEntry R b ?cur) (bookmarks L b) (0, [], []) = (0, m, m)"
  proof (rule compareEntry_fold [OF assms(2)])
    fix l nd c n
    assume "(l, nd) \<in> set (bookmarks L b)" "l2c b l = Some c" "map_of ?cur c = Some n"
    then show "agrees R b n nd"
      using agree [of l nd n] map_of_is_SomeI [OF bookmarks_distinct [OF assms(1)]] curS by auto
  qed
  then obtain m where m: "fold (compareEntry R b ?cur) (bookmarks L b) (0, [], []) = (0, m, m)" by blast
  have "distinct (map fst m)"
  proof -
    have "distinct (map fst (fst (snd (fold (compareEntry R b ?cur) es x))))" if "distinct (map fst (fst (snd x)))" for es x
      using that
    proof (induction es arbitrary: x)
      case (Cons e es)
      obtain k m1 m2 where x: "x = (k, m1, m2)" by (metis prod.collapse)
      have "distinct (map fst (fst (snd (compareEntry R b ?cur e x))))"
        using Cons.prems unfolding x
        by (cases e; cases "map_of ?cur (the (l2c b (fst e)))")
           (auto simp: compareEntry_def Let_def pushTo_def distinct_update)
      with Cons.IH show ?case by simp
    qed simp
    from this [of "(0, [], [])" "bookmarks L b"] m show ?thesis by simp
  qed
  then have "filter (\<lambda>(p, es). ordersDiffer (sortedIds es) (sortedIds (orElse (map_of m p) []))) m = []"
    by (auto simp: filter_empty_conv ordersDiffer_same)
  with m added removed show ?thesis
    by (simp add: computeOfflineChanges_def)
qed

subsection \<open>Bootstrapping\<close>

lemma addNode_fold_missing:
  assumes "distinct (map tn_id ns)" and "\<forall>n \<in> set ns. c2l b (tn_id n) = None"
  shows "fold (addNode L uuid R) ns b = fold (addMissing L uuid R) ns b"
  using assms
proof (induction ns arbitrary: b)
  case (Cons n ns)
  then have "\<forall>m \<in> set ns. c2l b (tn_id m) = None \<and> tn_id m \<noteq> tn_id n"
    by (simp add: image_iff) metis
  then have "\<forall>m \<in> set ns. c2l (addNode L uuid R n b) (tn_id m) = None"
    by (simp add: c2l_addNode)
  with Cons show ?case by (simp add: addMissing_def)
qed simp

definition emptyBridge :: "'d loro \<Rightarrow> 'd bridge" where
  "emptyBridge L = \<lparr>doc = loro_new L, loroToChrome = [], chromeToLoro = [], lastVersion = None, uuids = 0\<rparr>"

lemma emptyBridge_simps [simp]:
  "l2c (emptyBridge L) l = None" "c2l (emptyBridge L) c = None"
  "loro_map_ok L \<Longrightarrow> bookmarks L (emptyBridge L) = []" "mapping_ok (emptyBridge L)"
  by (simp_all add: emptyBridge_def l2c_def c2l_def bookmarks_def mapping_ok_def id_map.inverse_maps_def)

text \<open>A stream of UUIDs: distinct, never empty and never a canonical root id.\<close>

definition uuid_stream :: "(nat \<Rightarrow> string) \<Rightarrow> bool" where
  "uuid_stream uuid \<longleftrightarrow> inj uuid \<and> (\<forall>k. uuid k \<noteq> [] \<and> uuid k \<notin> set CANONICAL_ROOT_IDS)"

lemma bridge_ok_empty:
  "loro_map_ok L \<Longrightarrow> roots_ok R \<Longrightarrow> uuid_stream uuid \<Longrightarrow> bridge_ok L uuid R (emptyBridge L)"
  by (simp add: bridge_ok_def roots_unmapped_def fresh_def uuid_stream_def)

lemma recorded_parent_in_doc:
  assumes ok: "bridge_ok L uuid R b" and "resolves R b p"
    and rec: "\<And>c. c2l b c \<noteq> None \<Longrightarrow> \<exists>m. tn_id m = c \<and> recorded L R b m"
  shows "chromeParentToLoro R b p \<in> set CANONICAL_ROOT_IDS
    \<or> map_of (bookmarks L b) (chromeParentToLoro R b p) \<noteq> None"
proof (cases "map_of (nativeToCanonical R) p")
  case (Some c)
  then have "c \<in> set CANONICAL_ROOT_IDS"
    using ok by (auto simp: bridge_ok_def roots_ok_def ran_def)
  with Some show ?thesis by (simp add: chromeParentToLoro_def)
next
  case None
  show ?thesis
  proof (cases "c2l b p")
    case N: None
    then have "isAnyRootId R p" using assms(2) by (simp add: resolves_def)
    then have "p \<in> set CANONICAL_ROOT_IDS"
      using ok None by (auto simp: bridge_ok_def roots_ok_def isAnyRootId_def)
    with None N show ?thesis by (simp add: chromeParentToLoro_def)
  next
    case (Some l)
    then have "map_of (bookmarks L b) l \<noteq> None" using rec [of p] by (auto simp: recorded_def)
    with None Some show ?thesis by (simp add: chromeParentToLoro_def)
  qed
qed

lemma bootstrap_result:
  assumes "loro_map_ok L" and "roots_ok R" and "uuid_stream uuid" and t: "tree_ok R t"
    and e: "e = fold (addNode L uuid R) (managedWalk R [t]) (emptyBridge L)"
  shows "bridge_ok L uuid R e"
    and "\<forall>n \<in> managedNodes R t. recorded L R e n \<and> (\<exists>p. tn_parentId n = Some p \<and> resolves R e p)"
    and "\<forall>c. c2l e c \<noteq> None \<longrightarrow> (\<exists>n \<in> managedNodes R t. tn_id n = c \<and> recorded L R e n)"
    and "\<forall>l. map_of (bookmarks L e) l \<noteq> None \<longrightarrow> l2c e l \<noteq> None"
proof -
  note w = tree_walk [OF t]
  have ok: "bridge_ok L uuid R (emptyBridge L)"
    using assms by (intro bridge_ok_empty)
  have "e = fold (addMissing L uuid R) (managedWalk R [t]) (emptyBridge L)"
    unfolding e by (rule addNode_fold_missing [OF w(2)]) simp
  with addMissing_fold [OF ok w(3) roots_resolve w(4)]
  have a: "adds L uuid R (emptyBridge L) (managedWalk R [t]) e" by simp
  then show "bridge_ok L uuid R e" by (simp add: adds_def)
  show new: "\<forall>c. c2l e c \<noteq> None \<longrightarrow> (\<exists>n \<in> managedNodes R t. tn_id n = c \<and> recorded L R e n)"
    using a unfolding adds_def w(1) by simp
  show "\<forall>l. map_of (bookmarks L e) l \<noteq> None \<longrightarrow> l2c e l \<noteq> None"
    using a assms(1) unfolding adds_def by simp
  have "\<forall>n \<in> managedNodes R t. c2l e (tn_id n) \<noteq> None \<and> (\<exists>p. tn_parentId n = Some p \<and> resolves R e p)"
    using a unfolding adds_def w(1) by blast
  moreover have "n = m" if "n \<in> managedNodes R t" "m \<in> managedNodes R t" "tn_id n = tn_id m" for n m
    using w(2) that unfolding w(1) [symmetric] by (simp add: distinct_map inj_on_def)
  ultimately show "\<forall>n \<in> managedNodes R t. recorded L R e n \<and> (\<exists>p. tn_parentId n = Some p \<and> resolves R e p)"
    using new by metis
qed

lemma managedWalk_children:
  "isAnyRootId R (tn_id t) \<Longrightarrow> managedWalk R (tn_children t) = managedWalk R [t]"
  by (simp add: managedWalk.simps)

subsection \<open>Properties\<close>

text \<open>
  C10. Bootstrapping a new profile puts exactly the managed tree into the document: the count is
  the number of managed nodes; the entries of the document are exactly those of the managed nodes,
  one each, with the node's title, url and index and its parent translated; and no entry is an
  orphan, its parent being a canonical root or an entry. The mapping stays consistent.
\<close>

theorem bootstrap_mirrors_tree:
  assumes "loro_map_ok L" and "roots_ok R" and "uuid_stream uuid" and "tree_ok R t"
    and run: "bootstrapFromChrome L uuid R profileId t (emptyBridge L, db) = (cnt, b', db')"
  shows "cnt = card (managedNodes R t) \<and> mapping_ok b'
    \<and> (\<forall>l nd. map_of (bookmarks L b') l = Some nd \<longleftrightarrow>
         (\<exists>n p. n \<in> managedNodes R t \<and> l2c b' l = Some (tn_id n) \<and> tn_parentId n = Some p
            \<and> nd = toNode n (chromeParentToLoro R b' p)))
    \<and> (\<forall>l nd. map_of (bookmarks L b') l = Some nd \<longrightarrow>
         bn_parentId nd \<in> set CANONICAL_ROOT_IDS \<or> map_of (bookmarks L b') (bn_parentId nd) \<noteq> None)"
proof -
  define e where "e = fold (addNode L uuid R) (managedWalk R [t]) (emptyBridge L)"
  note res = bootstrap_result [OF assms(1-4) e_def] and w = tree_walk [OF assms(4)]
  have "managedWalk R (tn_children t) = managedWalk R [t]"
    using assms(4) by (intro managedWalk_children) (simp add: tree_ok_def)
  then have cnt: "cnt = length (managedWalk R [t])" and b': "b' = e\<lparr>lastVersion := Some (loro_version L (doc e))\<rparr>"
    using run by (simp_all add: bootstrapFromChrome_def bootstrapLoop_walk e_def)
  have same: "l2c b' = l2c e" "c2l b' = c2l e" "bookmarks L b' = bookmarks L e" "mapping_ok b' = mapping_ok e"
    by (simp_all add: b')
  have par: "chromeParentToLoro R b' p = chromeParentToLoro R e p" for p
    by (rule chromeParentToLoro_cong) (simp add: same)
  have m: "mapping_ok e" using res(1) by (simp add: bridge_ok_def)
  have "distinct (managedWalk R [t])" using w(2) by (simp add: distinct_map)
  then have "cnt = card (managedNodes R t)"
    unfolding cnt w(1) [symmetric] by (simp add: distinct_card)
  moreover have iff: "map_of (bookmarks L e) l = Some nd \<longleftrightarrow>
      (\<exists>n p. n \<in> managedNodes R t \<and> l2c e l = Some (tn_id n) \<and> tn_parentId n = Some p
        \<and> nd = toNode n (chromeParentToLoro R e p))" for l nd
  proof -
    have "\<exists>n p. n \<in> managedNodes R t \<and> l2c e l = Some (tn_id n) \<and> tn_parentId n = Some p
        \<and> nd = toNode n (chromeParentToLoro R e p)" if nd: "map_of (bookmarks L e) l = Some nd"
    proof -
      from res(4) nd obtain c where c: "l2c e l = Some c" by fastforce
      then have "c2l e c = Some l" using mapping_ok_iff [OF m] by simp
      with res(3) obtain n where n: "n \<in> managedNodes R t" "tn_id n = c" "recorded L R e n" by blast
      then obtain p where "tn_parentId n = Some p" "nd = toNode n (chromeParentToLoro R e p)"
        using \<open>c2l e c = Some l\<close> nd by (auto simp: recorded_def)
      with n c show ?thesis by auto
    qed
    moreover have "map_of (bookmarks L e) l = Some nd"
      if "n \<in> managedNodes R t" "l2c e l = Some (tn_id n)" "tn_parentId n = Some p" "nd = toNode n (chromeParentToLoro R e p)" for n p
      using res(2) that mapping_ok_iff [OF m, of l "tn_id n"] by (auto simp: recorded_def)
    ultimately show ?thesis by blast
  qed
  moreover have "bn_parentId nd \<in> set CANONICAL_ROOT_IDS \<or> map_of (bookmarks L e) (bn_parentId nd) \<noteq> None"
    if l: "map_of (bookmarks L e) l = Some nd" for l nd
  proof -
    from l obtain n p where n: "n \<in> managedNodes R t" "tn_parentId n = Some p" "nd = toNode n (chromeParentToLoro R e p)"
      unfolding iff by blast
    then have "resolves R e p" using res(2) by auto
    from recorded_parent_in_doc [OF res(1) this] res(3) n(3) show ?thesis by (auto simp: toNode_def)
  qed
  ultimately show ?thesis
    using m unfolding same par by blast
qed

text \<open>A tree with a folder, two bookmarks, and a browser-specific container.\<close>

definition example_tree :: tree_node where
  "example_tree =
     TreeNode ''0'' None (Some 0) '''' None
       [TreeNode ''1'' (Some ''0'') (Some 0) ''Bar'' None
          [TreeNode ''5'' (Some ''1'') (Some 0) ''News'' None
             [TreeNode ''7'' (Some ''5'') (Some 0) ''A'' (Some ''http://a'') []]],
        TreeNode ''2'' (Some ''0'') (Some 1) ''Other'' None
          [TreeNode ''6'' (Some ''2'') (Some 0) ''B'' (Some ''http://b'') []],
        TreeNode ''9'' (Some ''0'') (Some 2) ''Trash'' None
          [TreeNode ''10'' (Some ''9'') (Some 0) ''C'' (Some ''http://c'') []]]"

definition example_uuid :: "nat \<Rightarrow> string" where
  "example_uuid k = replicate (Suc k) (CHR ''u'')"

lemma example_uuid_ok: "uuid_stream example_uuid"
proof -
  have "inj example_uuid"
    by (rule injI) (metis example_uuid_def length_replicate old.nat.inject)
  then show ?thesis
    by (auto simp: uuid_stream_def CANONICAL_ROOT_IDS_def example_uuid_def)
qed

lemma example_tree_ok: "tree_ok defaultRoots example_tree"
  by (simp add: tree_ok_def example_tree_def defaultRoots_def CANONICAL_ROOT_IDS_def isAnyRootId_def)

lemma example_managed: "map tn_id (managed defaultRoots example_tree) = [''5'', ''7'', ''6'']"
  by (simp add: example_tree_def defaultRoots_def CANONICAL_ROOT_IDS_def isAnyRootId_def excluded_def isVirtualRootId_def)

lemma example_managed_card: "card (managedNodes defaultRoots example_tree) = 3"
proof -
  have "distinct (managed defaultRoots example_tree)"
    using example_managed by (metis distinct_map distinct_length_2_or_more example_tree_ok managed_ids_distinct tree_ok_def)
  moreover have "length (managed defaultRoots example_tree) = 3"
    using arg_cong [OF example_managed, of length] by simp
  ultimately show ?thesis by (simp add: managedNodes_def distinct_card)
qed

lemma bootstrap_mirrors_tree_witness:
  "\<exists>cnt b' db'. bootstrapFromChrome example_loro example_uuid defaultRoots ''p1'' example_tree (emptyBridge example_loro, emptyDb)
      = (cnt, b', db') \<and> cnt = 3 \<and> mapping_ok b'"
proof -
  obtain cnt b' db' where r: "bootstrapFromChrome example_loro example_uuid defaultRoots ''p1'' example_tree
      (emptyBridge example_loro, emptyDb) = (cnt, b', db')"
    by (metis prod.collapse)
  from bootstrap_mirrors_tree [OF example_loro_ok roots_ok_default example_uuid_ok example_tree_ok r] r
  show ?thesis by (simp add: example_managed_card)
qed

text \<open>
  C9. Merging what happened while signed out: after mergeLocalChangesIntoDoc every managed node
  of the browser is mapped, and agrees with its entry (title, url, translated parent and index)
  unless the entry had been deleted remotely before; the entry of a bookmark deleted locally is
  deleted with its mapping; and entries this device never had a bookmark for are untouched.
\<close>

theorem merge_captures_offline_changes:
  assumes "bridge_ok L uuid R b" and "tree_ok R t"
    and "mergeLocalChangesIntoDoc L uuid R a [t] (b, db) = (r, (b', db'))"
  shows "(\<forall>n \<in> managedNodes R t. \<exists>l. c2l b' (tn_id n) = Some l
           \<and> (c2l b (tn_id n) = None \<or> map_of (bookmarks L b) l \<noteq> None \<longrightarrow>
                (\<exists>nd. map_of (bookmarks L b') l = Some nd \<and> agrees R b' n nd)))
    \<and> (\<forall>l c. l2c b l = Some c \<longrightarrow> c \<notin> tn_id ` managedNodes R t \<longrightarrow> map_of (bookmarks L b) l \<noteq> None \<longrightarrow>
           map_of (bookmarks L b') l = None \<and> l2c b' l = None)
    \<and> (\<forall>l. l2c b l = None \<longrightarrow> map_of (bookmarks L b) l \<noteq> None \<longrightarrow>
           map_of (bookmarks L b') l = map_of (bookmarks L b) l)"
proof -
  have b': "b' = mergeLocalChanges L uuid R [t] b"
    using assms(3) by (auto simp: mergeLocalChangesIntoDoc_def Let_def split: prod.splits)
  note res = merge_result [OF assms(1,2) b', unfolded isGone_def]
  show ?thesis
    using res(2,4,5) by (intro conjI ballI allI impI) blast+
qed

lemma example_bridge_ok: "bridge_ok example_loro example_uuid defaultRoots (emptyBridge example_loro)"
  by (rule bridge_ok_empty [OF example_loro_ok roots_ok_default example_uuid_ok])

lemma merge_captures_offline_changes_witness:
  "\<exists>r b' db'. mergeLocalChangesIntoDoc example_loro example_uuid defaultRoots freshAuth [example_tree] (emptyBridge example_loro, emptyDb)
      = (r, (b', db')) \<and> (\<exists>l nd. c2l b' ''7'' = Some l \<and> map_of (bookmarks example_loro b') l = Some nd
          \<and> bn_title nd = ''A'')"
proof -
  obtain r b' db' where r: "mergeLocalChangesIntoDoc example_loro example_uuid defaultRoots freshAuth [example_tree]
      (emptyBridge example_loro, emptyDb) = (r, (b', db'))"
    by (metis prod.collapse)
  let ?n = "TreeNode ''7'' (Some ''5'') (Some 0) ''A'' (Some ''http://a'') []"
  have n: "?n \<in> managedNodes defaultRoots example_tree"
    by (simp add: managedNodes_def example_tree_def defaultRoots_def CANONICAL_ROOT_IDS_def isAnyRootId_def excluded_def
        isVirtualRootId_def)
  from merge_captures_offline_changes [OF example_bridge_ok example_tree_ok r, THEN conjunct1, rule_format, OF n] r
  show ?thesis by (auto simp: agrees_def)
qed

text \<open>
  C8. Nothing is counted twice: right after mergeLocalChangesIntoDoc, on the same browser tree,
  computeOfflineChanges reports no added, no removed and no modified bookmark, provided every
  mapped bookmark that is gone from the browser had an entry in the document.
\<close>

theorem no_offline_changes_after_merge:
  assumes "bridge_ok L uuid R b" and "tree_ok R t"
    and entry: "\<forall>l c. l2c b l = Some c \<longrightarrow> c \<notin> tn_id ` managedNodes R t \<longrightarrow> map_of (bookmarks L b) l \<noteq> None"
  shows "computeOfflineChanges L R [t] (mergeLocalChanges L uuid R [t] b) = (0, 0, 0)"
proof -
  define b' where "b' = mergeLocalChanges L uuid R [t] b"
  note res = merge_result [OF assms(1,2) b'_def]
  have L: "loro_map_ok L" using assms(1) by (simp add: bridge_ok_def)
  have live: "\<not> isGone R t c" if "l2c b' l = Some c" for l c
  proof
    assume "isGone R t c"
    with res(6) that have "l2c b l = Some c" by blast
    with entry res(4) \<open>isGone R t c\<close> have "l2c b' l = None" by (auto simp: isGone_def)
    with that show False by simp
  qed
  have uniq: "n = m" if "n \<in> managedNodes R t" "m \<in> managedNodes R t" "tn_id n = tn_id m" for n m
    using tree_walk(1,2) [OF assms(2)] that by (auto simp: distinct_map inj_on_def)
  have "computeOfflineChanges L R [t] b' = (0, 0, 0)"
  proof (rule computeOfflineChanges_zero [OF L res(1) assms(2)])
    fix n assume "n \<in> managedNodes R t"
    then show "c2l b' (tn_id n) \<noteq> None" using res(2) by fastforce
  next
    fix l c assume "l2c b' l = Some c"
    then show "\<not> isGone R t c" by (rule live)
  next
    fix l nd n
    assume a: "map_of (bookmarks L b') l = Some nd" "l2c b' l = Some (tn_id n)" "n \<in> managedNodes R t"
    from res(3) [OF a(1)] a(2) obtain m where m: "m \<in> managedNodes R t" "c2l b' (tn_id m) = Some l" "agrees R b' m nd"
      by auto
    then have "l2c b' l = Some (tn_id m)" using mapping_ok_iff [OF res(1)] by simp
    then have "n = m" using uniq a(2,3) m(1) by simp
    with m(3) show "agrees R b' n nd" by simp
  qed
  then show ?thesis by (simp add: b'_def)
qed

lemma no_offline_changes_after_merge_witness:
  "computeOfflineChanges example_loro defaultRoots [example_tree]
     (mergeLocalChanges example_loro example_uuid defaultRoots [example_tree] (emptyBridge example_loro)) = (0, 0, 0)"
  by (rule no_offline_changes_after_merge [OF example_bridge_ok example_tree_ok]) simp

end
