(* ===== verification/Bridge_Import.thy ===== *)
theory Bridge_Import
  imports Merge_Correct
begin

text \<open>
  extension/src/bookmarks/bridge.ts, lines 559-681: a new device that already holds bookmarks.
  computeLocalImportDiff counts the urls on one side only, mergeImportIntoDoc adds the browser's
  bookmarks to the server's document, with or without those whose url is already there.
\<close>

subsection \<open>Translation\<close>

text \<open>\<^verbatim>\<open>new Set(...)\<close> in insertion order.\<close>

definition newSet :: "'a list \<Rightarrow> 'a list" where
  "newSet xs = fold (\<lambda>x acc. if x \<in> set acc then acc else acc @ [x]) xs []"

definition truthyUrls :: "string option list \<Rightarrow> string list" where
  "truthyUrls us = map the (filter truthy us)"

definition serverUrlsOf :: "bookmarks \<Rightarrow> string list" where
  "serverUrlsOf bms = newSet (truthyUrls (map (\<lambda>(i, nd). bn_url nd) bms))"

definition computeLocalImportDiff :: "'d loro \<Rightarrow> roots \<Rightarrow> tree_node list \<Rightarrow> 'd bridge \<Rightarrow> nat \<times> nat" where
  "computeLocalImportDiff L R tree b =
     (let chromeUrls = newSet (truthyUrls (map tn_url (managedWalk R tree)));
          serverUrls = serverUrlsOf (bookmarks L b)
      in (length (filter (\<lambda>u. u \<notin> set serverUrls) chromeUrls),
          length (filter (\<lambda>u. u \<notin> set chromeUrls) serverUrls)))"

definition maxServerIndexOf :: "bookmarks \<Rightarrow> (string \<times> int) list" where
  "maxServerIndexOf bms =
     fold (\<lambda>(i, nd) m. if orElse (map_of m (bn_parentId nd)) (- 1) < bn_index nd
                       then AList.update (bn_parentId nd) (bn_index nd) m else m) bms []"

definition matchFolder :: "bookmarks \<Rightarrow> 'd bridge \<Rightarrow> tree_node \<Rightarrow> string \<Rightarrow> string option" where
  "matchFolder server b node parentLoroId =
     map_option fst (find (\<lambda>(i, nd). l2c b i = None \<and> bn_type nd = FolderT
        \<and> bn_title nd = tn_title node \<and> bn_parentId nd = parentLoroId) server)"

text \<open>The body of the loop for a visited node; \<^verbatim>\<open>server\<close> is the document before the import.\<close>

definition importNode ::
  "'d loro \<Rightarrow> (nat \<Rightarrow> string) \<Rightarrow> roots \<Rightarrow> bool \<Rightarrow> bookmarks \<Rightarrow> tree_node
     \<Rightarrow> 'd bridge \<times> (string \<times> int) list \<Rightarrow> 'd bridge \<times> (string \<times> int) list" where
  "importNode L uuid R excludeDuplicates server node = (\<lambda>(b, nextIndex).
     if c2l b (tn_id node) \<noteq> None then (b, nextIndex)
     else
       (let isFolder = (\<not> truthy (tn_url node));
            skip = (\<not> isFolder \<and> excludeDuplicates \<and> the (tn_url node) \<in> set (serverUrlsOf server))
        in if skip then (b, nextIndex)
           else
             (let parentLoroId = chromeParentToLoro R b (orElse (tn_parentId node) ''1'');
                  matched = (if isFolder \<and> excludeDuplicates then matchFolder server b node parentLoroId else None)
              in if truthy matched then (link (the matched) (tn_id node) b, nextIndex)
                 else
                   (let serverMax = orElse (map_of (maxServerIndexOf server) parentLoroId) (- 1);
                        idx = orElse (map_of nextIndex parentLoroId) (serverMax + 1);
                        loroId = uuid (uuids b);
                        b' = link loroId (tn_id node) (b\<lparr>uuids := Suc (uuids b)\<rparr>)
                    in (putBookmark L loroId ((toNode node parentLoroId)\<lparr>bn_index := idx\<rparr>) b',
                        AList.update parentLoroId (idx + 1) nextIndex)))))"

function importLoop ::
  "'d loro \<Rightarrow> (nat \<Rightarrow> string) \<Rightarrow> roots \<Rightarrow> bool \<Rightarrow> bookmarks \<Rightarrow> tree_node list
     \<Rightarrow> 'd bridge \<times> (string \<times> int) list \<Rightarrow> 'd bridge \<times> (string \<times> int) list" where
  "importLoop L uuid R excl server [] s = s"
| "importLoop L uuid R excl server (node # queue) s =
     (if isAnyRootId R (tn_id node) then importLoop L uuid R excl server (queue @ tn_children node) s
      else if excluded R node then importLoop L uuid R excl server queue s
      else importLoop L uuid R excl server (queue @ tn_children node) (importNode L uuid R excl server node s))"
  by pat_completeness auto
termination
  by (relation "measure (\<lambda>(L, uuid, R, excl, server, queue, s). sum_list (map tree_size queue))")
     (auto simp: tree_size_children)

definition mergeImport ::
  "'d loro \<Rightarrow> (nat \<Rightarrow> string) \<Rightarrow> roots \<Rightarrow> bool \<Rightarrow> tree_node list \<Rightarrow> 'd bridge \<Rightarrow> 'd bridge" where
  "mergeImport L uuid R excludeDuplicates tree b =
     fst (importLoop L uuid R excludeDuplicates (bookmarks L b) tree (b, []))"

definition mergeImportIntoDoc ::
  "'d loro \<Rightarrow> (nat \<Rightarrow> string) \<Rightarrow> roots \<Rightarrow> auth \<Rightarrow> bool \<Rightarrow> tree_node list \<Rightarrow> ('d bridge \<times> idb, unit) act" where
  "mergeImportIntoDoc L uuid R a excludeDuplicates tree = (\<lambda>(b, db).
     (let b' = mergeImport L uuid R excludeDuplicates tree b
      in case saveMapping a b' db of (r, db') \<Rightarrow> (r, (b', db'))))"

subsection \<open>Sets, urls and indices\<close>

lemma newSet_props: "set (newSet xs) = set xs \<and> distinct (newSet xs)"
proof -
  have "set (fold (\<lambda>x acc. if x \<in> set acc then acc else acc @ [x]) xs a) = set a \<union> set xs
    \<and> (distinct a \<longrightarrow> distinct (fold (\<lambda>x acc. if x \<in> set acc then acc else acc @ [x]) xs a))" for a
    by (induction xs arbitrary: a) auto
  from this [of "[]"] show ?thesis by (simp add: newSet_def)
qed

lemma set_newSet [simp]: "set (newSet xs) = set xs"
  and distinct_newSet [simp]: "distinct (newSet xs)"
  by (simp_all add: newSet_props)

lemma set_truthyUrls: "u \<in> set (truthyUrls us) \<longleftrightarrow> Some u \<in> set us \<and> u \<noteq> []"
  by (induction us) (auto simp: truthyUrls_def truthy_iff)

lemma set_serverUrlsOf:
  "distinct (map fst bms) \<Longrightarrow>
     u \<in> set (serverUrlsOf bms) \<longleftrightarrow> u \<noteq> [] \<and> (\<exists>l nd. map_of bms l = Some nd \<and> bn_url nd = Some u)"
  by (auto simp: serverUrlsOf_def set_truthyUrls) (force intro: map_of_is_SomeI dest: map_of_SomeD)+

lemma maxServerIndexOf_bound:
  assumes "(l, nd) \<in> set bms"
  shows "bn_index nd \<le> orElse (map_of (maxServerIndexOf bms) (bn_parentId nd)) (- 1)"
proof -
  let ?f = "\<lambda>(i, nd) m. if orElse (map_of m (bn_parentId nd)) (- 1) < bn_index nd
                       then AList.update (bn_parentId nd) (bn_index nd) m else m"
  have mono: "orElse (map_of m p) (- 1) \<le> orElse (map_of (fold ?f es m) p) (- 1)" for es m p
  proof (induction es arbitrary: m)
    case (Cons e es)
    have "orElse (map_of m p) (- 1) \<le> orElse (map_of (?f e m) p) (- 1)"
      by (cases e) (auto simp: update_conv')
    also have "\<dots> \<le> orElse (map_of (fold ?f es (?f e m)) p) (- 1)" by (rule Cons)
    finally show ?case by simp
  qed simp
  have "bn_index nd \<le> orElse (map_of (fold ?f es m) (bn_parentId nd)) (- 1)" if "(l, nd) \<in> set es" for es m
    using that
  proof (induction es arbitrary: m)
    case (Cons e es)
    show ?case
    proof (cases "e = (l, nd)")
      case True
      have "bn_index nd \<le> orElse (map_of (?f e m) (bn_parentId nd)) (- 1)"
        using True by (auto simp: update_conv')
      also have "\<dots> \<le> orElse (map_of (fold ?f es (?f e m)) (bn_parentId nd)) (- 1)" by (rule mono)
      finally show ?thesis by simp
    next
      case False
      with Cons show ?thesis by simp
    qed
  qed simp
  from this [OF assms] show ?thesis by (simp add: maxServerIndexOf_def)
qed

lemma importLoop_walk:
  "importLoop L uuid R excl server queue s = fold (importNode L uuid R excl server) (managedWalk R queue) s"
  by (induction queue arbitrary: s rule: managedWalk_induct [of _ R]) (simp_all add: managedWalk.simps)

subsection \<open>The import keeps the server's document\<close>

text \<open>
  The invariant of the loop: the server's entries are still there; a counter lies above every
  index used below its parent, and a parent without a counter has server entries only; every new
  entry is mapped, comes after all server entries of its parent and, when duplicates are
  excluded, has no url of the server's.
\<close>

definition afterServer :: "bookmarks \<Rightarrow> bookmark_node \<Rightarrow> bool" where
  "afterServer server nd \<longleftrightarrow>
     (\<forall>l nd'. map_of server l = Some nd' \<longrightarrow> bn_parentId nd' = bn_parentId nd \<longrightarrow> bn_index nd' < bn_index nd)"

definition noServerUrl :: "bookmarks \<Rightarrow> bookmark_node \<Rightarrow> bool" where
  "noServerUrl server nd \<longleftrightarrow> (truthy (bn_url nd) \<longrightarrow> the (bn_url nd) \<notin> set (serverUrlsOf server))"

definition import_inv ::
  "'d loro \<Rightarrow> (nat \<Rightarrow> string) \<Rightarrow> roots \<Rightarrow> bool \<Rightarrow> bookmarks \<Rightarrow> 'd bridge \<times> (string \<times> int) list \<Rightarrow> bool" where
  "import_inv L uuid R excl server s \<longleftrightarrow>
     bridge_ok L uuid R (fst s)
     \<and> (\<forall>l nd. map_of server l = Some nd \<longrightarrow> map_of (bookmarks L (fst s)) l = Some nd)
     \<and> (\<forall>l nd i. map_of (bookmarks L (fst s)) l = Some nd \<longrightarrow> map_of (snd s) (bn_parentId nd) = Some i \<longrightarrow> bn_index nd < i)
     \<and> (\<forall>l nd. map_of (bookmarks L (fst s)) l = Some nd \<longrightarrow> map_of (snd s) (bn_parentId nd) = None \<longrightarrow> map_of server l = Some nd)
     \<and> (\<forall>l nd. map_of (bookmarks L (fst s)) l = Some nd \<longrightarrow> map_of server l = None \<longrightarrow>
          l2c (fst s) l \<noteq> None \<and> afterServer server nd \<and> (excl \<longrightarrow> noServerUrl server nd))"

lemma import_invI:
  assumes "bridge_ok L uuid R b"
    and "\<And>l nd. map_of server l = Some nd \<Longrightarrow> map_of (bookmarks L b) l = Some nd"
    and "\<And>l nd i. map_of (bookmarks L b) l = Some nd \<Longrightarrow> map_of nx (bn_parentId nd) = Some i \<Longrightarrow> bn_index nd < i"
    and "\<And>l nd. map_of (bookmarks L b) l = Some nd \<Longrightarrow> map_of nx (bn_parentId nd) = None \<Longrightarrow> map_of server l = Some nd"
    and "\<And>l nd. map_of (bookmarks L b) l = Some nd \<Longrightarrow> map_of server l = None \<Longrightarrow>
       l2c b l \<noteq> None \<and> afterServer server nd \<and> (excl \<longrightarrow> noServerUrl server nd)"
  shows "import_inv L uuid R excl server (b, nx)"
  unfolding import_inv_def fst_conv snd_conv
  by (intro conjI allI impI; (erule (1) assms(5) [THEN conjunct1] assms(5) [THEN conjunct2, THEN conjunct1]
        assms(5) [THEN conjunct2, THEN conjunct2, THEN mp] | rule assms; assumption))

definition covered :: "'d loro \<Rightarrow> 'd bridge \<Rightarrow> tree_node \<Rightarrow> bool" where
  "covered L b n \<longleftrightarrow> (truthy (tn_url n) \<longrightarrow> (\<exists>l nd. map_of (bookmarks L b) l = Some nd \<and> bn_url nd = tn_url n))"

text \<open>Linking a server folder to a bookmark of the browser.\<close>

lemma bridge_ok_match:
  assumes "bridge_ok L uuid R b" and "c2l b c = None" and "c \<noteq> []" and "\<not> isAnyRootId R c"
    and "l2c b l = None" and "l \<noteq> []" and "l \<notin> set CANONICAL_ROOT_IDS" and "map_of (bookmarks L b) l \<noteq> None"
  shows "bridge_ok L uuid R (link l c b)"
proof -
  have "mapping_ok (link l c b)"
    using assms by (intro mapping_ok_link) (simp_all add: bridge_ok_def)
  then show ?thesis
    using assms by (auto simp: bridge_ok_def roots_unmapped_def fresh_def)
qed

lemma matchFolder_Some:
  assumes "matchFolder server b node p = Some l" and "distinct (map fst server)"
  shows "l2c b l = None \<and> map_of server l \<noteq> None"
proof -
  from assms(1) obtain nd where "find (\<lambda>(i, nd). l2c b i = None \<and> bn_type nd = FolderT
      \<and> bn_title nd = tn_title node \<and> bn_parentId nd = p) server = Some (l, nd)"
    by (auto simp: matchFolder_def)
  then have "l2c b l = None" "(l, nd) \<in> set server"
    by (auto simp: find_Some_iff in_set_conv_nth)
  then show ?thesis using weak_map_of_SomeI [of l nd server] by auto
qed

lemma importNode_cases:
  assumes "c2l b (tn_id n) = None"
  obtains (skip) "excl" "truthy (tn_url n)" "the (tn_url n) \<in> set (serverUrlsOf server)"
      "importNode L uuid R excl server n (b, nx) = (b, nx)"
  | (match) l where "\<not> truthy (tn_url n)" "l \<noteq> []"
      "matchFolder server b n (chromeParentToLoro R b (orElse (tn_parentId n) ''1'')) = Some l"
      "importNode L uuid R excl server n (b, nx) = (link l (tn_id n) b, nx)"
  | (new) p idx where "excl \<longrightarrow> truthy (tn_url n) \<longrightarrow> the (tn_url n) \<notin> set (serverUrlsOf server)"
      "idx = orElse (map_of nx p) (orElse (map_of (maxServerIndexOf server) p) (- 1) + 1)"
      "importNode L uuid R excl server n (b, nx) =
         (putBookmark L (uuid (uuids b)) ((toNode n p)\<lparr>bn_index := idx\<rparr>)
            (link (uuid (uuids b)) (tn_id n) (b\<lparr>uuids := Suc (uuids b)\<rparr>)), AList.update p (idx + 1) nx)"
proof -
  let ?p = "chromeParentToLoro R b (orElse (tn_parentId n) ''1'')"
  let ?m = "if \<not> truthy (tn_url n) \<and> excl then matchFolder server b n ?p else None"
  show thesis
  proof (cases "truthy (tn_url n) \<and> excl \<and> the (tn_url n) \<in> set (serverUrlsOf server)")
    case True
    with assms skip show ?thesis by (simp add: importNode_def)
  next
    case False
    show ?thesis
    proof (cases "truthy ?m")
      case True
      then obtain l where "?m = Some l" "l \<noteq> []" by (auto simp: truthy_iff)
      with assms False True match show ?thesis by (auto simp: importNode_def Let_def split: if_splits)
    next
      case F: False
      show ?thesis
        by (rule new [of "orElse (map_of nx ?p) (orElse (map_of (maxServerIndexOf server) ?p) (- 1) + 1)" ?p])
           (use assms False F in \<open>auto simp: importNode_def Let_def\<close>)
    qed
  qed
qed

text \<open>What one round of the loop does: the three cases of the body one by one.\<close>

definition step_ok ::
  "'d loro \<Rightarrow> (nat \<Rightarrow> string) \<Rightarrow> roots \<Rightarrow> bool \<Rightarrow> bookmarks \<Rightarrow> tree_node \<Rightarrow> 'd bridge \<Rightarrow> 'd bridge \<times> (string \<times> int) list \<Rightarrow> bool" where
  "step_ok L uuid R excl server n b s' \<longleftrightarrow>
     import_inv L uuid R excl server s' \<and> covered L (fst s') n
     \<and> (\<forall>l nd. map_of (bookmarks L b) l = Some nd \<longrightarrow> map_of (bookmarks L (fst s')) l = Some nd)
     \<and> (\<forall>c. c \<noteq> tn_id n \<longrightarrow> c2l (fst s') c = c2l b c)
     \<and> (\<forall>l nd. map_of (bookmarks L (fst s')) l = Some nd \<longrightarrow> map_of (bookmarks L b) l = Some nd \<or> bn_url nd = tn_url n)"

lemma import_invD:
  assumes "import_inv L uuid R excl server (b, nx)"
  shows "bridge_ok L uuid R b" and "map_of server l = Some nd \<Longrightarrow> map_of (bookmarks L b) l = Some nd"
    and "map_of (bookmarks L b) l = Some nd \<Longrightarrow> map_of nx (bn_parentId nd) = Some i \<Longrightarrow> bn_index nd < i"
    and "map_of (bookmarks L b) l = Some nd \<Longrightarrow> map_of nx (bn_parentId nd) = None \<Longrightarrow> map_of server l = Some nd"
    and "map_of (bookmarks L b) l = Some nd \<Longrightarrow> map_of server l = None \<Longrightarrow>
      l2c b l \<noteq> None \<and> afterServer server nd \<and> (excl \<longrightarrow> noServerUrl server nd)"
  using assms unfolding import_inv_def fst_conv snd_conv by metis+

lemma import_skip:
  assumes "import_inv L uuid R excl server (b, nx)" and "distinct (map fst server)"
    and "truthy (tn_url n)" and "the (tn_url n) \<in> set (serverUrlsOf server)"
  shows "step_ok L uuid R excl server n b (b, nx)"
proof -
  obtain u where u: "tn_url n = Some u" using assms(3) by (auto simp: truthy_iff)
  then obtain l nd where "map_of server l = Some nd" "bn_url nd = Some u"
    using assms(4) set_serverUrlsOf [OF assms(2)] by auto
  with u import_invD(2) [OF assms(1)] have "covered L b n" unfolding covered_def by metis
  with assms(1) show ?thesis by (simp add: step_ok_def)
qed

lemma import_match:
  assumes inv: "import_inv L uuid R excl server (b, nx)" and n: "c2l b (tn_id n) = None" "tn_id n \<noteq> []" "\<not> isAnyRootId R (tn_id n)"
    and server: "distinct (map fst server)" "\<forall>c \<in> set CANONICAL_ROOT_IDS. map_of server c = None"
    and l: "\<not> truthy (tn_url n)" "l \<noteq> []" "matchFolder server b n p = Some l"
  shows "step_ok L uuid R excl server n b (link l (tn_id n) b, nx)"
proof -
  note I = import_invD [OF inv]
  have m: "l2c b l = None" "map_of server l \<noteq> None" using matchFolder_Some [OF l(3) server(1)] by simp_all
  have "map_of (bookmarks L b) l \<noteq> None" using m(2) I(2) by auto
  moreover have "l \<notin> set CANONICAL_ROOT_IDS" using m(2) server(2) by auto
  ultimately have "bridge_ok L uuid R (link l (tn_id n) b)"
    by (intro bridge_ok_match [OF I(1) n m(1) l(2)])
  moreover have "l2c (link l (tn_id n) b) k \<noteq> None" if "l2c b k \<noteq> None" for k using that by simp
  moreover have "bookmarks L (link l (tn_id n) b) = bookmarks L b" by simp
  ultimately have "import_inv L uuid R excl server (link l (tn_id n) b, nx)"
    using I(2-) by (intro import_invI) metis+
  with l(1) show ?thesis by (simp add: step_ok_def covered_def)
qed

lemma import_below:
  assumes inv: "import_inv L uuid R excl server (b, nx)"
    and idx: "idx = orElse (map_of nx p) (orElse (map_of (maxServerIndexOf server) p) (- 1) + 1)"
    and "map_of (bookmarks L b) k = Some nd" and "bn_parentId nd = p"
  shows "bn_index nd < idx"
proof (cases "map_of nx p")
  case None
  then have "map_of server k = Some nd" using import_invD(4) [OF inv] assms(3,4) by simp
  then have "(k, nd) \<in> set server" by (rule map_of_SomeD)
  from maxServerIndexOf_bound [OF this] show ?thesis using assms(4) None by (simp add: idx)
next
  case (Some i)
  then show ?thesis using import_invD(3) [OF inv] assms(3,4) by (simp add: idx)
qed

lemma import_new:
  assumes inv: "import_inv L uuid R excl server (b, nx)" and n: "c2l b (tn_id n) = None" "tn_id n \<noteq> []" "\<not> isAnyRootId R (tn_id n)"
    and url: "excl \<longrightarrow> truthy (tn_url n) \<longrightarrow> the (tn_url n) \<notin> set (serverUrlsOf server)"
    and idx: "idx = orElse (map_of nx p) (orElse (map_of (maxServerIndexOf server) p) (- 1) + 1)"
  shows "step_ok L uuid R excl server n b
    (putBookmark L (uuid (uuids b)) ((toNode n p)\<lparr>bn_index := idx\<rparr>)
       (link (uuid (uuids b)) (tn_id n) (b\<lparr>uuids := Suc (uuids b)\<rparr>)), AList.update p (idx + 1) nx)"
proof -
  note I = import_invD [OF inv]
  let ?nd = "(toNode n p)\<lparr>bn_index := idx\<rparr>" and ?l = "uuid (uuids b)" and ?nx = "AList.update p (idx + 1) nx"
  let ?b = "putBookmark L ?l ?nd (link ?l (tn_id n) (b\<lparr>uuids := Suc (uuids b)\<rparr>))"
  have L: "loro_map_ok L" and fr: "map_of (bookmarks L b) ?l = None" using I(1) by (simp_all add: bridge_ok_def fresh_def)
  have nd: "bn_parentId ?nd = p" "bn_index ?nd = idx" "bn_url ?nd = tn_url n" by (simp_all add: toNode_def)
  note below = import_below [OF inv idx]
  have "bridge_ok L uuid R ?b" by (rule bridge_ok_new [OF I(1) n])
  moreover have "afterServer server ?nd" using below I(2) by (auto simp: afterServer_def nd)
  moreover have "excl \<longrightarrow> noServerUrl server ?nd" using url by (simp add: noServerUrl_def nd)
  moreover have bm: "map_of (bookmarks L ?b) = (map_of (bookmarks L b))(?l \<mapsto> ?nd)" by (simp add: L)
  moreover have "l2c ?b = (l2c b)(?l \<mapsto> tn_id n)" by simp
  moreover have "map_of ?nx = (map_of nx)(p \<mapsto> idx + 1)" by (simp add: update_conv')
  ultimately have "import_inv L uuid R excl server (?b, ?nx)"
  proof (intro import_invI, goal_cases)
    case (2 l nd)
    then show ?case using fr I(2) [of l nd] by (auto simp: bm)
  next
    case (3 l nd i)
    then show ?case using I(3) [of l nd] below [of l nd] nd by (auto split: if_splits)
  next
    case (4 l nd)
    then show ?case using I(4) [of l nd] nd by (auto split: if_splits)
  next
    case (5 l nd)
    then show ?case using I(5) [of l nd] by (auto split: if_splits)
  qed
  moreover have "covered L ?b n" using nd by (auto simp: covered_def bm)
  ultimately show ?thesis using fr bm nd(3) by (auto simp: step_ok_def)
qed

lemma import_inv_step:
  assumes inv: "import_inv L uuid R excl server (b, nx)" and n: "c2l b (tn_id n) = None" "tn_id n \<noteq> []" "\<not> isAnyRootId R (tn_id n)"
    and server: "distinct (map fst server)" "\<forall>c \<in> set CANONICAL_ROOT_IDS. map_of server c = None"
    and r: "importNode L uuid R excl server n (b, nx) = (b', nx')"
  shows "import_inv L uuid R excl server (b', nx')" and "covered L b' n"
    and "\<forall>l nd. map_of (bookmarks L b) l = Some nd \<longrightarrow> map_of (bookmarks L b') l = Some nd"
    and "\<forall>c. c \<noteq> tn_id n \<longrightarrow> c2l b' c = c2l b c"
    and "\<forall>l nd. map_of (bookmarks L b') l = Some nd \<longrightarrow> map_of (bookmarks L b) l = Some nd \<or> bn_url nd = tn_url n"
proof -
  have "step_ok L uuid R excl server n b (b', nx')"
    using n(1)
  proof (cases rule: importNode_cases [where excl = excl and server = server and L = L and uuid = uuid and R = R and nx = nx])
    case skip
    then show ?thesis using import_skip [OF inv server(1)] r by simp
  next
    case (match l)
    then show ?thesis using import_match [OF inv n server] r by simp
  next
    case (new p idx)
    then show ?thesis using import_new [OF inv n] r by metis
  qed
  then show "import_inv L uuid R excl server (b', nx')" "covered L b' n"
    "\<forall>l nd. map_of (bookmarks L b) l = Some nd \<longrightarrow> map_of (bookmarks L b') l = Some nd"
    "\<forall>c. c \<noteq> tn_id n \<longrightarrow> c2l b' c = c2l b c"
    "\<forall>l nd. map_of (bookmarks L b') l = Some nd \<longrightarrow> map_of (bookmarks L b) l = Some nd \<or> bn_url nd = tn_url n"
    unfolding step_ok_def fst_conv by blast+
qed

lemma import_fold:
  assumes "import_inv L uuid R excl server (b, nx)" and "distinct (map tn_id ns)"
    and "\<forall>n \<in> set ns. tn_id n \<noteq> [] \<and> \<not> isAnyRootId R (tn_id n)"
    and server: "distinct (map fst server)" "\<forall>c \<in> set CANONICAL_ROOT_IDS. map_of server c = None"
    and "fold (importNode L uuid R excl server) ns (b, nx) = (e, nx')"
  shows "import_inv L uuid R excl server (e, nx')
    \<and> (\<forall>l nd. map_of (bookmarks L b) l = Some nd \<longrightarrow> map_of (bookmarks L e) l = Some nd)
    \<and> (\<forall>n \<in> set ns. c2l b (tn_id n) = None \<longrightarrow> covered L e n)
    \<and> (\<forall>l nd. map_of (bookmarks L e) l = Some nd \<longrightarrow>
          map_of (bookmarks L b) l = Some nd \<or> (\<exists>n \<in> set ns. bn_url nd = tn_url n))"
  using assms(1-3,6)
proof (induction ns arbitrary: b nx)
  case (Cons n ns)
  obtain b1 nx1 where r: "importNode L uuid R excl server n (b, nx) = (b1, nx1)"
    by (metis prod.collapse)
  have nid: "tn_id n \<notin> tn_id ` set ns" using Cons.prems(2) by simp
  have step: "import_inv L uuid R excl server (b1, nx1)
    \<and> (\<forall>l nd. map_of (bookmarks L b) l = Some nd \<longrightarrow> map_of (bookmarks L b1) l = Some nd)
    \<and> (c2l b (tn_id n) = None \<longrightarrow> covered L b1 n)
    \<and> (\<forall>c. c \<noteq> tn_id n \<longrightarrow> c2l b1 c = c2l b c)
    \<and> (\<forall>l nd. map_of (bookmarks L b1) l = Some nd \<longrightarrow> map_of (bookmarks L b) l = Some nd \<or> bn_url nd = tn_url n)"
  proof (cases "c2l b (tn_id n)")
    case None
    with import_inv_step [OF Cons.prems(1) None _ _ server r] Cons.prems(3) show ?thesis by simp
  next
    case (Some l)
    then have "b1 = b" "nx1 = nx" using r by (simp_all add: importNode_def)
    with Some Cons.prems(1) show ?thesis by simp
  qed
  note a = step [THEN conjunct1] and mono = step [THEN conjunct2, THEN conjunct1, rule_format]
    and cov = step [THEN conjunct2, THEN conjunct2, THEN conjunct1, rule_format]
    and c2l1 = step [THEN conjunct2, THEN conjunct2, THEN conjunct2, THEN conjunct1, rule_format]
    and url1 = step [THEN conjunct2, THEN conjunct2, THEN conjunct2, THEN conjunct2, rule_format]
  have "fold (importNode L uuid R excl server) ns (b1, nx1) = (e, nx')"
    using Cons.prems(4) r by simp
  from Cons.IH [OF a _ _ this] Cons.prems(2,3)
  have IH: "import_inv L uuid R excl server (e, nx')
    \<and> (\<forall>l nd. map_of (bookmarks L b1) l = Some nd \<longrightarrow> map_of (bookmarks L e) l = Some nd)
    \<and> (\<forall>n \<in> set ns. c2l b1 (tn_id n) = None \<longrightarrow> covered L e n)
    \<and> (\<forall>l nd. map_of (bookmarks L e) l = Some nd \<longrightarrow>
          map_of (bookmarks L b1) l = Some nd \<or> (\<exists>n \<in> set ns. bn_url nd = tn_url n))" by simp
  note mono' = IH [THEN conjunct2, THEN conjunct1, rule_format]
  have cov_n: "covered L e n" if "c2l b (tn_id n) = None"
    using cov [OF that] mono' unfolding covered_def by metis
  have cov_ns: "covered L e m" if "m \<in> set ns" "c2l b (tn_id m) = None" for m
  proof -
    have "tn_id m \<noteq> tn_id n" using nid that(1) by (metis image_eqI)
    then show ?thesis using IH c2l1 that by simp
  qed
  have url: "map_of (bookmarks L b) l = Some nd \<or> (\<exists>m \<in> set (n # ns). bn_url nd = tn_url m)"
    if "map_of (bookmarks L e) l = Some nd" for l nd
    using IH [THEN conjunct2, THEN conjunct2, THEN conjunct2, rule_format, OF that] url1 [of l nd] by auto
  show ?case
  proof (intro conjI allI ballI impI)
    show "import_inv L uuid R excl server (e, nx')" by (rule IH [THEN conjunct1])
  next
    fix l nd assume "map_of (bookmarks L b) l = Some nd"
    then show "map_of (bookmarks L e) l = Some nd" by (intro mono' mono)
  next
    fix m assume "m \<in> set (n # ns)" "c2l b (tn_id m) = None"
    then show "covered L e m" using cov_n cov_ns by (cases "m = n") simp_all
  next
    fix l nd assume "map_of (bookmarks L e) l = Some nd"
    then show "map_of (bookmarks L b) l = Some nd \<or> (\<exists>m \<in> set (n # ns). bn_url nd = tn_url m)" by (rule url)
  qed
qed (simp add: covered_def)

text \<open>The conditions on the document of a device that has pulled the server's state.\<close>

definition import_ok :: "'d loro \<Rightarrow> (nat \<Rightarrow> string) \<Rightarrow> roots \<Rightarrow> 'd bridge \<Rightarrow> tree_node \<Rightarrow> bool" where
  "import_ok L uuid R b t \<longleftrightarrow> bridge_ok L uuid R b \<and> tree_ok R t
     \<and> (\<forall>c \<in> set CANONICAL_ROOT_IDS. map_of (bookmarks L b) c = None)
     \<and> (\<forall>l. map_of (bookmarks L b) l \<noteq> None \<longrightarrow> l \<noteq> [])"

lemma import_inv_init: "bridge_ok L uuid R b \<Longrightarrow> import_inv L uuid R excl (bookmarks L b) (b, [])"
  by (rule import_invI) simp_all

lemma import_result:
  assumes "import_ok L uuid R b t" and e: "e = mergeImport L uuid R excl [t] b"
  shows "\<exists>nx. import_inv L uuid R excl (bookmarks L b) (e, nx)
    \<and> (\<forall>l nd. map_of (bookmarks L b) l = Some nd \<longrightarrow> map_of (bookmarks L e) l = Some nd)
    \<and> (\<forall>n \<in> managedNodes R t. c2l b (tn_id n) = None \<longrightarrow> covered L e n)
    \<and> (\<forall>l nd. map_of (bookmarks L e) l = Some nd \<longrightarrow>
          map_of (bookmarks L b) l = Some nd \<or> (\<exists>n \<in> managedNodes R t. bn_url nd = tn_url n))"
proof -
  have ok: "bridge_ok L uuid R b" "tree_ok R t" "\<forall>c \<in> set CANONICAL_ROOT_IDS. map_of (bookmarks L b) c = None"
    using assms(1) by (simp_all add: import_ok_def)
  have L: "loro_map_ok L" using ok(1) by (simp add: bridge_ok_def)
  note w = tree_walk [OF ok(2)]
  obtain nx where "fold (importNode L uuid R excl (bookmarks L b)) (managedWalk R [t]) (b, []) = (e, nx)"
    by (metis e importLoop_walk mergeImport_def prod.collapse)
  from import_fold [OF import_inv_init [OF ok(1)] w(2,4) bookmarks_distinct [OF L] ok(3) this]
  show ?thesis unfolding w(1) by (rule exI)
qed

text \<open>Counts of distinct urls.\<close>

lemma length_filter_newSet: "length (filter P (newSet xs)) = card {x \<in> set xs. P x}"
  by (metis distinct_card distinct_filter distinct_newSet set_filter set_newSet)

subsection \<open>Properties\<close>

text \<open>
  C11. Importing local bookmarks never disturbs the server's: every entry of the document keeps
  its value, the mapping stays consistent, and every entry that is added belongs to a mapped
  bookmark, has an index above all entries the server had below the same parent and, when
  duplicates are excluded, a url the server did not have.
\<close>

theorem import_appends_to_server:
  assumes "import_ok L uuid R b t"
    and "mergeImportIntoDoc L uuid R a excl [t] (b, db) = (r, (b', db'))"
  shows "mapping_ok b' \<and> (\<forall>l nd. map_of (bookmarks L b) l = Some nd \<longrightarrow> map_of (bookmarks L b') l = Some nd)
    \<and> (\<forall>l nd. map_of (bookmarks L b') l = Some nd \<longrightarrow> map_of (bookmarks L b) l = None \<longrightarrow>
         l2c b' l \<noteq> None
         \<and> (\<forall>l' nd'. map_of (bookmarks L b) l' = Some nd' \<longrightarrow> bn_parentId nd' = bn_parentId nd \<longrightarrow> bn_index nd' < bn_index nd)
         \<and> (excl \<longrightarrow> truthy (bn_url nd) \<longrightarrow> the (bn_url nd) \<notin> set (serverUrlsOf (bookmarks L b))))"
proof -
  have "b' = mergeImport L uuid R excl [t] b"
    using assms(2) by (auto simp: mergeImportIntoDoc_def Let_def split: prod.splits)
  from import_result [OF assms(1) this] obtain nx where inv: "import_inv L uuid R excl (bookmarks L b) (b', nx)"
    by blast
  note I = inv [unfolded import_inv_def fst_conv snd_conv afterServer_def noServerUrl_def]
  have "mapping_ok b'" using I [THEN conjunct1] by (simp add: bridge_ok_def)
  then show ?thesis
    using I [THEN conjunct2, THEN conjunct1] I [THEN conjunct2, THEN conjunct2, THEN conjunct2, THEN conjunct2]
    by (intro conjI)
qed

definition example_server :: "bookmarks" where
  "example_server =
     [(''s1'', \<lparr>bn_title = ''News'', bn_url = None, bn_parentId = ''1'', bn_index = 0, bn_type = FolderT\<rparr>),
      (''s2'', \<lparr>bn_title = ''B'', bn_url = Some ''http://b'', bn_parentId = ''2'', bn_index = 4, bn_type = BookmarkT\<rparr>)]"

definition example_pulled :: "bookmarks bridge" where
  "example_pulled = (emptyBridge example_loro)\<lparr>doc := example_server\<rparr>"

lemma example_pulled_maps [simp]: "l2c example_pulled l = None" "c2l example_pulled c = None"
  "bookmarks example_loro example_pulled = example_server"
  by (simp_all add: example_pulled_def) (simp add: bookmarks_def example_loro_def example_server_def)

lemma example_import_ok: "import_ok example_loro example_uuid defaultRoots example_pulled example_tree"
proof -
  have keys: "map_of example_server l \<noteq> None \<Longrightarrow> l = ''s1'' \<or> l = ''s2''" for l
    by (auto simp: example_server_def split: if_splits)
  have "map_of example_server (example_uuid k) = None" for k
    using keys [of "example_uuid k"] by (cases "map_of example_server (example_uuid k)") (auto simp: example_uuid_def)
  then have "fresh example_loro example_uuid example_pulled"
    using example_uuid_ok by (simp add: fresh_def uuid_stream_def)
  moreover have "mapping_ok example_pulled" by (simp add: example_pulled_def)
  moreover have "\<forall>c \<in> set CANONICAL_ROOT_IDS. map_of example_server c = None"
    by (simp add: CANONICAL_ROOT_IDS_def example_server_def)
  moreover have "\<forall>l. map_of example_server l \<noteq> None \<longrightarrow> l \<noteq> []" using keys by auto
  ultimately show ?thesis
    by (simp add: import_ok_def bridge_ok_def example_loro_ok roots_ok_default roots_unmapped_def example_tree_ok)
qed

lemma import_appends_to_server_witness:
  "\<exists>r b' db'. mergeImportIntoDoc example_loro example_uuid defaultRoots freshAuth True [example_tree] (example_pulled, emptyDb)
      = (r, (b', db')) \<and> mapping_ok b'
    \<and> map_of (bookmarks example_loro b') ''s2'' = map_of example_server ''s2''"
proof -
  obtain r b' db' where r: "mergeImportIntoDoc example_loro example_uuid defaultRoots freshAuth True [example_tree]
      (example_pulled, emptyDb) = (r, (b', db'))"
    by (metis prod.collapse)
  from import_appends_to_server [OF example_import_ok r] r
  show ?thesis by (auto simp: example_server_def)
qed

text \<open>
  On a new device (nothing mapped yet) an import loses nothing: whichever choice was made about
  duplicates, afterwards computeLocalImportDiff finds no url that only the browser has, and as many
  urls that only the server has as before.
\<close>

theorem import_leaves_nothing_local:
  assumes "import_ok L uuid R b t" and "\<forall>c. c2l b c = None"
  shows "computeLocalImportDiff L R [t] (mergeImport L uuid R excl [t] b)
           = (0, snd (computeLocalImportDiff L R [t] b))"
proof -
  define e where "e = mergeImport L uuid R excl [t] b"
  note res = import_result [OF assms(1) e_def]
  have L: "loro_map_ok L" and t: "tree_ok R t" using assms(1) by (simp_all add: import_ok_def bridge_ok_def)
  note urls = set_serverUrlsOf [OF bookmarks_distinct [OF L]]
  have chrome: "u \<in> set (truthyUrls (map tn_url (managedWalk R [t]))) \<longleftrightarrow>
      u \<noteq> [] \<and> (\<exists>n \<in> managedNodes R t. tn_url n = Some u)" for u
    unfolding set_truthyUrls set_map tree_walk(1) [OF t] by (metis image_iff)
  have local_cov: "u \<in> set (serverUrlsOf (bookmarks L e))" if "u \<noteq> []" "n \<in> managedNodes R t" "tn_url n = Some u" for u n
  proof -
    have "covered L e n" using res that(2) assms(2) by blast
    then show ?thesis using that unfolding covered_def urls by auto
  qed
  have "{u \<in> set (truthyUrls (map tn_url (managedWalk R [t]))). u \<notin> set (serverUrlsOf (bookmarks L e))} = {}"
    using local_cov unfolding chrome by blast
  moreover have "u \<in> set (serverUrlsOf (bookmarks L e)) \<longleftrightarrow> u \<in> set (serverUrlsOf (bookmarks L b))"
    if "u \<notin> set (truthyUrls (map tn_url (managedWalk R [t])))" for u
    using res that unfolding chrome urls by metis
  then have "{u \<in> set (serverUrlsOf (bookmarks L e)). u \<notin> set (truthyUrls (map tn_url (managedWalk R [t])))} =
      {u \<in> set (serverUrlsOf (bookmarks L b)). u \<notin> set (truthyUrls (map tn_url (managedWalk R [t])))}"
    by blast
  moreover have "set (serverUrlsOf bms) = set (truthyUrls (map (\<lambda>(i, nd). bn_url nd) bms))" for bms
    by (simp add: serverUrlsOf_def)
  ultimately show ?thesis
    unfolding e_def [symmetric] computeLocalImportDiff_def Let_def length_filter_newSet
    by (simp add: serverUrlsOf_def length_filter_newSet)
qed

lemma import_leaves_nothing_local_witness:
  "computeLocalImportDiff example_loro defaultRoots [example_tree]
     (mergeImport example_loro example_uuid defaultRoots False [example_tree] example_pulled) =
     (0, snd (computeLocalImportDiff example_loro defaultRoots [example_tree] example_pulled))"
  by (rule import_leaves_nothing_local [OF example_import_ok]) simp

end
