(* ===== verification/Browser.thy ===== *)
theory Browser
  imports Bridge_Merge
begin

text \<open>
  The bookmarks API of the browser as the bridge sees it, the state the bridge works on, and
  extension/src/bookmarks/echo-filter.ts. \<^verbatim>\<open>chrome.bookmarks\<close> is not code of the
  repository: its methods are the fields of the record \<^verbatim>\<open>chrome\<close> over an abstract
  browser state, and a rejected promise is an error of the action. \<^verbatim>\<open>Object.keys\<close>
  and \<^verbatim>\<open>Object.entries\<close> list integer-like keys first, in ascending order, which is
  what bookmark ids are in Chrome.
\<close>

subsection \<open>The API\<close>

record 'w chrome =
  ch_getTree :: "'w \<Rightarrow> tree_node list"
  ch_get :: "string \<Rightarrow> 'w \<Rightarrow> js_error + tree_node option"
  ch_getChildren :: "string \<Rightarrow> 'w \<Rightarrow> js_error + tree_node list"
  ch_create :: "string \<Rightarrow> string \<Rightarrow> string option \<Rightarrow> ('w, string) act"
  ch_update :: "string \<Rightarrow> string \<Rightarrow> string option \<Rightarrow> ('w, unit) act"
  ch_move :: "string \<Rightarrow> string \<Rightarrow> nat \<Rightarrow> ('w, unit) act"
  ch_removeTree :: "string \<Rightarrow> ('w, unit) act"

subsection \<open>The bridge, the database and the browser\<close>

record ('d, 'w) bworld =
  w_bridge :: "'d bridge"
  w_db :: idb
  w_browser :: 'w
  w_ignore :: int

text \<open>An API call as an action of the whole state, whether it resolves or rejects.\<close>

definition browserA :: "('w, 'a) act \<Rightarrow> (('d, 'w) bworld, 'a) act" where
  "browserA m s = (case m (w_browser s) of (r, w) \<Rightarrow> (r, s\<lparr>w_browser := w\<rparr>))"

definition bridgeA :: "('d bridge \<Rightarrow> 'd bridge) \<Rightarrow> (('d, 'w) bworld, unit) act" where
  "bridgeA f s = (Inr (), s\<lparr>w_bridge := f (w_bridge s)\<rparr>)"

definition saveMappingA :: "auth \<Rightarrow> (('d, 'w) bworld, unit) act" where
  "saveMappingA a s = (case saveMapping a (w_bridge s) (w_db s) of (r, db) \<Rightarrow> (r, s\<lparr>w_db := db\<rparr>))"

text \<open>\<^verbatim>\<open>for (const x of xs) await body(x)\<close>: the first exception leaves the loop.\<close>

fun forA :: "('a \<Rightarrow> ('s, unit) act) \<Rightarrow> 'a list \<Rightarrow> ('s, unit) act" where
  "forA body [] = retA ()"
| "forA body (x # xs) = bindA (body x) (\<lambda>_. forA body xs)"

lemma forA_id: "(\<And>x. x \<in> set xs \<Longrightarrow> body x s = (Inr (), s)) \<Longrightarrow> forA body xs s = (Inr (), s)"
  by (induction xs) auto

text \<open>An invariant of the body is an invariant of the loop, whether it ends or throws.\<close>

lemma forA_inv:
  assumes "\<And>x s. x \<in> set xs \<Longrightarrow> P s \<Longrightarrow> P (snd (body x s))" and "P s"
  shows "P (snd (forA body xs s))"
  using assms
proof (induction xs arbitrary: s)
  case (Cons x xs)
  obtain r s' where r: "body x s = (r, s')" by (cases "body x s")
  then have "P s'" using Cons.prems(1) [of x s] Cons.prems(2) by simp
  with Cons r show ?case by (cases r) (simp_all add: bindA_def)
qed simp

subsection \<open>The echo filter\<close>

definition isIgnoring :: "('d, 'w) bworld \<Rightarrow> bool" where
  "isIgnoring s = (0 < w_ignore s)"

definition withEchoFilter :: "(('d, 'w) bworld, unit) act \<Rightarrow> (('d, 'w) bworld, unit) act" where
  "withEchoFilter fn s =
     (case fn (s\<lparr>w_ignore := w_ignore s + 1\<rparr>) of (r, s') \<Rightarrow> (r, s'\<lparr>w_ignore := w_ignore s' - 1\<rparr>))"

lemma withEchoFilter_balanced:
  assumes "\<And>t. w_ignore (snd (fn t)) = w_ignore t"
  shows "w_ignore (snd (withEchoFilter fn s)) = w_ignore s"
  using assms [of "s\<lparr>w_ignore := w_ignore s + 1\<rparr>"]
  by (auto simp: withEchoFilter_def split: prod.split)

subsection \<open>Key order of a plain object\<close>

definition isDigit :: "char \<Rightarrow> bool" where
  "isDigit c = (c \<in> set ''0123456789'')"

definition digitValue :: "char \<Rightarrow> nat" where
  "digitValue c = of_char c - 48"

definition decimal :: "string \<Rightarrow> nat" where
  "decimal s = foldl (\<lambda>n c. 10 * n + digitValue c) 0 s"

text \<open>An array index: canonical decimal, at most 2^32 - 2.\<close>

definition isArrayIndex :: "string \<Rightarrow> bool" where
  "isArrayIndex s = (s \<noteq> [] \<and> list_all isDigit s \<and> (hd s = CHR ''0'' \<longrightarrow> s = ''0'') \<and> decimal s < 4294967295)"

definition objectEntries :: "(string \<times> 'v) list \<Rightarrow> (string \<times> 'v) list" where
  "objectEntries m =
     sort_key (\<lambda>(k, v). decimal k) (filter (\<lambda>(k, v). isArrayIndex k) m) @ filter (\<lambda>(k, v). \<not> isArrayIndex k) m"

lemma set_objectEntries [simp]: "set (objectEntries m) = set m"
  by (auto simp: objectEntries_def)

lemma mset_objectEntries: "mset (objectEntries m) = mset m"
  using multiset_partition [of "mset m" "\<lambda>(k, v). isArrayIndex k"]
  by (simp add: objectEntries_def case_prod_unfold mset_filter)

lemma distinct_objectEntries: "distinct (map fst m) \<Longrightarrow> distinct (map fst (objectEntries m))"
  by (metis mset_objectEntries mset_map mset_eq_imp_distinct_iff)

end
