(* ===== verification/Popup_Export.thy ===== *)
theory Popup_Export
  imports Browser Bridge_Import Http Crypto "HOL-Library.Sublist"
begin

text \<open>
  extension/src/popup/index.tsx, the pure parts: the free profile name, the HTML escape, and the two
  exports of bookmarks in the Netscape format, from the browser's tree and from the document of a
  profile that is not active. The recursion of the second carries the set of ancestors.
\<close>

subsection \<open>A free profile name\<close>

text \<open>\<^verbatim>\<open>`${base} (${n})`\<close> and the loop that counts n up.\<close>

definition numbered :: "string \<Rightarrow> nat \<Rightarrow> string" where
  "numbered base n = base @ '' ('' @ show_nat n @ '')''"

lemma numbered_inj: "numbered base m = numbered base n \<longleftrightarrow> m = n"
  by (auto simp: numbered_def dest: show_nat_inj)

lemma finite_taken: "finite {k. n \<le> k \<and> numbered base k \<in> set names}"
proof (rule finite_subset)
  show "{k. n \<le> k \<and> numbered base k \<in> set names} \<subseteq> numbered base -` set names" by auto
  show "finite (numbered base -` set names)" by (rule finite_vimageI) (auto simp: inj_on_def numbered_inj)
qed

text \<open>Each round leaves one taken number fewer ahead.\<close>

function nextFree :: "string list \<Rightarrow> string \<Rightarrow> nat \<Rightarrow> string" where
  "nextFree names base n = (if numbered base n \<in> set names then nextFree names base (Suc n) else numbered base n)"
  by pat_completeness auto

termination
proof (relation "measure (\<lambda>(names, base, n). card {k. n \<le> k \<and> numbered base k \<in> set names})")
  fix names base n assume t: "numbered base n \<in> set names"
  have "{k. Suc n \<le> k \<and> numbered base k \<in> set names} \<subset> {k. n \<le> k \<and> numbered base k \<in> set names}"
  proof (rule psubsetI)
    have "n \<in> {k. n \<le> k \<and> numbered base k \<in> set names}" using t by simp
    moreover have "n \<notin> {k. Suc n \<le> k \<and> numbered base k \<in> set names}" by simp
    ultimately show "{k. Suc n \<le> k \<and> numbered base k \<in> set names} \<noteq> {k. n \<le> k \<and> numbered base k \<in> set names}" by blast
  qed auto
  then show "((names, base, Suc n), names, base, n) \<in> measure (\<lambda>(names, base, n). card {k. n \<le> k \<and> numbered base k \<in> set names})"
    using psubset_card_mono [OF finite_taken] by simp
qed simp

declare nextFree.simps [simp del]

definition uniqueProfileName :: "string \<Rightarrow> profileInfo list \<Rightarrow> string" where
  "uniqueProfileName base existingProfiles =
     (let names = map pi_name existingProfiles
      in if base \<notin> set names then base else nextFree names base 2)"

lemma nextFree_least:
  "\<exists>m\<ge>n. nextFree names base n = numbered base m \<and> numbered base m \<notin> set names
     \<and> (\<forall>k. n \<le> k \<and> k < m \<longrightarrow> numbered base k \<in> set names)"
proof (induction names base n rule: nextFree.induct)
  case (1 names base n)
  show ?case
  proof (cases "numbered base n \<in> set names")
    case False
    then show ?thesis by (intro exI [of _ n]) (auto simp: nextFree.simps [of names base n])
  next
    case True
    from "1.IH" [OF True] obtain m where m: "Suc n \<le> m" "nextFree names base (Suc n) = numbered base m" "numbered base m \<notin> set names"
      "\<And>k. Suc n \<le> k \<Longrightarrow> k < m \<Longrightarrow> numbered base k \<in> set names" by blast
    have "numbered base k \<in> set names" if "n \<le> k" "k < m" for k
      using that m(4) [of k] True by (cases "k = n") auto
    with m True show ?thesis by (intro exI [of _ m]) (simp add: nextFree.simps [of names base n])
  qed
qed

text \<open>
  A name that is offered for a new profile is free: it is the base name, or the base name with the
  smallest number from 2 on that no profile has. The loop always ends.
\<close>

theorem unique_name_is_free:
  "uniqueProfileName base ps \<notin> pi_name ` set ps
    \<and> (uniqueProfileName base ps = base
       \<or> (\<exists>m\<ge>2. uniqueProfileName base ps = numbered base m \<and> base \<in> pi_name ` set ps
            \<and> {numbered base k | k. 2 \<le> k \<and> k < m} \<subseteq> pi_name ` set ps))"
proof (cases "base \<in> pi_name ` set ps")
  case False
  then show ?thesis by (simp add: uniqueProfileName_def)
next
  case True
  obtain m where "2 \<le> m" "nextFree (map pi_name ps) base 2 = numbered base m" "numbered base m \<notin> pi_name ` set ps"
    "\<And>k. 2 \<le> k \<Longrightarrow> k < m \<Longrightarrow> numbered base k \<in> pi_name ` set ps"
    using nextFree_least [of 2 "map pi_name ps" base] by auto
  with True show ?thesis by (auto simp: uniqueProfileName_def)
qed

subsection \<open>Escaping\<close>

text \<open>\<^verbatim>\<open>s.replace(/c/g, r)\<close>.\<close>

definition replaceAll :: "char \<Rightarrow> string \<Rightarrow> string \<Rightarrow> string" where
  "replaceAll c r s = concat (map (\<lambda>x. if x = c then r else [x]) s)"

definition quoteChar :: char where
  "quoteChar = CHR 0x22"

definition escapeHtml :: "string \<Rightarrow> string" where
  "escapeHtml s =
     replaceAll (CHR ''>'') ''&gt;'' (replaceAll (CHR ''<'') ''&lt;''
       (replaceAll quoteChar ''&quot;'' (replaceAll (CHR ''&'') ''&amp;'' s)))"

text \<open>The four passes are one: the ampersands the later passes insert are not escaped again.\<close>

definition escapeChar :: "char \<Rightarrow> string" where
  "escapeChar c =
     (if c = CHR ''&'' then ''&amp;'' else if c = quoteChar then ''&quot;''
      else if c = CHR ''<'' then ''&lt;'' else if c = CHR ''>'' then ''&gt;'' else [c])"

lemma replaceAll_append: "replaceAll c r (s @ t) = replaceAll c r s @ replaceAll c r t"
  by (simp add: replaceAll_def)

lemma escapeHtml_append: "escapeHtml (s @ t) = escapeHtml s @ escapeHtml t"
  by (simp add: escapeHtml_def replaceAll_append)

lemma escapeHtml_single: "escapeHtml [c] = escapeChar c"
  by (simp add: escapeHtml_def escapeChar_def replaceAll_def quoteChar_def)

lemma escapeHtml_map: "escapeHtml s = concat (map escapeChar s)"
proof (induction s)
  case Nil
  show ?case by (simp add: escapeHtml_def replaceAll_def)
next
  case (Cons c s)
  then show ?case using escapeHtml_append [of "[c]" s] by (simp add: escapeHtml_single)
qed

lemma escapeChar_prefix: "escapeChar x @ s = escapeChar y @ t \<Longrightarrow> x = y \<and> s = t"
  by (auto simp: escapeChar_def quoteChar_def split: if_splits)

text \<open>
  The escape of titles and addresses keeps the markup apart from the text: the escaped text has no
  angle bracket and no quote, so it can end neither a tag nor an attribute; and no two texts have
  the same escape, so nothing is lost.
\<close>

theorem escape_is_safe_and_lossless:
  "set (escapeHtml s) \<inter> {CHR ''<'', CHR ''>'', quoteChar} = {} \<and> (escapeHtml s = escapeHtml t \<longleftrightarrow> s = t)"
proof
  show "set (escapeHtml s) \<inter> {CHR ''<'', CHR ''>'', quoteChar} = {}"
    by (auto simp: escapeHtml_map escapeChar_def quoteChar_def split: if_splits)
  have "escapeHtml s = escapeHtml t \<Longrightarrow> s = t"
  proof (induction s arbitrary: t)
    case Nil
    then show ?case by (cases t) (auto simp: escapeHtml_map escapeChar_def split: if_splits)
  next
    case (Cons c s)
    then show ?case
    proof (cases t)
      case Nil
      with Cons.prems show ?thesis by (auto simp: escapeHtml_map escapeChar_def split: if_splits)
    next
      case t: (Cons d t')
      with Cons.prems have "escapeChar c @ escapeHtml s = escapeChar d @ escapeHtml t'" by (simp add: escapeHtml_map)
      from escapeChar_prefix [OF this] Cons.IH t show ?thesis by blast
    qed
  qed
  then show "escapeHtml s = escapeHtml t \<longleftrightarrow> s = t" by blast
qed

subsection \<open>The browser's tree\<close>

definition nl :: string where
  "nl = [CHR 0x0A]"

definition attribute :: "string \<Rightarrow> string \<Rightarrow> string" where
  "attribute name v = name @ ''='' @ [quoteChar] @ v @ [quoteChar]"

text \<open>
  The date of a node is not part of the tree the bridge reads: it is the argument
  \<^verbatim>\<open>dateAdded\<close>, by node id, in milliseconds.
\<close>

function buildBookmarkNode :: "(string \<Rightarrow> nat option) \<Rightarrow> tree_node \<Rightarrow> bool \<Rightarrow> string" where
  "buildBookmarkNode dateAdded node virtualRoot =
     (if virtualRoot then concat (map (\<lambda>c. buildBookmarkNode dateAdded c False) (tn_children node))
      else
        (let date = show_nat (orElse (dateAdded (tn_id node)) 0 div 1000)
         in if truthy (tn_url node)
            then ''<DT><A '' @ attribute ''HREF'' (escapeHtml (the (tn_url node))) @ '' '' @ attribute ''ADD_DATE'' date @ ''>''
                   @ escapeHtml (tn_title node) @ ''</A>'' @ nl
            else ''<DT><H3 '' @ attribute ''ADD_DATE'' date @ ''>'' @ escapeHtml (tn_title node) @ ''</H3>'' @ nl @ ''<DL><p>'' @ nl
                   @ concat (map (\<lambda>c. buildBookmarkNode dateAdded c False) (tn_children node)) @ ''</DL><p>'' @ nl))"
  by pat_completeness auto
termination
proof (relation "measure (\<lambda>(d, node, v). tree_size node)")
  fix d :: "string \<Rightarrow> nat option" and node c v
  assume "c \<in> set (tn_children node)"
  then have "tree_size c \<le> sum_list (map tree_size (tn_children node))"
    by (intro member_le_sum_list) auto
  then show "((d, c, False), d, node, v) \<in> measure (\<lambda>(d, node, v). tree_size node)"
    by (simp add: tree_size_children [of node])
  then show "((d, c, False), d, node, v) \<in> measure (\<lambda>(d, node, v). tree_size node)" .
qed simp

declare buildBookmarkNode.simps [simp del]

subsection \<open>The document of a profile\<close>

type_synonym export_entry = "string \<times> bookmark_node"

text \<open>\<^verbatim>\<open>childrenOf\<close>: the entries by parent, each group sorted by index (stably).\<close>

definition exportChildren :: "bookmarks \<Rightarrow> (string \<times> export_entry list) list" where
  "exportChildren m =
     map (\<lambda>(p, cs). (p, sort_key (\<lambda>(i, nd). bn_index nd) cs))
       (fold (\<lambda>(i, nd). pushTo (bn_parentId nd) (i, nd)) (objectEntries m) [])"

definition entriesOf :: "(string \<times> export_entry list) list \<Rightarrow> string \<Rightarrow> export_entry list" where
  "entriesOf C i = orElse (map_of C i) []"

definition entryIds :: "(string \<times> export_entry list) list \<Rightarrow> string set" where
  "entryIds C = fst ` (\<Union>(p, cs) \<in> set C. set cs)"

lemma entriesOf_ids: "c \<in> set (entriesOf C i) \<Longrightarrow> fst c \<in> entryIds C"
  by (cases "map_of C i") (force simp: entriesOf_def entryIds_def orElse_def dest: map_of_SomeD)+

definition linkLine :: "bookmark_node \<Rightarrow> string" where
  "linkLine nd = ''<DT><A '' @ attribute ''HREF'' (escapeHtml (orElse (bn_url nd) [])) @ ''>'' @ escapeHtml (bn_title nd) @ ''</A>'' @ nl"

definition folderLine :: "bookmark_node \<Rightarrow> string" where
  "folderLine nd = ''<DT><H3>'' @ escapeHtml (bn_title nd) @ ''</H3>'' @ nl @ ''<DL><p>'' @ nl"

lemma finite_entryIds: "finite (entryIds C)"
  by (auto simp: entryIds_def)

text \<open>A node already among its ancestors is left out.\<close>

function renderNode :: "(string \<times> export_entry list) list \<Rightarrow> string list \<Rightarrow> export_entry \<Rightarrow> string" where
  "renderNode C ancestors (i, nd) =
     (if i \<in> set ancestors then []
      else if bn_type nd = BookmarkT then linkLine nd
      else folderLine nd @ concat (map (renderNode C (i # ancestors)) (entriesOf C i)) @ ''</DL><p>'' @ nl)"
  by pat_completeness auto

termination
proof (relation "measure (\<lambda>(C, ancestors, i, nd). card (entryIds C - set ancestors) + (if i \<in> entryIds C then 0 else 1))")
  fix C ancestors i c and nd :: bookmark_node
  assume new: "i \<notin> set ancestors" and c: "c \<in> set (entriesOf C i)"
  have "card (entryIds C - set (i # ancestors)) < card (entryIds C - set ancestors) + (if i \<in> entryIds C then 0 else 1)"
  proof (cases "i \<in> entryIds C")
    case True
    then have "entryIds C - set (i # ancestors) \<subset> entryIds C - set ancestors" using new by auto
    with True show ?thesis using psubset_card_mono [OF finite_Diff [OF finite_entryIds]] by simp
  next
    case False
    then have "entryIds C - set (i # ancestors) = entryIds C - set ancestors" by auto
    with False show ?thesis by simp
  qed
  moreover have "fst c \<in> entryIds C" by (rule entriesOf_ids [OF c])
  ultimately show "((C, i # ancestors, c), C, ancestors, i, nd)
    \<in> measure (\<lambda>(C, ancestors, i, nd). card (entryIds C - set ancestors) + (if i \<in> entryIds C then 0 else 1))"
    by (cases c) simp
qed simp

declare renderNode.simps [simp del]

definition rootParentIds :: "bookmarks \<Rightarrow> string list" where
  "rootParentIds m =
     newSet (filter (\<lambda>pid. pid \<notin> fst ` set m) (map (\<lambda>(i, nd). bn_parentId nd) (objectEntries m)))"

definition buildHtmlFromLoroBookmarks :: "bookmarks \<Rightarrow> string" where
  "buildHtmlFromLoroBookmarks m =
     (let C = exportChildren m
      in concat (concat (map (\<lambda>pid. map (renderNode C []) (entriesOf C pid)) (rootParentIds m))))"

subsection \<open>Completeness of the export\<close>

text \<open>The entries below the roots, by depth: a root's parent is no entry, a child's parent is a folder.\<close>

inductive exported :: "bookmarks \<Rightarrow> nat \<Rightarrow> string \<Rightarrow> bool" for m where
  root: "map_of m i = Some nd \<Longrightarrow> bn_parentId nd \<notin> fst ` set m \<Longrightarrow> exported m 0 i"
| child: "exported m n p \<Longrightarrow> map_of m p = Some pd \<Longrightarrow> bn_type pd = FolderT \<Longrightarrow> map_of m i = Some nd
    \<Longrightarrow> bn_parentId nd = p \<Longrightarrow> exported m (Suc n) i"

lemma exported_entry: "exported m n i \<Longrightarrow> \<exists>nd. map_of m i = Some nd"
  by (cases rule: exported.cases) auto

lemma exported_unique: "exported m n i \<Longrightarrow> exported m k i \<Longrightarrow> n = k"
proof (induction arbitrary: k rule: exported.induct)
  case (root i nd)
  from root.prems show ?case
  proof (cases rule: exported.cases)
    case (child n p pd nd')
    with root.hyps have "p \<notin> fst ` set m" by simp
    moreover have "p \<in> fst ` set m" using child(3) by (force dest: map_of_SomeD)
    ultimately show ?thesis by simp
  qed simp
next
  case (child n p pd i nd)
  from child.prems show ?case
  proof (cases rule: exported.cases)
    case (root nd')
    with child.hyps have "p \<notin> fst ` set m" by simp
    moreover have "p \<in> fst ` set m" using child.hyps(2) by (force dest: map_of_SomeD)
    ultimately show ?thesis by simp
  next
    case (child n' p' pd' nd')
    with child.hyps child.IH show ?thesis by simp
  qed
qed

lemma pushTo_fold:
  "orElse (map_of (fold (\<lambda>(i, nd). pushTo (f nd) (i, nd)) es G) p) [] =
     orElse (map_of G p) [] @ filter (\<lambda>(i, nd). f nd = p) es"
  by (induction es arbitrary: G) (auto simp: pushTo_def update_conv' orElse_def)

lemma map_of_map_values: "map_of (map (\<lambda>(k, v). (k, g v)) xs) k = map_option g (map_of xs k)"
  by (induction xs) auto

lemma entriesOf_children:
  "entriesOf (exportChildren m) p = sort_key (\<lambda>(i, nd). bn_index nd) (filter (\<lambda>(i, nd). bn_parentId nd = p) (objectEntries m))"
proof -
  let ?G = "fold (\<lambda>(i, nd). pushTo (bn_parentId nd) (i, nd)) (objectEntries m) []"
  have "entriesOf (exportChildren m) p = sort_key (\<lambda>(i, nd). bn_index nd) (orElse (map_of ?G p) [])"
    by (cases "map_of ?G p") (simp_all add: entriesOf_def exportChildren_def map_of_map_values orElse_def)
  then show ?thesis using pushTo_fold [of bn_parentId "objectEntries m" "[]" p] by (simp add: orElse_def)
qed

lemma in_entriesOf: "distinct (map fst m) \<Longrightarrow> map_of m i = Some nd \<Longrightarrow> (i, nd) \<in> set (entriesOf (exportChildren m) (bn_parentId nd))"
  by (auto simp: entriesOf_children map_of_eq_Some_iff)

lemma sublist_concat: "x \<in> set xs \<Longrightarrow> sublist x (concat xs)"
  by (auto dest!: split_list simp: sublist_appendI)

lemma sublist_render:
  assumes "i \<notin> set ancestors"
  shows "sublist (if bn_type nd = BookmarkT then linkLine nd else folderLine nd) (renderNode C ancestors (i, nd))"
    and "bn_type nd = FolderT \<Longrightarrow> c \<in> set (entriesOf C i) \<Longrightarrow>
      sublist (renderNode C (i # ancestors) c) (renderNode C ancestors (i, nd))"
proof -
  show "sublist (if bn_type nd = BookmarkT then linkLine nd else folderLine nd) (renderNode C ancestors (i, nd))"
    using assms by (simp add: renderNode.simps [of C ancestors i nd] sublist_append_rightI)
  assume f: "bn_type nd = FolderT" and "c \<in> set (entriesOf C i)"
  then have "sublist (renderNode C (i # ancestors) c) (concat (map (renderNode C (i # ancestors)) (entriesOf C i)))"
    by (intro sublist_concat) simp
  then have "sublist (renderNode C (i # ancestors) c)
      (folderLine nd @ concat (map (renderNode C (i # ancestors)) (entriesOf C i)) @ ''</DL><p>'' @ nl)"
    by (rule sublist_order.order_trans) (rule sublist_appendI)
  with assms f show "sublist (renderNode C (i # ancestors) c) (renderNode C ancestors (i, nd))"
    by (simp add: renderNode.simps [of C ancestors i nd])
qed

lemma exported_rendered:
  assumes "exported m n i" and "distinct (map fst m)" and "map_of m i = Some nd"
  shows "\<exists>ancestors. sublist (renderNode (exportChildren m) ancestors (i, nd)) (buildHtmlFromLoroBookmarks m)
    \<and> (\<forall>a\<in>set ancestors. \<exists>k<n. exported m k a)"
  using assms(1,3)
proof (induction arbitrary: nd rule: exported.induct)
  case (root i nd')
  then have nd: "nd' = nd" by simp
  have "(i, nd) \<in> set m" using root.prems by (rule map_of_SomeD)
  then have "bn_parentId nd \<in> set (rootParentIds m)"
    using root.hyps(2) unfolding rootParentIds_def nd by (auto simp: set_newSet intro!: image_eqI [of _ _ "(i, nd)"])
  moreover have "(i, nd) \<in> set (entriesOf (exportChildren m) (bn_parentId nd))" by (rule in_entriesOf [OF assms(2) root.prems])
  ultimately have "renderNode (exportChildren m) [] (i, nd) \<in>
      set (concat (map (\<lambda>pid. map (renderNode (exportChildren m) []) (entriesOf (exportChildren m) pid)) (rootParentIds m)))"
    by auto
  then have "sublist (renderNode (exportChildren m) [] (i, nd)) (buildHtmlFromLoroBookmarks m)"
    unfolding buildHtmlFromLoroBookmarks_def Let_def by (rule sublist_concat)
  then show ?case by (intro exI [of _ "[]"]) simp
next
  case (child n p pd i nd')
  then have nd: "nd' = nd" by simp
  from child.IH [OF child.hyps(2)] obtain ancestors
    where r: "sublist (renderNode (exportChildren m) ancestors (p, pd)) (buildHtmlFromLoroBookmarks m)"
      and a: "\<forall>a\<in>set ancestors. \<exists>k<n. exported m k a" by blast
  have "p \<notin> set ancestors" using a exported_unique [OF child.hyps(1)] by blast
  moreover have "(i, nd) \<in> set (entriesOf (exportChildren m) p)"
    using in_entriesOf [OF assms(2) child.prems] child.hyps(5) nd by simp
  ultimately have "sublist (renderNode (exportChildren m) (p # ancestors) (i, nd)) (renderNode (exportChildren m) ancestors (p, pd))"
    by (intro sublist_render child.hyps(3))
  with r have "sublist (renderNode (exportChildren m) (p # ancestors) (i, nd)) (buildHtmlFromLoroBookmarks m)"
    by (rule sublist_order.order_trans [rotated])
  moreover have "\<forall>a\<in>set (p # ancestors). \<exists>k<Suc n. exported m k a"
    using a child.hyps(1) by (auto intro: less_SucI)
  ultimately show ?case by blast
qed

text \<open>
  C36. The export of a profile that is not active is complete: every bookmark and every folder that hangs
  below a root through folders is in the file, with its escaped title and address, however the
  document is ordered and even when other entries form cycles. The recursion always ends.
\<close>

theorem export_is_complete:
  assumes "distinct (map fst m)" and "exported m n i" and "map_of m i = Some nd"
  shows "sublist (if bn_type nd = BookmarkT then linkLine nd else folderLine nd) (buildHtmlFromLoroBookmarks m)"
proof -
  from exported_rendered [OF assms(2,1,3)] obtain ancestors
    where r: "sublist (renderNode (exportChildren m) ancestors (i, nd)) (buildHtmlFromLoroBookmarks m)"
      and a: "\<forall>a\<in>set ancestors. \<exists>k<n. exported m k a" by blast
  have "i \<notin> set ancestors" using a exported_unique [OF assms(2)] by blast
  from sublist_order.order_trans [OF sublist_render(1) [OF this] r] show ?thesis .
qed

definition example_document :: bookmarks where
  "example_document =
     [(''a'', \<lparr>bn_title = ''A&B'', bn_url = Some ''http://a'', bn_parentId = ''f'', bn_index = 0, bn_type = BookmarkT\<rparr>),
      (''f'', \<lparr>bn_title = ''F'', bn_url = None, bn_parentId = ''1'', bn_index = 0, bn_type = FolderT\<rparr>),
      (''g'', \<lparr>bn_title = ''G'', bn_url = None, bn_parentId = ''g'', bn_index = 0, bn_type = FolderT\<rparr>)]"

lemma export_is_complete_witness:
  "sublist (linkLine \<lparr>bn_title = ''A&B'', bn_url = Some ''http://a'', bn_parentId = ''f'', bn_index = 0, bn_type = BookmarkT\<rparr>)
     (buildHtmlFromLoroBookmarks example_document)"
proof -
  have d: "distinct (map fst example_document)" by (simp add: example_document_def)
  have "exported example_document 0 ''f''"
    by (rule exported.root [of _ _ "\<lparr>bn_title = ''F'', bn_url = None, bn_parentId = ''1'', bn_index = 0, bn_type = FolderT\<rparr>"])
       (simp_all add: example_document_def)
  then have e: "exported example_document (Suc 0) ''a''"
    by (rule exported.child) (simp add: example_document_def)+
  have "map_of example_document ''a'' =
      Some \<lparr>bn_title = ''A&B'', bn_url = Some ''http://a'', bn_parentId = ''f'', bn_index = 0, bn_type = BookmarkT\<rparr>"
    by (simp add: example_document_def)
  from export_is_complete [OF d e this] show ?thesis by simp
qed

subsection \<open>The file\<close>

definition joinLines :: "string list \<Rightarrow> string" where
  "joinLines ls = concat (map2 (\<lambda>k l. (if k = 0 then [] else nl) @ l) [0..<length ls] ls)"

definition netscapeFile :: "string \<Rightarrow> string \<Rightarrow> string" where
  "netscapeFile title contents = joinLines
     [''<!DOCTYPE NETSCAPE-Bookmark-file-1>'', ''<!-- This is an automatically generated file. -->'',
      ''<META HTTP-EQUIV='' @ [quoteChar] @ ''Content-Type'' @ [quoteChar] @ '' CONTENT='' @ [quoteChar]
        @ ''text/html; charset=UTF-8'' @ [quoteChar] @ ''>'',
      ''<TITLE>'' @ title @ ''</TITLE>'', ''<H1>'' @ title @ ''</H1>'', ''<DL><p>'', contents, ''</DL><p>'']"

text \<open>\<^verbatim>\<open>profileName.replace(/[^a-z0-9]/gi, "-").toLowerCase()\<close> with the date behind it.\<close>

definition isAlnum :: "char \<Rightarrow> bool" where
  "isAlnum c = (let k = of_char c :: nat in (48 \<le> k \<and> k \<le> 57) \<or> (65 \<le> k \<and> k \<le> 90) \<or> (97 \<le> k \<and> k \<le> 122))"

definition exportFileName :: "string \<Rightarrow> string \<Rightarrow> string" where
  "exportFileName profileName date =
     toLowerCase (map (\<lambda>c. if isAlnum c then c else CHR ''-'') profileName) @ ''-'' @ date @ ''.html''"

end
