(* ===== verification/Reconcile_Plan.thy ===== *)
theory Reconcile_Plan
  imports Bridge_Merge
begin

text \<open>
  extension/src/bookmarks/bridge.ts, the pure parts of reconcile: topoSort (lines 701-732), which
  orders the entries to create so that folders come before their contents, and the fixed point
  that removes orphans from the desired state (lines 793-812).
\<close>

subsection \<open>topoSort\<close>

type_synonym topo_state = "string set \<times> bookmarks \<times> bookmarks \<times> bool"

definition topoStep :: "string \<times> bookmark_node \<Rightarrow> topo_state \<Rightarrow> topo_state" where
  "topoStep = (\<lambda>(i, node) (available, remaining, result, progress).
     if bn_parentId node \<in> available
     then (insert i available, AList.delete i remaining, result @ [(i, node)], True)
     else (available, remaining, result, progress))"

definition topoPass :: "string set \<Rightarrow> bookmarks \<Rightarrow> bookmarks \<Rightarrow> topo_state" where
  "topoPass available remaining result =
     fold topoStep (sort_key (\<lambda>(i, node). bn_index node) remaining) (available, remaining, result, False)"

text \<open>One pass only takes entries away, and a pass with progress takes at least one away.\<close>

lemma topoStep_fold_length:
  "fold topoStep cs (av, rem, res, prog) = (av', rem', res', prog') \<Longrightarrow> length rem' \<le> length rem"
proof (induction cs arbitrary: av rem res prog)
  case (Cons c cs)
  obtain i node where c: "c = (i, node)" by (cases c)
  have "length (AList.delete i rem) \<le> length rem" by (rule length_delete_le)
  with Cons show ?case by (fastforce simp: topoStep_def c split: if_splits)
qed simp

lemma topoStep_fold_progress:
  "fold topoStep cs (av, rem, res, False) = (av', rem', res', True) \<Longrightarrow> fst ` set cs \<subseteq> fst ` set rem \<Longrightarrow>
     length rem' < length rem"
proof (induction cs)
  case (Cons c cs)
  obtain i node where c: "c = (i, node)" by (cases c)
  show ?case
  proof (cases "bn_parentId node \<in> av")
    case True
    have "i \<in> fst ` set rem" using Cons.prems(2) c by auto
    then have "length (AList.delete i rem) < length rem"
      by (auto simp: AList.delete_eq intro!: length_filter_less)
    moreover have "fold topoStep cs (insert i av, AList.delete i rem, res @ [(i, node)], True) = (av', rem', res', True)"
      using Cons.prems(1) True by (simp add: topoStep_def c)
    from topoStep_fold_length [OF this] have "length rem' \<le> length (AList.delete i rem)" .
    ultimately show ?thesis by simp
  next
    case False
    with Cons show ?thesis by (simp add: topoStep_def c)
  qed
qed simp

function topoLoop :: "string set \<Rightarrow> bookmarks \<Rightarrow> bookmarks \<Rightarrow> bookmarks" where
  "topoLoop available remaining result =
     (if remaining = [] then result
      else (case topoPass available remaining result of
              (available', remaining', result', progress) \<Rightarrow>
                if progress then topoLoop available' remaining' result' else result' @ remaining'))"
  by pat_completeness auto
termination
proof (relation "measure (\<lambda>(available, remaining, result). length remaining)", goal_cases)
  case 2
  then show ?case unfolding topoPass_def by (auto dest!: sym [of _ "fold _ _ _"] topoStep_fold_progress)
qed simp

declare topoLoop.simps [simp del]

definition topoSort :: "bookmarks \<Rightarrow> string set \<Rightarrow> bookmarks" where
  "topoSort entries initialAvailable = topoLoop initialAvailable (newMap entries) []"

subsection \<open>Orphans\<close>

definition orphanStep ::
  "(string \<Rightarrow> string option) \<Rightarrow> string \<times> bookmark_node \<Rightarrow> bookmarks \<times> bool \<Rightarrow> bookmarks \<times> bool" where
  "orphanStep mapped = (\<lambda>(loroId, node) (eff, found).
     (let pid = bn_parentId node
      in if pid \<in> set CANONICAL_ROOT_IDS then (eff, found)
         else if map_of eff pid \<noteq> None then (eff, found)
         else if mapped pid \<noteq> None then (eff, found)
         else (AList.delete loroId eff, True)))"

definition orphanPass :: "(string \<Rightarrow> string option) \<Rightarrow> bookmarks \<Rightarrow> bookmarks \<times> bool" where
  "orphanPass mapped eff = fold (orphanStep mapped) eff (eff, False)"

lemma orphan_fold_length:
  "fold (orphanStep mapped) cs (eff, found) = (eff', found') \<Longrightarrow> length eff' \<le> length eff"
proof (induction cs arbitrary: eff found)
  case (Cons c cs)
  obtain i node where c: "c = (i, node)" by (cases c)
  have "length (AList.delete i eff) \<le> length eff" by (rule length_delete_le)
  with Cons show ?case by (fastforce simp: orphanStep_def c Let_def split: if_splits)
qed simp

lemma orphan_fold_found:
  "fold (orphanStep mapped) cs (eff, False) = (eff', True) \<Longrightarrow> fst ` set cs \<subseteq> fst ` set eff \<Longrightarrow>
     length eff' < length eff"
proof (induction cs)
  case (Cons c cs)
  obtain i node where c: "c = (i, node)" by (cases c)
  show ?case
  proof (cases "orphanStep mapped c (eff, False) = (eff, False)")
    case True
    with Cons show ?thesis by simp
  next
    case False
    then have s: "orphanStep mapped c (eff, False) = (AList.delete i eff, True)"
      by (auto simp: orphanStep_def c Let_def split: if_splits)
    have "i \<in> fst ` set eff" using Cons.prems(2) c by auto
    then have "length (AList.delete i eff) < length eff"
      by (auto simp: AList.delete_eq intro!: length_filter_less)
    moreover have "length eff' \<le> length (AList.delete i eff)"
      using Cons.prems(1) s by (auto intro: orphan_fold_length)
    ultimately show ?thesis by simp
  qed
qed simp

function dropOrphans :: "(string \<Rightarrow> string option) \<Rightarrow> bookmarks \<Rightarrow> bookmarks" where
  "dropOrphans mapped eff =
     (case orphanPass mapped eff of (eff', foundOrphan) \<Rightarrow> if foundOrphan then dropOrphans mapped eff' else eff')"
  by pat_completeness auto
termination
proof (relation "measure (\<lambda>(mapped, eff). length eff)", goal_cases)
  case 2
  then show ?case unfolding orphanPass_def by (auto dest!: sym [of _ "fold _ _ _"] orphan_fold_found)
qed simp

declare dropOrphans.simps [simp del]

subsection \<open>The order of creation\<close>

text \<open>Every entry's parent is available before it: given, or the id of an earlier entry.\<close>

fun placed :: "string set \<Rightarrow> bookmarks \<Rightarrow> bool" where
  "placed A [] = True"
| "placed A ((i, node) # xs) = (bn_parentId node \<in> A \<and> placed (insert i A) xs)"

lemma placed_append: "placed A (xs @ ys) \<longleftrightarrow> placed A xs \<and> placed (A \<union> fst ` set xs) ys"
  by (induction A xs rule: placed.induct) auto

definition topo_inv :: "string set \<Rightarrow> bookmarks \<Rightarrow> string set \<Rightarrow> bookmarks \<Rightarrow> bookmarks \<Rightarrow> bool" where
  "topo_inv A entries av rem res \<longleftrightarrow>
     mset res + mset rem = mset entries \<and> distinct (map fst rem) \<and> av = A \<union> fst ` set res \<and> placed A res"

lemma mset_delete:
  assumes "distinct (map fst rem)" and "(i, node) \<in> set rem"
  shows "mset rem = add_mset (i, node) (mset (AList.delete i rem))"
  using assms
proof (induction rem)
  case (Cons x xs)
  obtain k n where x: "x = (k, n)" by (cases x)
  show ?case
  proof (cases "k = i")
    case True
    then have "i \<notin> fst ` set xs" using Cons.prems(1) x by simp
    then have no: "(i, z) \<notin> set xs" for z by force
    then have "AList.delete i xs = xs" by (auto simp: AList.delete_eq filter_id_conv)
    with Cons.prems(2) no x True show ?thesis by simp
  next
    case False
    with Cons x show ?thesis by simp
  qed
qed simp

lemma topo_fold:
  assumes "fold topoStep cs (av, rem, res, prog) = (av', rem', res', prog')"
    and "topo_inv A entries av rem res" and "set cs \<subseteq> set rem" and "distinct (map fst cs)"
  shows "topo_inv A entries av' rem' res'
    \<and> (\<not> prog' \<longrightarrow> av' = av \<and> rem' = rem \<and> res' = res \<and> (\<forall>(i, node) \<in> set cs. bn_parentId node \<notin> av))"
  using assms
proof (induction cs arbitrary: av rem res prog)
  case (Cons c cs)
  obtain i node where c: "c = (i, node)" by (cases c)
  show ?case
  proof (cases "bn_parentId node \<in> av")
    case True
    let ?rem = "AList.delete i rem"
    have f: "fold topoStep cs (insert i av, ?rem, res @ [c], True) = (av', rem', res', prog')"
      using Cons.prems(1) True by (simp add: topoStep_def c)
    have mem: "(i, node) \<in> set rem" using Cons.prems(3) c by simp
    have "topo_inv A entries (insert i av) ?rem (res @ [c])"
      using Cons.prems(2) True mset_delete [OF _ mem] c
      by (auto simp: topo_inv_def placed_append distinct_delete)
    moreover have "set cs \<subseteq> set ?rem"
      using Cons.prems(3,4) c by (force simp: AList.delete_eq)
    moreover have "prog'"
    proof -
      have "fold topoStep xs (a, r, s, True) = (a', r', s', p') \<Longrightarrow> p'" for xs a r s a' r' s' p'
        by (induction xs arbitrary: a r s) (auto simp: topoStep_def split: if_splits)
      then show ?thesis using f by blast
    qed
    ultimately show ?thesis using Cons.IH [OF f] Cons.prems(4) by simp
  next
    case False
    with Cons.prems(1) have f: "fold topoStep cs (av, rem, res, prog) = (av', rem', res', prog')"
      by (simp add: topoStep_def c)
    with Cons.IH [OF f Cons.prems(2)] Cons.prems(3,4) False c show ?thesis by simp
  qed
qed simp

lemma topoLoop_sound:
  assumes "topo_inv A entries av rem res"
  shows "\<exists>p r. topoLoop av rem res = p @ r \<and> mset (p @ r) = mset entries \<and> placed A p
    \<and> (\<forall>(i, node) \<in> set r. bn_parentId node \<notin> A \<union> fst ` set p)"
  using assms
proof (induction av rem res rule: topoLoop.induct)
  case (1 av rem res)
  show ?case
  proof (cases "rem = []")
    case True
    with 1(2) show ?thesis by (intro exI [of _ res] exI [of _ "[]"]) (simp add: topoLoop.simps topo_inv_def)
  next
    case False
    obtain av' rem' res' prog where p: "topoPass av rem res = (av', rem', res', prog)" by (metis prod_cases4)
    have d: "distinct (map fst (sort_key (\<lambda>(i, node). bn_index node) rem))"
      using 1(2) by (simp add: topo_inv_def distinct_map)
    note fold = topo_fold [OF p [unfolded topoPass_def] 1(2) _ d]
    show ?thesis
    proof (cases prog)
      case True
      then show ?thesis
        using 1(1) [OF False p [symmetric] refl refl True] fold False p by (simp add: topoLoop.simps [of av])
    next
      case F: False
      then have "topoLoop av rem res = res @ rem" "\<forall>(i, node) \<in> set rem. bn_parentId node \<notin> av"
        using fold False p by (simp_all add: topoLoop.simps [of av])
      then show ?thesis
        using 1(2) by (intro exI [of _ res] exI [of _ rem]) (simp add: topo_inv_def)
    qed
  qed
qed

lemma newMap_id: "distinct (map fst es) \<Longrightarrow> newMap es = es"
  by (rule newMap_distinct)

subsection \<open>The fixed point of the orphan removal\<close>

definition closed_ids :: "(string \<Rightarrow> string option) \<Rightarrow> bookmarks \<Rightarrow> string set \<Rightarrow> bool" where
  "closed_ids mapped d S \<longleftrightarrow>
     (\<forall>l \<in> S. \<exists>nd. map_of d l = Some nd
        \<and> (bn_parentId nd \<in> set CANONICAL_ROOT_IDS \<or> bn_parentId nd \<in> S \<or> mapped (bn_parentId nd) \<noteq> None))"

definition orphan_inv :: "(string \<Rightarrow> string option) \<Rightarrow> bookmarks \<Rightarrow> bookmarks \<Rightarrow> bool" where
  "orphan_inv mapped d eff \<longleftrightarrow> distinct (map fst eff)
     \<and> (\<forall>l nd. map_of eff l = Some nd \<longrightarrow> map_of d l = Some nd)
     \<and> (\<forall>S. closed_ids mapped d S \<longrightarrow> S \<subseteq> dom (map_of eff))"

lemma orphanStep_inv:
  assumes "orphan_inv mapped d eff" and "map_of d l = Some nd" and "orphanStep mapped (l, nd) (eff, found) = (eff', found')"
  shows "orphan_inv mapped d eff'"
proof (cases "eff' = eff")
  case False
  then have del: "eff' = AList.delete l eff" "bn_parentId nd \<notin> set CANONICAL_ROOT_IDS"
      "map_of eff (bn_parentId nd) = None" "mapped (bn_parentId nd) = None"
    using assms(3) by (auto simp: orphanStep_def Let_def split: if_splits)
  have "l \<notin> S" if "closed_ids mapped d S" for S
  proof
    assume "l \<in> S"
    with that assms(2) del have "bn_parentId nd \<in> S" unfolding closed_ids_def by fastforce
    with assms(1) that del(3) show False unfolding orphan_inv_def by blast
  qed
  then show ?thesis
    using assms(1) unfolding del(1) orphan_inv_def
    by (auto simp: AList.delete_conv' distinct_delete split: if_splits)
qed (use assms(1) in simp)

lemma orphan_fold_inv:
  assumes "orphan_inv mapped d eff" and "\<forall>(l, nd) \<in> set cs. map_of d l = Some nd"
    and "fold (orphanStep mapped) cs (eff, found) = (eff', found')"
  shows "orphan_inv mapped d eff'
    \<and> (\<not> found' \<longrightarrow> eff' = eff \<and> (\<forall>(l, nd) \<in> set cs. bn_parentId nd \<in> set CANONICAL_ROOT_IDS
           \<or> map_of eff (bn_parentId nd) \<noteq> None \<or> mapped (bn_parentId nd) \<noteq> None))"
  using assms
proof (induction cs arbitrary: eff found)
  case (Cons c cs)
  obtain l nd where c: "c = (l, nd)" by (cases c)
  obtain e1 f1 where s: "orphanStep mapped c (eff, found) = (e1, f1)" by (metis prod.collapse)
  have inv: "orphan_inv mapped d e1"
    using orphanStep_inv [OF Cons.prems(1), of l nd found e1 f1] Cons.prems(2) s c by auto
  have f: "fold (orphanStep mapped) cs (e1, f1) = (eff', found')" using Cons.prems(3) s by simp
  have sticky: "fold (orphanStep mapped) xs (e, True) = (e', f') \<Longrightarrow> f'" for xs e e' f'
    by (induction xs arbitrary: e) (auto simp: orphanStep_def Let_def split: if_splits)
  show ?case
  proof (cases "e1 = eff \<and> f1 = found")
    case True
    with s c have "found \<or> bn_parentId nd \<in> set CANONICAL_ROOT_IDS \<or> map_of eff (bn_parentId nd) \<noteq> None
        \<or> mapped (bn_parentId nd) \<noteq> None"
      by (auto simp: orphanStep_def Let_def split: if_splits)
    moreover have "found'" if "found" using f sticky [of cs e1 eff' found'] True that by simp
    ultimately show ?thesis using Cons.IH [OF inv _ f] Cons.prems(2) True c by auto
  next
    case False
    then have "f1" using s c by (auto simp: orphanStep_def Let_def split: if_splits)
    with f sticky [of cs e1 eff' found'] have "found'" by simp
    with Cons.IH [OF inv _ f] Cons.prems(2) show ?thesis by simp
  qed
qed simp

lemma dropOrphans_inv:
  "orphan_inv mapped d eff \<Longrightarrow>
     orphan_inv mapped d (dropOrphans mapped eff) \<and> closed_ids mapped d (dom (map_of (dropOrphans mapped eff)))"
proof (induction mapped eff rule: dropOrphans.induct)
  case (1 mapped eff)
  obtain eff' found where p: "orphanPass mapped eff = (eff', found)" by (metis prod.collapse)
  have es: "\<forall>(l, nd) \<in> set eff. map_of d l = Some nd"
    using 1(2) by (auto simp: orphan_inv_def)
  note f = orphan_fold_inv [OF 1(2) es p [unfolded orphanPass_def]]
  show ?case
  proof (cases found)
    case True
    with 1(1) [OF p [symmetric] True] f p show ?thesis by (simp add: dropOrphans.simps [of mapped eff])
  next
    case False
    then have eff: "eff' = eff" and ok: "\<forall>(l, nd) \<in> set eff. bn_parentId nd \<in> set CANONICAL_ROOT_IDS
           \<or> map_of eff (bn_parentId nd) \<noteq> None \<or> mapped (bn_parentId nd) \<noteq> None"
      using f by auto
    have "closed_ids mapped d (dom (map_of eff))"
      unfolding closed_ids_def
    proof
      fix l assume "l \<in> dom (map_of eff)"
      then obtain nd where "map_of eff l = Some nd" by blast
      then show "\<exists>nd. map_of d l = Some nd \<and> (bn_parentId nd \<in> set CANONICAL_ROOT_IDS
          \<or> bn_parentId nd \<in> dom (map_of eff) \<or> mapped (bn_parentId nd) \<noteq> None)"
        using 1(2) ok map_of_SomeD [of eff l nd] unfolding orphan_inv_def by fastforce
    qed
    with 1(2) False p eff show ?thesis by (simp add: dropOrphans.simps [of mapped eff])
  qed
qed

subsection \<open>Properties\<close>

text \<open>
  C38. topoSort terminates with a permutation of its entries: first those that can be created, each
  after its parent (which is available from the start or earlier in the list), then the orphans,
  none of which has an available or listed parent.
\<close>

theorem topoSort_parents_first:
  assumes "distinct (map fst entries)"
  shows "\<exists>p r. topoSort entries A = p @ r \<and> mset (p @ r) = mset entries \<and> placed A p
    \<and> (\<forall>(i, node) \<in> set r. bn_parentId node \<notin> A \<union> fst ` set p)"
proof -
  have "topo_inv A entries A (newMap entries) []"
    using assms by (simp add: topo_inv_def newMap_distinct)
  from topoLoop_sound [OF this] show ?thesis by (simp add: topoSort_def)
qed

definition topo_example :: bookmarks where
  "topo_example =
     [(''x'', \<lparr>bn_title = ''X'', bn_url = Some ''http://x'', bn_parentId = ''f'', bn_index = 0, bn_type = BookmarkT\<rparr>),
      (''y'', \<lparr>bn_title = ''Y'', bn_url = Some ''http://y'', bn_parentId = ''f'', bn_index = 2, bn_type = BookmarkT\<rparr>),
      (''f'', \<lparr>bn_title = ''F'', bn_url = None, bn_parentId = ''1'', bn_index = 1, bn_type = FolderT\<rparr>)]"

lemma topoSort_parents_first_witness:
  "\<exists>p r. topoSort topo_example {''1''} = p @ r \<and> mset (p @ r) = mset topo_example \<and> placed {''1''} p"
  using topoSort_parents_first [of topo_example "{''1''}"] by (auto simp: topo_example_def)

text \<open>
  The order of siblings is not respected by topoSort: a folder with two bookmarks, all three to
  be created, is listed folder, second bookmark, first bookmark, because the first bookmark's index
  is smaller than its folder's and it has to wait for the next pass.
\<close>

theorem topoSort_reorders_siblings:
  "map fst (topoSort topo_example {''1''}) = [''f'', ''y'', ''x'']
   \<and> map_option bn_parentId (map_of topo_example ''x'') = map_option bn_parentId (map_of topo_example ''y'')
   \<and> map_option bn_index (map_of topo_example ''x'') = Some 0
   \<and> map_option bn_index (map_of topo_example ''y'') = Some 2"
proof -
  have "newMap topo_example = topo_example"
    by (rule newMap_distinct) (simp add: topo_example_def)
  moreover have "map fst (topoLoop {''1''} topo_example []) = [''f'', ''y'', ''x'']"
    by (simp add: topoLoop.simps topoPass_def topoStep_def topo_example_def)
  ultimately have "map fst (topoSort topo_example {''1''}) = [''f'', ''y'', ''x'']"
    by (simp add: topoSort_def)
  then show ?thesis by (simp add: topo_example_def)
qed

text \<open>
  The orphan removal of reconcile terminates with the largest part of the desired state in
  which every entry's parent is a canonical root, an entry of that part, or mapped: entries keep
  their values, the result has this property, and any set of ids with it survives.
\<close>

theorem dropOrphans_greatest_closed:
  assumes "distinct (map fst desired)"
  shows "(\<forall>l nd. map_of (dropOrphans mapped desired) l = Some nd \<longrightarrow>
            map_of desired l = Some nd
            \<and> (bn_parentId nd \<in> set CANONICAL_ROOT_IDS \<or> map_of (dropOrphans mapped desired) (bn_parentId nd) \<noteq> None
               \<or> mapped (bn_parentId nd) \<noteq> None))
    \<and> (\<forall>S. (\<forall>l \<in> S. \<exists>nd. map_of desired l = Some nd
              \<and> (bn_parentId nd \<in> set CANONICAL_ROOT_IDS \<or> bn_parentId nd \<in> S \<or> mapped (bn_parentId nd) \<noteq> None))
          \<longrightarrow> (\<forall>l \<in> S. map_of (dropOrphans mapped desired) l \<noteq> None))"
proof -
  let ?E = "dropOrphans mapped desired"
  have "orphan_inv mapped desired desired"
    using assms by (auto simp: orphan_inv_def closed_ids_def)
  note res = dropOrphans_inv [OF this]
  have sub: "map_of desired l = Some nd" if "map_of ?E l = Some nd" for l nd
    using res [THEN conjunct1, unfolded orphan_inv_def] that by blast
  have closed: "\<exists>nd'. map_of desired l = Some nd' \<and> (bn_parentId nd' \<in> set CANONICAL_ROOT_IDS
      \<or> bn_parentId nd' \<in> dom (map_of ?E) \<or> mapped (bn_parentId nd') \<noteq> None)" if "l \<in> dom (map_of ?E)" for l
    using res [THEN conjunct2, unfolded closed_ids_def] that by (rule bspec)
  have ok: "bn_parentId nd \<in> set CANONICAL_ROOT_IDS \<or> map_of ?E (bn_parentId nd) \<noteq> None \<or> mapped (bn_parentId nd) \<noteq> None"
    if "map_of ?E l = Some nd" for l nd
    using closed [of l] sub [OF that] that by auto
  have large: "\<forall>S. closed_ids mapped desired S \<longrightarrow> S \<subseteq> dom (map_of ?E)"
    using res [THEN conjunct1, unfolded orphan_inv_def] by (elim conjE)
  show ?thesis
  proof (intro conjI allI impI ballI)
    fix l nd assume "map_of ?E l = Some nd"
    then show "map_of desired l = Some nd"
      "bn_parentId nd \<in> set CANONICAL_ROOT_IDS \<or> map_of ?E (bn_parentId nd) \<noteq> None \<or> mapped (bn_parentId nd) \<noteq> None"
      by (rule sub, rule ok)
  next
    fix S l assume S: "\<forall>l \<in> S. \<exists>nd. map_of desired l = Some nd
        \<and> (bn_parentId nd \<in> set CANONICAL_ROOT_IDS \<or> bn_parentId nd \<in> S \<or> mapped (bn_parentId nd) \<noteq> None)"
      and "l \<in> S"
    from S have "S \<subseteq> dom (map_of ?E)"
      by (intro large [rule_format] closed_ids_def [THEN iffD2])
    with \<open>l \<in> S\<close> show "map_of ?E l \<noteq> None" by auto
  qed
qed

lemma dropOrphans_greatest_closed_witness:
  "map_of (dropOrphans Map.empty topo_example) ''x'' \<noteq> None \<and> map_of (dropOrphans Map.empty topo_example) ''f'' \<noteq> None"
proof -
  have d: "distinct (map fst topo_example)" by (simp add: topo_example_def)
  note g = dropOrphans_greatest_closed [OF d, of Map.empty]
  have "\<forall>l \<in> {''x'', ''f''}. \<exists>nd. map_of topo_example l = Some nd
      \<and> (bn_parentId nd \<in> set CANONICAL_ROOT_IDS \<or> bn_parentId nd \<in> {''x'', ''f''} \<or> Map.empty (bn_parentId nd) \<noteq> None)"
    by (simp add: topo_example_def CANONICAL_ROOT_IDS_def)
  then have "\<forall>l \<in> {''x'', ''f''}. map_of (dropOrphans Map.empty topo_example) l \<noteq> None"
    by (rule g [THEN conjunct2, THEN spec, THEN mp])
  then show ?thesis by simp
qed

end
