(* ===== verification/Reconcile.thy ===== *)
theory Reconcile
  imports Browser Reconcile_Plan Merge_Correct
begin

text \<open>
  extension/src/bookmarks/bridge.ts, lines 734-944: reconcile, which makes the browser's managed
  tree follow the document. The steps are those of the code: 0 purge of stale mapping entries,
  0b orphans (Reconcile_Plan), 1 deletion, 2 creation, 3 update of titles and urls, 4 moves; then
  applyRemoteDelta and its siblings and clearManagedBookmarks. Every API call may reject, and each
  rejection is caught where the code catches it. The log output is left out.
\<close>

subsection \<open>Step 0: stale mapping entries\<close>

definition inManagedTree :: "'w chrome \<Rightarrow> roots \<Rightarrow> string \<Rightarrow> ('d, 'w) bworld \<Rightarrow> bool" where
  "inManagedTree A R chromeId s =
     (case ch_get A chromeId (w_browser s) of
        Inl e \<Rightarrow> False
      | Inr bm \<Rightarrow>
          (let parentId = (case bm of None \<Rightarrow> [] | Some n \<Rightarrow> orElse (tn_parentId n) [])
           in isAnyRootId R parentId \<or> c2l (w_bridge s) parentId \<noteq> None))"

definition purgeStale ::
  "'w chrome \<Rightarrow> roots \<Rightarrow> (string \<times> tree_node) list \<Rightarrow> string \<times> string \<Rightarrow> (('d, 'w) bworld, unit) act" where
  "purgeStale A R current = (\<lambda>(loroId, chromeId) s.
     if map_of current chromeId \<noteq> None then (Inr (), s)
     else if inManagedTree A R chromeId s then (Inr (), s)
     else bridgeA (unlink loroId chromeId) s)"

subsection \<open>Step 1: deletion\<close>

definition childrenOf :: "(string \<times> tree_node) list \<Rightarrow> (string \<times> string list) list" where
  "childrenOf current =
     fold (\<lambda>(i, node). pushTo (orElse (tn_parentId node) []) (tn_id node)) (objectEntries current) []"

definition kidsOf :: "(string \<times> tree_node) list \<Rightarrow> string \<Rightarrow> string list" where
  "kidsOf current i = orElse (map_of (childrenOf current) i) []"

text \<open>
  The queue loop of allDescendants. The fuel is the size of the snapshot; that it is never
  the reason to stop on a tree is \<^verbatim>\<open>allDescendants_complete\<close>.
\<close>

fun descLoop :: "(string \<Rightarrow> string list) \<Rightarrow> nat \<Rightarrow> string list \<Rightarrow> string list \<Rightarrow> string list \<times> string list" where
  "descLoop kids fuel [] result = (result, [])"
| "descLoop kids 0 queue result = (result, queue)"
| "descLoop kids (Suc fuel) (i # queue) result = descLoop kids fuel (queue @ kids i) (result @ [i])"

definition allDescendants :: "(string \<times> tree_node) list \<Rightarrow> string \<Rightarrow> string list" where
  "allDescendants current chromeId =
     fst (descLoop (kidsOf current) (length current) (kidsOf current chromeId) [])"

definition forgetChrome :: "string \<Rightarrow> 'd bridge \<Rightarrow> 'd bridge" where
  "forgetChrome chromeId b =
     (if truthy (c2l b chromeId) then unlink (the (c2l b chromeId)) chromeId b else b)"

definition deleteOne ::
  "'w chrome \<Rightarrow> bookmarks \<Rightarrow> (string \<times> tree_node) list \<Rightarrow> string \<Rightarrow> string set \<Rightarrow> (('d, 'w) bworld, string set) act" where
  "deleteOne A eff current chromeId deleted s =
     (let loroId = c2l (w_bridge s) chromeId
      in if chromeId \<in> deleted then (Inr deleted, s)
         else if truthy loroId \<and> map_of eff (the loroId) \<noteq> None then (Inr deleted, s)
         else
           (case browserA (ch_removeTree A chromeId) s of
              (Inl e, s') \<Rightarrow> (Inr deleted, s')
            | (Inr _, s') \<Rightarrow>
                (let descs = allDescendants current chromeId;
                     b = fold forgetChrome descs (w_bridge s');
                     b' = (if truthy loroId then unlink (the loroId) chromeId b else b)
                 in (Inr (deleted \<union> set (chromeId # descs)), s'\<lparr>w_bridge := b'\<rparr>))))"

fun deleteLoop ::
  "'w chrome \<Rightarrow> bookmarks \<Rightarrow> (string \<times> tree_node) list \<Rightarrow> string list \<Rightarrow> string set \<Rightarrow> (('d, 'w) bworld, string set) act" where
  "deleteLoop A eff current [] deleted = retA deleted"
| "deleteLoop A eff current (i # is) deleted = bindA (deleteOne A eff current i deleted) (deleteLoop A eff current is)"

subsection \<open>Step 2: creation\<close>

definition createOne ::
  "'w chrome \<Rightarrow> roots \<Rightarrow> auth \<Rightarrow> string \<times> bookmark_node \<Rightarrow> (('d, 'w) bworld, unit) act" where
  "createOne A R a = (\<lambda>(loroId, node) s.
     (let parentChromeId = loroParentToChrome R (w_bridge s) (bn_parentId node)
      in if \<not> isValidChromeParentId R (w_bridge s) parentChromeId then (Inr (), s)
         else
           (case browserA (ch_create A parentChromeId (bn_title node) (bn_url node)) s of
              (Inl e, s') \<Rightarrow> (Inr (), s')
            | (Inr createdId, s') \<Rightarrow>
                bindA (bridgeA (link loroId createdId)) (\<lambda>_. saveMappingA a) s')))"

definition toCreate :: "bookmarks \<Rightarrow> 'd bridge \<Rightarrow> bookmarks" where
  "toCreate eff b =
     topoSort (filter (\<lambda>(loroId, node). l2c b loroId = None) eff)
       (set CANONICAL_ROOT_IDS \<union> fst ` set (loroToChrome b))"

subsection \<open>Step 3: titles and urls\<close>

type_synonym folder_entry = "string \<times> bookmark_node \<times> tree_node"

definition updateOne ::
  "'w chrome \<Rightarrow> roots \<Rightarrow> (string \<times> tree_node) list \<Rightarrow> string set \<Rightarrow> string \<times> bookmark_node
     \<Rightarrow> (string \<times> folder_entry list) list \<Rightarrow> (('d, 'w) bworld, (string \<times> folder_entry list) list) act" where
  "updateOne A R current deleted = (\<lambda>(loroId, node) byFolder s.
     (case l2c (w_bridge s) loroId of
        None \<Rightarrow> (Inr byFolder, s)
      | Some chromeId \<Rightarrow>
          if chromeId = [] \<or> chromeId \<in> deleted then (Inr byFolder, s)
          else
            (case map_of current chromeId of
               None \<Rightarrow> (Inr byFolder, s)
             | Some existing \<Rightarrow>
                 (let s1 = (if tn_title existing \<noteq> bn_title node \<or> tn_url existing \<noteq> bn_url node
                            then snd (browserA (ch_update A chromeId (bn_title node) (bn_url node)) s) else s)
                  in if bn_parentId node \<notin> set CANONICAL_ROOT_IDS \<and> l2c (w_bridge s1) (bn_parentId node) = None
                     then (Inr byFolder, s1)
                     else (Inr (pushTo (loroParentToChrome R (w_bridge s1) (bn_parentId node))
                                  (chromeId, node, existing) byFolder), s1)))))"

fun updateLoop ::
  "'w chrome \<Rightarrow> roots \<Rightarrow> (string \<times> tree_node) list \<Rightarrow> string set \<Rightarrow> bookmarks
     \<Rightarrow> (string \<times> folder_entry list) list \<Rightarrow> (('d, 'w) bworld, (string \<times> folder_entry list) list) act" where
  "updateLoop A R current deleted [] byFolder = retA byFolder"
| "updateLoop A R current deleted (e # es) byFolder =
     bindA (updateOne A R current deleted e byFolder) (updateLoop A R current deleted es)"

subsection \<open>Step 4: positions\<close>

definition needsMove :: "string \<Rightarrow> folder_entry list \<Rightarrow> bool" where
  "needsMove parentChromeId entries =
     list_ex (\<lambda>(chromeId, node, existing). tn_parentId existing \<noteq> Some parentChromeId) entries"

definition inOrder :: "folder_entry list \<Rightarrow> bool" where
  "inOrder entries =
     (map fst (sort_key (\<lambda>(chromeId, node, existing). orElse (tn_index existing) 0) entries) = map fst entries)"

definition moveFolder ::
  "'w chrome \<Rightarrow> string \<times> folder_entry list \<Rightarrow> (('d, 'w) bworld, unit) act" where
  "moveFolder A = (\<lambda>(parentChromeId, entries).
     (let sorted = sort_key (\<lambda>(chromeId, node, existing). bn_index node) entries
      in if \<not> needsMove parentChromeId sorted \<and> inOrder sorted then retA ()
         else forA (\<lambda>(i, (chromeId, node, existing)) s.
                (Inr (), snd (browserA (ch_move A chromeId parentChromeId i) s)))
              (zip [0..<length sorted] sorted)))"

subsection \<open>reconcile\<close>

definition reconcileBody ::
  "'d loro \<Rightarrow> 'w chrome \<Rightarrow> roots \<Rightarrow> auth \<Rightarrow> bookmarks \<Rightarrow> (string \<times> tree_node) list \<Rightarrow> (('d, 'w) bworld, unit) act" where
  "reconcileBody L A R a desired current s0 =
     bindA (forA (purgeStale A R current) (loroToChrome (w_bridge s0))) (\<lambda>_ s1.
       (let eff = dropOrphans (l2c (w_bridge s1)) desired
        in bindA (deleteLoop A eff current (map fst (objectEntries current)) {}) (\<lambda>deleted s2.
             bindA (forA (createOne A R a) (toCreate eff (w_bridge s2))) (\<lambda>_.
               bindA (updateLoop A R current deleted eff []) (\<lambda>byFolder.
                 forA (moveFolder A) byFolder)) s2) s1)) s0"

definition reconcile ::
  "'d loro \<Rightarrow> 'w chrome \<Rightarrow> roots \<Rightarrow> auth \<Rightarrow> (('d, 'w) bworld, unit) act" where
  "reconcile L A R a s =
     (let desired = bookmarks L (w_bridge s);
          current = currentChrome R (ch_getTree A (w_browser s))
      in bindA (withEchoFilter (reconcileBody L A R a desired current)) (\<lambda>_. saveMappingA a) s)"

subsection \<open>Entry points\<close>

definition applyRemoteUpdateOnly :: "'d loro \<Rightarrow> bytes \<Rightarrow> (('d, 'w) bworld, unit) act" where
  "applyRemoteUpdateOnly L data s =
     (case importUpdate L data (Some (doc (w_bridge s))) of
        (r, d) \<Rightarrow> (r, s\<lparr>w_bridge := (w_bridge s)\<lparr>doc := the d\<rparr>\<rparr>))"

definition applyRemoteDelta ::
  "'d loro \<Rightarrow> 'w chrome \<Rightarrow> roots \<Rightarrow> auth \<Rightarrow> bytes \<Rightarrow> (('d, 'w) bworld, unit) act" where
  "applyRemoteDelta L A R a data = bindA (applyRemoteUpdateOnly L data) (\<lambda>_. reconcile L A R a)"

definition reconcileBookmarks ::
  "'d loro \<Rightarrow> 'w chrome \<Rightarrow> roots \<Rightarrow> auth \<Rightarrow> (('d, 'w) bworld, unit) act" where
  "reconcileBookmarks L A R a = reconcile L A R a"

text \<open>\<^verbatim>\<open>const [root] = await getTree()\<close>: reading the children of a missing root throws.\<close>

definition clearManagedBookmarks :: "'w chrome \<Rightarrow> roots \<Rightarrow> (('d, 'w) bworld, unit) act" where
  "clearManagedBookmarks A R s =
     (case ch_getTree A (w_browser s) of
        [] \<Rightarrow> (Inl (JsError ''TypeError''), s)
      | root # _ \<Rightarrow>
          forA (\<lambda>container.
            if \<not> isAnyRootId R (tn_id container) then retA ()
            else forA (\<lambda>child s. (Inr (), snd (browserA (ch_removeTree A (tn_id child)) s))) (tn_children container))
            (tn_children root) s)"

subsection \<open>A mirrored tree\<close>

text \<open>
  The managed tree and the document say the same: every entry is mapped to a managed node with its
  title, url, index and parent, every managed node is such an entry, and the mapping holds nothing
  else. Every parent resolves.
\<close>

definition entry_of :: "roots \<Rightarrow> 'd bridge \<Rightarrow> tree_node \<Rightarrow> bookmark_node \<Rightarrow> bool" where
  "entry_of R b n nd \<longleftrightarrow> tn_title n = bn_title nd \<and> tn_url n = bn_url nd
     \<and> tn_parentId n = Some (loroParentToChrome R b (bn_parentId nd)) \<and> orElse (tn_index n) 0 = bn_index nd
     \<and> (bn_parentId nd \<in> set CANONICAL_ROOT_IDS \<or> l2c b (bn_parentId nd) \<noteq> None)"

definition mirrored :: "'d loro \<Rightarrow> roots \<Rightarrow> 'd bridge \<Rightarrow> tree_node \<Rightarrow> bool" where
  "mirrored L R b t \<longleftrightarrow>
     (\<forall>l nd. map_of (bookmarks L b) l = Some nd \<longrightarrow>
        (\<exists>n \<in> managedNodes R t. l2c b l = Some (tn_id n) \<and> entry_of R b n nd))
     \<and> (\<forall>n \<in> managedNodes R t. \<exists>l. c2l b (tn_id n) = Some l \<and> map_of (bookmarks L b) l \<noteq> None)
     \<and> (\<forall>l c. l2c b l = Some c \<longrightarrow> c \<in> tn_id ` managedNodes R t)"

lemma dropOrphans_same:
  assumes "\<And>l nd. (l, nd) \<in> set eff \<Longrightarrow> bn_parentId nd \<in> set CANONICAL_ROOT_IDS \<or> mapped (bn_parentId nd) \<noteq> None"
  shows "dropOrphans mapped eff = eff"
proof -
  have "fold (orphanStep mapped) cs (eff, False) = (eff, False)"
    if "\<And>l nd. (l, nd) \<in> set cs \<Longrightarrow> bn_parentId nd \<in> set CANONICAL_ROOT_IDS \<or> mapped (bn_parentId nd) \<noteq> None" for cs
    using that by (induction cs) (fastforce simp: orphanStep_def Let_def)+
  from this [OF assms] have "orphanPass mapped eff = (eff, False)" by (simp add: orphanPass_def)
  then show ?thesis by (simp add: dropOrphans.simps [of mapped eff])
qed

lemma purgeStale_live: "map_of current c \<noteq> None \<Longrightarrow> purgeStale A R current (l, c) s = (Inr (), s)"
  by (simp add: purgeStale_def)

lemma deleteOne_kept:
  "truthy (c2l (w_bridge s) c) \<Longrightarrow> map_of eff (the (c2l (w_bridge s) c)) \<noteq> None \<Longrightarrow>
     deleteOne A eff current c deleted s = (Inr deleted, s)"
  by (simp add: deleteOne_def Let_def)

lemma deleteLoop_kept:
  "(\<And>c. c \<in> set cs \<Longrightarrow> truthy (c2l (w_bridge s) c) \<and> map_of eff (the (c2l (w_bridge s) c)) \<noteq> None) \<Longrightarrow>
     deleteLoop A eff current cs deleted s = (Inr deleted, s)"
  by (induction cs) (simp_all add: deleteOne_kept)

lemma toCreate_none: "(\<And>l nd. (l, nd) \<in> set eff \<Longrightarrow> l2c b l \<noteq> None) \<Longrightarrow> toCreate eff b = []"
proof -
  assume "\<And>l nd. (l, nd) \<in> set eff \<Longrightarrow> l2c b l \<noteq> None"
  then have "filter (\<lambda>(l, nd). l2c b l = None) eff = []" by (auto simp: filter_empty_conv)
  then show ?thesis by (simp add: toCreate_def topoSort_def newMap_def topoLoop.simps)
qed

text \<open>The folders collected in step 3 hold nodes that lie in them, at their index.\<close>

definition placedRight :: "(string \<times> folder_entry list) list \<Rightarrow> bool" where
  "placedRight byFolder \<longleftrightarrow>
     (\<forall>p c nd n. (c, nd, n) \<in> set (orElse (map_of byFolder p) []) \<longrightarrow>
        tn_parentId n = Some p \<and> orElse (tn_index n) 0 = bn_index nd)
     \<and> distinct (map fst byFolder)"

lemma placedRight_push:
  "placedRight m \<Longrightarrow> tn_parentId n = Some p \<Longrightarrow> orElse (tn_index n) 0 = bn_index nd \<Longrightarrow>
     placedRight (pushTo p (c, nd, n) m)"
  by (auto simp: placedRight_def pushTo_def update_conv' distinct_update split: if_splits)

lemma moveFolder_placed:
  assumes "\<And>c nd n. (c, nd, n) \<in> set es \<Longrightarrow> tn_parentId n = Some p \<and> orElse (tn_index n) 0 = bn_index nd"
  shows "moveFolder A (p, es) s = (Inr (), s)"
proof -
  let ?k = "\<lambda>(c, nd, n). bn_index nd" and ?k' = "\<lambda>(c, nd, n). orElse (tn_index n) 0"
  let ?ss = "sort_key ?k es"
  have "?k' x = ?k x" if "x \<in> set ?ss" for x
  proof -
    have "x \<in> set es" using that by simp
    with assms show ?thesis by (auto split: prod.split)
  qed
  then have "map ?k' ?ss = map ?k ?ss" by simp
  then have "sorted (map ?k' ?ss)" using sorted_sort_key [of ?k es] by metis
  then have "inOrder ?ss" by (simp add: inOrder_def sort_key_id_if_sorted)
  moreover have "\<not> needsMove p ?ss" using assms by (auto simp: needsMove_def list_ex_iff)
  ultimately show ?thesis by (simp add: moveFolder_def Let_def)
qed

lemma updateOne_mirrored:
  assumes "l2c (w_bridge s) l = Some (tn_id n)" and "map_of current (tn_id n) = Some n"
    and "entry_of R (w_bridge s) n nd" and "placedRight m"
  shows "\<exists>m'. updateOne A R current {} (l, nd) m s = (Inr m', s) \<and> placedRight m'"
  using assms placedRight_push [OF assms(4), of n _ nd "tn_id n"]
  by (auto simp: updateOne_def entry_of_def Let_def)

lemma updateLoop_mirrored:
  assumes "\<And>l nd. (l, nd) \<in> set es \<Longrightarrow>
      \<exists>n. l2c (w_bridge s) l = Some (tn_id n) \<and> map_of current (tn_id n) = Some n \<and> entry_of R (w_bridge s) n nd"
    and "placedRight m"
  shows "\<exists>m'. updateLoop A R current {} es m s = (Inr m', s) \<and> placedRight m'"
  using assms
proof (induction es arbitrary: m)
  case (Cons e es)
  obtain l nd where e: "e = (l, nd)" by (cases e)
  with Cons.prems(1) [of l nd] obtain n where
    "l2c (w_bridge s) l = Some (tn_id n)" "map_of current (tn_id n) = Some n" "entry_of R (w_bridge s) n nd" by auto
  from updateOne_mirrored [OF this Cons.prems(2), of A] obtain m1 where
    "updateOne A R current {} e m s = (Inr m1, s)" "placedRight m1" unfolding e by blast
  with Cons.IH [of m1] Cons.prems(1) show ?case by auto
qed simp

lemma reconcileBody_mirrored:
  assumes L: "loro_map_ok L" and m: "mapping_ok (w_bridge s)" and t: "tree_ok R t"
    and mir: "mirrored L R (w_bridge s) t"
  shows "reconcileBody L A R a (bookmarks L (w_bridge s)) (currentChrome R [t]) s = (Inr (), s)"
proof -
  let ?b = "w_bridge s" and ?cur = "currentChrome R [t]"
  let ?des = "bookmarks L ?b"
  note w = tree_walk [OF t]
  have curS: "map_of ?cur c = Some n \<longleftrightarrow> n \<in> managedNodes R t \<and> tn_id n = c" for c n
    using currentChrome_Some [OF w(2)] w(1) by simp
  have cur: "map_of ?cur c \<noteq> None \<longleftrightarrow> c \<in> tn_id ` managedNodes R t" for c
    using curS by (auto simp: image_iff)
  have des: "map_of ?des l = Some nd \<longleftrightarrow> (l, nd) \<in> set ?des" for l nd
    using bookmarks_distinct [OF L] by simp
  have entry: "\<exists>n \<in> managedNodes R t. l2c ?b l = Some (tn_id n) \<and> entry_of R ?b n nd" if "(l, nd) \<in> set ?des" for l nd
    using mir [unfolded mirrored_def, THEN conjunct1] that des by blast
  have mapped: "\<exists>l. c2l ?b (tn_id n) = Some l \<and> map_of ?des l \<noteq> None" if "n \<in> managedNodes R t" for n
    using mir [unfolded mirrored_def, THEN conjunct2, THEN conjunct1] that by blast
  have live: "c \<in> tn_id ` managedNodes R t" if "l2c ?b l = Some c" for l c
    using mir [unfolded mirrored_def, THEN conjunct2, THEN conjunct2] that by blast
  have "map_of ?cur c \<noteq> None" if "(l, c) \<in> set (loroToChrome ?b)" for l c
    using that m live [of l c] cur by (simp add: l2c_def mapping_ok_def)
  then have s0: "forA (purgeStale A R ?cur) (loroToChrome ?b) s = (Inr (), s)"
    by (intro forA_id) (auto simp: purgeStale_live)
  have eff: "dropOrphans (l2c ?b) ?des = ?des"
    by (rule dropOrphans_same) (use entry in \<open>auto simp: entry_of_def\<close>)
  have "c \<in> tn_id ` managedNodes R t" if "c \<in> set (map fst (objectEntries ?cur))" for c
    using that cur [of c] by (force simp: map_of_eq_None_iff)
  then have s1: "deleteLoop A ?des ?cur (map fst (objectEntries ?cur)) {} s = (Inr {}, s)"
    by (intro deleteLoop_kept) (use mapped m in \<open>fastforce simp: truthy_c2l\<close>)
  have s2: "toCreate ?des ?b = []"
    by (rule toCreate_none) (use entry in fastforce)
  have "\<exists>m'. updateLoop A R ?cur {} ?des [] s = (Inr m', s) \<and> placedRight m'"
  proof (rule updateLoop_mirrored)
    fix l nd assume "(l, nd) \<in> set ?des"
    with entry [of l nd] curS show "\<exists>n. l2c ?b l = Some (tn_id n) \<and> map_of ?cur (tn_id n) = Some n \<and> entry_of R ?b n nd"
      by blast
  qed (simp add: placedRight_def)
  then obtain m' where s3: "updateLoop A R ?cur {} ?des [] s = (Inr m', s)" and p: "placedRight m'" by blast
  have s4: "forA (moveFolder A) m' s = (Inr (), s)"
  proof (rule forA_id)
    fix x assume x: "x \<in> set m'"
    obtain p es where "x = (p, es)" by (cases x)
    moreover from calculation x p have es: "map_of m' p = Some es" by (simp add: placedRight_def)
    have "tn_parentId n = Some p \<and> orElse (tn_index n) 0 = bn_index nd" if "(c, nd, n) \<in> set es" for c nd n
      using p [unfolded placedRight_def, THEN conjunct1, rule_format, of c nd n p] that es by simp
    ultimately show "moveFolder A x s = (Inr (), s)" by (simp add: moveFolder_placed)
  qed
  show ?thesis
    by (simp add: reconcileBody_def bindA_def s0 eff s1 s2 s3 s4)
qed

lemma mirrored_frame: "mirrored L R (w_bridge (s\<lparr>w_ignore := k\<rparr>)) t = mirrored L R (w_bridge s) t"
  by simp

lemma reconcile_mirrored:
  assumes L: "loro_map_ok L" and m: "mapping_ok (w_bridge s)" and t: "tree_ok R t"
    and mir: "mirrored L R (w_bridge s) t" and "ch_getTree A (w_browser s) = [t]" and "getActiveProfileId a = Inr p"
  shows "reconcile L A R a s =
    (Inr (), s\<lparr>w_db := setMeta (chromeIdMapKey p) (MObj (loroToChrome (w_bridge s))) (w_db s)\<rparr>)"
proof -
  let ?s = "s\<lparr>w_ignore := w_ignore s + 1\<rparr>"
  have "reconcileBody L A R a (bookmarks L (w_bridge ?s)) (currentChrome R [t]) ?s = (Inr (), ?s)"
    by (rule reconcileBody_mirrored) (use assms in simp_all)
  then show ?thesis
    using assms(5,6) by (simp add: reconcile_def Let_def withEchoFilter_def bindA_def saveMappingA_def saveMapping_def)
qed

end
