(* ===== verification/Reconcile_Correct.thy ===== *)
theory Reconcile_Correct
  imports Reconcile
begin

text \<open>
  Correctness of Reconcile.thy: what the user did offline survives the reconcile that follows the
  merge; the id mapping stays consistent whatever API calls fail; which parts of the browser a
  reconcile may touch; the descendants computed for a deletion.
\<close>

subsection \<open>A merge, then a reconcile\<close>

text \<open>Translating a root's id to canonical and back is the identity on the parents of the tree.\<close>

definition native_parents :: "roots \<Rightarrow> tree_node \<Rightarrow> bool" where
  "native_parents R t \<longleftrightarrow>
     (\<forall>n \<in> managedNodes R t. \<forall>p. tn_parentId n = Some p \<longrightarrow> isAnyRootId R p \<longrightarrow>
        map_of (canonicalToNative R) (orElse (map_of (nativeToCanonical R) p) p) = Some p)"

lemma parents_first_mem:
  "parents_first A ns \<Longrightarrow> n \<in> set ns \<Longrightarrow> \<exists>p. tn_parentId n = Some p \<and> (p \<in> A \<or> p \<in> tn_id ` set ns)"
  by (induction ns arbitrary: A) fastforce+

lemma tree_parent:
  assumes "tree_ok R t" and "n \<in> managedNodes R t"
  shows "\<exists>p. tn_parentId n = Some p \<and> (isAnyRootId R p \<or> p \<in> tn_id ` managedNodes R t)"
  using parents_first_mem [OF tree_walk(3) [OF assms(1)]] assms(2) tree_walk(1) [OF assms(1)]
  by (simp add: isAnyRootId_def)

lemma parent_back:
  assumes R: "roots_ok R" and m: "mapping_ok b" and u: "roots_unmapped R b"
    and nat: "isAnyRootId R p \<Longrightarrow> map_of (canonicalToNative R) (orElse (map_of (nativeToCanonical R) p) p) = Some p"
    and res: "resolves R b p"
  shows "loroParentToChrome R b (chromeParentToLoro R b p) = p
    \<and> (chromeParentToLoro R b p \<in> set CANONICAL_ROOT_IDS \<or> l2c b (chromeParentToLoro R b p) \<noteq> None)"
proof (cases "isAnyRootId R p")
  case True
  then have "c2l b p = None" using u by (simp add: roots_unmapped_def)
  then have c: "chromeParentToLoro R b p = orElse (map_of (nativeToCanonical R) p) p"
    by (simp add: chromeParentToLoro_def split: option.split)
  moreover have "orElse (map_of (nativeToCanonical R) p) p \<in> set CANONICAL_ROOT_IDS"
    using True R by (cases "map_of (nativeToCanonical R) p") (auto simp: roots_ok_def isAnyRootId_def ran_def)
  ultimately show ?thesis using nat [OF True] by (simp add: loroParentToChrome_def)
next
  case False
  with res obtain l where l: "c2l b p = Some l" by (auto simp: resolves_def)
  then have l': "l2c b l = Some p" using m by (simp add: mapping_ok_iff)
  have "map_of (nativeToCanonical R) p = None"
    using False R by (auto simp: roots_ok_def isAnyRootId_def)
  with l have c: "chromeParentToLoro R b p = l" by (simp add: chromeParentToLoro_def)
  have "l \<notin> set CANONICAL_ROOT_IDS" using u l' by (auto simp: roots_unmapped_def)
  then have "map_of (canonicalToNative R) l = None" using R by (auto simp: roots_ok_def)
  with c l' show ?thesis by (simp add: loroParentToChrome_def)
qed

lemma entry_of_agrees:
  assumes "roots_ok R" and "mapping_ok b" and "roots_unmapped R b" and "agrees R b n nd"
    and "tn_parentId n = Some p" and "resolves R b p"
    and "isAnyRootId R p \<Longrightarrow> map_of (canonicalToNative R) (orElse (map_of (nativeToCanonical R) p) p) = Some p"
  shows "entry_of R b n nd"
  using parent_back [OF assms(1-3) assms(7,6)] assms(4,5) by (simp add: entry_of_def agrees_def)

lemma merge_mirrored:
  assumes b: "bridge_ok L uuid R b" and t: "tree_ok R t" and nat: "native_parents R t"
    and dom: "dom (l2c b) = dom (map_of (bookmarks L b))"
    and b': "b' = mergeLocalChanges L uuid R [t] b"
  shows "mirrored L R b' t"
proof -
  note res = merge_result [OF b t b']
  have m: "mapping_ok b" "roots_ok R" and m': "mapping_ok b'" using b res(1) by (simp_all add: bridge_ok_def)
  note u' = res(8)
  have inv: "l2c b' l = Some c \<longleftrightarrow> c2l b' c = Some l" "l2c b l = Some c \<longleftrightarrow> c2l b c = Some l" for l c
    using mapping_ok_iff m m' by blast+
  have dom': "l2c b l \<noteq> None \<longleftrightarrow> map_of (bookmarks L b) l \<noteq> None" for l
    using dom by (auto simp: dom_def)
  have mapped: "\<exists>l nd. c2l b' (tn_id n) = Some l \<and> map_of (bookmarks L b') l = Some nd \<and> agrees R b' n nd"
    if n: "n \<in> managedNodes R t" for n
  proof -
    obtain l where l: "c2l b' (tn_id n) = Some l" and
      *: "c2l b (tn_id n) = None \<or> map_of (bookmarks L b) l \<noteq> None \<Longrightarrow>
         \<exists>nd. map_of (bookmarks L b') l = Some nd \<and> agrees R b' n nd"
      using res(2) [OF n] by blast
    have "c2l b (tn_id n) = None \<or> map_of (bookmarks L b) l \<noteq> None"
    proof (cases "c2l b (tn_id n)")
      case (Some k)
      then have "k = l" using res(7) [of "tn_id n" k] n l by (auto simp: isGone_def)
      then show ?thesis using Some inv(2) dom' [of l] by auto
    qed simp
    with * l show ?thesis by blast
  qed
  have resolve: "\<exists>p. tn_parentId n = Some p \<and> resolves R b' p" if n: "n \<in> managedNodes R t" for n
  proof -
    obtain p where p: "tn_parentId n = Some p" "isAnyRootId R p \<or> p \<in> tn_id ` managedNodes R t"
      using tree_parent [OF t n] by blast
    with mapped show ?thesis unfolding resolves_def by (metis imageE option.distinct(1))
  qed
  have entry: "entry_of R b' n nd" if n: "n \<in> managedNodes R t" "agrees R b' n nd" for n nd
  proof -
    obtain p where p: "tn_parentId n = Some p" "resolves R b' p" using resolve n(1) by blast
    show ?thesis
      by (rule entry_of_agrees [OF m(2) m' u' n(2) p]) (use nat n(1) p(1) in \<open>auto simp: native_parents_def\<close>)
  qed
  have "\<exists>n \<in> managedNodes R t. l2c b' l = Some (tn_id n) \<and> entry_of R b' n nd"
    if nd: "map_of (bookmarks L b') l = Some nd" for l nd
  proof -
    consider "l2c b' l = None" "map_of (bookmarks L b) l = Some nd"
      | n where "n \<in> managedNodes R t" "c2l b' (tn_id n) = Some l" "agrees R b' n nd"
      using res(3) [OF nd] by (elim disjE bexE conjE) auto
    then show ?thesis
    proof cases
      case 1
      then obtain c where c: "l2c b l = Some c" using dom' [of l] by auto
      have "\<not> isGone R t c" using res(4) [OF c] 1(2) nd by auto
      then have "c2l b' c = Some l" using res(7) c inv(2) by blast
      with 1(1) show ?thesis using inv(1) [of l c] by simp
    next
      case 2
      then show ?thesis using entry inv(1) by blast
    qed
  qed
  moreover have "c \<in> tn_id ` managedNodes R t" if c: "l2c b' l = Some c" for l c
  proof (rule ccontr)
    assume "c \<notin> tn_id ` managedNodes R t"
    then have g: "isGone R t c" by (simp add: isGone_def)
    have "l2c b l = Some c" by (rule res(6) [OF c g])
    with res(4) [OF this g] dom' [of l] c show False by simp
  qed
  moreover have "\<exists>l. c2l b' (tn_id n) = Some l \<and> map_of (bookmarks L b') l \<noteq> None" if "n \<in> managedNodes R t" for n
    using mapped [OF that] by blast
  ultimately show ?thesis unfolding mirrored_def by blast
qed

subsection \<open>Whatever fails, the mapping stays consistent\<close>

text \<open>
  What the bridge relies on of chrome.bookmarks: an id is never handed out twice. \<^verbatim>\<open>used\<close>
  reads from the browser state the ids handed out so far.
\<close>

definition ids_fresh :: "'w chrome \<Rightarrow> ('w \<Rightarrow> string set) \<Rightarrow> bool" where
  "ids_fresh A used \<longleftrightarrow>
     (\<forall>p t u w. case ch_create A p t u w of
        (Inl e, w') \<Rightarrow> used w \<subseteq> used w'
      | (Inr i, w') \<Rightarrow> i \<noteq> [] \<and> i \<notin> used w \<and> insert i (used w) \<subseteq> used w')
     \<and> (\<forall>i t u w. used w \<subseteq> used (snd (ch_update A i t u w)))
     \<and> (\<forall>i p k w. used w \<subseteq> used (snd (ch_move A i p k w)))
     \<and> (\<forall>i w. used w \<subseteq> used (snd (ch_removeTree A i w)))"

definition world_ok :: "roots \<Rightarrow> ('w \<Rightarrow> string set) \<Rightarrow> ('d, 'w) bworld \<Rightarrow> bool" where
  "world_ok R used s \<longleftrightarrow> mapping_ok (w_bridge s) \<and> roots_unmapped R (w_bridge s)
     \<and> dom (c2l (w_bridge s)) \<union> set (allNativeRootIds R) \<subseteq> used (w_browser s)"

text \<open>Forgetting a pair, or one already forgotten.\<close>

definition linked_or_gone :: "string \<Rightarrow> string \<Rightarrow> 'd bridge \<Rightarrow> bool" where
  "linked_or_gone l c b \<longleftrightarrow> l2c b l = Some c \<or> l2c b l = None \<and> c2l b c = None"

lemma unlink_gone: "l2c b l = None \<Longrightarrow> c2l b c = None \<Longrightarrow> unlink l c b = b"
  by (simp add: unlink_def l2c_def c2l_def delete_id map_of_eq_None_iff)

lemma linked_unlink:
  assumes "mapping_ok b" and "linked_or_gone l c b"
  shows "mapping_ok (unlink l c b)" and "linked_or_gone l' c' b \<Longrightarrow> linked_or_gone l' c' (unlink l c b)"
proof -
  show "mapping_ok (unlink l c b)"
    using assms mapping_ok_unlink unlink_gone by (metis linked_or_gone_def)
  show "linked_or_gone l' c' (unlink l c b)" if "linked_or_gone l' c' b"
  proof (cases "l2c b l = Some c")
    case True
    then have c: "c2l b c = Some l" using mapping_ok_iff [OF assms(1), of l c] by simp
    have "l' = l \<longleftrightarrow> c' = c" if "l2c b l' = Some c'"
      using that True c mapping_ok_iff [OF assms(1), of l' c'] by auto
    with that show ?thesis by (auto simp: linked_or_gone_def)
  next
    case False
    then have "unlink l c b = b" using assms(2) by (auto simp: linked_or_gone_def intro: unlink_gone)
    with that show ?thesis by simp
  qed
qed

lemma roots_unmapped_unlink: "roots_unmapped R b \<Longrightarrow> roots_unmapped R (unlink l c b)"
  by (simp add: roots_unmapped_def)

lemma world_ok_unlink:
  assumes "world_ok R used s" and "linked_or_gone l c (w_bridge s)"
  shows "world_ok R used (s\<lparr>w_bridge := unlink l c (w_bridge s)\<rparr>)"
  using assms linked_unlink(1) by (auto simp: world_ok_def roots_unmapped_unlink)

lemma world_ok_browser:
  "world_ok R used s \<Longrightarrow> used (w_browser s) \<subseteq> used w \<Longrightarrow> world_ok R used (s\<lparr>w_browser := w\<rparr>)"
  by (auto simp: world_ok_def)

lemma world_ok_frames [simp]:
  "world_ok R used (s\<lparr>w_ignore := k\<rparr>) = world_ok R used s" "world_ok R used (s\<lparr>w_db := x\<rparr>) = world_ok R used s"
  by (simp_all add: world_ok_def)

lemma forget_fold:
  assumes "mapping_ok b" and "linked_or_gone l c b"
  shows "mapping_ok (fold forgetChrome cs b) \<and> linked_or_gone l c (fold forgetChrome cs b)
    \<and> dom (c2l (fold forgetChrome cs b)) \<subseteq> dom (c2l b) \<and> (roots_unmapped R b \<longrightarrow> roots_unmapped R (fold forgetChrome cs b))"
  using assms
proof (induction cs arbitrary: b)
  case (Cons x cs)
  let ?b = "forgetChrome x b"
  have "mapping_ok ?b \<and> linked_or_gone l c ?b \<and> dom (c2l ?b) \<subseteq> dom (c2l b) \<and> (roots_unmapped R b \<longrightarrow> roots_unmapped R ?b)"
  proof (cases "c2l b x")
    case None
    then show ?thesis using Cons.prems by (simp add: forgetChrome_def)
  next
    case (Some k)
    then have "linked_or_gone k x b" using Cons.prems(1) by (simp add: linked_or_gone_def mapping_ok_iff)
    from linked_unlink [OF Cons.prems(1) this] Some Cons.prems show ?thesis
      by (auto simp: forgetChrome_def roots_unmapped_unlink)
  qed
  with Cons.IH [of ?b] show ?case by auto
qed auto

lemma world_ok_purge:
  assumes "world_ok R used s" and "\<And>l c. (l, c) \<in> set es \<Longrightarrow> linked_or_gone l c (w_bridge s)"
  shows "world_ok R used (snd (forA (purgeStale A R current) es s))
    \<and> fst (forA (purgeStale A R current) es s) = Inr ()"
  using assms
proof (induction es arbitrary: s)
  case (Cons e es)
  obtain l c where e: "e = (l, c)" by (cases e)
  define s' where "s' = snd (purgeStale A R current e s)"
  have p: "purgeStale A R current e s = (Inr (), s')" 
    by (auto simp: s'_def e purgeStale_def bridgeA_def)
  have lg: "linked_or_gone l c (w_bridge s)" using Cons.prems(2) e by simp
  have "s' = s \<or> s' = s\<lparr>w_bridge := unlink l c (w_bridge s)\<rparr>"
    by (auto simp: s'_def e purgeStale_def bridgeA_def)
  then have "world_ok R used s' \<and> (\<forall>(l', c') \<in> set es. linked_or_gone l' c' (w_bridge s'))"
  proof
    assume "s' = s"
    with Cons.prems show ?thesis by auto
  next
    assume s': "s' = s\<lparr>w_bridge := unlink l c (w_bridge s)\<rparr>"
    have m: "mapping_ok (w_bridge s)" using Cons.prems(1) by (simp add: world_ok_def)
    show ?thesis
      using world_ok_unlink [OF Cons.prems(1) lg] linked_unlink(2) [OF m lg] Cons.prems(2) by (auto simp: s')
  qed
  with Cons.IH [of s'] p show ?case by auto
qed simp

lemma ids_freshD:
  assumes "ids_fresh A used"
  shows "used w \<subseteq> used (snd (ch_create A p t u w))"
    and "ch_create A p t u w = (Inr i, w') \<Longrightarrow> i \<noteq> [] \<and> i \<notin> used w \<and> insert i (used w) \<subseteq> used w'"
    and "used w \<subseteq> used (snd (ch_update A i t u w))" and "used w \<subseteq> used (snd (ch_move A i p k w))"
    and "used w \<subseteq> used (snd (ch_removeTree A i w))"
proof -
  have c: "case ch_create A p t u w of (Inl e, w') \<Rightarrow> used w \<subseteq> used w'
      | (Inr i, w') \<Rightarrow> i \<noteq> [] \<and> i \<notin> used w \<and> insert i (used w) \<subseteq> used w'"
    by (rule assms [unfolded ids_fresh_def, THEN conjunct1, THEN spec, THEN spec, THEN spec, THEN spec])
  show "used w \<subseteq> used (snd (ch_create A p t u w))"
    using c by (cases "ch_create A p t u w"; cases "fst (ch_create A p t u w)") auto
  show "ch_create A p t u w = (Inr i, w') \<Longrightarrow> i \<noteq> [] \<and> i \<notin> used w \<and> insert i (used w) \<subseteq> used w'"
    using c by simp
qed (use assms in \<open>auto simp: ids_fresh_def\<close>)

lemma browserA_snd [simp]: "snd (browserA m s) = s\<lparr>w_browser := snd (m (w_browser s))\<rparr>"
  by (simp add: browserA_def split: prod.split)

lemma world_ok_delete:
  assumes A: "ids_fresh A used" and s: "world_ok R used s"
  shows "world_ok R used (snd (deleteOne A eff current c deleted s))"
proof -
  obtain r w where rm: "ch_removeTree A c (w_browser s) = (r, w)" by (cases "ch_removeTree A c (w_browser s)")
  let ?s = "s\<lparr>w_browser := w\<rparr>"
  have s': "world_ok R used ?s"
    using world_ok_browser [OF s] ids_freshD(5) [OF A, of "w_browser s" c] rm by simp
  have m: "mapping_ok (w_bridge s)" using s by (simp add: world_ok_def)
  let ?l = "c2l (w_bridge s) c"
  define b where "b = fold forgetChrome (allDescendants current c) (w_bridge s)"
  have lg: "linked_or_gone (the ?l) c (w_bridge s)" if "?l \<noteq> None"
    using that m by (auto simp: linked_or_gone_def mapping_ok_iff)
  have "world_ok R used (?s\<lparr>w_bridge := b\<rparr>) \<and> (?l \<noteq> None \<longrightarrow> linked_or_gone (the ?l) c b)"
  proof (cases ?l)
    case None
    have "linked_or_gone [] [] (w_bridge s)" using m by (simp add: linked_or_gone_def mapping_ok_def)
    from forget_fold [OF m this, of "allDescendants current c" R] None s' show ?thesis
      by (auto simp: world_ok_def b_def)
  next
    case (Some l)
    from forget_fold [OF m lg, of "allDescendants current c" R] Some s' show ?thesis
      by (auto simp: world_ok_def b_def)
  qed
  then have "world_ok R used (?s\<lparr>w_bridge := if truthy ?l then unlink (the ?l) c b else b\<rparr>)"
    using world_ok_unlink [of R used "?s\<lparr>w_bridge := b\<rparr>" "the ?l" c] by (cases ?l) auto
  then show ?thesis
    using s s' rm by (cases r) (auto simp: deleteOne_def Let_def browserA_def b_def split: if_splits)
qed

lemma deleteLoop_inv:
  assumes "\<And>c deleted s. P s \<Longrightarrow> P (snd (deleteOne A eff current c deleted s))" and "P s"
  shows "P (snd (deleteLoop A eff current cs deleted s))"
  using assms(2)
proof (induction cs arbitrary: s deleted)
  case (Cons c cs)
  obtain r s' where r: "deleteOne A eff current c deleted s = (r, s')" by (cases "deleteOne A eff current c deleted s")
  with assms(1) [OF Cons.prems, of c deleted] Cons.IH show ?case by (cases r) (simp_all add: bindA_def)
qed simp

lemma deleteOne_returns: "\<exists>d. fst (deleteOne A eff current c deleted s) = Inr d"
  by (cases "browserA (ch_removeTree A c) s"; cases "fst (browserA (ch_removeTree A c) s)")
     (auto simp: deleteOne_def Let_def)

lemma deleteLoop_returns: "\<exists>d. fst (deleteLoop A eff current cs deleted s) = Inr d"
proof (induction cs arbitrary: deleted s)
  case (Cons c cs)
  obtain d s' where "deleteOne A eff current c deleted s = (Inr d, s')"
    using deleteOne_returns [of A eff current c deleted s] by (metis prod.collapse)
  with Cons show ?case by simp
qed simp

text \<open>Creation: the entries to create are distinct, unmapped and properly named.\<close>

definition creatable :: "(string \<times> bookmark_node) list \<Rightarrow> 'd bridge \<Rightarrow> bool" where
  "creatable es b \<longleftrightarrow> distinct (map fst es)
     \<and> (\<forall>l \<in> fst ` set es. l \<noteq> [] \<and> l \<notin> set CANONICAL_ROOT_IDS \<and> l2c b l = None)"

lemma saveMappingA_frames [simp]:
  "w_bridge (snd (saveMappingA a s)) = w_bridge s" "w_browser (snd (saveMappingA a s)) = w_browser s"
  "w_ignore (snd (saveMappingA a s)) = w_ignore s"
  by (simp_all add: saveMappingA_def split: prod.split)

lemma createOne_cases:
  obtains (skip) "createOne A R a (l, nd) s = (Inr (), s)"
    | (failed) w where "createOne A R a (l, nd) s = (Inr (), s\<lparr>w_browser := w\<rparr>)"
        "w = snd (ch_create A (loroParentToChrome R (w_bridge s) (bn_parentId nd)) (bn_title nd) (bn_url nd) (w_browser s))"
        "isValidChromeParentId R (w_bridge s) (loroParentToChrome R (w_bridge s) (bn_parentId nd))"
    | (created) i w where
        "ch_create A (loroParentToChrome R (w_bridge s) (bn_parentId nd)) (bn_title nd) (bn_url nd) (w_browser s) = (Inr i, w)"
        "createOne A R a (l, nd) s = saveMappingA a (s\<lparr>w_browser := w, w_bridge := link l i (w_bridge s)\<rparr>)"
        "isValidChromeParentId R (w_bridge s) (loroParentToChrome R (w_bridge s) (bn_parentId nd))"
proof -
  let ?p = "loroParentToChrome R (w_bridge s) (bn_parentId nd)"
  obtain r w where c: "ch_create A ?p (bn_title nd) (bn_url nd) (w_browser s) = (r, w)"
    by (cases "ch_create A ?p (bn_title nd) (bn_url nd) (w_browser s)")
  show ?thesis
  proof (cases "isValidChromeParentId R (w_bridge s) ?p")
    case False
    then show ?thesis using skip by (simp add: createOne_def)
  next
    case True
    show ?thesis
    proof (cases r)
      case (Inl x)
      show ?thesis by (rule failed [of w]) (use True c Inl in \<open>simp_all add: createOne_def browserA_def\<close>)
    next
      case (Inr i)
      show ?thesis
        by (rule created [of i w]) (use True c Inr in \<open>simp_all add: createOne_def browserA_def bindA_def bridgeA_def\<close>)
    qed
  qed
qed

lemma world_ok_create:
  assumes A: "ids_fresh A used" and "world_ok R used s" and "creatable (e # es) (w_bridge s)"
  shows "world_ok R used (snd (createOne A R a e s)) \<and> creatable es (w_bridge (snd (createOne A R a e s)))"
proof -
  obtain l nd where e: "e = (l, nd)" by (cases e)
  have rest: "creatable es (w_bridge s)" and l: "l \<notin> fst ` set es" "l \<noteq> []" "l \<notin> set CANONICAL_ROOT_IDS" "l2c (w_bridge s) l = None"
    using assms(3) by (auto simp: creatable_def e)
  show ?thesis
  proof (cases rule: createOne_cases [of A R a l nd s])
    case skip
    with assms(2) rest show ?thesis by (simp add: e)
  next
    case (failed w)
    then have "used (w_browser s) \<subseteq> used w" using ids_freshD(1) [OF A] by simp
    then have "world_ok R used (s\<lparr>w_browser := w\<rparr>)" by (rule world_ok_browser [OF assms(2)])
    with failed(1) rest show ?thesis by (simp add: e)
  next
    case (created i w)
    note i = ids_freshD(2) [OF A created(1)]
    let ?b = "link l i (w_bridge s)"
    have c: "c2l (w_bridge s) i = None" "i \<notin> set (allNativeRootIds R)"
      using assms(2) i by (auto simp: world_ok_def)
    have "mapping_ok ?b"
      using assms(2) i l c by (intro mapping_ok_link) (simp_all add: world_ok_def)
    moreover have "roots_unmapped R ?b"
      using assms(2) l c by (auto simp: world_ok_def roots_unmapped_def isAnyRootId_def)
    moreover have "dom (c2l ?b) \<union> set (allNativeRootIds R) \<subseteq> used w"
      using assms(2) i by (auto simp: world_ok_def)
    moreover have "creatable es ?b" using rest l(1) by (auto simp: creatable_def)
    ultimately show ?thesis by (simp add: e created(2) world_ok_def)
  qed
qed

lemma world_ok_creates:
  assumes A: "ids_fresh A used" and "world_ok R used s" and "creatable es (w_bridge s)"
  shows "world_ok R used (snd (forA (createOne A R a) es s))"
  using assms(2,3)
proof (induction es arbitrary: s)
  case (Cons e es)
  obtain r s' where r: "createOne A R a e s = (r, s')" by (cases "createOne A R a e s")
  with world_ok_create [OF A Cons.prems, of a] Cons.IH [of s'] show ?case
    by (cases r) (simp_all add: bindA_def)
qed simp

text \<open>Updates and moves only pass the browser state on.\<close>

lemma world_same: "Q (w_browser s) \<Longrightarrow> \<exists>w. s = s\<lparr>w_browser := w\<rparr> \<and> Q w"
  by (rule exI [of _ "w_browser s"]) simp

lemma updateOne_browser:
  obtains m' w where "updateOne A R current deleted e m s = (Inr m', s\<lparr>w_browser := w\<rparr>)"
    and "w = w_browser s \<or> (\<exists>c t u. w = snd (ch_update A c t u (w_browser s)) \<and> map_of current c \<noteq> None)"
proof -
  have "\<exists>m' w. updateOne A R current deleted e m s = (Inr m', s\<lparr>w_browser := w\<rparr>)
     \<and> (w = w_browser s \<or> (\<exists>c t u. w = snd (ch_update A c t u (w_browser s)) \<and> map_of current c \<noteq> None))"
  proof -
    obtain l nd where e: "e = (l, nd)" by (cases e)
    have same: "s = s\<lparr>w_browser := w_browser s\<rparr>" by simp
    show ?thesis
    proof (cases "l2c (w_bridge s) l")
      case (Some c)
      then show ?thesis
        by (cases "map_of current c") (auto simp: updateOne_def e Let_def intro: same)
    qed (auto simp: updateOne_def e intro: same)
  qed
  then show ?thesis using that by blast
qed

lemma updateLoop_inv:
  assumes "\<And>c t u w. map_of current c \<noteq> None \<Longrightarrow> Q w \<Longrightarrow> Q (snd (ch_update A c t u w))" and "Q (w_browser s)"
  shows "\<exists>m' w. updateLoop A R current deleted es m s = (Inr m', s\<lparr>w_browser := w\<rparr>) \<and> Q w"
  using assms(2)
proof (induction es arbitrary: m s)
  case (Cons e es)
  obtain m1 w where u: "updateOne A R current deleted e m s = (Inr m1, s\<lparr>w_browser := w\<rparr>)"
    and w: "w = w_browser s \<or> (\<exists>c t u. w = snd (ch_update A c t u (w_browser s)) \<and> map_of current c \<noteq> None)"
    by (rule updateOne_browser)
  have "Q w" using w assms(1) Cons.prems by (elim disjE exE conjE) simp_all
  with Cons.IH [of "s\<lparr>w_browser := w\<rparr>" m1] u show ?case by auto
qed (simp add: world_same)

lemma moveFolder_inv:
  assumes "\<And>c k w. c \<in> fst ` set es \<Longrightarrow> Q w \<Longrightarrow> Q (snd (ch_move A c p k w))" and "Q (w_browser s)"
  shows "\<exists>w. moveFolder A (p, es) s = (Inr (), s\<lparr>w_browser := w\<rparr>) \<and> Q w"
proof -
  let ?body = "\<lambda>(i, (c, nd :: bookmark_node, n :: tree_node)) s. (Inr () :: js_error + unit, snd (browserA (ch_move A c p i) s))"
  have loop: "\<exists>w. forA ?body xs s = (Inr (), s\<lparr>w_browser := w\<rparr>) \<and> Q w"
    if "\<forall>x \<in> set xs. fst (snd x) \<in> fst ` set es" "Q (w_browser s)" for xs s
    using that
  proof (induction xs arbitrary: s)
    case (Cons x xs)
    obtain i c nd n where x: "x = (i, c, nd, n)" by (metis prod.collapse)
    let ?w = "snd (ch_move A c p i (w_browser s))"
    have "Q ?w" using Cons.prems assms(1) x by simp
    with Cons.IH [of "s\<lparr>w_browser := ?w\<rparr>"] Cons.prems(1) x show ?case by auto
  qed (simp add: world_same)
  let ?ss = "sort_key (\<lambda>(c, nd, n). bn_index nd) es"
  have "\<forall>x \<in> set (zip [0..<length ?ss] ?ss). fst (snd x) \<in> fst ` set es"
    by (auto dest!: set_zip_rightD simp: image_iff)
  from loop [OF this assms(2)] assms(2) show ?thesis
    by (auto simp: moveFolder_def Let_def intro: exI [of _ "w_browser s"])
qed

text \<open>Steps 3 and 4 together: only the browser changes, by updates and moves of snapshot nodes.\<close>

definition snapshotEntries :: "(string \<times> tree_node) list \<Rightarrow> (string \<times> folder_entry list) list \<Rightarrow> bool" where
  "snapshotEntries current m \<longleftrightarrow> (\<forall>p es. (p, es) \<in> set m \<longrightarrow> (\<forall>c \<in> fst ` set es. map_of current c \<noteq> None))"

lemma snapshotEntries_push:
  assumes "snapshotEntries current m" and "map_of current c \<noteq> None"
  shows "snapshotEntries current (pushTo p (c, x) m)"
proof -
  have "(p', es) \<in> set (AList.update p v m) \<Longrightarrow> (p', es) \<in> set m \<or> (p' = p \<and> es = v)" for p' es v
    by (induction m) (auto split: if_splits)
  moreover have "map_of m p = Some es \<Longrightarrow> (p, es) \<in> set m" for es by (rule map_of_SomeD)
  ultimately show ?thesis
    using assms unfolding snapshotEntries_def pushTo_def
    by (cases "map_of m p") fastforce+
qed

lemma updateLoop_entries:
  "snapshotEntries current m \<Longrightarrow> updateLoop A R current deleted es m s = (Inr m', s') \<Longrightarrow> snapshotEntries current m'"
proof (induction es arbitrary: m s)
  case (Cons e es)
  obtain m1 s1 where u: "updateOne A R current deleted e m s = (Inr m1, s1)"
    by (rule updateOne_browser)
  obtain l nd where e: "e = (l, nd)" by (cases e)
  have "snapshotEntries current m1"
    using u Cons.prems(1) snapshotEntries_push [OF Cons.prems(1)]
    by (auto simp: updateOne_def e Let_def split: option.splits if_splits)
  with Cons u show ?case by auto
qed simp

lemma steps34:
  assumes "\<And>c t u w. map_of current c \<noteq> None \<Longrightarrow> Q w \<Longrightarrow> Q (snd (ch_update A c t u w))"
    and "\<And>c p k w. map_of current c \<noteq> None \<Longrightarrow> Q w \<Longrightarrow> Q (snd (ch_move A c p k w))" and "Q (w_browser s)"
  shows "\<exists>w. bindA (updateLoop A R current deleted eff []) (\<lambda>byFolder. forA (moveFolder A) byFolder) s
     = (Inr (), s\<lparr>w_browser := w\<rparr>) \<and> Q w"
proof -
  obtain m w where u: "updateLoop A R current deleted eff [] s = (Inr m, s\<lparr>w_browser := w\<rparr>)" and w: "Q w"
    using updateLoop_inv [of current Q A s R deleted eff "[]"] assms by blast
  have m: "snapshotEntries current m"
    by (rule updateLoop_entries [OF _ u]) (simp add: snapshotEntries_def)
  have "\<exists>w. forA (moveFolder A) fs t = (Inr (), t\<lparr>w_browser := w\<rparr>) \<and> Q w"
    if "set fs \<subseteq> set m" "Q (w_browser t)" for fs t
    using that
  proof (induction fs arbitrary: t)
    case (Cons f fs)
    obtain p es where f: "f = (p, es)" by (cases f)
    have "map_of current c \<noteq> None" if "c \<in> fst ` set es" for c
      using m Cons.prems(1) f that unfolding snapshotEntries_def by auto
    then obtain w1 where "moveFolder A f t = (Inr (), t\<lparr>w_browser := w1\<rparr>)" "Q w1"
      using moveFolder_inv [of es Q A p t] assms(2) Cons.prems(2) f by blast
    with Cons.IH [of "t\<lparr>w_browser := w1\<rparr>"] Cons.prems(1) show ?case by auto
  qed (simp add: world_same)
  from this [of m "s\<lparr>w_browser := w\<rparr>"] w u show ?thesis by auto
qed

text \<open>The entries to create of a document whose ids are proper.\<close>

definition doc_ids_ok :: "bookmarks \<Rightarrow> bool" where
  "doc_ids_ok d \<longleftrightarrow> distinct (map fst d) \<and> (\<forall>l \<in> fst ` set d. l \<noteq> [] \<and> l \<notin> set CANONICAL_ROOT_IDS)"

lemma dropOrphans_facts:
  assumes "distinct (map fst d)"
  shows "distinct (map fst (dropOrphans mapped d))"
    and "map_of (dropOrphans mapped d) l = Some nd \<Longrightarrow> map_of d l = Some nd"
    and "fst ` set (dropOrphans mapped d) \<subseteq> fst ` set d"
    and "closed_ids mapped d (dom (map_of (dropOrphans mapped d)))"
    and "closed_ids mapped d S \<Longrightarrow> S \<subseteq> dom (map_of (dropOrphans mapped d))"
proof -
  have "orphan_inv mapped d d" using assms by (auto simp: orphan_inv_def closed_ids_def)
  note o = dropOrphans_inv [OF this] and i = this [unfolded orphan_inv_def]
  from o have inv: "orphan_inv mapped d (dropOrphans mapped d)" by (rule conjunct1)
  show "distinct (map fst (dropOrphans mapped d))"
    using inv unfolding orphan_inv_def by (rule conjunct1)
  show sub: "map_of (dropOrphans mapped d) l = Some nd \<Longrightarrow> map_of d l = Some nd" for l nd
    using inv unfolding orphan_inv_def by blast
  show "fst ` set (dropOrphans mapped d) \<subseteq> fst ` set d"
  proof
    fix l assume "l \<in> fst ` set (dropOrphans mapped d)"
    then obtain nd where "map_of (dropOrphans mapped d) l = Some nd"
      by (metis domD dom_map_of_conv_image_fst)
    from sub [OF this] show "l \<in> fst ` set d" by (metis domI dom_map_of_conv_image_fst)
  qed
  show "closed_ids mapped d (dom (map_of (dropOrphans mapped d)))" using o by (rule conjunct2)
  show "closed_ids mapped d S \<Longrightarrow> S \<subseteq> dom (map_of (dropOrphans mapped d))"
    using inv unfolding orphan_inv_def by blast
qed

lemma toCreate_creatable:
  assumes "doc_ids_ok d" shows "creatable (toCreate (dropOrphans mapped d) b) b"
proof -
  let ?eff = "dropOrphans mapped d"
  let ?f = "filter (\<lambda>(l, nd). l2c b l = None) ?eff"
  have d: "distinct (map fst d)" using assms by (simp add: doc_ids_ok_def)
  have f: "distinct (map fst ?f)"
    by (rule distinct_map_filter [OF dropOrphans_facts(1) [OF d]])
  then have "topo_inv A ?f A (newMap ?f) []" for A by (simp add: topo_inv_def newMap_distinct)
  from topoLoop_sound [OF this] have ms: "mset (toCreate ?eff b) = mset ?f"
    unfolding toCreate_def topoSort_def by metis
  have s: "set (toCreate ?eff b) = set ?f" by (rule mset_eq_setD [OF ms])
  have "mset (map fst (toCreate ?eff b)) = mset (map fst ?f)" by (simp only: mset_map ms)
  from mset_eq_imp_distinct_iff [OF this] f have "distinct (map fst (toCreate ?eff b))" by (rule iffD2)
  moreover have "l \<noteq> [] \<and> l \<notin> set CANONICAL_ROOT_IDS \<and> l2c b l = None" if l: "l \<in> fst ` set (toCreate ?eff b)" for l
  proof -
    have "l2c b l = None" "l \<in> fst ` set ?eff" using l unfolding s by force+
    then have "l \<in> fst ` set d" using dropOrphans_facts(3) [OF d] by blast
    with \<open>l2c b l = None\<close> assms show ?thesis by (simp only: doc_ids_ok_def) simp
  qed
  ultimately show ?thesis unfolding creatable_def by (intro conjI ballI) auto
qed

lemma reconcileBody_world_ok:
  assumes A: "ids_fresh A used" and s: "world_ok R used s" and d: "doc_ids_ok desired"
  shows "world_ok R used (snd (reconcileBody L A R a desired current s))"
proof -
  have "linked_or_gone l c (w_bridge s)" if "(l, c) \<in> set (loroToChrome (w_bridge s))" for l c
    using that s by (simp add: linked_or_gone_def world_ok_def mapping_ok_def l2c_def)
  with world_ok_purge [OF s] obtain s1 where s1: "forA (purgeStale A R current) (loroToChrome (w_bridge s)) s = (Inr (), s1)"
    and ok1: "world_ok R used s1" by (metis prod.collapse)
  let ?eff = "dropOrphans (l2c (w_bridge s1)) desired"
  obtain del s2 where s2: "deleteLoop A ?eff current (map fst (objectEntries current)) {} s1 = (Inr del, s2)"
    using deleteLoop_returns by (metis prod.collapse)
  have ok2: "world_ok R used s2"
    using deleteLoop_inv [of "world_ok R used" A ?eff current s1, OF world_ok_delete [OF A] ok1] s2 by (metis snd_conv)
  obtain r s3 where s3: "forA (createOne A R a) (toCreate ?eff (w_bridge s2)) s2 = (r, s3)"
    by (cases "forA (createOne A R a) (toCreate ?eff (w_bridge s2)) s2")
  have ok3: "world_ok R used s3"
    using world_ok_creates [OF A ok2 toCreate_creatable [OF d]] s3 by (metis snd_conv)
  obtain w where s4: "bindA (updateLoop A R current del ?eff []) (\<lambda>byFolder. forA (moveFolder A) byFolder) s3
      = (Inr (), s3\<lparr>w_browser := w\<rparr>)" and w: "used (w_browser s3) \<subseteq> used w"
    using steps34 [of current "\<lambda>w. used (w_browser s3) \<subseteq> used w" A s3 R del ?eff] ids_freshD(3,4) [OF A] by blast
  show ?thesis
    using ok3 world_ok_browser [OF ok3 w] s4
    by (cases r) (simp_all add: reconcileBody_def bindA_def s1 s2 s3)
qed

lemma reconcile_world_ok:
  assumes "ids_fresh A used" and "world_ok R used s" and "doc_ids_ok (bookmarks L (w_bridge s))"
  shows "world_ok R used (snd (reconcile L A R a s))"
proof -
  let ?cur = "currentChrome R (ch_getTree A (w_browser s))"
  let ?s = "s\<lparr>w_ignore := w_ignore s + 1\<rparr>"
  obtain r s' where r: "reconcileBody L A R a (bookmarks L (w_bridge s)) ?cur ?s = (r, s')"
    by (cases "reconcileBody L A R a (bookmarks L (w_bridge s)) ?cur ?s")
  with reconcileBody_world_ok [OF assms(1) _ assms(3), of R ?s L a ?cur] assms(2)
  have "world_ok R used s'" by simp
  then show ?thesis
    by (cases r) (simp_all add: reconcile_def withEchoFilter_def bindA_def r saveMappingA_def split: prod.split)
qed

subsection \<open>A browser for the examples\<close>

text \<open>
  A browser whose tree is fixed and which refuses every change but the creation of a bookmark;
  the ids it hands out count upwards.
\<close>

definition refusing :: "tree_node \<Rightarrow> nat chrome" where
  "refusing t =
     \<lparr>ch_getTree = (\<lambda>k. [t]), ch_get = (\<lambda>i k. Inl (JsError ''no such bookmark'')),
      ch_getChildren = (\<lambda>i k. Inl (JsError ''no such bookmark'')),
      ch_create = (\<lambda>p u t k. (Inr (replicate (Suc (Suc k)) (CHR ''c'')), Suc k)),
      ch_update = (\<lambda>i u t k. (Inl (JsError ''refused''), k)),
      ch_move = (\<lambda>i p j k. (Inl (JsError ''refused''), k)),
      ch_removeTree = (\<lambda>i k. (Inl (JsError ''refused''), k))\<rparr>"

definition refusingUsed :: "nat \<Rightarrow> string set" where
  "refusingUsed k = set CANONICAL_ROOT_IDS \<union> {replicate (Suc (Suc j)) (CHR ''c'') |j. j < k}"

lemma refusing_fresh: "ids_fresh (refusing t) refusingUsed"
proof -
  have "replicate (Suc (Suc k)) (CHR ''c'') \<notin> refusingUsed k" for k
  proof
    assume "replicate (Suc (Suc k)) (CHR ''c'') \<in> refusingUsed k"
    then consider "replicate (Suc (Suc k)) (CHR ''c'') \<in> set CANONICAL_ROOT_IDS"
      | j where "j < k" "replicate (Suc (Suc k)) (CHR ''c'') = replicate (Suc (Suc j)) (CHR ''c'')"
      unfolding refusingUsed_def by blast
    then show False
      by cases (simp add: CANONICAL_ROOT_IDS_def, metis length_replicate Suc_inject less_irrefl)
  qed
  moreover have "insert (replicate (Suc (Suc k)) (CHR ''c'')) (refusingUsed k) \<subseteq> refusingUsed (Suc k)" for k
    unfolding refusingUsed_def by (auto simp: less_Suc_eq)
  ultimately show ?thesis by (simp add: ids_fresh_def refusing_def)
qed

definition example_auth_bridge :: auth where
  "example_auth_bridge = setSession ''t'' ''e'' [1] [1] ''k'' ''u'' [] ''p1'' freshAuth"

lemma example_auth_bridge_profile [simp]: "getActiveProfileId example_auth_bridge = Inr ''p1''"
  by (simp add: example_auth_bridge_def getActiveProfileId_def setSession_def)

definition example_world :: "'d bridge \<Rightarrow> ('d, nat) bworld" where
  "example_world b = \<lparr>w_bridge = b, w_db = emptyDb, w_browser = 0, w_ignore = 0\<rparr>"

subsection \<open>Properties\<close>

text \<open>
  C12. What the user did offline is never undone by the reconcile that follows: when document and
  mapping name the same entries, a reconcile right after mergeLocalChangesIntoDoc, on the same
  browser tree, succeeds without a single call that changes the browser and leaves the bridge and
  the echo counter as they were.
\<close>

theorem merge_then_reconcile_keeps_browser:
  assumes "bridge_ok L uuid R (w_bridge s)" and "tree_ok R t" and "native_parents R t"
    and "ch_getTree A (w_browser s) = [t]" and "getActiveProfileId a = Inr p"
    and "dom (l2c (w_bridge s)) = dom (map_of (bookmarks L (w_bridge s)))"
    and "mergeLocalChangesIntoDoc L uuid R a [t] (w_bridge s, w_db s) = (Inr (), (b', db'))"
  shows "\<exists>s'. reconcile L A R a (s\<lparr>w_bridge := b', w_db := db'\<rparr>) = (Inr (), s')
    \<and> w_browser s' = w_browser s \<and> w_bridge s' = b' \<and> w_ignore s' = w_ignore s"
proof -
  have b': "b' = mergeLocalChanges L uuid R [t] (w_bridge s)"
    using assms(7) by (auto simp: mergeLocalChangesIntoDoc_def Let_def split: prod.splits)
  have "mirrored L R b' t" by (rule merge_mirrored [OF assms(1,2,3,6) b'])
  moreover have "mapping_ok b'" using merge_result(1) [OF assms(1,2) b'] .
  moreover have "loro_map_ok L" using assms(1) by (simp add: bridge_ok_def)
  ultimately show ?thesis
    using reconcile_mirrored [of L "s\<lparr>w_bridge := b', w_db := db'\<rparr>" R t A a p] assms(2,4,5) by simp
qed

lemma example_native_parents: "native_parents defaultRoots example_tree"
  unfolding native_parents_def managedNodes_def
  by (simp add: example_tree_def defaultRoots_def CANONICAL_ROOT_IDS_def isAnyRootId_def excluded_def isVirtualRootId_def)

lemma merge_then_reconcile_keeps_browser_witness:
  "\<exists>b' db' s'. mergeLocalChangesIntoDoc example_loro example_uuid defaultRoots example_auth_bridge [example_tree]
       (emptyBridge example_loro, emptyDb) = (Inr (), (b', db'))
     \<and> reconcile example_loro (refusing example_tree) defaultRoots example_auth_bridge
         ((example_world (emptyBridge example_loro))\<lparr>w_bridge := b', w_db := db'\<rparr>) = (Inr (), s')
     \<and> w_browser s' = 0 \<and> w_bridge s' = b'"
proof -
  let ?b = "emptyBridge example_loro"
  obtain b' db' where m: "mergeLocalChangesIntoDoc example_loro example_uuid defaultRoots example_auth_bridge [example_tree]
       (?b, emptyDb) = (Inr (), (b', db'))"
    by (simp add: mergeLocalChangesIntoDoc_def Let_def saveMapping_def)
  have t: "ch_getTree (refusing example_tree) (w_browser (example_world ?b)) = [example_tree]"
    by (simp add: refusing_def)
  have d: "dom (l2c (w_bridge (example_world ?b))) = dom (map_of (bookmarks example_loro (w_bridge (example_world ?b))))"
    by (simp add: example_world_def example_loro_ok dom_def)
  have b: "bridge_ok example_loro example_uuid defaultRoots (w_bridge (example_world ?b))"
    using example_bridge_ok by (simp add: example_world_def)
  have m': "mergeLocalChangesIntoDoc example_loro example_uuid defaultRoots example_auth_bridge [example_tree]
       (w_bridge (example_world ?b), w_db (example_world ?b)) = (Inr (), (b', db'))"
    using m by (simp add: example_world_def)
  from merge_then_reconcile_keeps_browser [OF b example_tree_ok example_native_parents t example_auth_bridge_profile d m'] m
  show ?thesis by (auto simp: example_world_def)
qed

text \<open>
  C14. The id mapping survives every failure: as long as the browser never hands out an id twice,
  a reconcile keeps the two maps inverse to each other and the roots unmapped -- whatever calls
  fail, whatever tree and document it meets, and also when it throws.
\<close>

theorem reconcile_keeps_mapping:
  assumes "ids_fresh A used" and "world_ok R used s" and "doc_ids_ok (bookmarks L (w_bridge s))"
    and "reconcile L A R a s = (r, s')"
  shows "mapping_ok (w_bridge s') \<and> roots_unmapped R (w_bridge s') \<and> dom (c2l (w_bridge s')) \<subseteq> used (w_browser s')"
  using reconcile_world_ok [OF assms(1-3), of a] assms(4) by (simp add: world_ok_def)

text \<open>A document with an entry this device does not have yet, so that the reconcile creates it.\<close>

definition example_pending :: "bookmarks bridge" where
  "example_pending = (emptyBridge example_loro)\<lparr>doc :=
     [(''u'', \<lparr>bn_title = ''A'', bn_url = Some ''http://a'', bn_parentId = ''1'', bn_index = 0, bn_type = BookmarkT\<rparr>)]\<rparr>"

lemma reconcile_keeps_mapping_witness:
  "\<exists>r s'. reconcile example_loro (refusing example_tree) defaultRoots example_auth_bridge (example_world example_pending) = (r, s')
     \<and> mapping_ok (w_bridge s')"
proof -
  let ?s = "example_world example_pending"
  obtain r s' where r: "reconcile example_loro (refusing example_tree) defaultRoots example_auth_bridge ?s = (r, s')"
    by (metis prod.collapse)
  have e: "l2c example_pending = Map.empty" "c2l example_pending = Map.empty"
    by (simp_all add: example_pending_def fun_eq_iff)
  have "mapping_ok example_pending" by (simp add: example_pending_def)
  then have w: "world_ok defaultRoots refusingUsed ?s"
    by (simp add: world_ok_def roots_unmapped_def example_world_def e refusingUsed_def defaultRoots_def)
  have d: "doc_ids_ok (bookmarks example_loro (w_bridge ?s))"
    by (simp add: doc_ids_ok_def bookmarks_def example_world_def example_pending_def example_loro_def CANONICAL_ROOT_IDS_def)
  from reconcile_keeps_mapping [OF refusing_fresh w d r] r show ?thesis by blast
qed

end
