(* ===== verification/Listeners.thy ===== *)
theory Listeners
  imports Reconcile_Correct Delta_Queue
begin

text \<open>
  extension/src/bookmarks/bridge.ts, lines 203-382 and 548-557: what the bridge does with the
  bookmark events of the browser. A handler runs up to its first await; the creation of a
  bookmark then waits for chrome.bookmarks.get, once for the bookmark and once for every unmapped
  ancestor, and other events are handled meanwhile. The waiting creations are the list
  \<^verbatim>\<open>tasks\<close>; \<^verbatim>\<open>resume\<close> continues one of them with the reply the browser
  gives at that moment. Everything between two replies is one step.
\<close>

subsection \<open>State\<close>

text \<open>Random ids, nonces and the clock are read from streams at the counter \<^verbatim>\<open>uuids\<close>.\<close>

record env =
  e_crypto :: webcrypto
  e_uuid :: "nat \<Rightarrow> string"
  e_iv :: "nat \<Rightarrow> bytes"
  e_now :: "nat \<Rightarrow> int"

text \<open>
  A creation that waits: for its live node, or for a folder on the way up (the parent and index
  found, the folders fetched so far with the topmost first, the id asked for).
\<close>

datatype task =
    Fetch tree_node
  | Ancestors tree_node string int "tree_node list" string

record ('d, 'w) listening =
  ls_world :: "('d, 'w) bworld"
  ls_attached :: bool
  ls_tasks :: "task list"
  ls_pushPaused :: bool
  ls_pushes :: nat

definition worldA :: "(('d, 'w) bworld, 'a) act \<Rightarrow> (('d, 'w) listening, 'a) act" where
  "worldA m s = (case m (ls_world s) of (r, w) \<Rightarrow> (r, s\<lparr>ls_world := w\<rparr>))"

definition quietly :: "('s, unit) act \<Rightarrow> 's \<Rightarrow> 's" where
  "quietly m s = snd (m s)"

subsection \<open>The version cursor\<close>

definition resetVersionCursor :: "'d loro \<Rightarrow> 'd bridge \<Rightarrow> 'd bridge" where
  "resetVersionCursor L b = b\<lparr>lastVersion := Some (loro_version L (doc b))\<rparr>"

text \<open>The cursor moves before the delta is sealed and queued, which can throw.\<close>

definition exportAndEnqueueLocalChanges ::
  "'d loro \<Rightarrow> env \<Rightarrow> auth \<Rightarrow> (('d, 'w) bworld, unit) act" where
  "exportAndEnqueueLocalChanges L E a s =
     (let b = w_bridge s; k = uuids b
      in case exportFrom L (lastVersion b) (Some (doc b)) of
           Inl e \<Rightarrow> (Inl e, s)
         | Inr delta \<Rightarrow>
             (case enqueueDelta (e_crypto E) (e_iv E k) (e_uuid E k) (e_now E k) a delta (w_db s) of
                (r, db) \<Rightarrow> (r, s\<lparr>w_bridge := resetVersionCursor L (b\<lparr>uuids := Suc k\<rparr>), w_db := db\<rparr>)))"

definition onLocalChange :: "'d loro \<Rightarrow> env \<Rightarrow> auth \<Rightarrow> (('d, 'w) listening, unit) act" where
  "onLocalChange L E a =
     bindA (worldA (exportAndEnqueueLocalChanges L E a)) (\<lambda>_ s.
       (Inr (), if ls_pushPaused s then s else s\<lparr>ls_pushes := Suc (ls_pushes s)\<rparr>))"

subsection \<open>Attaching and detaching\<close>

definition detachBookmarkListeners :: "('d, 'w) listening \<Rightarrow> ('d, 'w) listening" where
  "detachBookmarkListeners s =
     s\<lparr>ls_attached := False, ls_world := (ls_world s)\<lparr>w_bridge := (w_bridge (ls_world s))\<lparr>lastVersion := None\<rparr>\<rparr>\<rparr>"

definition attachBookmarkListeners :: "('d, 'w) listening \<Rightarrow> ('d, 'w) listening" where
  "attachBookmarkListeners s = (detachBookmarkListeners s)\<lparr>ls_attached := True\<rparr>"

subsection \<open>ensureAncestorsMapped\<close>

text \<open>A call returns at once for a root or a mapped folder, else it asks for the folder.\<close>

datatype asked = Known string | Ask string

definition ancestorsCall :: "roots \<Rightarrow> 'd bridge \<Rightarrow> string \<Rightarrow> asked" where
  "ancestorsCall R b chromeParentId =
     (if isAnyRootId R chromeParentId then Known (orElse (map_of (nativeToCanonical R) chromeParentId) chromeParentId)
      else if truthy (c2l b chromeParentId) then Known (the (c2l b chromeParentId))
      else Ask chromeParentId)"

text \<open>On the way back down every fetched folder is mapped and set, the topmost first.\<close>

fun mapAncestors :: "'d loro \<Rightarrow> (nat \<Rightarrow> string) \<Rightarrow> tree_node list \<Rightarrow> string \<Rightarrow> 'd bridge \<Rightarrow> string \<times> 'd bridge" where
  "mapAncestors L uuid [] parentLoroId b = (parentLoroId, b)"
| "mapAncestors L uuid (folder # below) parentLoroId b =
     (let loroId = uuid (uuids b);
          b' = link loroId (tn_id folder) (b\<lparr>uuids := Suc (uuids b)\<rparr>)
      in mapAncestors L uuid below loroId (putBookmark L loroId (toNode folder parentLoroId) b'))"

subsection \<open>onCreated\<close>

definition onCreate :: "tree_node \<Rightarrow> ('d, 'w) listening \<Rightarrow> ('d, 'w) listening" where
  "onCreate node s =
     (if isIgnoring (ls_world s) then s
      else if c2l (w_bridge (ls_world s)) (tn_id node) \<noteq> None then s
      else s\<lparr>ls_tasks := ls_tasks s @ [Fetch node]\<rparr>)"

definition liveNode :: "tree_node \<Rightarrow> string \<Rightarrow> int \<Rightarrow> tree_node" where
  "liveNode node liveParentId liveIndex =
     TreeNode (tn_id node) (Some liveParentId) (Some liveIndex) (tn_title node) (tn_url node) (tn_children node)"

text \<open>The rest of a creation once the parent is known: map, set, save, export.\<close>

definition finishCreate ::
  "'d loro \<Rightarrow> env \<Rightarrow> auth \<Rightarrow> tree_node \<Rightarrow> string \<Rightarrow> int \<Rightarrow> tree_node list \<Rightarrow> string
     \<Rightarrow> (('d, 'w) listening, unit) act" where
  "finishCreate L E a node liveParentId liveIndex folders topId s =
     (case mapAncestors L (e_uuid E) folders topId (w_bridge (ls_world s)) of
        (parentLoroId, b) \<Rightarrow>
          (let loroId = e_uuid E (uuids b);
               b1 = link loroId (tn_id node) (b\<lparr>uuids := Suc (uuids b)\<rparr>);
               b2 = putBookmark L loroId (toNode (liveNode node liveParentId liveIndex) parentLoroId) b1
           in bindA (worldA (saveMappingA a)) (\<lambda>_. onLocalChange L E a)
                (s\<lparr>ls_world := (ls_world s)\<lparr>w_bridge := b2\<rparr>\<rparr>)))"

text \<open>
  A reply arrives. None: the creation is over (done, given up, or failed with its error logged);
  Some: what it waits for next.
\<close>

definition resume ::
  "'d loro \<Rightarrow> 'w chrome \<Rightarrow> roots \<Rightarrow> env \<Rightarrow> auth \<Rightarrow> task \<Rightarrow> ('d, 'w) listening \<Rightarrow> task option \<times> ('d, 'w) listening" where
  "resume L A R E a tk s =
     (let w = ls_world s; b = w_bridge w
      in case tk of
           Fetch node \<Rightarrow>
             (case ch_get A (tn_id node) (w_browser w) of
                Inl e \<Rightarrow> (None, s)
              | Inr None \<Rightarrow> (None, s)
              | Inr (Some live) \<Rightarrow>
                  (if c2l b (tn_id node) \<noteq> None then (None, s)
                   else
                     (let liveParentId = orElse (tn_parentId live) (orElse (tn_parentId node) ''1'');
                          liveIndex = orElse (tn_index live) (orElse (tn_index node) 0)
                      in case ancestorsCall R b liveParentId of
                           Known p \<Rightarrow> (None, quietly (finishCreate L E a node liveParentId liveIndex [] p) s)
                         | Ask q \<Rightarrow> (Some (Ancestors node liveParentId liveIndex [] q), s))))
         | Ancestors node liveParentId liveIndex folders q \<Rightarrow>
             (case ch_get A q (w_browser w) of
                Inl e \<Rightarrow> (None, quietly (finishCreate L E a node liveParentId liveIndex folders ''2'') s)
              | Inr None \<Rightarrow> (None, s)
              | Inr (Some folder) \<Rightarrow>
                  (if (case tn_parentId folder of None \<Rightarrow> False | Some p \<Rightarrow> isVirtualRootId R p)
                   then (None, quietly (finishCreate L E a node liveParentId liveIndex folders ''2'') s)
                   else
                     (case ancestorsCall R b (orElse (tn_parentId folder) ''1'') of
                        Known p \<Rightarrow> (None, quietly (finishCreate L E a node liveParentId liveIndex (folder # folders) p) s)
                      | Ask q' \<Rightarrow> (Some (Ancestors node liveParentId liveIndex (folder # folders) q'), s)))))"

subsection \<open>onRemoved\<close>

definition purgeOne :: "'d loro \<Rightarrow> string \<Rightarrow> 'd bridge \<Rightarrow> 'd bridge" where
  "purgeOne L chromeId b =
     (if truthy (c2l b chromeId)
      then dropBookmark L (the (c2l b chromeId)) (unlink (the (c2l b chromeId)) chromeId b) else b)"

fun purge :: "'d loro \<Rightarrow> tree_node \<Rightarrow> 'd bridge \<Rightarrow> 'd bridge" where
  "purge L (TreeNode i p ix t u cs) b = fold (purge L) cs (purgeOne L i b)"

definition onRemove :: "'d loro \<Rightarrow> env \<Rightarrow> auth \<Rightarrow> tree_node \<Rightarrow> ('d, 'w) listening \<Rightarrow> ('d, 'w) listening" where
  "onRemove L E a node s =
     (if isIgnoring (ls_world s) then s
      else
        (let s1 = s\<lparr>ls_world := (ls_world s)\<lparr>w_bridge := purge L node (w_bridge (ls_world s))\<rparr>\<rparr>
         in quietly (onLocalChange L E a) (quietly (worldA (saveMappingA a)) s1)))"

subsection \<open>onChanged\<close>

definition onChange ::
  "'d loro \<Rightarrow> env \<Rightarrow> auth \<Rightarrow> string \<Rightarrow> string option \<Rightarrow> string option \<Rightarrow> ('d, 'w) listening \<Rightarrow> ('d, 'w) listening" where
  "onChange L E a i title url s =
     (let b = w_bridge (ls_world s)
      in if isIgnoring (ls_world s) then s
         else if \<not> truthy (c2l b i) then s
         else
           (case map_of (bookmarks L b) (the (c2l b i)) of
              None \<Rightarrow> s
            | Some existing \<Rightarrow>
                (let b' = putBookmark L (the (c2l b i))
                       (existing\<lparr>bn_title := orElse title (bn_title existing),
                                 bn_url := (case url of None \<Rightarrow> bn_url existing | Some u \<Rightarrow> Some u)\<rparr>) b
                 in quietly (onLocalChange L E a) (s\<lparr>ls_world := (ls_world s)\<lparr>w_bridge := b'\<rparr>\<rparr>))))"

subsection \<open>onMoved\<close>

definition moveChild :: "'d loro \<Rightarrow> string \<Rightarrow> nat \<times> tree_node \<Rightarrow> 'd bridge \<Rightarrow> 'd bridge" where
  "moveChild L parentLoroId = (\<lambda>(idx, child) b.
     if \<not> truthy (c2l b (tn_id child)) then b
     else
       (case map_of (bookmarks L b) (the (c2l b (tn_id child))) of
          None \<Rightarrow> b
        | Some existing \<Rightarrow>
            putBookmark L (the (c2l b (tn_id child)))
              (existing\<lparr>bn_parentId := parentLoroId, bn_index := int idx\<rparr>) b))"

definition moveFolderChildren :: "'d loro \<Rightarrow> 'w chrome \<Rightarrow> roots \<Rightarrow> string \<Rightarrow> (('d, 'w) bworld, unit) act" where
  "moveFolderChildren L A R folderId s =
     (case ch_getChildren A folderId (w_browser s) of
        Inl e \<Rightarrow> (Inl e, s)
      | Inr children \<Rightarrow>
          (let parentLoroId = chromeParentToLoro R (w_bridge s) folderId
           in (Inr (), s\<lparr>w_bridge := fold (moveChild L parentLoroId)
                            (zip [0..<length children] children) (w_bridge s)\<rparr>)))"

definition onMove ::
  "'d loro \<Rightarrow> 'w chrome \<Rightarrow> roots \<Rightarrow> env \<Rightarrow> auth \<Rightarrow> string \<Rightarrow> string \<Rightarrow> ('d, 'w) listening \<Rightarrow> ('d, 'w) listening" where
  "onMove L A R E a parentId oldParentId s =
     (if isIgnoring (ls_world s) then s
      else
        (let affectedFolders = (if oldParentId \<noteq> parentId then [parentId, oldParentId] else [parentId])
         in quietly (bindA (worldA (forA (moveFolderChildren L A R) affectedFolders)) (\<lambda>_. onLocalChange L E a)) s))"

subsection \<open>The four events\<close>

datatype event =
    Created tree_node
  | Removed tree_node
  | Changed string "string option" "string option"
  | Moved string string

text \<open>Events reach the handlers only while they are attached.\<close>

definition dispatch ::
  "'d loro \<Rightarrow> 'w chrome \<Rightarrow> roots \<Rightarrow> env \<Rightarrow> auth \<Rightarrow> event \<Rightarrow> ('d, 'w) listening \<Rightarrow> ('d, 'w) listening" where
  "dispatch L A R E a ev s =
     (if \<not> ls_attached s then s
      else (case ev of
              Created node \<Rightarrow> onCreate node s
            | Removed node \<Rightarrow> onRemove L E a node s
            | Changed i title url \<Rightarrow> onChange L E a i title url s
            | Moved p old \<Rightarrow> onMove L A R E a p old s))"

text \<open>One waiting creation continues; the others keep their place.\<close>

definition resumeAt ::
  "'d loro \<Rightarrow> 'w chrome \<Rightarrow> roots \<Rightarrow> env \<Rightarrow> auth \<Rightarrow> nat \<Rightarrow> ('d, 'w) listening \<Rightarrow> ('d, 'w) listening" where
  "resumeAt L A R E a k s =
     (case resume L A R E a (ls_tasks s ! k) s of
        (None, s') \<Rightarrow> s'\<lparr>ls_tasks := take k (ls_tasks s') @ drop (Suc k) (ls_tasks s')\<rparr>
      | (Some tk, s') \<Rightarrow> s'\<lparr>ls_tasks := (ls_tasks s')[k := tk]\<rparr>)"

end
