(* ===== verification/Push_Chain.thy ===== *)
theory Push_Chain
  imports Sync_Client
begin

text \<open>
  extension/src/sync/client.ts, lines 234-263: the promise chain that keeps push calls from
  overlapping, and the switch that pauses it. A call of pushPending that is not paused appends a
  run to the chain; a run starts when the one before it has settled, and its result does not
  matter to the chain. The body of a run is \<^const>\<open>pushPendingInner\<close>; here a run is its
  number, and its start and end are events.
\<close>

subsection \<open>State and steps\<close>

text \<open>
  \<^verbatim>\<open>awaiting\<close> holds the pausePushes calls that wait: each for the runs issued before it, with
  the number of resumePushes calls so far.
\<close>

record push_chain =
  pc_paused :: bool
  pc_waiting :: "nat list"
  pc_running :: "nat option"
  pc_issued :: nat
  pc_awaiting :: "(nat \<times> nat) list"
  pc_resumes :: nat

definition isPushPaused :: "push_chain \<Rightarrow> bool" where
  "isPushPaused s = pc_paused s"

definition pushPending :: "push_chain \<Rightarrow> push_chain" where
  "pushPending s =
     (if pc_paused s then s
      else s\<lparr>pc_waiting := pc_waiting s @ [pc_issued s], pc_issued := Suc (pc_issued s)\<rparr>)"

definition pausePushes :: "push_chain \<Rightarrow> push_chain" where
  "pausePushes s = s\<lparr>pc_paused := True, pc_awaiting := (pc_issued s, pc_resumes s) # pc_awaiting s\<rparr>"

definition resumePushes :: "push_chain \<Rightarrow> push_chain" where
  "resumePushes s = s\<lparr>pc_paused := False, pc_resumes := Suc (pc_resumes s)\<rparr>"

text \<open>The runs that are not over.\<close>

definition pending_runs :: "push_chain \<Rightarrow> nat set" where
  "pending_runs s = set (pc_waiting s) \<union> set_option (pc_running s)"

datatype push_event = Call | Start nat | Settle nat | Pause | PauseReturns nat nat | Resume

inductive push_step :: "push_chain \<Rightarrow> push_event \<Rightarrow> push_chain \<Rightarrow> bool" where
  call: "push_step s Call (pushPending s)"
| start: "pc_running s = None \<Longrightarrow> pc_waiting s = i # rest \<Longrightarrow>
     push_step s (Start i) (s\<lparr>pc_running := Some i, pc_waiting := rest\<rparr>)"
| settle: "pc_running s = Some i \<Longrightarrow> push_step s (Settle i) (s\<lparr>pc_running := None\<rparr>)"
| pause: "push_step s Pause (pausePushes s)"
| pause_returns: "(k, e) \<in> set (pc_awaiting s) \<Longrightarrow> (\<And>i. i \<in> pending_runs s \<Longrightarrow> k \<le> i) \<Longrightarrow>
     push_step s (PauseReturns k e) (s\<lparr>pc_awaiting := removeAll (k, e) (pc_awaiting s)\<rparr>)"
| resume: "push_step s Resume (resumePushes s)"

inductive_cases push_stepE: "push_step s ev s'"

inductive_cases push_startE: "push_step s (Start i) s'"

inductive_cases pause_returnsE: "push_step s (PauseReturns k e) s'"

definition idle_chain :: push_chain where
  "idle_chain = \<lparr>pc_paused = False, pc_waiting = [], pc_running = None, pc_issued = 0, pc_awaiting = [], pc_resumes = 0\<rparr>"

inductive push_trace :: "push_event list \<Rightarrow> push_chain \<Rightarrow> bool" where
  nil: "push_trace [] idle_chain"
| snoc: "push_trace evs s \<Longrightarrow> push_step s ev s' \<Longrightarrow> push_trace (evs @ [ev]) s'"

subsection \<open>Invariant\<close>

text \<open>
  Runs are numbered in the order of the chain and have been issued; a pause that no resume has
  followed is in force, and nothing was issued since.
\<close>

definition chain_ok :: "push_chain \<Rightarrow> bool" where
  "chain_ok s \<longleftrightarrow> sorted_wrt (<) (case_option [] (\<lambda>i. [i]) (pc_running s) @ pc_waiting s)
     \<and> (\<forall>i \<in> pending_runs s. i < pc_issued s)
     \<and> (\<forall>(k, e) \<in> set (pc_awaiting s). k \<le> pc_issued s \<and> e \<le> pc_resumes s
          \<and> (e = pc_resumes s \<longrightarrow> pc_paused s \<and> k = pc_issued s))"

lemma chain_ok_step: "push_step s ev s' \<Longrightarrow> chain_ok s \<Longrightarrow> chain_ok s'"
proof (induction rule: push_step.induct)
  case (call s)
  then show ?case
    by (cases "pc_running s")
       (auto simp: chain_ok_def pushPending_def pending_runs_def sorted_wrt_append less_Suc_eq le_Suc_eq)
next
  case (resume s)
  then show ?case by (fastforce simp: chain_ok_def resumePushes_def pending_runs_def)
qed (auto simp: chain_ok_def pausePushes_def pending_runs_def)

lemma chain_ok_trace: "push_trace evs s \<Longrightarrow> chain_ok s"
proof (induction rule: push_trace.induct)
  case nil
  then show ?case by (simp add: chain_ok_def idle_chain_def pending_runs_def)
qed (rule chain_ok_step)

text \<open>Once a pause has returned, nothing runs until a resume.\<close>

definition quiet :: "push_chain \<Rightarrow> bool" where
  "quiet s \<longleftrightarrow> pc_paused s \<and> pending_runs s = {}"

lemma quiet_step: "push_step s ev s' \<Longrightarrow> quiet s \<Longrightarrow> ev \<noteq> Resume \<Longrightarrow> quiet s' \<and> (\<forall>i. ev \<noteq> Start i)"
  by (induction rule: push_step.induct) (auto simp: quiet_def pending_runs_def pushPending_def pausePushes_def)

inductive push_steps :: "push_chain \<Rightarrow> push_event list \<Rightarrow> push_chain \<Rightarrow> bool" where
  stop: "push_steps s [] s"
| more: "push_step s ev s' \<Longrightarrow> push_steps s' evs t \<Longrightarrow> push_steps s (ev # evs) t"

lemma quiet_steps: "push_steps s evs t \<Longrightarrow> quiet s \<Longrightarrow> Resume \<notin> set evs \<Longrightarrow> quiet t \<and> (\<forall>i. Start i \<notin> set evs)"
  by (induction rule: push_steps.induct) (use quiet_step in fastforce)+

subsection \<open>Properties\<close>

text \<open>
  Pushes never overlap and run in the order they were asked for: whatever the interleaving of
  calls, pauses and resumes, a run starts only when no other is running, and every run still
  waiting was asked for after it.
\<close>

theorem pushes_run_one_at_a_time:
  assumes "push_trace evs s" and "push_step s (Start i) s'"
  shows "pc_running s = None \<and> pc_running s' = Some i \<and> (\<forall>j \<in> set (pc_waiting s'). i < j)"
proof -
  have "chain_ok s" by (rule chain_ok_trace [OF assms(1)])
  with assms(2) show ?thesis by (auto elim!: push_startE simp: chain_ok_def)
qed

lemma pushes_run_one_at_a_time_witness:
  "\<exists>s s'. push_step s (Start 0) s' \<and> pc_running s = None \<and> pc_running s' = Some 0"
proof -
  have t: "push_trace [Call] (pushPending idle_chain)"
    using push_trace.snoc [OF push_trace.nil push_step.call] by simp
  have st: "push_step (pushPending idle_chain) (Start 0)
      ((pushPending idle_chain)\<lparr>pc_running := Some 0, pc_waiting := []\<rparr>)"
    by (rule push_step.start) (simp_all add: pushPending_def idle_chain_def)
  from pushes_run_one_at_a_time [OF t st] st show ?thesis by blast
qed

text \<open>
  After pausePushes has returned, and as long as nobody resumed since it was called, no push is
  running or waiting, and none starts before the next resumePushes.
\<close>

theorem paused_pushes_stay_quiet:
  assumes "push_trace evs s" and "push_step s (PauseReturns k (pc_resumes s)) s'"
    and "push_steps s' later t" and "Resume \<notin> set later"
  shows "pc_running s' = None \<and> pc_waiting s' = [] \<and> pc_running t = None \<and> pc_waiting t = [] \<and> (\<forall>i. Start i \<notin> set later)"
proof -
  have "chain_ok s" by (rule chain_ok_trace [OF assms(1)])
  moreover from assms(2) have a: "(k, pc_resumes s) \<in> set (pc_awaiting s)" "\<And>i. i \<in> pending_runs s \<Longrightarrow> k \<le> i"
    "s' = s\<lparr>pc_awaiting := removeAll (k, pc_resumes s) (pc_awaiting s)\<rparr>"
    by (auto elim!: pause_returnsE)
  ultimately have p: "pc_paused s" "k = pc_issued s" "\<And>i. i \<in> pending_runs s \<Longrightarrow> i < pc_issued s"
    unfolding chain_ok_def by fastforce+
  have "pending_runs s = {}"
  proof (rule ccontr)
    assume "pending_runs s \<noteq> {}"
    then obtain i where "i \<in> pending_runs s" by blast
    with a(2) [of i] p(2,3) show False by fastforce
  qed
  with p(1) a(3) have q: "quiet s'" by (simp add: quiet_def pending_runs_def)
  with quiet_steps [OF assms(3) q assms(4)] show ?thesis
    by (auto simp: quiet_def pending_runs_def)
qed

lemma paused_pushes_stay_quiet_witness:
  "\<exists>s'. push_step (pausePushes idle_chain) (PauseReturns 0 0) s' \<and> pc_running (pushPending s') = None"
proof -
  let ?s = "pausePushes idle_chain"
  let ?s' = "?s\<lparr>pc_awaiting := removeAll (0, 0) (pc_awaiting ?s)\<rparr>"
  have t: "push_trace [Pause] ?s"
    using push_trace.snoc [OF push_trace.nil push_step.pause] by simp
  have e: "pc_resumes ?s = 0" by (simp add: pausePushes_def idle_chain_def)
  have st: "push_step ?s (PauseReturns 0 (pc_resumes ?s)) ?s'"
    unfolding e by (rule push_step.pause_returns) (simp_all add: pausePushes_def idle_chain_def pending_runs_def)
  have later: "push_steps ?s' [Call] (pushPending ?s')"
    by (rule push_steps.more [OF push_step.call push_steps.stop])
  from paused_pushes_stay_quiet [OF t st later] st show ?thesis unfolding e by auto
qed

end
