(* ===== verification/Event_Stream.thy ===== *)
theory Event_Stream
  imports Prelude
begin

text \<open>
  extension/src/sync/client.ts, lines 345-470: openEventStream. First the parser of the event
  stream, a function on the text buffered so far and the next chunk (chunks are what the decoder
  yields); JSON.parse with the access to sequence_id is the parameter \<^verbatim>\<open>parse\<close>, None
  where it throws. Then the connection as a state machine: its steps are the replies of fetch and
  of the reader, the timer and close(), its outputs are the callbacks.
\<close>

subsection \<open>The parser\<close>

definition newline :: char where
  "newline = CHR 0x0A"

text \<open>\<^verbatim>\<open>s.split("\n\n")\<close> and \<^verbatim>\<open>s.split("\n")\<close>; \<^verbatim>\<open>part\<close> is the piece being read.\<close>

fun splitDouble :: "string \<Rightarrow> string \<Rightarrow> string list" where
  "splitDouble part [] = [part]"
| "splitDouble part [c] = [part @ [c]]"
| "splitDouble part (c # d # rest) =
     (if c = newline \<and> d = newline then part # splitDouble [] rest
      else splitDouble (part @ [c]) (d # rest))"

fun splitLines :: "string \<Rightarrow> string \<Rightarrow> string list" where
  "splitLines part [] = [part]"
| "splitLines part (c # rest) = (if c = newline then part # splitLines [] rest else splitLines (part @ [c]) rest)"

text \<open>The sequence ids of one event: its data lines that parse.\<close>

definition dataPrefix :: string where
  "dataPrefix = ''data: ''"

definition eventSeqs :: "(string \<Rightarrow> int option) \<Rightarrow> string \<Rightarrow> int list" where
  "eventSeqs parse event =
     List.map_filter (\<lambda>line. if take 6 line = dataPrefix then parse (drop 6 line) else None) (splitLines [] event)"

text \<open>One chunk: complete events are reported, the incomplete rest stays in the buffer.\<close>

definition feed :: "(string \<Rightarrow> int option) \<Rightarrow> string \<Rightarrow> string \<Rightarrow> int list \<times> string" where
  "feed parse buffer chunk =
     (let events = splitDouble [] (buffer @ chunk)
      in (concat (map (eventSeqs parse) (butlast events)), last events))"

fun feedAll :: "(string \<Rightarrow> int option) \<Rightarrow> string \<Rightarrow> string list \<Rightarrow> int list \<times> string" where
  "feedAll parse buffer [] = ([], buffer)"
| "feedAll parse buffer (chunk # chunks) =
     (case feed parse buffer chunk of (seqs, buffer') \<Rightarrow>
        (case feedAll parse buffer' chunks of (more, rest) \<Rightarrow> (seqs @ more, rest)))"

lemma splitDouble_nonempty [simp]: "splitDouble p s \<noteq> []"
  by (induction p s rule: splitDouble.induct) auto

lemma splitDouble_prefix: "splitDouble (p @ q) s = (p @ hd (splitDouble q s)) # tl (splitDouble q s)"
  by (induction q s rule: splitDouble.induct) auto

lemma splitDouble_single: "splitDouble p s = [t] \<Longrightarrow> t = p @ s"
  by (induction p s rule: splitDouble.induct) (auto split: if_splits)

text \<open>Splitting in two goes: what is left of the first part is read again with the second.\<close>

lemma splitDouble_append:
  "splitDouble [] (x @ y) = butlast (splitDouble [] x) @ splitDouble [] (last (splitDouble [] x) @ y)"
proof (induction x rule: induct_list012)
  case (3 c d r)
  let ?S = "splitDouble []"
  show ?case
  proof (cases "c = newline \<and> d = newline")
    case True
    with 3(1) show ?thesis by simp
  next
    case False
    have head: "?S (c # d # z) = (c # hd (?S (d # z))) # tl (?S (d # z))" for z
      using False splitDouble_prefix [of "[c]" "[]" "d # z"] by simp
    obtain h t where S: "?S (d # r) = h # t" by (cases "?S (d # r)") simp_all
    show ?thesis
    proof (cases "t = []")
      case True
      with splitDouble_single [of "[]" "d # r" h] S have "h = d # r" by simp
      with S True show ?thesis using head [of r] by simp
    next
      case F: False
      then have "?S (d # r @ y) = h # butlast t @ ?S (last t @ y)"
        using 3(2) S by simp
      with head [of "r @ y"] head [of r] S F show ?thesis by simp
    qed
  qed
qed simp_all

lemma feed_append:
  "feed parse buffer (x @ y) =
     (case feed parse buffer x of (seqs, b) \<Rightarrow> case feed parse b y of (more, b') \<Rightarrow> (seqs @ more, b'))"
  using splitDouble_append [of "buffer @ x" y]
  by (simp add: feed_def Let_def butlast_append)

lemma feed_clean: "feed parse (snd (feed parse buffer x)) [] = ([], snd (feed parse buffer x))"
proof -
  have "splitDouble [] (last (splitDouble [] z)) = [last (splitDouble [] z)]" for z
  proof -
    have "splitDouble [] z = butlast (splitDouble [] z) @ splitDouble [] (last (splitDouble [] z))"
      using splitDouble_append [of z "[]"] by simp
    then show ?thesis by (metis append_butlast_last_id same_append_eq splitDouble_nonempty)
  qed
  then show ?thesis by (simp add: feed_def Let_def)
qed

lemma chunks_feed: "feedAll parse [] chunks = feed parse [] (concat chunks)"
proof -
  have "feedAll parse b chunks = feed parse b (concat chunks)" if "feed parse b [] = ([], b)" for b
    using that
  proof (induction chunks arbitrary: b)
    case (Cons c cs)
    have "feed parse (snd (feed parse b c)) [] = ([], snd (feed parse b c))" by (rule feed_clean)
    from Cons.IH [OF this] show ?case by (cases "feed parse b c") (simp add: feed_append)
  qed simp
  moreover have "feed parse [] [] = ([], [])" by (simp add: feed_def)
  ultimately show ?thesis by blast
qed

subsection \<open>The connection\<close>

datatype phase = Connecting | Reading | Over

text \<open>What the stream tells its owner.\<close>

datatype callback = NewSeq int | ReconnectNeeded | AuthExpired js_error

record sse =
  s_closed :: bool
  s_phase :: phase
  s_buffer :: string
  s_timer :: bool
  s_alarms :: nat

definition openEventStream :: sse where
  "openEventStream = \<lparr>s_closed = False, s_phase = Connecting, s_buffer = [], s_timer = False, s_alarms = 0\<rparr>"

definition scheduleReconnect :: "sse \<Rightarrow> sse" where
  "scheduleReconnect s = s\<lparr>s_closed := True, s_timer := True, s_alarms := Suc (s_alarms s)\<rparr>"

definition endOfStream :: "sse \<Rightarrow> sse" where
  "endOfStream s = (let s' = s\<lparr>s_phase := Over\<rparr> in if s_closed s' then s' else scheduleReconnect s')"

text \<open>The reply to the fetch: a status and whether there is a body to read.\<close>

definition onResponse :: "nat \<Rightarrow> bool \<Rightarrow> sse \<Rightarrow> callback list \<times> sse" where
  "onResponse st hasBody s =
     (if st = 401 \<or> st = 403
      then ([AuthExpired (if st = 403 then AccountRevokedError else AuthExpiredError)],
            s\<lparr>s_closed := True, s_phase := Over\<rparr>)
      else if \<not> (200 \<le> st \<and> st < 300) \<or> \<not> hasBody then ([], endOfStream s)
      else ([], s\<lparr>s_phase := Reading, s_buffer := []\<rparr>))"

definition onChunk :: "(string \<Rightarrow> int option) \<Rightarrow> string \<Rightarrow> sse \<Rightarrow> callback list \<times> sse" where
  "onChunk parse chunk s =
     (case feed parse (s_buffer s) chunk of (seqs, rest) \<Rightarrow> (map NewSeq seqs, s\<lparr>s_buffer := rest\<rparr>))"

definition onTimer :: "sse \<Rightarrow> callback list \<times> sse" where
  "onTimer s = ([ReconnectNeeded], s\<lparr>s_timer := False\<rparr>)"

definition closeStream :: "sse \<Rightarrow> sse" where
  "closeStream s = s\<lparr>s_closed := True, s_timer := False\<rparr>"

text \<open>
  close() aborts the fetch, but a reply that has already arrived is still handled, so the steps
  of the reader do not ask whether the stream was closed.
\<close>

inductive sse_step :: "(string \<Rightarrow> int option) \<Rightarrow> sse \<Rightarrow> callback list \<Rightarrow> sse \<Rightarrow> bool"
  for parse where
  fetch_fails: "s_phase s = Connecting \<Longrightarrow> sse_step parse s [] (endOfStream s)"
| response: "s_phase s = Connecting \<Longrightarrow> onResponse st hasBody s = (out, s') \<Longrightarrow> sse_step parse s out s'"
| chunk: "s_phase s = Reading \<Longrightarrow> onChunk parse str s = (out, s') \<Longrightarrow> sse_step parse s out s'"
| ends: "s_phase s = Reading \<Longrightarrow> sse_step parse s [] (endOfStream s)"
| timer: "s_timer s \<Longrightarrow> onTimer s = (out, s') \<Longrightarrow> sse_step parse s out s'"
| closes: "sse_step parse s [] (closeStream s)"

inductive_cases sse_stepE: "sse_step parse s out s'"

inductive sse_run :: "(string \<Rightarrow> int option) \<Rightarrow> sse \<Rightarrow> callback list \<Rightarrow> sse \<Rightarrow> bool"
  for parse where
  stay: "sse_run parse s [] s"
| step: "sse_run parse s outs s1 \<Longrightarrow> sse_step parse s1 out s2 \<Longrightarrow> sse_run parse s (outs @ out) s2"

subsection \<open>Invariants\<close>

lemmas sse_defs = endOfStream_def scheduleReconnect_def onResponse_def onChunk_def onTimer_def closeStream_def Let_def

text \<open>A closed stream without a timer stays so, and asks for no reconnect.\<close>

definition dead :: "sse \<Rightarrow> bool" where
  "dead s \<longleftrightarrow> s_closed s \<and> \<not> s_timer s"

lemma dead_step: "sse_step parse s out s' \<Longrightarrow> dead s \<Longrightarrow> dead s' \<and> ReconnectNeeded \<notin> set out \<and> s_alarms s' = s_alarms s"
  by (erule sse_stepE) (auto simp: dead_def sse_defs split: if_splits prod.splits)

lemma dead_run: "sse_run parse s outs s' \<Longrightarrow> dead s \<Longrightarrow> dead s' \<and> ReconnectNeeded \<notin> set outs \<and> s_alarms s' = s_alarms s"
  by (induction rule: sse_run.induct) (use dead_step in fastforce)+

text \<open>
  The reconnects asked for, the timer that is set and the alarms: an alarm is created only when the
  stream is not closed yet, which it then is.
\<close>

definition reconnects :: "callback list \<Rightarrow> nat" where
  "reconnects outs = length (filter (\<lambda>x. x = ReconnectNeeded) outs)"

definition auth_calls :: "callback list \<Rightarrow> nat" where
  "auth_calls outs = length (filter (\<lambda>x. \<exists>e. x = AuthExpired e) outs)"

definition budget :: "sse \<Rightarrow> callback list \<Rightarrow> bool" where
  "budget s outs \<longleftrightarrow>
     reconnects outs + (if s_timer s then 1 else 0) \<le> s_alarms s
     \<and> s_alarms s \<le> (if s_closed s then 1 else 0)
     \<and> auth_calls outs + s_alarms s \<le> 1
     \<and> (s_phase s \<noteq> Over \<longrightarrow> s_alarms s = 0 \<and> auth_calls outs = 0)"

lemma calls_simps [simp]:
  "reconnects [] = 0" "reconnects (x @ y) = reconnects x + reconnects y" "reconnects (map NewSeq ns) = 0"
  "reconnects [ReconnectNeeded] = 1" "reconnects [AuthExpired e] = 0"
  "auth_calls [] = 0" "auth_calls (x @ y) = auth_calls x + auth_calls y" "auth_calls (map NewSeq ns) = 0"
  "auth_calls [ReconnectNeeded] = 0" "auth_calls [AuthExpired e] = 1"
  by (simp_all add: reconnects_def auth_calls_def filter_map o_def)

lemma budget_over: "budget s outs \<Longrightarrow> s_phase s \<noteq> Over \<Longrightarrow> budget (endOfStream s) outs"
  by (cases "s_closed s") (simp_all add: budget_def endOfStream_def scheduleReconnect_def Let_def)

lemma budget_step:
  assumes "sse_step parse s out s'" and "budget s outs"
  shows "budget s' (outs @ out)"
  using assms
proof (induction rule: sse_step.induct)
  case (response s st hasBody out s')
  have over: "budget (endOfStream s) outs" using response by (intro budget_over) simp_all
  show ?case
  proof (cases "st = 401 \<or> st = 403")
    case True
    with response have "out = [AuthExpired (if st = 403 then AccountRevokedError else AuthExpiredError)]"
      "s' = s\<lparr>s_closed := True, s_phase := Over\<rparr>" by (auto simp: onResponse_def)
    with response show ?thesis by (simp add: budget_def)
  next
    case False
    with response have "out = [] \<and> (s' = endOfStream s \<or> s' = s\<lparr>s_phase := Reading, s_buffer := []\<rparr>)"
      by (auto simp: onResponse_def split: if_splits)
    with over response show ?thesis by (auto simp: budget_def)
  qed
next
  case (chunk s str out s')
  then show ?case by (auto simp: onChunk_def budget_def split: prod.splits)
next
  case (timer s out s')
  then show ?case by (auto simp: onTimer_def budget_def)
next
  case closes
  then show ?case by (auto simp: closeStream_def budget_def)
qed (simp_all add: budget_over)

lemma budget_run: "sse_run parse openEventStream outs s \<Longrightarrow> budget s outs"
proof -
  have "budget s outs" if "sse_run parse s0 outs s" "s0 = openEventStream" for s0
    using that
  proof (induction rule: sse_run.induct)
    case stay
    then show ?case by (simp add: budget_def openEventStream_def)
  next
    case (step s outs s1 out s2)
    then show ?case by (intro budget_step) simp_all
  qed
  then show "sse_run parse openEventStream outs s \<Longrightarrow> budget s outs" by blast
qed

subsection \<open>Properties\<close>

text \<open>
  How the network cuts the stream into chunks does not matter: fed chunk by chunk, the parser
  reports the same sequence ids in the same order, and keeps the same rest, as when it gets the
  whole text at once, also when a cut falls inside a line or between the two newlines.
\<close>

theorem chunking_does_not_matter:
  "feedAll parse [] chunks = feed parse [] (concat chunks)"
  by (rule chunks_feed)

text \<open>
  A stream asks for at most one reconnect in its life, reports an expired login at most once,
  and never does both, whatever replies, chunks, timers and calls of close() come in whatever order.
\<close>

theorem stream_reconnects_at_most_once:
  assumes "sse_run parse openEventStream outs s"
  shows "reconnects outs \<le> 1 \<and> auth_calls outs \<le> 1 \<and> (reconnects outs = 0 \<or> auth_calls outs = 0)"
proof -
  have "budget s outs" by (rule budget_run [OF assms])
  then show ?thesis by (cases "s_closed s") (auto simp: budget_def split: if_splits)
qed

lemma lost_connection_run:
  "sse_run parse openEventStream [ReconnectNeeded] ((endOfStream openEventStream)\<lparr>s_timer := False\<rparr>)"
proof -
  have 1: "sse_run parse openEventStream ([] @ []) (endOfStream openEventStream)"
    by (rule sse_run.step [OF sse_run.stay sse_step.fetch_fails]) (simp add: openEventStream_def)
  have "sse_step parse (endOfStream openEventStream) [ReconnectNeeded] ((endOfStream openEventStream)\<lparr>s_timer := False\<rparr>)"
    by (rule sse_step.timer) (simp_all add: sse_defs openEventStream_def)
  from sse_run.step [OF 1 this] show ?thesis by simp
qed

lemma stream_reconnects_at_most_once_witness:
  "reconnects [ReconnectNeeded] = 1 \<and> auth_calls [ReconnectNeeded] = 0"
  using stream_reconnects_at_most_once [OF lost_connection_run [of "\<lambda>x. None"]] by simp

text \<open>
  After close() a stream never asks for a reconnect and creates no alarm, whatever happens to
  its request afterwards.
\<close>

theorem closed_stream_never_reconnects:
  assumes "sse_run parse (closeStream s) outs s'"
  shows "ReconnectNeeded \<notin> set outs \<and> s_closed s' \<and> s_alarms s' = s_alarms s"
  using dead_run [OF assms] by (simp add: dead_def closeStream_def)

lemma closed_stream_never_reconnects_witness:
  "s_alarms (endOfStream (closeStream openEventStream)) = 0"
proof -
  have "sse_run (\<lambda>x. None) (closeStream openEventStream) ([] @ []) (endOfStream (closeStream openEventStream))"
    by (rule sse_run.step [OF sse_run.stay sse_step.fetch_fails]) (simp add: openEventStream_def closeStream_def)
  from closed_stream_never_reconnects [OF this] show ?thesis by (simp add: openEventStream_def)
qed

text \<open>
  A stream that is lost comes back: when the request fails, is refused with a status other
  than 401 and 403, or the stream ends, before anyone closed it, then the short timer is set and the
  fallback alarm created; the timer stays set until it fires, which asks for the reconnect.
\<close>

theorem lost_stream_asks_to_reconnect:
  assumes "sse_run parse openEventStream outs s" and "\<not> s_closed s" and "s_phase s \<noteq> Over"
    and "200 \<le> st \<and> st < 300 \<Longrightarrow> \<not> hasBody" and "st \<noteq> 401" and "st \<noteq> 403"
  shows "onResponse st hasBody s = ([], endOfStream s)
    \<and> s_timer (endOfStream s) \<and> s_alarms (endOfStream s) = 1
    \<and> sse_step parse (endOfStream s) [ReconnectNeeded] ((endOfStream s)\<lparr>s_timer := False\<rparr>)"
proof -
  have "s_alarms s = 0" using budget_run [OF assms(1)] assms(3) by (simp add: budget_def)
  then have e: "s_timer (endOfStream s)" "s_alarms (endOfStream s) = 1"
    using assms(2) by (simp_all add: sse_defs)
  moreover have "sse_step parse (endOfStream s) [ReconnectNeeded] ((endOfStream s)\<lparr>s_timer := False\<rparr>)"
    by (rule sse_step.timer [OF e(1)]) (simp add: onTimer_def)
  moreover have "onResponse st hasBody s = ([], endOfStream s)"
    using assms(4-6) by (auto simp: onResponse_def)
  ultimately show ?thesis by blast
qed

lemma lost_stream_asks_to_reconnect_witness:
  "onResponse 502 True openEventStream = ([], endOfStream openEventStream)"
  using lost_stream_asks_to_reconnect [OF sse_run.stay, of 502 True "\<lambda>x. None"] by (simp add: openEventStream_def)

text \<open>
  close() does not silence a stream: a rejection that arrives after it still reports an expired
  login, and a chunk that was already read still reports its sequence ids.
\<close>

theorem closed_stream_still_calls_back:
  "(\<exists>s'. sse_run parse (closeStream openEventStream) [AuthExpired AuthExpiredError] s')
   \<and> (\<exists>s'. sse_run (\<lambda>x. Some 7) (closeStream (openEventStream\<lparr>s_phase := Reading\<rparr>)) [NewSeq 7] s')"
proof
  have "sse_step parse (closeStream openEventStream) [AuthExpired AuthExpiredError]
      (snd (onResponse 401 True (closeStream openEventStream)))"
    by (rule sse_step.response [of _ 401 True]) (simp_all add: openEventStream_def closeStream_def onResponse_def)
  from sse_run.step [OF sse_run.stay this] show "\<exists>s'. sse_run parse (closeStream openEventStream) [AuthExpired AuthExpiredError] s'"
    by auto
  let ?s = "closeStream (openEventStream\<lparr>s_phase := Reading\<rparr>)"
  have "onChunk (\<lambda>x. Some 7) (''data: 7'' @ [newline, newline]) ?s = ([NewSeq 7], ?s)"
    by (simp add: onChunk_def feed_def Let_def closeStream_def openEventStream_def newline_def eventSeqs_def
        List.map_filter_def dataPrefix_def)
  then have "sse_step (\<lambda>x. Some 7) ?s [NewSeq 7] ?s"
    by (intro sse_step.chunk) (simp_all add: openEventStream_def closeStream_def)
  from sse_run.step [OF sse_run.stay this] show "\<exists>s'. sse_run (\<lambda>x. Some 7) ?s [NewSeq 7] s'" by auto
qed

end
