(* ===== verification/Messages.thy ===== *)
theory Messages
  imports Types Loro_Doc
begin

text \<open>
  extension/src/types.ts, the message protocol between the popup and the background, and the
  texts an exception becomes in a reply (the error classes of sync/client.ts). An optional field
  is an option; an absent optional boolean is \<^const>\<open>None\<close>.
\<close>

subsection \<open>Messages\<close>

datatype ext_message =
    LOGIN string string bytes
  | UNLOCK bytes
  | CHANGE_PASSWORD string string string
  | RESOLVE_LOCKED_CHANGES bool
  | RESOLVE_IMPORT importChoice "bool option" "string option" "string option"
  | LOCK
  | LOGOUT "bool option"
  | GET_STATUS
  | SWITCH_PROFILE string
  | CREATE_PROFILE string
  | DELETE_PROFILE string
  | RENAME_PROFILE string string
  | SET_SESSION_TIMEOUT sessionTimeout
  | SYNC
  | RECOMPUTE_IMPORT_DIFF string
  | EXPORT_PROFILE string
  | DELETE_ACCOUNT string

text \<open>What the background sends without being asked.\<close>

datatype ext_push = PROFILE_SWITCHED string | SWITCH_SETTLED string

record status_reply =
  st_isLoggedIn :: bool
  st_isLocked :: bool
  st_email :: "string option"
  st_profile :: "profileInfo option"
  st_profiles :: "profileInfo list"
  st_lastSynced :: "int option"
  st_pendingChanges :: "pendingChanges option"
  st_pendingImport :: "importDiff option"
  st_sessionTimeout :: sessionTimeout

datatype ext_response =
    LOGIN_SUCCESS "profileInfo list" "importDiff option" "bool option" "bool option"
  | LOGIN_ERROR string
  | UNLOCK_SUCCESS "profileInfo option" "profileInfo list" "pendingChanges option"
  | UNLOCK_ERROR string
  | LOCK_SUCCESS
  | RESOLVE_SUCCESS
  | RESOLVE_ERROR string
  | RESOLVE_IMPORT_SUCCESS "profileInfo option" "profileInfo option"
  | RESOLVE_IMPORT_ERROR string
  | LOGOUT_SUCCESS
  | STATUS status_reply
  | SYNC_SUCCESS "int option" "profileInfo list option"
  | SYNC_ERROR string
  | SWITCH_SUCCESS
  | SWITCH_ERROR string
  | CREATE_PROFILE_SUCCESS profileInfo
  | CREATE_PROFILE_ERROR string
  | DELETE_PROFILE_SUCCESS
  | DELETE_PROFILE_ERROR string
  | RENAME_PROFILE_SUCCESS string
  | RENAME_PROFILE_ERROR string
  | SET_SESSION_TIMEOUT_SUCCESS
  | RECOMPUTE_IMPORT_DIFF_SUCCESS importDiff
  | RECOMPUTE_IMPORT_DIFF_ERROR string
  | CHANGE_PASSWORD_SUCCESS
  | CHANGE_PASSWORD_ERROR string
  | EXPORT_PROFILE_SUCCESS bookmarks
  | EXPORT_PROFILE_ERROR string
  | DELETE_ACCOUNT_SUCCESS
  | DELETE_ACCOUNT_ERROR string

subsection \<open>Texts of exceptions\<close>

text \<open>
  \<^verbatim>\<open>err.message\<close> and \<^verbatim>\<open>String(err)\<close>, which puts the name in front. The
  message of a DOMException is the browser's own. A dash stands for the typographic dash of the
  source.
\<close>

fun errorMessage :: "(js_error \<Rightarrow> string) \<Rightarrow> js_error \<Rightarrow> string" where
  "errorMessage domText (JsError msg) = msg"
| "errorMessage domText AuthExpiredError = ''Session expired - please sign in again.''"
| "errorMessage domText AccountRevokedError = ''Account no longer exists - please sign in again.''"
| "errorMessage domText InvalidCredentialsError = ''invalid credentials''"
| "errorMessage domText e = domText e"

fun errorName :: "js_error \<Rightarrow> string" where
  "errorName (JsError msg) = ''Error''"
| "errorName AuthExpiredError = ''AuthExpiredError''"
| "errorName AccountRevokedError = ''AccountRevokedError''"
| "errorName InvalidCredentialsError = ''InvalidCredentialsError''"
| "errorName OperationError = ''OperationError''"
| "errorName DataError = ''DataError''"
| "errorName InvalidCharacterError = ''InvalidCharacterError''"

definition errorString :: "(js_error \<Rightarrow> string) \<Rightarrow> js_error \<Rightarrow> string" where
  "errorString domText e =
     (if errorMessage domText e = [] then errorName e else errorName e @ '': '' @ errorMessage domText e)"

end
