(* ===== verification/Background_State.thy ===== *)
theory Background_State
  imports Listeners Sync_Client Bridge_Import Push_Chain Event_Stream Messages
begin

text \<open>
  extension/src/background/index.ts, the state of the service worker and the calls into the other
  modules. A handler is a function on the whole state that may throw, and that may never return
  (the pull loop is bounded by the server alone), so its result is an option.
  Between two awaits nothing else runs; a handler is modelled as running alone, except where its
  text splits it (Background_Sync splits the pull, Background the drain loop of a profile
  switch). What a handler starts without awaiting it is a job, run later as a step of its own.
\<close>

subsection \<open>Actions that may not return\<close>

type_synonym ('s, 'a) io = "'s \<Rightarrow> ((js_error + 'a) \<times> 's) option"

definition retP :: "'a \<Rightarrow> ('s, 'a) io" where
  "retP x s = Some (Inr x, s)"

definition throwP :: "js_error \<Rightarrow> ('s, 'a) io" where
  "throwP e s = Some (Inl e, s)"

definition bindP :: "('s, 'a) io \<Rightarrow> ('a \<Rightarrow> ('s, 'b) io) \<Rightarrow> ('s, 'b) io" where
  "bindP m f s =
     (case m s of
        None \<Rightarrow> None
      | Some (Inl e, s') \<Rightarrow> Some (Inl e, s')
      | Some (Inr x, s') \<Rightarrow> f x s')"

text \<open>\<^verbatim>\<open>try m catch (e) h\<close>.\<close>

definition catchP :: "('s, 'a) io \<Rightarrow> (js_error \<Rightarrow> ('s, 'a) io) \<Rightarrow> ('s, 'a) io" where
  "catchP m h s =
     (case m s of
        None \<Rightarrow> None
      | Some (Inl e, s') \<Rightarrow> h e s'
      | Some (Inr x, s') \<Rightarrow> Some (Inr x, s'))"

text \<open>\<^verbatim>\<open>try m finally f\<close>: an exception of the second replaces the result of the first.\<close>

definition finallyP :: "('s, 'a) io \<Rightarrow> ('s, unit) io \<Rightarrow> ('s, 'a) io" where
  "finallyP m f s =
     (case m s of
        None \<Rightarrow> None
      | Some (r, s') \<Rightarrow>
          (case f s' of
             None \<Rightarrow> None
           | Some (Inl e, s'') \<Rightarrow> Some (Inl e, s'')
           | Some (Inr u, s'') \<Rightarrow> Some (r, s'')))"

definition liftP :: "js_error + 'a \<Rightarrow> ('s, 'a) io" where
  "liftP r s = Some (r, s)"

definition getP :: "('s \<Rightarrow> 'a) \<Rightarrow> ('s, 'a) io" where
  "getP f s = Some (Inr (f s), s)"

definition setP :: "('s \<Rightarrow> 's) \<Rightarrow> ('s, unit) io" where
  "setP f s = Some (Inr (), f s)"

text \<open>\<^verbatim>\<open>if (b) m;\<close>\<close>

definition whenP :: "bool \<Rightarrow> ('s, unit) io \<Rightarrow> ('s, unit) io" where
  "whenP b m = (if b then m else retP ())"

fun forP :: "('a \<Rightarrow> ('s, unit) io) \<Rightarrow> 'a list \<Rightarrow> ('s, unit) io" where
  "forP m [] = retP ()"
| "forP m (x # xs) = bindP (m x) (\<lambda>_. forP m xs)"

named_theorems io_simps \<open>unfolding of the actions\<close>

lemma io_basic [simp, io_simps]:
  "retP x s = Some (Inr x, s)" "throwP e s = Some (Inl e, s)" "liftP r s = Some (r, s)"
  "getP f s = Some (Inr (f s), s)" "setP g s = Some (Inr (), g s)"
  "whenP True m = m" "whenP False m = retP ()"
  by (simp_all add: retP_def throwP_def liftP_def getP_def setP_def whenP_def)

lemma bindP_simps [simp, io_simps]:
  "m s = None \<Longrightarrow> bindP m f s = None"
  "m s = Some (Inl e, t) \<Longrightarrow> bindP m f s = Some (Inl e, t)"
  "m s = Some (Inr x, t) \<Longrightarrow> bindP m f s = f x t"
  by (simp_all add: bindP_def)

lemma catchP_simps [simp, io_simps]:
  "m s = None \<Longrightarrow> catchP m h s = None"
  "m s = Some (Inl e, t) \<Longrightarrow> catchP m h s = h e t"
  "m s = Some (Inr x, t) \<Longrightarrow> catchP m h s = Some (Inr x, t)"
  by (simp_all add: catchP_def)

lemma bindP_assoc: "bindP (bindP m f) g = bindP m (\<lambda>x. bindP (f x) g)"
  by (rule ext) (simp add: bindP_def split: option.split prod.split sum.split)

text \<open>
  An invariant of the steps is an invariant of the whole action, whether it returns or throws:
  \<^verbatim>\<open>keeps P m\<close>.
\<close>

definition keeps :: "('s \<Rightarrow> bool) \<Rightarrow> ('s, 'a) io \<Rightarrow> bool" where
  "keeps P m \<longleftrightarrow> (\<forall>s r t. P s \<longrightarrow> m s = Some (r, t) \<longrightarrow> P t)"

named_theorems keeps_intros \<open>rules that show an invariant of an action\<close>

lemma keepsI: "(\<And>s r t. P s \<Longrightarrow> m s = Some (r, t) \<Longrightarrow> P t) \<Longrightarrow> keeps P m"
  by (auto simp: keeps_def)

lemma keepsD: "keeps P m \<Longrightarrow> m s = Some (r, t) \<Longrightarrow> P s \<Longrightarrow> P t"
  by (auto simp: keeps_def)

lemma keeps_basic [keeps_intros]:
  "keeps P (retP x)" "keeps P (throwP e)" "keeps P (liftP r)" "keeps P (getP f)"
  by (auto simp: keeps_def)

lemma keeps_set [keeps_intros]: "(\<And>s. P s \<Longrightarrow> P (g s)) \<Longrightarrow> keeps P (setP g)"
  by (auto simp: keeps_def)

lemma bindP_SomeE:
  assumes "bindP m f s = Some (r, t)"
  obtains e where "m s = Some (Inl e, t)" "r = Inl e"
  | x s1 where "m s = Some (Inr x, s1)" "f x s1 = Some (r, t)"
proof (cases "m s")
  case None
  with assms show thesis by simp
next
  case (Some p)
  obtain q s1 where p: "p = (q, s1)" by (cases p)
  show thesis
    by (cases q) (use assms Some p that in simp_all)
qed

lemma catchP_SomeE:
  assumes "catchP m h s = Some (r, t)"
  obtains x where "m s = Some (Inr x, t)" "r = Inr x"
  | e s1 where "m s = Some (Inl e, s1)" "h e s1 = Some (r, t)"
proof (cases "m s")
  case None
  with assms show thesis by simp
next
  case (Some p)
  obtain q s1 where p: "p = (q, s1)" by (cases p)
  show thesis
    by (cases q) (use assms Some p that in \<open>auto\<close>)
qed

lemma finallyP_SomeE:
  assumes "finallyP m f s = Some (r, t)"
  obtains q s1 q' where "m s = Some (q, s1)" "f s1 = Some (q', t)" "r = (case q' of Inl e \<Rightarrow> Inl e | Inr u \<Rightarrow> q)"
  using assms unfolding finallyP_def by (auto split: option.splits prod.splits sum.splits)

lemma keeps_bind [keeps_intros]:
  assumes "keeps P m" and "\<And>x. keeps P (f x)"
  shows "keeps P (bindP m f)"
proof (rule keepsI)
  fix s r t assume "P s" and b: "bindP m f s = Some (r, t)"
  from b show "P t" by (rule bindP_SomeE) (use \<open>P s\<close> assms keepsD in metis)+
qed

lemma keeps_catch [keeps_intros]:
  assumes "keeps P m" and "\<And>e. keeps P (h e)"
  shows "keeps P (catchP m h)"
proof (rule keepsI)
  fix s r t assume "P s" and b: "catchP m h s = Some (r, t)"
  from b show "P t" by (rule catchP_SomeE) (use \<open>P s\<close> assms keepsD in metis)+
qed

lemma keeps_finally [keeps_intros]:
  assumes "keeps P m" and "keeps P f"
  shows "keeps P (finallyP m f)"
proof (rule keepsI)
  fix s r t assume "P s" and b: "finallyP m f s = Some (r, t)"
  from b show "P t" by (rule finallyP_SomeE) (use \<open>P s\<close> assms keepsD in metis)
qed

lemma keeps_when [keeps_intros]: "(b \<Longrightarrow> keeps P m) \<Longrightarrow> keeps P (whenP b m)"
  by (cases b) (simp_all add: keeps_basic)

lemma keeps_if [keeps_intros]: "(b \<Longrightarrow> keeps P m) \<Longrightarrow> (\<not> b \<Longrightarrow> keeps P n) \<Longrightarrow> keeps P (if b then m else n)"
  by simp

lemma keeps_for [keeps_intros]: "(\<And>x. keeps P (m x)) \<Longrightarrow> keeps P (forP m xs)"
  by (induction xs) (simp_all add: keeps_basic keeps_bind)

text \<open>Reading the state when that may throw.\<close>

definition askP :: "('s \<Rightarrow> js_error + 'a) \<Rightarrow> ('s, 'a) io" where
  "askP f s = Some (f s, s)"

lemma askP_simp [simp, io_simps]: "askP f s = Some (f s, s)"
  by (simp add: askP_def)

lemma keeps_ask [keeps_intros]: "keeps P (askP f)"
  by (simp add: keeps_def)

subsection \<open>The platform\<close>

text \<open>
  What the background is given: the browser and its roots (\<^verbatim>\<open>x_rootsReady\<close> is the promise
  of initBrowserRoots), the network, Loro, the random and clock streams, fresh symmetric keys.
\<close>

record ('d, 'w, 'n) platform =
  x_loro :: "'d loro"
  x_chrome :: "'w chrome"
  x_fetch :: "'n fetch"
  x_env :: env
  x_roots :: roots
  x_rootsReady :: "js_error + unit"
  x_newKey :: "nat \<Rightarrow> bytes"
  x_domText :: "js_error \<Rightarrow> string"

subsection \<open>State of the service worker\<close>

datatype alarm = SyncPoll | WsReconnect

datatype icon = IconDefault | IconLocked | IconSignedout

text \<open>Work that was started and not awaited.\<close>

datatype job =
    PushJob
  | SyncJob string
  | PollMergeJob string
  | UploadJob string int
  | PutSnapshotJob string int string

text \<open>
  The module variables of index.ts, with the state of the modules it owns: the session, the bridge
  with the database and the browser, the network, the event stream (profile, token, stream), the
  alarms that exist, the icon, the jobs that run. \<^verbatim>\<open>g_hasDoc\<close> says that initDoc was
  called; \<^verbatim>\<open>g_attached\<close> that the bookmark listeners are registered.
\<close>

record ('d, 'w, 'n) bg =
  g_auth :: auth
  g_world :: "('d, 'w) bworld"
  g_hasDoc :: bool
  g_attached :: bool
  g_net :: 'n
  g_pushPaused :: bool
  g_sse :: "(string \<times> string \<times> sse) option"
  g_alarms :: "alarm set"
  g_icon :: icon
  g_jobs :: "job list"
  g_outbox :: "ext_push list"
  g_lastSynced :: "int option"
  g_pendingChanges :: "pendingChanges option"
  g_pendingUnlockProfileId :: "string option"
  g_pendingImport :: "(string \<times> importDiff) option"
  g_syncInProgress :: bool
  g_syncPaused :: bool
  g_switchInProgress :: bool
  g_pendingSwitchProfileId :: "string option"
  g_resyncRequested :: bool

abbreviation g_bridge :: "('d, 'w, 'n) bg \<Rightarrow> 'd bridge" where
  "g_bridge s \<equiv> w_bridge (g_world s)"

abbreviation g_db :: "('d, 'w, 'n) bg \<Rightarrow> idb" where
  "g_db s \<equiv> w_db (g_world s)"

definition putBridge :: "'d bridge \<Rightarrow> ('d, 'w, 'n) bg \<Rightarrow> ('d, 'w, 'n) bg" where
  "putBridge b s = s\<lparr>g_world := (g_world s)\<lparr>w_bridge := b\<rparr>\<rparr>"

definition putDb :: "idb \<Rightarrow> ('d, 'w, 'n) bg \<Rightarrow> ('d, 'w, 'n) bg" where
  "putDb db s = s\<lparr>g_world := (g_world s)\<lparr>w_db := db\<rparr>\<rparr>"

definition theDoc :: "('d, 'w, 'n) bg \<Rightarrow> 'd option" where
  "theDoc s = (if g_hasDoc s then Some (doc (g_bridge s)) else None)"

subsection \<open>Calls into the other modules\<close>

definition authP :: "(auth, 'a) act \<Rightarrow> (('d, 'w, 'n) bg, 'a) io" where
  "authP m s = (case m (g_auth s) of (r, a) \<Rightarrow> Some (r, s\<lparr>g_auth := a\<rparr>))"

definition worldP :: "(auth \<Rightarrow> (('d, 'w) bworld, 'a) act) \<Rightarrow> (('d, 'w, 'n) bg, 'a) io" where
  "worldP m s = (case m (g_auth s) (g_world s) of (r, w) \<Rightarrow> Some (r, s\<lparr>g_world := w\<rparr>))"

definition netP :: "(auth \<Rightarrow> ('n, 'a) act) \<Rightarrow> (('d, 'w, 'n) bg, 'a) io" where
  "netP m s = (case m (g_auth s) (g_net s) of (r, n) \<Rightarrow> Some (r, s\<lparr>g_net := n\<rparr>))"

definition bridgeDbP :: "(auth \<Rightarrow> 'w \<Rightarrow> ('d bridge \<times> idb, 'a) act) \<Rightarrow> (('d, 'w, 'n) bg, 'a) io" where
  "bridgeDbP m s =
     (case m (g_auth s) (w_browser (g_world s)) (g_bridge s, g_db s) of
        (r, (b, db)) \<Rightarrow> Some (r, putDb db (putBridge b s)))"

definition dbP :: "(idb \<Rightarrow> idb) \<Rightarrow> (('d, 'w, 'n) bg, unit) io" where
  "dbP f = setP (\<lambda>s. putDb (f (g_db s)) s)"

definition docP :: "('d option, 'a) act \<Rightarrow> (('d, 'w, 'n) bg, 'a) io" where
  "docP m s =
     (case m (theDoc s) of
        (r, None) \<Rightarrow> Some (r, s)
      | (r, Some d) \<Rightarrow> Some (r, (putBridge ((g_bridge s)\<lparr>doc := d\<rparr>) s)\<lparr>g_hasDoc := True\<rparr>))"

text \<open>A call whose first act is to read the document, which throws before initDoc.\<close>

definition withDoc :: "(('d, 'w, 'n) bg, 'a) io \<Rightarrow> (('d, 'w, 'n) bg, 'a) io" where
  "withDoc m s = (case loroDoc (theDoc s) of Inl e \<Rightarrow> Some (Inl e, s) | Inr d \<Rightarrow> m s)"

text \<open>The next nonce, and the sealing of a payload under a key.\<close>

definition sealP :: "('d, 'w, 'n) platform \<Rightarrow> bytes \<Rightarrow> bytes \<Rightarrow> (('d, 'w, 'n) bg, string) io" where
  "sealP X key plaintext s =
     (let k = uuids (g_bridge s)
      in Some (Inr (encrypt (e_crypto (x_env X)) (e_iv (x_env X) k) key plaintext),
               putBridge ((g_bridge s)\<lparr>uuids := Suc k\<rparr>) s))"

definition nowOf :: "('d, 'w, 'n) platform \<Rightarrow> ('d, 'w, 'n) bg \<Rightarrow> int" where
  "nowOf X s = e_now (x_env X) (uuids (g_bridge s))"

definition enqueueDeltaP :: "('d, 'w, 'n) platform \<Rightarrow> bytes \<Rightarrow> (('d, 'w, 'n) bg, unit) io" where
  "enqueueDeltaP X raw s =
     (let k = uuids (g_bridge s); E = x_env X
      in case enqueueDelta (e_crypto E) (e_iv E k) (e_uuid E k) (e_now E k) (g_auth s) raw (g_db s) of
           (r, db) \<Rightarrow> Some (r, putDb db (putBridge ((g_bridge s)\<lparr>uuids := Suc k\<rparr>) s)))"

definition initDocP :: "('d, 'w, 'n) platform \<Rightarrow> bytes option \<Rightarrow> (('d, 'w, 'n) bg, unit) io" where
  "initDocP X snapshot = docP (initDoc (x_loro X) snapshot)"

definition exportSnapshotP :: "('d, 'w, 'n) platform \<Rightarrow> (('d, 'w, 'n) bg, bytes) io" where
  "exportSnapshotP X s = Some (exportSnapshot (x_loro X) (theDoc s), s)"

definition resetVersionCursorP :: "('d, 'w, 'n) platform \<Rightarrow> (('d, 'w, 'n) bg, unit) io" where
  "resetVersionCursorP X = withDoc (setP (\<lambda>s. putBridge (resetVersionCursor (x_loro X) (g_bridge s)) s))"

definition loadMappingP :: "string \<Rightarrow> (('d, 'w, 'n) bg, unit) io" where
  "loadMappingP profileId = setP (\<lambda>s. putBridge (loadMapping profileId (g_db s) (g_bridge s)) s)"

definition importUpdateP :: "('d, 'w, 'n) platform \<Rightarrow> bytes \<Rightarrow> (('d, 'w, 'n) bg, unit) io" where
  "importUpdateP X data = docP (importUpdate (x_loro X) data)"

definition reconcileP :: "('d, 'w, 'n) platform \<Rightarrow> (('d, 'w, 'n) bg, unit) io" where
  "reconcileP X = withDoc (worldP (reconcileBookmarks (x_loro X) (x_chrome X) (x_roots X)))"

definition mergeLocalP :: "('d, 'w, 'n) platform \<Rightarrow> (('d, 'w, 'n) bg, unit) io" where
  "mergeLocalP X = withDoc (bridgeDbP (\<lambda>a w.
     mergeLocalChangesIntoDoc (x_loro X) (e_uuid (x_env X)) (x_roots X) a (ch_getTree (x_chrome X) w)))"

definition exportAndEnqueueP :: "('d, 'w, 'n) platform \<Rightarrow> (('d, 'w, 'n) bg, unit) io" where
  "exportAndEnqueueP X = withDoc (worldP (exportAndEnqueueLocalChanges (x_loro X) (x_env X)))"

definition offlineChangesP :: "('d, 'w, 'n) platform \<Rightarrow> (('d, 'w, 'n) bg, pendingChanges) io" where
  "offlineChangesP X = withDoc (getP (\<lambda>s.
     (case computeOfflineChanges (x_loro X) (x_roots X) (ch_getTree (x_chrome X) (w_browser (g_world s))) (g_bridge s) of
        (a, r, m) \<Rightarrow> \<lparr>added = a, removed = r, modified = m\<rparr>)))"

definition importDiffP :: "('d, 'w, 'n) platform \<Rightarrow> (('d, 'w, 'n) bg, importDiff) io" where
  "importDiffP X = withDoc (getP (\<lambda>s.
     (case computeLocalImportDiff (x_loro X) (x_roots X) (ch_getTree (x_chrome X) (w_browser (g_world s))) (g_bridge s) of
        (l, r) \<Rightarrow> \<lparr>localOnly = l, serverOnly = r\<rparr>)))"

definition mergeImportP :: "('d, 'w, 'n) platform \<Rightarrow> bool \<Rightarrow> (('d, 'w, 'n) bg, unit) io" where
  "mergeImportP X excludeDuplicates = withDoc (bridgeDbP (\<lambda>a w.
     mergeImportIntoDoc (x_loro X) (e_uuid (x_env X)) (x_roots X) a excludeDuplicates (ch_getTree (x_chrome X) w)))"

text \<open>\<^verbatim>\<open>const [tree] = await getTree()\<close> throws on a missing root.\<close>

definition bootstrapP :: "('d, 'w, 'n) platform \<Rightarrow> string \<Rightarrow> (('d, 'w, 'n) bg, nat) io" where
  "bootstrapP X profileId = withDoc (bridgeDbP (\<lambda>a w s.
     (case ch_getTree (x_chrome X) w of
        [] \<Rightarrow> (Inl (JsError ''TypeError''), s)
      | tree # _ \<Rightarrow>
          (case bootstrapFromChrome (x_loro X) (e_uuid (x_env X)) (x_roots X) profileId tree s of
             (n, b, db) \<Rightarrow> (Inr n, (b, db))))))"

definition clearManagedP :: "('d, 'w, 'n) platform \<Rightarrow> (('d, 'w, 'n) bg, unit) io" where
  "clearManagedP X = worldP (\<lambda>_. clearManagedBookmarks (x_chrome X) (x_roots X))"

text \<open>Registering and removing the listeners; both drop the version cursor.\<close>

definition detachP :: "(('d, 'w, 'n) bg, unit) io" where
  "detachP = setP (\<lambda>s. (putBridge ((g_bridge s)\<lparr>lastVersion := None\<rparr>) s)\<lparr>g_attached := False\<rparr>)"

definition attachP :: "(('d, 'w, 'n) bg, unit) io" where
  "attachP = bindP detachP (\<lambda>_. setP (\<lambda>s. s\<lparr>g_attached := True\<rparr>))"

text \<open>\<^const>\<open>pushPendingInner\<close>, and pushPending as a call that is awaited.\<close>

definition runPushP :: "('d, 'w, 'n) platform \<Rightarrow> (('d, 'w, 'n) bg, unit) io" where
  "runPushP X s =
     (case pushPendingInner (x_fetch X) (g_auth s) (g_db s, g_net s) of
        (r, (db, n)) \<Rightarrow> Some (r, (putDb db s)\<lparr>g_net := n\<rparr>))"

definition pushP :: "('d, 'w, 'n) platform \<Rightarrow> (('d, 'w, 'n) bg, unit) io" where
  "pushP X s = (if g_pushPaused s then Some (Inr (), s) else runPushP X s)"

definition pullP :: "('d, 'w, 'n) platform \<Rightarrow> int \<Rightarrow> string \<Rightarrow> (('d, 'w, 'n) bg, rawDelta list) io" where
  "pullP X sinceSeq profileId s =
     (case pullSince (x_fetch X) (e_crypto (x_env X)) (g_auth s) sinceSeq (Some profileId) (g_net s) of
        None \<Rightarrow> None
      | Some (r, n) \<Rightarrow> Some (r, s\<lparr>g_net := n\<rparr>))"

definition setIcon :: "icon \<Rightarrow> (('d, 'w, 'n) bg, unit) io" where
  "setIcon i = setP (\<lambda>s. s\<lparr>g_icon := i\<rparr>)"

definition setIconLocked :: "bool \<Rightarrow> (('d, 'w, 'n) bg, unit) io" where
  "setIconLocked locked = setIcon (if locked then IconLocked else IconDefault)"

definition postJob :: "job \<Rightarrow> (('d, 'w, 'n) bg, unit) io" where
  "postJob j = setP (\<lambda>s. s\<lparr>g_jobs := g_jobs s @ [j]\<rparr>)"

text \<open>\<^verbatim>\<open>pushPending().catch(...)\<close>: the pause switch is read at once, the run comes later.\<close>

definition startPush :: "(('d, 'w, 'n) bg, unit) io" where
  "startPush s = (if g_pushPaused s then Some (Inr (), s) else postJob PushJob s)"

end
