(* ===== verification/Background_Sync.thy ===== *)
theory Background_Sync
  imports Background_State
begin

text \<open>
  extension/src/background/index.ts, lines 797-1041 and 1105-1119: the pull with its gate, the
  upload of snapshots, the event stream, the start of a sync, the alarms, and the logout that an
  expired login causes. \<^verbatim>\<open>syncFromInner\<close> is a pull followed by
  \<^verbatim>\<open>applyDeltas\<close>; the state the second half meets is whatever the worker has become
  while the request was under way, which is why it is a definition of its own.
\<close>

subsection \<open>Tearing down\<close>

text \<open>\<^verbatim>\<open>if (sse) { sse.close(); sse = null; }\<close> and the two alarms cleared.\<close>

definition stopRealtimeSync :: "(('d, 'w, 'n) bg, unit) io" where
  "stopRealtimeSync = setP (\<lambda>s. s\<lparr>g_sse := None, g_alarms := g_alarms s - {SyncPoll, WsReconnect}\<rparr>)"

definition handleLogout :: "('d, 'w, 'n) platform \<Rightarrow> bool \<Rightarrow> (('d, 'w, 'n) bg, ext_response) io" where
  "handleLogout X clearBookmarks =
     bindP stopRealtimeSync (\<lambda>_.
     bindP detachP (\<lambda>_.
     bindP (setP (\<lambda>s. s\<lparr>g_auth := clearSession (g_auth s)\<rparr>)) (\<lambda>_.
     bindP (dbP clearDeltaQueue) (\<lambda>_.
     bindP (whenP clearBookmarks (clearManagedP X)) (\<lambda>_.
     bindP (setIcon IconSignedout) (\<lambda>_.
     retP LOGOUT_SUCCESS))))))"

text \<open>\<^verbatim>\<open>handleLogout().catch(console.error)\<close>.\<close>

definition onAuthExpired :: "('d, 'w, 'n) platform \<Rightarrow> (('d, 'w, 'n) bg, unit) io" where
  "onAuthExpired X = catchP (bindP (handleLogout X False) (\<lambda>_. retP ())) (\<lambda>_. retP ())"

text \<open>The catch of every background call: an expired login logs out, the rest is logged.\<close>

definition orLogout :: "('d, 'w, 'n) platform \<Rightarrow> (('d, 'w, 'n) bg, unit) io \<Rightarrow> (('d, 'w, 'n) bg, unit) io" where
  "orLogout X m = catchP m (\<lambda>e. if isAuthExpired e then onAuthExpired X else retP ())"

subsection \<open>Snapshots\<close>

definition persistSnapshot :: "('d, 'w, 'n) platform \<Rightarrow> string \<Rightarrow> (('d, 'w, 'n) bg, unit) io" where
  "persistSnapshot X profileId = bindP (exportSnapshotP X) (\<lambda>data. dbP (saveSnapshot profileId data))"

definition SNAPSHOT_UPLOAD_INTERVAL :: int where
  "SNAPSHOT_UPLOAD_INTERVAL = 50"

definition putServerSnapshot ::
  "('d, 'w, 'n) platform \<Rightarrow> string \<Rightarrow> int \<Rightarrow> string \<Rightarrow> (('d, 'w, 'n) bg, unit) io" where
  "putServerSnapshot X profileId seq sealed =
     netP (\<lambda>a. apiPutServerSnapshot (x_fetch X) a profileId seq sealed)"

definition maybeUploadServerSnapshot ::
  "('d, 'w, 'n) platform \<Rightarrow> string \<Rightarrow> int \<Rightarrow> (('d, 'w, 'n) bg, unit) io" where
  "maybeUploadServerSnapshot X profileId currentSeq =
     bindP (getP (\<lambda>s. getMetaNum (g_db s) (lastSnapshotUploadKey profileId))) (\<lambda>lastUpload.
       if currentSeq - lastUpload < SNAPSHOT_UPLOAD_INTERVAL then retP ()
       else
         bindP (askP (\<lambda>s. getEncryptionKey (g_auth s))) (\<lambda>key.
         bindP (exportSnapshotP X) (\<lambda>snapshot.
         bindP (sealP X key snapshot) (\<lambda>encryptedSnapshot.
         bindP (putServerSnapshot X profileId currentSeq encryptedSnapshot) (\<lambda>_.
         dbP (setMeta (lastSnapshotUploadKey profileId) (MNum currentSeq)))))))"

subsection \<open>The pull\<close>

definition stampSynced :: "('d, 'w, 'n) platform \<Rightarrow> (('d, 'w, 'n) bg, unit) io" where
  "stampSynced X = setP (\<lambda>s. s\<lparr>g_lastSynced := Some (nowOf X s)\<rparr>)"

definition lastSeqOf :: "string \<Rightarrow> ('d, 'w, 'n) bg \<Rightarrow> int" where
  "lastSeqOf profileId s = getMetaNum (g_db s) (lastSeqKey profileId)"

text \<open>What follows the pull: apply, persist, advance the cursor, reconcile.\<close>

definition applyDeltas ::
  "('d, 'w, 'n) platform \<Rightarrow> string \<Rightarrow> bool \<Rightarrow> rawDelta list \<Rightarrow> (('d, 'w, 'n) bg, unit) io" where
  "applyDeltas X profileId skipReconcile deltas =
     (if deltas = [] then stampSynced X
      else
        (let newSeq = sequenceId (last deltas)
         in bindP (forP (\<lambda>delta. importUpdateP X (rawDelta.payload delta)) deltas) (\<lambda>_.
            bindP (persistSnapshot X profileId) (\<lambda>_.
            bindP (dbP (setMeta (lastSeqKey profileId) (MNum newSeq))) (\<lambda>_.
            bindP (whenP (\<not> skipReconcile) (reconcileP X)) (\<lambda>_.
            bindP (stampSynced X) (\<lambda>_.
            postJob (UploadJob profileId newSeq)))))))) "

definition syncFromInner ::
  "('d, 'w, 'n) platform \<Rightarrow> string \<Rightarrow> int \<Rightarrow> bool \<Rightarrow> (('d, 'w, 'n) bg, unit) io" where
  "syncFromInner X profileId sinceSeq skipReconcile =
     bindP (pullP X sinceSeq profileId) (applyDeltas X profileId skipReconcile)"

text \<open>
  \<^verbatim>\<open>runCatchUpSync\<close> decides at once; the pull it starts is a job.
\<close>

definition runCatchUpSync :: "(('d, 'w, 'n) bg, unit) io" where
  "runCatchUpSync s =
     (if \<not> isLoggedIn (g_auth s) \<or> isLocked (g_auth s) \<or> g_syncPaused s \<or> g_switchInProgress s then Some (Inr (), s)
      else if g_pendingImport s \<noteq> None \<or> g_pendingChanges s \<noteq> None then Some (Inr (), s)
      else bindP (askP (\<lambda>s. getActiveProfileId (g_auth s))) (\<lambda>profileId. postJob (SyncJob profileId)) s)"

text \<open>The \<^verbatim>\<open>finally\<close> of syncFrom.\<close>

definition syncDone :: "(('d, 'w, 'n) bg, unit) io" where
  "syncDone s =
     (let s1 = s\<lparr>g_syncInProgress := False\<rparr>
      in if g_resyncRequested s1 then runCatchUpSync (s1\<lparr>g_resyncRequested := False\<rparr>) else Some (Inr (), s1))"

definition syncFrom ::
  "('d, 'w, 'n) platform \<Rightarrow> string \<Rightarrow> int \<Rightarrow> bool \<Rightarrow> bool \<Rightarrow> (('d, 'w, 'n) bg, unit) io" where
  "syncFrom X profileId sinceSeq skipReconcile exclusive s =
     (if g_syncPaused s then Some (Inr (), s)
      else if exclusive \<and> (g_switchInProgress s \<or> g_syncInProgress s)
      then Some (Inr (), if g_switchInProgress s then s else s\<lparr>g_resyncRequested := True\<rparr>)
      else finallyP (syncFromInner X profileId sinceSeq skipReconcile) syncDone (s\<lparr>g_syncInProgress := True\<rparr>))"

text \<open>\<^verbatim>\<open>getMeta(lastSeqId).then((seq) => syncFrom(profileId, seq ?? 0)).catch(...)\<close>.\<close>

definition reactiveSync :: "('d, 'w, 'n) platform \<Rightarrow> string \<Rightarrow> (('d, 'w, 'n) bg, unit) io" where
  "reactiveSync X profileId =
     orLogout X (bindP (getP (lastSeqOf profileId)) (\<lambda>lastSeq. syncFrom X profileId lastSeq False True))"

subsection \<open>The event stream\<close>

definition connectEventStream :: "(('d, 'w, 'n) bg, unit) io" where
  "connectEventStream s =
     (if g_syncPaused s then Some (Inr (), s)
      else
        bindP (askP (\<lambda>s. getActiveProfileId (g_auth s))) (\<lambda>profileId.
        bindP (askP (\<lambda>s. getJwt (g_auth s))) (\<lambda>token.
          if profileId = [] then retP ()
          else setP (\<lambda>s. s\<lparr>g_alarms := g_alarms s - {WsReconnect}, g_sse := Some (profileId, token, openEventStream)\<rparr>))) s)"

text \<open>The three callbacks of a stream; the first keeps the profile the stream was opened for.\<close>

definition onNewSeq :: "('d, 'w, 'n) platform \<Rightarrow> string \<Rightarrow> int \<Rightarrow> (('d, 'w, 'n) bg, unit) io" where
  "onNewSeq X profileId newSeq =
     bindP (getP (lastSeqOf profileId)) (\<lambda>lastSeq.
       whenP (lastSeq < newSeq) (orLogout X (syncFrom X profileId lastSeq False True)))"

definition streamLost :: "('d, 'w, 'n) bg \<Rightarrow> bool" where
  "streamLost s = (case g_sse s of None \<Rightarrow> True | Some (_, _, stream) \<Rightarrow> s_closed stream)"

definition onReconnectNeeded :: "(('d, 'w, 'n) bg, unit) io" where
  "onReconnectNeeded s =
     (if \<not> isLoggedIn (g_auth s) \<or> isLocked (g_auth s) then Some (Inr (), s)
      else if streamLost s then connectEventStream s else Some (Inr (), s))"

definition onCallback :: "('d, 'w, 'n) platform \<Rightarrow> string \<Rightarrow> callback \<Rightarrow> (('d, 'w, 'n) bg, unit) io" where
  "onCallback X profileId c =
     (case c of NewSeq newSeq \<Rightarrow> onNewSeq X profileId newSeq
      | ReconnectNeeded \<Rightarrow> onReconnectNeeded
      | AuthExpired e \<Rightarrow> onAuthExpired X)"

text \<open>The poll alarm is created only when it does not exist.\<close>

definition startSync :: "(('d, 'w, 'n) bg, unit) io" where
  "startSync s =
     (if g_syncPaused s then Some (Inr (), s)
      else
        bindP (askP (\<lambda>s. getActiveProfileId (g_auth s))) (\<lambda>profileId.
          if profileId = [] then retP ()
          else
            bindP connectEventStream (\<lambda>_.
            bindP startPush (\<lambda>_.
            setP (\<lambda>s. s\<lparr>g_alarms := insert SyncPoll (g_alarms s)\<rparr>)))) s)"

subsection \<open>Alarms and jobs\<close>

definition anyChange :: "pendingChanges \<Rightarrow> bool" where
  "anyChange c = (added c > 0 \<or> removed c > 0 \<or> modified c > 0)"

definition onAlarm :: "('d, 'w, 'n) platform \<Rightarrow> alarm \<Rightarrow> (('d, 'w, 'n) bg, unit) io" where
  "onAlarm X alarm s =
     (if \<not> isLoggedIn (g_auth s) \<or> isLocked (g_auth s) \<or> g_syncPaused s then Some (Inr (), s)
      else
        (case alarm of
           WsReconnect \<Rightarrow> (if streamLost s then connectEventStream s else Some (Inr (), s))
         | SyncPoll \<Rightarrow>
             bindP (askP (\<lambda>s. getActiveProfileId (g_auth s))) (\<lambda>profileId.
             bindP (\<lambda>s. if streamLost s then connectEventStream s else Some (Inr (), s)) (\<lambda>_.
             bindP (\<lambda>s. if hasEstablishedMapping (g_bridge s) then postJob (PollMergeJob profileId) s else Some (Inr (), s)) (\<lambda>_.
             bindP (postJob (SyncJob profileId)) (\<lambda>_.
             startPush)))) s))"

text \<open>The poll for changes the events missed.\<close>

definition mergeMissed :: "('d, 'w, 'n) platform \<Rightarrow> string \<Rightarrow> (('d, 'w, 'n) bg, unit) io" where
  "mergeMissed X profileId =
     bindP (offlineChangesP X) (\<lambda>changes.
       whenP (anyChange changes)
         (bindP (mergeLocalP X) (\<lambda>_.
          bindP (exportAndEnqueueP X) (\<lambda>_.
          persistSnapshot X profileId))))"

definition runJob :: "('d, 'w, 'n) platform \<Rightarrow> job \<Rightarrow> (('d, 'w, 'n) bg, unit) io" where
  "runJob X j =
     (case j of
        PushJob \<Rightarrow> orLogout X (runPushP X)
      | SyncJob profileId \<Rightarrow> reactiveSync X profileId
      | PollMergeJob profileId \<Rightarrow> catchP (mergeMissed X profileId) (\<lambda>_. retP ())
      | UploadJob profileId seq \<Rightarrow> catchP (maybeUploadServerSnapshot X profileId seq) (\<lambda>_. retP ())
      | PutSnapshotJob profileId seq sealed \<Rightarrow>
          catchP (putServerSnapshot X profileId seq sealed) (\<lambda>_. retP ()))"

end
