(* ===== verification/Background_Docs.thy ===== *)
theory Background_Docs
  imports Background_Sync
begin

text \<open>
  extension/src/background/index.ts, lines 97-104, 258-632 and 645-763: setPendingImport,
  initializeDocs, and the handlers that call it or resolve what it left open -- login, unlock, the
  resolution of offline changes and of an import conflict.
\<close>

subsection \<open>Common parts\<close>

definition setPendingImport :: "(string \<times> importDiff) option \<Rightarrow> (('d, 'w, 'n) bg, unit) io" where
  "setPendingImport value =
     setP (\<lambda>s. s\<lparr>g_pendingImport := value,
                  g_auth := (g_auth s)\<lparr>sstore := (sstore (g_auth s))\<lparr>ss_pendingImport := value\<rparr>\<rparr>\<rparr>)"

text \<open>\<^verbatim>\<open>await _browserRootsReady\<close>.\<close>

definition browserRootsReady :: "('d, 'w, 'n) platform \<Rightarrow> (('d, 'w, 'n) bg, unit) io" where
  "browserRootsReady X = liftP (x_rootsReady X)"

text \<open>\<^verbatim>\<open>catch (err) { return error(message) }\<close>.\<close>

definition orReply ::
  "('d, 'w, 'n) platform \<Rightarrow> (string \<Rightarrow> ext_response) \<Rightarrow> (('d, 'w, 'n) bg, ext_response) io
     \<Rightarrow> (('d, 'w, 'n) bg, ext_response) io" where
  "orReply X err m = catchP m (\<lambda>e. retP (err (errorMessage (x_domText X) e)))"

subsection \<open>initializeDocs\<close>

text \<open>
  The two branches end in an early return (the import conflict and the bootstrap flag) or fall
  through to the reconcile at the end.
\<close>

datatype init_result = Continue | Return "importDiff option" "bool option"

definition initFromLocal ::
  "('d, 'w, 'n) platform \<Rightarrow> string \<Rightarrow> bytes \<Rightarrow> bool \<Rightarrow> bool \<Rightarrow> (('d, 'w, 'n) bg, init_result) io" where
  "initFromLocal X profileId storedSnapshot mergeOffline checkImport =
     bindP (initDocP X (Some storedSnapshot)) (\<lambda>_.
     bindP (resetVersionCursorP X) (\<lambda>_.
     bindP (getP (\<lambda>s. hasEstablishedMapping (g_bridge s))) (\<lambda>established.
     bindP (whenP (mergeOffline \<and> established)
              (bindP (mergeLocalP X) (\<lambda>_. exportAndEnqueueP X))) (\<lambda>_.
     bindP (getP (lastSeqOf profileId)) (\<lambda>lastSeq.
     bindP (syncFrom X profileId lastSeq checkImport False) (\<lambda>_.
       if checkImport
       then bindP (importDiffP X) (\<lambda>diff.
              retP (if localOnly diff > 0 then Return (Some diff) None else Continue))
       else retP Continue))))))"

definition initFromServer ::
  "('d, 'w, 'n) platform \<Rightarrow> string \<Rightarrow> bool \<Rightarrow> (('d, 'w, 'n) bg, init_result) io" where
  "initFromServer X profileId checkImport =
     bindP (askP (\<lambda>s. getEncryptionKey (g_auth s))) (\<lambda>encKey.
     bindP (catchP (netP (\<lambda>a. apiGetServerSnapshot (x_fetch X) a profileId)) (\<lambda>_. retP None)) (\<lambda>serverSnapshot.
     bindP (case serverSnapshot of
              Some (snapshotSeq, sealed) \<Rightarrow>
                bindP (liftP (decrypt (e_crypto (x_env X)) encKey sealed)) (\<lambda>decrypted.
                bindP (initDocP X (Some decrypted)) (\<lambda>_.
                bindP (resetVersionCursorP X) (\<lambda>_.
                bindP (dbP (setMeta (lastSeqKey profileId) (MNum snapshotSeq))) (\<lambda>_.
                syncFrom X profileId snapshotSeq checkImport False))))
            | None \<Rightarrow>
                bindP (initDocP X None) (\<lambda>_. syncFrom X profileId 0 checkImport False)) (\<lambda>_.
     bindP (getP (lastSeqOf profileId)) (\<lambda>lastSeqAfterSync.
     bindP (getP (\<lambda>s. length (getProfiles (g_auth s)))) (\<lambda>profileCount.
       if lastSeqAfterSync = 0 \<and> profileCount = 1
       then
         bindP (bootstrapP X profileId) (\<lambda>bootstrapCount.
         bindP (exportSnapshotP X) (\<lambda>snapshot.
         bindP (enqueueDeltaP X snapshot) (\<lambda>_.
         bindP (persistSnapshot X profileId) (\<lambda>_.
         bindP (reconcileP X) (\<lambda>_.
         bindP attachP (\<lambda>_.
         retP (Return None (Some (bootstrapCount > 0)))))))))
       else
         bindP (if lastSeqAfterSync \<noteq> 0 \<and> checkImport then bindP (importDiffP X) (\<lambda>diff. retP (Some diff)) else retP None) (\<lambda>diff.
           if diff \<noteq> None \<and> localOnly (the diff) > 0
           then bindP (persistSnapshot X profileId) (\<lambda>_. retP (Return diff None))
           else
             bindP (persistSnapshot X profileId) (\<lambda>_.
             bindP (whenP (serverSnapshot = None \<and> lastSeqAfterSync > 0)
               (bindP (exportSnapshotP X) (\<lambda>snapshot.
                bindP (sealP X encKey snapshot) (\<lambda>encryptedSnapshot.
                postJob (PutSnapshotJob profileId lastSeqAfterSync encryptedSnapshot))))) (\<lambda>_.
             retP Continue)))))))) "

definition initializeDocs ::
  "('d, 'w, 'n) platform \<Rightarrow> string \<Rightarrow> bool \<Rightarrow> bool \<Rightarrow> (('d, 'w, 'n) bg, importDiff option \<times> bool option) io" where
  "initializeDocs X profileId mergeOffline checkImport =
     bindP (browserRootsReady X) (\<lambda>_.
     bindP (loadMappingP profileId) (\<lambda>_.
     bindP (getP (\<lambda>s. loadSnapshot (g_db s) profileId)) (\<lambda>stored.
     bindP (case stored of
              Some storedSnapshot \<Rightarrow> initFromLocal X profileId storedSnapshot mergeOffline checkImport
            | None \<Rightarrow> initFromServer X profileId checkImport) (\<lambda>res.
       case res of
         Return pendingImport bootstrapped \<Rightarrow> retP (pendingImport, bootstrapped)
       | Continue \<Rightarrow>
           bindP (reconcileP X) (\<lambda>_.
           bindP attachP (\<lambda>_.
           retP (None, None)))))))"

subsection \<open>Login\<close>

text \<open>The UTF-8 bytes of an empty object, the placeholder metadata of a profile.\<close>

definition emptyObject :: bytes where
  "emptyObject = [0x7B, 0x7D]"

definition newKeyP :: "('d, 'w, 'n) platform \<Rightarrow> (('d, 'w, 'n) bg, bytes) io" where
  "newKeyP X s =
     (let k = uuids (g_bridge s)
      in Some (Inr (x_newKey X k), putBridge ((g_bridge s)\<lparr>uuids := Suc k\<rparr>) s))"

definition registerAccount ::
  "('d, 'w, 'n) platform \<Rightarrow> string \<Rightarrow> string \<Rightarrow> bytes
     \<Rightarrow> (('d, 'w, 'n) bg, string \<times> profileInfo list \<times> string option \<times> bool) io" where
  "registerAccount X mail auth wrappingKey =
     bindP (newKeyP X) (\<lambda>symmetricKeyBytes.
     bindP (sealP X wrappingKey symmetricKeyBytes) (\<lambda>psk.
     bindP (liftP (importKey symmetricKeyBytes)) (\<lambda>key.
     bindP (sealP X key emptyObject) (\<lambda>placeholderMetadata.
     bindP (netP (\<lambda>_. apiRegister (x_fetch X) mail auth ''Default'' placeholderMetadata psk)) (\<lambda>(token, profileId).
     retP (token, [\<lparr>pi_id = profileId, pi_name = ''Default''\<rparr>], Some psk, True))))))"

definition loginOrRegister ::
  "('d, 'w, 'n) platform \<Rightarrow> string \<Rightarrow> string \<Rightarrow> bytes
     \<Rightarrow> (('d, 'w, 'n) bg, string \<times> profileInfo list \<times> string option \<times> bool) io" where
  "loginOrRegister X mail auth wrappingKey =
     catchP
       (bindP (netP (\<lambda>_. apiLogin (x_fetch X) mail auth)) (\<lambda>(token, ps, psk). retP (token, ps, psk, False)))
       (\<lambda>loginErr.
          if loginErr \<noteq> InvalidCredentialsError then throwP loginErr
          else catchP (registerAccount X mail auth wrappingKey)
                 (\<lambda>regErr. throwP (if errorMessage (x_domText X) regErr = ''email already registered''
                                    then JsError ''Incorrect email or password.'' else regErr)))"

definition missingPsk :: js_error where
  "missingPsk = JsError (''Server did not return a protected_symmetric_key - the server may need to be ''
     @ ''updated and the database reset.'')"

text \<open>What follows initializeDocs: the conflict is parked and no sync starts, or the sync starts.\<close>

definition loginReply ::
  "profileInfo list \<Rightarrow> string \<Rightarrow> bool \<Rightarrow> importDiff option \<Rightarrow> bool option \<Rightarrow> (('d, 'w, 'n) bg, ext_response) io" where
  "loginReply ps active isNewAccount pending bootstrapped =
     (case pending of
        Some diff \<Rightarrow>
          bindP (setPendingImport (Some (active, diff))) (\<lambda>_.
          retP (LOGIN_SUCCESS ps (Some diff) None None))
      | None \<Rightarrow>
          bindP (setIconLocked False) (\<lambda>_.
          bindP startSync (\<lambda>_.
          retP (LOGIN_SUCCESS ps None bootstrapped (Some isNewAccount)))))"

text \<open>The key is recovered, the session set, the documents initialised.\<close>

definition openSession ::
  "('d, 'w, 'n) platform \<Rightarrow> string \<Rightarrow> bytes \<Rightarrow> string \<Rightarrow> profileInfo list \<Rightarrow> string option \<Rightarrow> bool
     \<Rightarrow> (('d, 'w, 'n) bg, ext_response) io" where
  "openSession X mail wrappingKey token ps psk isNewAccount =
     bindP (liftP (if truthy psk then Inr (the psk) else Inl missingPsk)) (\<lambda>protectedKey.
     bindP (liftP (decrypt (e_crypto (x_env X)) wrappingKey protectedKey)) (\<lambda>symmetricKeyBytes.
     bindP (liftP (importKey symmetricKeyBytes)) (\<lambda>key.
     bindP (liftP (case ps of [] \<Rightarrow> Inl (JsError ''TypeError'') | p # _ \<Rightarrow> Inr (pi_id p))) (\<lambda>active.
     bindP (setP (\<lambda>s. s\<lparr>g_auth := setSession token mail key symmetricKeyBytes protectedKey [] ps active (g_auth s)\<rparr>)) (\<lambda>_.
     bindP (initializeDocs X active False True) (\<lambda>(pending, bootstrapped).
     loginReply ps active isNewAccount pending bootstrapped))))))"

definition handleLogin ::
  "('d, 'w, 'n) platform \<Rightarrow> string \<Rightarrow> string \<Rightarrow> bytes \<Rightarrow> (('d, 'w, 'n) bg, ext_response) io" where
  "handleLogin X mail auth wrapping =
     catchP
       (bindP (liftP (importKey wrapping)) (\<lambda>wrappingKey.
        bindP (loginOrRegister X mail auth wrappingKey) (\<lambda>(token, ps, psk, isNewAccount).
        openSession X mail wrappingKey token ps psk isNewAccount)))
       (\<lambda>e. retP (LOGIN_ERROR (errorString (x_domText X) e)))"

subsection \<open>Unlock\<close>

definition handleUnlock :: "('d, 'w, 'n) platform \<Rightarrow> bytes \<Rightarrow> (('d, 'w, 'n) bg, ext_response) io" where
  "handleUnlock X encryptionKeyBytes =
     catchP
       (bindP (browserRootsReady X) (\<lambda>_.
        bindP (liftP (importKey encryptionKeyBytes)) (\<lambda>key.
        bindP (authP (setEncryptionKey key encryptionKeyBytes)) (\<lambda>_.
        bindP (askP (\<lambda>s. getActiveProfileId (g_auth s))) (\<lambda>profileId.
        bindP (loadMappingP profileId) (\<lambda>_.
        bindP (getP (\<lambda>s. loadSnapshot (g_db s) profileId)) (\<lambda>stored.
        bindP (case stored of
                 None \<Rightarrow> retP None
               | Some storedSnapshot \<Rightarrow>
                   bindP (initDocP X (Some storedSnapshot)) (\<lambda>_.
                   bindP (resetVersionCursorP X) (\<lambda>_.
                   bindP (offlineChangesP X) (\<lambda>changes.
                   retP (if anyChange changes then Some changes else None))))) (\<lambda>pending.
          case pending of
            Some changes \<Rightarrow>
              bindP (setP (\<lambda>s. s\<lparr>g_pendingChanges := Some changes, g_pendingUnlockProfileId := Some profileId\<rparr>)) (\<lambda>_.
              bindP (setIconLocked True) (\<lambda>_.
              getP (\<lambda>s. UNLOCK_SUCCESS (getActiveProfile (g_auth s)) (getProfiles (g_auth s)) (Some changes))))
          | None \<Rightarrow>
              bindP (setP (\<lambda>s. s\<lparr>g_pendingChanges := None, g_pendingUnlockProfileId := None\<rparr>)) (\<lambda>_.
              bindP (initializeDocs X profileId True False) (\<lambda>_.
              bindP (setIconLocked False) (\<lambda>_.
              bindP startSync (\<lambda>_.
              getP (\<lambda>s. UNLOCK_SUCCESS (getActiveProfile (g_auth s)) (getProfiles (g_auth s)) None)))))))))))))
       (\<lambda>e. retP (UNLOCK_ERROR (errorString (x_domText X) e)))"

definition completeUnlockInit ::
  "('d, 'w, 'n) platform \<Rightarrow> string \<Rightarrow> bool \<Rightarrow> (('d, 'w, 'n) bg, unit) io" where
  "completeUnlockInit X profileId applyLocalChanges =
     bindP (browserRootsReady X) (\<lambda>_.
     bindP (whenP applyLocalChanges (bindP (mergeLocalP X) (\<lambda>_. exportAndEnqueueP X))) (\<lambda>_.
     bindP (getP (lastSeqOf profileId)) (\<lambda>lastSeq.
     bindP (syncFrom X profileId lastSeq False False) (\<lambda>_.
     bindP (reconcileP X) (\<lambda>_.
     attachP)))))"

definition handleResolveLockedChanges ::
  "('d, 'w, 'n) platform \<Rightarrow> bool \<Rightarrow> (('d, 'w, 'n) bg, ext_response) io" where
  "handleResolveLockedChanges X apply =
     bindP (getP g_pendingUnlockProfileId) (\<lambda>pending.
       if \<not> truthy pending then retP (RESOLVE_ERROR ''No pending unlock to resolve.'')
       else
         bindP (setP (\<lambda>s. s\<lparr>g_pendingChanges := None, g_pendingUnlockProfileId := None\<rparr>)) (\<lambda>_.
         catchP
           (bindP (completeUnlockInit X (the pending) apply) (\<lambda>_.
            bindP (setIconLocked False) (\<lambda>_.
            bindP startSync (\<lambda>_.
            retP RESOLVE_SUCCESS))))
           (\<lambda>err.
              if err = OperationError
              then bindP (setP (\<lambda>s. s\<lparr>g_auth := lockSession (g_auth s)\<rparr>)) (\<lambda>_.
                   bindP (setIconLocked True) (\<lambda>_.
                   retP (RESOLVE_ERROR ''Incorrect password - please unlock again.'')))
              else retP (RESOLVE_ERROR (errorMessage (x_domText X) err)))))"

subsection \<open>The import conflict\<close>

text \<open>\<^verbatim>\<open>const snapshot = await loadSnapshot(p); if (snapshot) ... else await initDoc()\<close>.\<close>

definition restoreDoc :: "('d, 'w, 'n) platform \<Rightarrow> string \<Rightarrow> (('d, 'w, 'n) bg, unit) io" where
  "restoreDoc X profileId =
     bindP (getP (\<lambda>s. loadSnapshot (g_db s) profileId)) (\<lambda>snapshot.
       case snapshot of
         Some data \<Rightarrow> bindP (initDocP X (Some data)) (\<lambda>_. resetVersionCursorP X)
       | None \<Rightarrow> initDocP X None)"

text \<open>The session goes to another profile, whose document is loaded and pulled without a reconcile.\<close>

definition loadTarget :: "('d, 'w, 'n) platform \<Rightarrow> string \<Rightarrow> (('d, 'w, 'n) bg, unit) io" where
  "loadTarget X targetProfileId =
     bindP (authP (switchProfile targetProfileId)) (\<lambda>_.
     bindP (loadMappingP targetProfileId) (\<lambda>_.
     bindP (getP (\<lambda>s. loadSnapshot (g_db s) targetProfileId)) (\<lambda>targetSnapshot.
       case targetSnapshot of
         Some data \<Rightarrow>
           bindP (initDocP X (Some data)) (\<lambda>_.
           bindP (resetVersionCursorP X) (\<lambda>_.
           bindP (getP (lastSeqOf targetProfileId)) (\<lambda>lastSeq.
           syncFrom X targetProfileId lastSeq True False)))
       | None \<Rightarrow>
           bindP (initDocP X None) (\<lambda>_. syncFrom X targetProfileId 0 True False))))"

definition importOverwrite :: "('d, 'w, 'n) platform \<Rightarrow> string \<Rightarrow> string \<Rightarrow> (('d, 'w, 'n) bg, unit) io" where
  "importOverwrite X originalProfileId targetProfileId =
     bindP (persistSnapshot X originalProfileId) (\<lambda>_.
     bindP (whenP (targetProfileId \<noteq> originalProfileId)
       (bindP (loadTarget X targetProfileId) (\<lambda>_. persistSnapshot X targetProfileId))) (\<lambda>_.
     bindP (reconcileP X) (\<lambda>_.
     attachP)))"

definition importMerge :: "('d, 'w, 'n) platform \<Rightarrow> string \<Rightarrow> string \<Rightarrow> bool \<Rightarrow> (('d, 'w, 'n) bg, unit) io" where
  "importMerge X originalProfileId targetProfileId excludeDuplicates =
     bindP (whenP (targetProfileId \<noteq> originalProfileId)
       (bindP (persistSnapshot X originalProfileId) (\<lambda>_. loadTarget X targetProfileId))) (\<lambda>_.
     bindP (mergeImportP X excludeDuplicates) (\<lambda>_.
     bindP (exportAndEnqueueP X) (\<lambda>_.
     bindP (persistSnapshot X targetProfileId) (\<lambda>_.
     bindP (reconcileP X) (\<lambda>_.
     attachP)))))"

text \<open>\<^verbatim>\<open>String.prototype.trim\<close>.\<close>

definition isSpace :: "char \<Rightarrow> bool" where
  "isSpace c = (c = CHR 0x20 \<or> c = CHR 0xA0 \<or> (9 \<le> (of_char c :: nat) \<and> (of_char c :: nat) \<le> 13))"

definition trim :: "string \<Rightarrow> string" where
  "trim s = rev (dropWhile isSpace (rev (dropWhile isSpace s)))"

definition seedNewProfile :: "('d, 'w, 'n) platform \<Rightarrow> string \<Rightarrow> (('d, 'w, 'n) bg, unit) io" where
  "seedNewProfile X createdId =
     bindP (authP (switchProfile createdId)) (\<lambda>_.
     bindP (loadMappingP createdId) (\<lambda>_.
     bindP (initDocP X None) (\<lambda>_.
     bindP (bootstrapP X createdId) (\<lambda>_.
     bindP (exportSnapshotP X) (\<lambda>snapshot.
     bindP (enqueueDeltaP X snapshot) (\<lambda>_.
     bindP (persistSnapshot X createdId) (\<lambda>_.
     bindP (reconcileP X) (\<lambda>_.
     attachP))))))))"

definition rollBackProfile ::
  "('d, 'w, 'n) platform \<Rightarrow> string \<Rightarrow> string \<Rightarrow> js_error \<Rightarrow> (('d, 'w, 'n) bg, unit) io" where
  "rollBackProfile X originalProfileId createdId err =
     bindP (authP (switchProfile originalProfileId)) (\<lambda>_.
     bindP (setP (\<lambda>s. s\<lparr>g_auth := removeProfile createdId (g_auth s)\<rparr>)) (\<lambda>_.
     bindP (askP (\<lambda>s. getJwt (g_auth s))) (\<lambda>token.
     bindP (catchP (netP (\<lambda>_. apiDeleteProfile (x_fetch X) createdId token)) (\<lambda>_. retP ())) (\<lambda>_.
     bindP (loadMappingP originalProfileId) (\<lambda>_.
     bindP (restoreDoc X originalProfileId) (\<lambda>_.
     throwP err))))))"

definition importNewProfile ::
  "('d, 'w, 'n) platform \<Rightarrow> string \<Rightarrow> string option \<Rightarrow> (('d, 'w, 'n) bg, profileInfo) io" where
  "importNewProfile X originalProfileId profileName =
     bindP (persistSnapshot X originalProfileId) (\<lambda>_.
     bindP (askP (\<lambda>s. getEncryptionKey (g_auth s))) (\<lambda>key.
     bindP (sealP X key emptyObject) (\<lambda>encryptedMetadata.
     bindP (askP (\<lambda>s. getJwt (g_auth s))) (\<lambda>token.
     bindP (netP (\<lambda>_. apiCreateProfile (x_fetch X)
       (let name = trim (orElse profileName []) in if name = [] then ''Local Bookmarks'' else name)
       encryptedMetadata token)) (\<lambda>created.
     bindP (authP (addProfile created)) (\<lambda>_.
     bindP (catchP (seedNewProfile X (pi_id created)) (rollBackProfile X originalProfileId (pi_id created))) (\<lambda>_.
     retP created)))))))"

definition handleResolveImport ::
  "('d, 'w, 'n) platform \<Rightarrow> importChoice \<Rightarrow> bool option \<Rightarrow> string option \<Rightarrow> string option
     \<Rightarrow> (('d, 'w, 'n) bg, ext_response) io" where
  "handleResolveImport X choice excludeDuplicates profileName target =
     bindP (getP g_pendingImport) (\<lambda>pending.
       case pending of
         None \<Rightarrow> retP (RESOLVE_IMPORT_ERROR ''No pending import to resolve.'')
       | Some (originalProfileId, _) \<Rightarrow>
           bindP (setPendingImport None) (\<lambda>_.
           orReply X RESOLVE_IMPORT_ERROR
             (bindP (browserRootsReady X) (\<lambda>_.
              let targetProfileId = orElse target originalProfileId
              in bindP (case choice of
                     Overwrite \<Rightarrow> bindP (importOverwrite X originalProfileId targetProfileId) (\<lambda>_. retP None)
                   | Merge \<Rightarrow> bindP (importMerge X originalProfileId targetProfileId (orElse excludeDuplicates True)) (\<lambda>_. retP None)
                   | NewProfile \<Rightarrow> bindP (importNewProfile X originalProfileId profileName) (\<lambda>p. retP (Some p))) (\<lambda>created.
                 bindP (setIconLocked False) (\<lambda>_.
                 bindP startSync (\<lambda>_.
                 if created \<noteq> None then retP (RESOLVE_IMPORT_SUCCESS created None)
                 else getP (\<lambda>s. RESOLVE_IMPORT_SUCCESS None
                   (if targetProfileId \<noteq> originalProfileId then getActiveProfile (g_auth s) else None)))))))))"

definition handleRecomputeImportDiff ::
  "('d, 'w, 'n) platform \<Rightarrow> string \<Rightarrow> (('d, 'w, 'n) bg, ext_response) io" where
  "handleRecomputeImportDiff X profileId =
     bindP (getP g_pendingImport) (\<lambda>pending.
     bindP (getP (\<lambda>s. getProfiles (g_auth s))) (\<lambda>ps.
       case pending of
         None \<Rightarrow> retP (RECOMPUTE_IMPORT_DIFF_ERROR ''No pending import to resolve.'')
       | Some (originalProfileId, _) \<Rightarrow>
           if find (\<lambda>p. pi_id p = profileId) ps = None then retP (RECOMPUTE_IMPORT_DIFF_ERROR ''Profile not found.'')
           else
             orReply X RECOMPUTE_IMPORT_DIFF_ERROR
               (bindP (browserRootsReady X) (\<lambda>_.
                bindP (initDocP X None) (\<lambda>_.
                bindP (loadMappingP profileId) (\<lambda>_.
                bindP (syncFrom X profileId 0 True False) (\<lambda>_.
                bindP (importDiffP X) (\<lambda>diff.
                bindP (whenP (profileId \<noteq> originalProfileId)
                  (bindP (getP (\<lambda>s. loadSnapshot (g_db s) originalProfileId)) (\<lambda>originalSnapshot.
                   bindP (loadMappingP originalProfileId) (\<lambda>_.
                   case originalSnapshot of
                     Some data \<Rightarrow> bindP (initDocP X (Some data)) (\<lambda>_. resetVersionCursorP X)
                   | None \<Rightarrow> initDocP X None)))) (\<lambda>_.
                bindP (setPendingImport (Some (originalProfileId, diff))) (\<lambda>_.
                retP (RECOMPUTE_IMPORT_DIFF_SUCCESS diff))))))))))) "

end
