(* ===== verification/Background.thy ===== *)
theory Background
  imports Background_Docs
begin

text \<open>
  extension/src/background/index.ts, the rest: startup, keyboard commands, the message handler, and
  the handlers for lock, password change, export, account deletion, profile switch, manual sync and
  the profile list. A handler that throws sends no reply.
  A profile switch that arrives while another runs is queued; \<^verbatim>\<open>arrivals\<close> lists, for each
  round of the running switch, the requests that come in during the round.
\<close>

subsection \<open>Lock\<close>

definition handleLock :: "(('d, 'w, 'n) bg, ext_response) io" where
  "handleLock =
     bindP stopRealtimeSync (\<lambda>_.
     bindP detachP (\<lambda>_.
     bindP (setP (\<lambda>s. s\<lparr>g_auth := lockSession (g_auth s)\<rparr>)) (\<lambda>_.
     bindP (setIconLocked True) (\<lambda>_.
     retP LOCK_SUCCESS))))"

subsection \<open>Change password\<close>

text \<open>pausePushes waits for the pushes that were issued before it; resumePushes.\<close>

definition pausePushesP :: "('d, 'w, 'n) platform \<Rightarrow> (('d, 'w, 'n) bg, unit) io" where
  "pausePushesP X =
     bindP (setP (\<lambda>s. s\<lparr>g_pushPaused := True\<rparr>)) (\<lambda>_.
     bindP (getP (\<lambda>s. filter (\<lambda>j. j = PushJob) (g_jobs s))) (\<lambda>pushes.
     bindP (forP (runJob X) pushes) (\<lambda>_.
     setP (\<lambda>s. s\<lparr>g_jobs := filter (\<lambda>j. j \<noteq> PushJob) (g_jobs s)\<rparr>))))"

definition resumePushesP :: "(('d, 'w, 'n) bg, unit) io" where
  "resumePushesP = setP (\<lambda>s. s\<lparr>g_pushPaused := False\<rparr>)"

text \<open>The wait ends when no sync and no switch runs; alone it would never end.\<close>

definition waitForSyncIdle :: "(('d, 'w, 'n) bg, unit) io" where
  "waitForSyncIdle s = (if g_syncInProgress s \<or> g_switchInProgress s then None else Some (Inr (), s))"

definition changeCredentials ::
  "('d, 'w, 'n) platform \<Rightarrow> string \<Rightarrow> string \<Rightarrow> string \<Rightarrow> (('d, 'w, 'n) bg, ext_response) io" where
  "changeCredentials X oldAuth newAuth newPsk =
     catchP
       (bindP (pausePushesP X) (\<lambda>_.
        bindP waitForSyncIdle (\<lambda>_.
        bindP (askP (\<lambda>s. getJwt (g_auth s))) (\<lambda>token.
        bindP (netP (\<lambda>_. apiChangePassword (x_fetch X) oldAuth newAuth newPsk token)) (\<lambda>newToken.
        bindP (authP (updateJwt newToken)) (\<lambda>_.
        bindP (authP (updateProtectedSymmetricKey newPsk)) (\<lambda>_.
        retP CHANGE_PASSWORD_SUCCESS)))))))
       (\<lambda>err.
          bindP (if isAuthExpired err then bindP (handleLogout X False) (\<lambda>_. retP ()) else retP ()) (\<lambda>_.
          retP (CHANGE_PASSWORD_ERROR (errorMessage (x_domText X) err))))"

definition resumeSync :: "(('d, 'w, 'n) bg, unit) io" where
  "resumeSync =
     bindP resumePushesP (\<lambda>_.
     bindP (setP (\<lambda>s. s\<lparr>g_syncPaused := False\<rparr>)) (\<lambda>_.
     (\<lambda>s. if isLoggedIn (g_auth s) \<and> \<not> isLocked (g_auth s) then startSync s else Some (Inr (), s))))"

definition handleChangePassword ::
  "('d, 'w, 'n) platform \<Rightarrow> string \<Rightarrow> string \<Rightarrow> string \<Rightarrow> (('d, 'w, 'n) bg, ext_response) io" where
  "handleChangePassword X oldAuth newAuth newPsk =
     bindP (setP (\<lambda>s. s\<lparr>g_syncPaused := True\<rparr>)) (\<lambda>_.
     bindP stopRealtimeSync (\<lambda>_.
     finallyP (changeCredentials X oldAuth newAuth newPsk) resumeSync))"

subsection \<open>Export and account deletion\<close>

definition handleExportProfile :: "('d, 'w, 'n) platform \<Rightarrow> string \<Rightarrow> (('d, 'w, 'n) bg, ext_response) io" where
  "handleExportProfile X profileId =
     orReply X EXPORT_PROFILE_ERROR
       (bindP (getP (\<lambda>s. loadSnapshot (g_db s) profileId)) (\<lambda>snapshot.
          case snapshot of
            None \<Rightarrow> retP (EXPORT_PROFILE_ERROR ''No local data for this profile. Open it at least once to sync it.'')
          | Some data \<Rightarrow>
              bindP (liftP (getBookmarksFromSnapshot (x_loro X) data)) (\<lambda>bms. retP (EXPORT_PROFILE_SUCCESS bms))))"

definition handleDeleteAccount :: "('d, 'w, 'n) platform \<Rightarrow> string \<Rightarrow> (('d, 'w, 'n) bg, ext_response) io" where
  "handleDeleteAccount X auth =
     catchP
       (bindP (askP (\<lambda>s. getJwt (g_auth s))) (\<lambda>token.
        bindP (netP (\<lambda>_. apiDeleteAccount (x_fetch X) token auth)) (\<lambda>_.
        bindP stopRealtimeSync (\<lambda>_.
        bindP detachP (\<lambda>_.
        bindP (setP (\<lambda>s. s\<lparr>g_auth := clearSession (g_auth s)\<rparr>)) (\<lambda>_.
        bindP (dbP clearAllLocalData) (\<lambda>_.
        bindP (setIcon IconSignedout) (\<lambda>_.
        retP DELETE_ACCOUNT_SUCCESS))))))))
       (\<lambda>e. retP (DELETE_ACCOUNT_ERROR (errorString (x_domText X) e)))"

subsection \<open>Profile switch\<close>

definition switchRound :: "('d, 'w, 'n) platform \<Rightarrow> string \<Rightarrow> (('d, 'w, 'n) bg, unit) io" where
  "switchRound X targetId =
     bindP (setP (\<lambda>s. s\<lparr>g_pendingSwitchProfileId := None\<rparr>)) (\<lambda>_.
     bindP stopRealtimeSync (\<lambda>_.
     bindP detachP (\<lambda>_.
     bindP (authP (switchProfile targetId)) (\<lambda>_.
     bindP (initializeDocs X targetId False False) (\<lambda>_.
     startSync)))))"

text \<open>A request that finds a switch running.\<close>

definition queueSwitch :: "string \<Rightarrow> (('d, 'w, 'n) bg, ext_response) io" where
  "queueSwitch profileId =
     bindP (setP (\<lambda>s. s\<lparr>g_pendingSwitchProfileId := Some profileId\<rparr>)) (\<lambda>_. retP SWITCH_SUCCESS)"

text \<open>The drain loop; after the last round with arrivals nothing is queued.\<close>

fun drainSwitches :: "('d, 'w, 'n) platform \<Rightarrow> string list list \<Rightarrow> string \<Rightarrow> (('d, 'w, 'n) bg, unit) io" where
  "drainSwitches X [] targetId = switchRound X targetId"
| "drainSwitches X (arrived # later) targetId =
     bindP (switchRound X targetId) (\<lambda>_.
     bindP (forP (\<lambda>p. bindP (queueSwitch p) (\<lambda>_. retP ())) arrived) (\<lambda>_.
     bindP (getP g_pendingSwitchProfileId) (\<lambda>pending.
       case pending of None \<Rightarrow> retP () | Some nextId \<Rightarrow> drainSwitches X later nextId)))"

text \<open>The \<^verbatim>\<open>finally\<close>; reading the settled profile throws when nobody is logged in.\<close>

definition switchSettled :: "(('d, 'w, 'n) bg, unit) io" where
  "switchSettled =
     bindP (setP (\<lambda>s. s\<lparr>g_switchInProgress := False, g_pendingSwitchProfileId := None\<rparr>)) (\<lambda>_.
     bindP (askP (\<lambda>s. getActiveProfileId (g_auth s))) (\<lambda>settled.
     setP (\<lambda>s. s\<lparr>g_outbox := g_outbox s @ [SWITCH_SETTLED settled]\<rparr>)))"

definition handleSwitchProfile ::
  "('d, 'w, 'n) platform \<Rightarrow> string list list \<Rightarrow> string \<Rightarrow> (('d, 'w, 'n) bg, ext_response) io" where
  "handleSwitchProfile X arrivals profileId s =
     (if isLocked (g_auth s) then Some (Inr (SWITCH_ERROR ''Session is locked.''), s)
      else if g_switchInProgress s then queueSwitch profileId s
      else
        finallyP
          (catchP (bindP (drainSwitches X arrivals profileId) (\<lambda>_. retP SWITCH_SUCCESS))
                  (\<lambda>e. retP (SWITCH_ERROR (errorString (x_domText X) e))))
          switchSettled (s\<lparr>g_switchInProgress := True\<rparr>))"

subsection \<open>Manual sync\<close>

definition detectMissed :: "('d, 'w, 'n) platform \<Rightarrow> string \<Rightarrow> (('d, 'w, 'n) bg, unit) io" where
  "detectMissed X profileId s =
     (if hasEstablishedMapping (g_bridge s) then mergeMissed X profileId s else Some (Inr (), s))"

definition syncUnlocked :: "('d, 'w, 'n) platform \<Rightarrow> (('d, 'w, 'n) bg, ext_response) io" where
  "syncUnlocked X =
     bindP (askP (\<lambda>s. getActiveProfileId (g_auth s))) (\<lambda>profileId.
     bindP (detectMissed X profileId) (\<lambda>_.
     bindP (pushP X) (\<lambda>_.
     bindP (getP (lastSeqOf profileId)) (\<lambda>lastSeq.
     bindP (syncFrom X profileId lastSeq False False) (\<lambda>_.
     bindP (askP (\<lambda>s. getJwt (g_auth s))) (\<lambda>token.
     bindP (netP (\<lambda>_. apiGetProfiles (x_fetch X) token)) (\<lambda>freshProfiles.
     bindP (setP (\<lambda>s. s\<lparr>g_auth := updateProfiles freshProfiles (g_auth s)\<rparr>)) (\<lambda>_.
     getP (\<lambda>s. SYNC_SUCCESS (g_lastSynced s) (Some freshProfiles))))))))))"

text \<open>Locked, the sync only asks the server whether the login still holds.\<close>

definition syncLocked :: "('d, 'w, 'n) platform \<Rightarrow> (('d, 'w, 'n) bg, ext_response) io" where
  "syncLocked X =
     catchP
       (bindP (askP (\<lambda>s. getJwt (g_auth s))) (\<lambda>token.
        bindP (netP (\<lambda>_. apiGetProfiles (x_fetch X) token)) (\<lambda>_.
        retP (SYNC_ERROR ''Session is locked - please unlock to sync.''))))
       (\<lambda>authErr. if isAuthExpired authErr then handleLogout X False else throwP authErr)"

definition handleSync :: "('d, 'w, 'n) platform \<Rightarrow> (('d, 'w, 'n) bg, ext_response) io" where
  "handleSync X =
     catchP
       (bindP (getP (\<lambda>s. isLocked (g_auth s))) (\<lambda>locked. if locked then syncLocked X else syncUnlocked X))
       (\<lambda>err. if isAuthExpired err then handleLogout X False
              else retP (SYNC_ERROR (errorMessage (x_domText X) err)))"

subsection \<open>The profile list\<close>

definition handleCreateProfile :: "('d, 'w, 'n) platform \<Rightarrow> string \<Rightarrow> (('d, 'w, 'n) bg, ext_response) io" where
  "handleCreateProfile X name =
     orReply X CREATE_PROFILE_ERROR
       (bindP (askP (\<lambda>s. getEncryptionKey (g_auth s))) (\<lambda>key.
        bindP (sealP X key emptyObject) (\<lambda>encryptedMetadata.
        bindP (askP (\<lambda>s. getJwt (g_auth s))) (\<lambda>token.
        bindP (netP (\<lambda>_. apiCreateProfile (x_fetch X) name encryptedMetadata token)) (\<lambda>profile.
        bindP (authP (addProfile profile)) (\<lambda>_.
        bindP (dbP (saveSnapshot (pi_id profile) (exportEmptySnapshot (x_loro X)))) (\<lambda>_.
        bindP (dbP (setMeta (chromeIdMapKey (pi_id profile)) (MObj []))) (\<lambda>_.
        retP (CREATE_PROFILE_SUCCESS profile)))))))))"

definition handleRenameProfile ::
  "('d, 'w, 'n) platform \<Rightarrow> string \<Rightarrow> string \<Rightarrow> (('d, 'w, 'n) bg, ext_response) io" where
  "handleRenameProfile X profileId name =
     (let trimmed = trim name
      in if trimmed = [] then retP (RENAME_PROFILE_ERROR ''Profile name cannot be empty.'')
         else
           orReply X RENAME_PROFILE_ERROR
             (bindP (askP (\<lambda>s. getJwt (g_auth s))) (\<lambda>token.
              bindP (netP (\<lambda>_. apiRenameProfile (x_fetch X) profileId trimmed token)) (\<lambda>_.
              bindP (setP (\<lambda>s. s\<lparr>g_auth := updateProfiles
                (map (\<lambda>p. if pi_id p = profileId then p\<lparr>pi_name := trimmed\<rparr> else p) (getProfiles (g_auth s)))
                (g_auth s)\<rparr>)) (\<lambda>_.
              retP (RENAME_PROFILE_SUCCESS trimmed))))))"

definition handleDeleteProfile :: "('d, 'w, 'n) platform \<Rightarrow> string \<Rightarrow> (('d, 'w, 'n) bg, ext_response) io" where
  "handleDeleteProfile X profileId =
     bindP (askP (\<lambda>s. getActiveProfileId (g_auth s))) (\<lambda>active.
       if profileId = active
       then retP (DELETE_PROFILE_ERROR ''Cannot delete the active profile. Switch to another profile first.'')
       else
         orReply X DELETE_PROFILE_ERROR
           (bindP (askP (\<lambda>s. getJwt (g_auth s))) (\<lambda>token.
            bindP (netP (\<lambda>_. apiDeleteProfile (x_fetch X) profileId token)) (\<lambda>_.
            bindP (setP (\<lambda>s. s\<lparr>g_auth := removeProfile profileId (g_auth s)\<rparr>)) (\<lambda>_.
            bindP (dbP (deleteProfileData profileId)) (\<lambda>_.
            retP DELETE_PROFILE_SUCCESS))))))"

subsection \<open>Messages\<close>

definition statusOf :: "('d, 'w, 'n) bg \<Rightarrow> ext_response" where
  "statusOf s = STATUS
     \<lparr>st_isLoggedIn = isLoggedIn (g_auth s), st_isLocked = isLocked (g_auth s), st_email = getEmail (g_auth s),
      st_profile = getActiveProfile (g_auth s), st_profiles = getProfiles (g_auth s), st_lastSynced = g_lastSynced s,
      st_pendingChanges = g_pendingChanges s, st_pendingImport = map_option snd (g_pendingImport s),
      st_sessionTimeout = timeout (g_auth s)\<rparr>"

fun handleMessage ::
  "('d, 'w, 'n) platform \<Rightarrow> string list list \<Rightarrow> ext_message \<Rightarrow> (('d, 'w, 'n) bg, ext_response) io" where
  "handleMessage X arrivals (LOGIN mail auth wrapping) = handleLogin X mail auth wrapping"
| "handleMessage X arrivals (UNLOCK key) = handleUnlock X key"
| "handleMessage X arrivals (LOGOUT clearBookmarks) = handleLogout X (orElse clearBookmarks False)"
| "handleMessage X arrivals GET_STATUS = getP statusOf"
| "handleMessage X arrivals (RESOLVE_LOCKED_CHANGES apply) = handleResolveLockedChanges X apply"
| "handleMessage X arrivals (RESOLVE_IMPORT choice excl name target) = handleResolveImport X choice excl name target"
| "handleMessage X arrivals LOCK = handleLock"
| "handleMessage X arrivals (SWITCH_PROFILE profileId) = handleSwitchProfile X arrivals profileId"
| "handleMessage X arrivals (CREATE_PROFILE name) = handleCreateProfile X name"
| "handleMessage X arrivals (DELETE_PROFILE profileId) = handleDeleteProfile X profileId"
| "handleMessage X arrivals (RENAME_PROFILE profileId name) = handleRenameProfile X profileId name"
| "handleMessage X arrivals (SET_SESSION_TIMEOUT t) =
     bindP (setP (\<lambda>s. s\<lparr>g_auth := setSessionTimeout t (g_auth s)\<rparr>)) (\<lambda>_. retP SET_SESSION_TIMEOUT_SUCCESS)"
| "handleMessage X arrivals SYNC = handleSync X"
| "handleMessage X arrivals (RECOMPUTE_IMPORT_DIFF profileId) = handleRecomputeImportDiff X profileId"
| "handleMessage X arrivals (CHANGE_PASSWORD oldAuth newAuth newPsk) = handleChangePassword X oldAuth newAuth newPsk"
| "handleMessage X arrivals (EXPORT_PROFILE profileId) = handleExportProfile X profileId"
| "handleMessage X arrivals (DELETE_ACCOUNT auth) = handleDeleteAccount X auth"

subsection \<open>Keyboard commands\<close>

datatype command = NextProfile | PrevProfile | OtherCommand

text \<open>\<^verbatim>\<open>findIndex\<close>, -1 when there is none.\<close>

fun findIndex :: "('a \<Rightarrow> bool) \<Rightarrow> 'a list \<Rightarrow> int" where
  "findIndex P [] = -1"
| "findIndex P (x # xs) = (if P x then 0 else (let i = findIndex P xs in if i = -1 then -1 else i + 1))"

definition nextIndex :: "command \<Rightarrow> profileInfo list \<Rightarrow> string \<Rightarrow> int" where
  "nextIndex command ps active =
     (let currentIdx = findIndex (\<lambda>p. pi_id p = active) ps;
          delta = (if command = NextProfile then 1 else -1)
      in (currentIdx + delta + int (length ps)) mod int (length ps))"

definition onCommand :: "('d, 'w, 'n) platform \<Rightarrow> string list list \<Rightarrow> command \<Rightarrow> (('d, 'w, 'n) bg, unit) io" where
  "onCommand X arrivals command s =
     (if command = OtherCommand \<or> \<not> isLoggedIn (g_auth s) \<or> isLocked (g_auth s)
         \<or> length (getProfiles (g_auth s)) \<le> 1 then Some (Inr (), s)
      else
        bindP (askP (\<lambda>s. getActiveProfileId (g_auth s))) (\<lambda>active.
          let ps = getProfiles (g_auth s); target = pi_id (ps ! nat (nextIndex command ps active))
          in bindP (handleSwitchProfile X arrivals target) (\<lambda>result.
               whenP (result = SWITCH_SUCCESS)
                 (setP (\<lambda>s. s\<lparr>g_outbox := g_outbox s @ [PROFILE_SWITCHED target]\<rparr>)))) s)"

subsection \<open>Startup\<close>

text \<open>
  A service worker starts with its module variables at their initial values; the stored session,
  the database and the browser are what the last one left.
\<close>

definition workerRestart :: "('d, 'w, 'n) bg \<Rightarrow> ('d, 'w, 'n) bg" where
  "workerRestart s =
     s\<lparr>g_auth := swRestart (g_auth s),
       g_world := (g_world s)\<lparr>w_bridge := (g_bridge s)\<lparr>loroToChrome := [], chromeToLoro := [], lastVersion := None\<rparr>, w_ignore := 0\<rparr>,
       g_hasDoc := False, g_attached := False, g_pushPaused := False, g_sse := None, g_icon := IconSignedout,
       g_jobs := [], g_outbox := [], g_lastSynced := None, g_pendingChanges := None, g_pendingUnlockProfileId := None,
       g_pendingImport := None, g_syncInProgress := False, g_syncPaused := False, g_switchInProgress := False,
       g_pendingSwitchProfileId := None, g_resyncRequested := False\<rparr>"

definition startup :: "('d, 'w, 'n) platform \<Rightarrow> (('d, 'w, 'n) bg, unit) io" where
  "startup X =
     catchP
       (bindP (\<lambda>s. case restoreFromSessionStorage (g_auth s) of (restored, a) \<Rightarrow> Some (Inr restored, s\<lparr>g_auth := a\<rparr>)) (\<lambda>restored.
        bindP (browserRootsReady X) (\<lambda>_.
        bindP (getP (\<lambda>s. isLocked (g_auth s))) (\<lambda>locked.
          if \<not> restored then setIcon IconSignedout
          else if \<not> locked
          then
            bindP (setIconLocked False) (\<lambda>_.
            bindP (getP (\<lambda>s. ss_pendingImport (sstore (g_auth s)))) (\<lambda>stored.
              case stored of
                Some p \<Rightarrow>
                  bindP (setP (\<lambda>s. s\<lparr>g_pendingImport := Some p\<rparr>)) (\<lambda>_.
                  bindP (askP (\<lambda>s. getActiveProfileId (g_auth s))) (\<lambda>profileId.
                  bindP (initializeDocs X profileId True False) (\<lambda>_. retP ())))
              | None \<Rightarrow>
                  bindP (askP (\<lambda>s. getActiveProfileId (g_auth s))) (\<lambda>profileId.
                  bindP (initializeDocs X profileId True False) (\<lambda>_. startSync))))
          else bindP (setIconLocked True) (\<lambda>_. startPush)))))
       (\<lambda>_. retP ())"

end
