(* ===== verification/Popup.thy ===== *)
theory Popup
  imports Popup_Export Background
begin

text \<open>
  extension/src/popup/index.tsx, lines 10-30 and 54-749: the signals of the popup as a record, its
  actions as programs over the popup and the background, the replies as functions on the record.
  While an action waits for its reply no other action changes the signals.
  The background behind chrome.runtime is a parameter: an action that answers a message, rejects
  (chrome.runtime.lastError) or never answers. The markup is in Popup_Page; here are the
  conditions under which its panels are shown and the clicks that only change signals.
\<close>

subsection \<open>Signals\<close>

datatype view = MainView | SettingsView | ManageProfilesView | AccountSecurityView

datatype theme = SystemTheme | LightTheme | DarkTheme

record popup_session =
  p_view :: view
  p_initializing :: bool
  p_isLoggedIn :: bool
  p_isLocked :: bool
  p_profile :: "profileInfo option"
  p_profiles :: "profileInfo list"
  p_lastSynced :: "int option"
  p_email :: string
  p_password :: string
  p_loading :: bool
  p_loadingLabel :: string
  p_error :: "string option"
  p_syncing :: bool
  p_sessionTimeout :: sessionTimeout
  p_theme :: theme

record popup_profiles = popup_session +
  p_addingProfile :: bool
  p_newProfileName :: string
  p_profileError :: "string option"
  p_deletingProfileId :: "string option"
  p_deleteError :: "(string \<times> string) option"
  p_editingProfileId :: "string option"
  p_editingProfileName :: string
  p_editingError :: "string option"
  p_editingLoading :: bool
  p_exportingProfileId :: "string option"
  p_exportError :: "(string \<times> string) option"
  p_switchingProfileId :: "string option"

record popup_conflict = popup_profiles +
  p_pendingChanges :: "pendingChanges option"
  p_resolving :: bool
  p_pendingImport :: "importDiff option"
  p_importAction :: importChoice
  p_importExcludeDupes :: bool
  p_importProfileName :: string
  p_importComparedProfileId :: string
  p_importRecomputingDiff :: bool
  p_importResolving :: bool

record popup = popup_conflict +
  p_bootstrapNotice :: bool
  p_onboarding :: bool
  p_onboardingProfileName :: string
  p_onboardingTimeout :: sessionTimeout
  p_onboardingLoading :: bool
  p_hadExistingBookmarks :: bool
  p_exportOnGetStarted :: bool
  p_currentPassword :: string
  p_newPassword :: string
  p_confirmPassword :: string
  p_changePwLoading :: bool
  p_changePwError :: "string option"
  p_changePwSuccess :: bool
  p_deleteAccountConfirm :: bool
  p_deleteAccountLoading :: bool
  p_deleteAccountError :: "string option"
  p_deleteAccountPassword :: string
  p_downloads :: "(string \<times> string) list"

text \<open>The signals of a popup that has just been opened.\<close>

definition freshPopup :: popup where
  "freshPopup =
     \<lparr>p_view = MainView, p_initializing = True, p_isLoggedIn = False, p_isLocked = False, p_profile = None, p_profiles = [],
      p_lastSynced = None, p_email = [], p_password = [], p_loading = False, p_loadingLabel = ''Unlocking...'', p_error = None,
      p_syncing = False, p_sessionTimeout = OnRestart, p_theme = SystemTheme,
      p_addingProfile = False, p_newProfileName = [], p_profileError = None, p_deletingProfileId = None, p_deleteError = None,
      p_editingProfileId = None, p_editingProfileName = [], p_editingError = None, p_editingLoading = False,
      p_exportingProfileId = None, p_exportError = None, p_switchingProfileId = None,
      p_pendingChanges = None, p_resolving = False, p_pendingImport = None, p_importAction = Overwrite, p_importExcludeDupes = True,
      p_importProfileName = ''Local Bookmarks'', p_importComparedProfileId = [], p_importRecomputingDiff = False,
      p_importResolving = False,
      p_bootstrapNotice = False, p_onboarding = False, p_onboardingProfileName = ''Default'', p_onboardingTimeout = OnRestart,
      p_onboardingLoading = False, p_hadExistingBookmarks = False, p_exportOnGetStarted = True,
      p_currentPassword = [], p_newPassword = [], p_confirmPassword = [], p_changePwLoading = False, p_changePwError = None,
      p_changePwSuccess = False, p_deleteAccountConfirm = False, p_deleteAccountLoading = False, p_deleteAccountError = None,
      p_deleteAccountPassword = [], p_downloads = []\<rparr>"

text \<open>The theme is stored under its own key; an unknown value is ignored.\<close>

definition themeOf :: "string option \<Rightarrow> popup \<Rightarrow> popup" where
  "themeOf stored p =
     (if stored = Some ''light'' then p\<lparr>p_theme := LightTheme\<rparr>
      else if stored = Some ''dark'' then p\<lparr>p_theme := DarkTheme\<rparr>
      else if stored = Some ''system'' then p\<lparr>p_theme := SystemTheme\<rparr>
      else p)"

text \<open>The class the theme puts on the page.\<close>

definition themeClass :: "theme \<Rightarrow> string option" where
  "themeClass t = (case t of SystemTheme \<Rightarrow> None | LightTheme \<Rightarrow> Some ''light'' | DarkTheme \<Rightarrow> Some ''dark'')"

subsection \<open>What the popup is given\<close>

text \<open>
  The background behind the message channel, the crypto, a fresh nonce, the stored Protected
  Symmetric Key, the browser's tree and dates, today's date, what the user answers to the
  confirmation, and the write of the theme to \<^verbatim>\<open>chrome.storage.local\<close>.
\<close>

record 'b popup_env =
  pe_sendOnce :: "ext_message \<Rightarrow> ('b, ext_response) io"
  pe_crypto :: webcrypto
  pe_iv :: bytes
  pe_stored :: "'b \<Rightarrow> string option"
  pe_tree :: "'b \<Rightarrow> tree_node list"
  pe_dateAdded :: "string \<Rightarrow> nat option"
  pe_today :: string
  pe_confirm :: bool
  pe_storeTheme :: "theme \<Rightarrow> 'b \<Rightarrow> 'b"
  pe_domText :: "js_error \<Rightarrow> string"

type_synonym ('b, 'a) ui = "(popup \<times> 'b, 'a) io"

definition modP :: "(popup \<Rightarrow> popup) \<Rightarrow> ('b, unit) ui" where
  "modP f = setP (\<lambda>(p, b). (f p, b))"

definition lookP :: "(popup \<Rightarrow> 'a) \<Rightarrow> ('b, 'a) ui" where
  "lookP f = getP (\<lambda>(p, b). f p)"

definition envP :: "('b \<Rightarrow> 'a) \<Rightarrow> ('b, 'a) ui" where
  "envP f = getP (\<lambda>(p, b). f b)"

text \<open>\<^verbatim>\<open>send\<close>: a rejected attempt is repeated; the delays in between are not modelled.\<close>

fun attempt :: "(ext_message \<Rightarrow> ('b, ext_response) io) \<Rightarrow> ext_message \<Rightarrow> nat \<Rightarrow> ('b, ext_response) io" where
  "attempt sendOnce msg remaining =
     catchP (sendOnce msg) (\<lambda>err. if remaining \<le> 1 then throwP err else attempt sendOnce msg (remaining - 1))"

declare attempt.simps [simp del]

definition send :: "(ext_message \<Rightarrow> ('b, ext_response) io) \<Rightarrow> ext_message \<Rightarrow> ('b, ext_response) io" where
  "send sendOnce msg = attempt sendOnce msg 20"

definition sendP :: "'b popup_env \<Rightarrow> ext_message \<Rightarrow> ('b, ext_response) ui" where
  "sendP E msg = (\<lambda>(p, b). case send (pe_sendOnce E) msg b of None \<Rightarrow> None | Some (r, b') \<Rightarrow> Some (r, (p, b')))"

subsection \<open>Startup and messages from the background\<close>

definition firstProfile :: "profileInfo list \<Rightarrow> profileInfo option" where
  "firstProfile ps = (case ps of [] \<Rightarrow> None | p # _ \<Rightarrow> Some p)"

definition findProfile :: "string \<Rightarrow> profileInfo list \<Rightarrow> profileInfo option" where
  "findProfile i ps = find (\<lambda>p. pi_id p = i) ps"

text \<open>Opening the import panel: the compared profile and a free name.\<close>

definition openImport :: "string \<Rightarrow> profileInfo list \<Rightarrow> popup \<Rightarrow> popup" where
  "openImport comparedId ps p =
     p\<lparr>p_importComparedProfileId := comparedId, p_importProfileName := uniqueProfileName ''Local Bookmarks'' ps\<rparr>"

definition onStatus :: "status_reply \<Rightarrow> popup \<Rightarrow> popup" where
  "onStatus st p =
     (let p1 = p\<lparr>p_isLoggedIn := st_isLoggedIn st, p_isLocked := st_isLocked st, p_profile := st_profile st,
            p_profiles := st_profiles st, p_lastSynced := st_lastSynced st,
            p_email := (if truthy (st_email st) then the (st_email st) else p_email p),
            p_pendingChanges := st_pendingChanges st, p_pendingImport := st_pendingImport st\<rparr>;
          comparedId = orElse (map_option pi_id (st_profile st)) (orElse (map_option pi_id (firstProfile (st_profiles st))) []);
          p2 = (if st_pendingImport st \<noteq> None then openImport comparedId (st_profiles st) p1 else p1)
      in p2\<lparr>p_sessionTimeout := st_sessionTimeout st\<rparr>)"

text \<open>The popup after an expired login.\<close>

definition signedOut :: "popup \<Rightarrow> popup" where
  "signedOut p = p\<lparr>p_isLoggedIn := False, p_isLocked := False, p_profile := None, p_profiles := [], p_email := [], p_view := MainView\<rparr>"

definition onSynced :: "int option \<Rightarrow> profileInfo list option \<Rightarrow> popup \<Rightarrow> popup" where
  "onSynced at ps p = p\<lparr>p_lastSynced := at, p_profiles := orElse ps (p_profiles p)\<rparr>"

definition onSyncReply :: "ext_response \<Rightarrow> popup \<Rightarrow> popup" where
  "onSyncReply res p =
     (case res of SYNC_SUCCESS at ps \<Rightarrow> onSynced at ps p | LOGOUT_SUCCESS \<Rightarrow> signedOut p | _ \<Rightarrow> p)"

definition onStatusReply :: "'b popup_env \<Rightarrow> ext_response \<Rightarrow> ('b, bool) ui" where
  "onStatusReply E res =
     (case res of
        STATUS st \<Rightarrow>
          bindP (modP (onStatus st)) (\<lambda>_.
          retP (st_isLoggedIn st \<and> \<not> st_isLocked st \<and> st_pendingChanges st = None \<and> st_pendingImport st = None))
      | _ \<Rightarrow> retP False)"

text \<open>
  The effect at startup. The sync it starts is not awaited: its reply comes after
  \<^verbatim>\<open>setInitializing(false)\<close>.
\<close>

definition popupStartup :: "'b popup_env \<Rightarrow> ('b, unit) ui" where
  "popupStartup E =
     bindP (catchP (bindP (sendP E GET_STATUS) (onStatusReply E)) (\<lambda>_. retP False)) (\<lambda>sync.
     bindP (modP (\<lambda>p. p\<lparr>p_initializing := False\<rparr>)) (\<lambda>_.
     whenP sync (catchP (bindP (sendP E SYNC) (\<lambda>res. modP (onSyncReply res))) (\<lambda>_. retP ()))))"

definition onPush :: "'b popup_env \<Rightarrow> ext_push \<Rightarrow> ('b, unit) ui" where
  "onPush E msg =
     (case msg of
        PROFILE_SWITCHED i \<Rightarrow> modP (\<lambda>p. p\<lparr>p_profile := findProfile i (p_profiles p)\<rparr>)
      | SWITCH_SETTLED i \<Rightarrow>
          bindP (modP (\<lambda>p. p\<lparr>p_profile := findProfile i (p_profiles p)\<rparr>)) (\<lambda>_.
          bindP (catchP (bindP (sendP E SYNC) (\<lambda>res. modP (\<lambda>p. case res of SYNC_SUCCESS at ps \<Rightarrow> onSynced at ps p | _ \<Rightarrow> p)))
             (\<lambda>_. retP ())) (\<lambda>_.
          modP (\<lambda>p. p\<lparr>p_switchingProfileId := None\<rparr>))))"

subsection \<open>Sign in, unlock, lock, sign out\<close>

text \<open>What an action does with a reply is a function on the signals.\<close>

definition onLoginReply :: "ext_response \<Rightarrow> popup \<Rightarrow> popup" where
  "onLoginReply res p =
     (case res of
        LOGIN_SUCCESS ps imp bootstrapped isNewAccount \<Rightarrow>
          (let p1 = p\<lparr>p_isLoggedIn := True, p_isLocked := False, p_profiles := ps, p_profile := firstProfile ps,
                 p_pendingImport := imp\<rparr>;
               p2 = (if imp \<noteq> None then openImport (orElse (map_option pi_id (firstProfile ps)) []) ps p1 else p1)
           in if isNewAccount = Some True
              then p2\<lparr>p_onboarding := True, p_onboardingProfileName := ''Default'', p_onboardingTimeout := OnRestart,
                     p_hadExistingBookmarks := (bootstrapped = Some True)\<rparr>
              else if bootstrapped = Some True then p2\<lparr>p_bootstrapNotice := True\<rparr>
              else p2)
      | LOGIN_ERROR err \<Rightarrow> p\<lparr>p_error := Some err\<rparr>
      | _ \<Rightarrow> p)"

definition setLabel :: "string \<Rightarrow> ('b, unit) ui" where
  "setLabel l = modP (\<lambda>p. p\<lparr>p_loadingLabel := l\<rparr>)"

definition failLoading :: "'b popup_env \<Rightarrow> js_error \<Rightarrow> ('b, unit) ui" where
  "failLoading E err = modP (\<lambda>p. p\<lparr>p_loading := False, p_error := Some (errorString (pe_domText E) err)\<rparr>)"

definition login :: "'b popup_env \<Rightarrow> ('b, unit) ui" where
  "login E =
     bindP (modP (\<lambda>p. p\<lparr>p_loading := True, p_error := None\<rparr>)) (\<lambda>_.
     catchP
       (bindP (setLabel ''Deriving keys...'') (\<lambda>_.
        bindP (lookP (\<lambda>p. deriveKeys (pe_crypto E) (p_password p) (p_email p))) (\<lambda>keys.
        bindP (setLabel ''Authenticating...'') (\<lambda>_.
        bindP (lookP p_email) (\<lambda>mail.
        bindP (sendP E (LOGIN mail (authKey keys) (wrappingKeyBytes keys))) (\<lambda>res.
        bindP (modP (\<lambda>p. p\<lparr>p_loading := False\<rparr>)) (\<lambda>_.
        modP (onLoginReply res))))))))
       (failLoading E))"

definition onUnlockReply :: "ext_response \<Rightarrow> popup \<Rightarrow> popup" where
  "onUnlockReply res p =
     (case res of
        UNLOCK_SUCCESS active ps changes \<Rightarrow>
          (let p1 = p\<lparr>p_isLocked := False\<rparr>;
               p2 = (if length ps > 0
                     then p1\<lparr>p_profiles := ps, p_profile := (if active \<noteq> None then active else firstProfile ps)\<rparr>
                     else p1)
           in p2\<lparr>p_pendingChanges := changes\<rparr>)
      | UNLOCK_ERROR err \<Rightarrow> p\<lparr>p_error := Some err\<rparr>
      | _ \<Rightarrow> p)"

text \<open>The key is recovered here; the background is only told the key (\<^const>\<open>unlockKey\<close>).\<close>

definition unlock :: "'b popup_env \<Rightarrow> ('b, unit) ui" where
  "unlock E =
     bindP (modP (\<lambda>p. p\<lparr>p_loading := True, p_error := None\<rparr>)) (\<lambda>_.
     catchP
       (bindP (setLabel ''Deriving keys...'') (\<lambda>_.
        bindP (envP (pe_stored E)) (\<lambda>stored.
        bindP (lookP (\<lambda>p. unlockKey (pe_crypto E) (p_password p) (p_email p) stored)) (\<lambda>key.
        bindP (liftP key) (\<lambda>symmetricKeyBytes.
        bindP (setLabel ''Unlocking...'') (\<lambda>_.
        bindP (sendP E (UNLOCK symmetricKeyBytes)) (\<lambda>res.
        bindP (modP (\<lambda>p. p\<lparr>p_loading := False\<rparr>)) (\<lambda>_.
        modP (onUnlockReply res)))))))))
       (failLoading E))"

definition lock :: "'b popup_env \<Rightarrow> ('b, unit) ui" where
  "lock E =
     bindP (sendP E LOCK) (\<lambda>_.
     modP (\<lambda>p. p\<lparr>p_isLocked := True, p_password := [], p_pendingChanges := None, p_view := MainView\<rparr>))"

definition afterLogout :: "popup \<Rightarrow> popup" where
  "afterLogout p =
     p\<lparr>p_isLoggedIn := False, p_isLocked := False, p_profile := None, p_profiles := [], p_password := [], p_email := [],
       p_pendingChanges := None, p_pendingImport := None, p_view := MainView\<rparr>"

definition logout :: "'b popup_env \<Rightarrow> ('b, unit) ui" where
  "logout E = bindP (sendP E (LOGOUT (Some False))) (\<lambda>_. modP afterLogout)"

definition logoutAndClear :: "'b popup_env \<Rightarrow> ('b, unit) ui" where
  "logoutAndClear E = bindP (sendP E (LOGOUT (Some True))) (\<lambda>_. modP afterLogout)"

subsection \<open>The import conflict and the changes made while locked\<close>

definition onRecomputeReply :: "string \<Rightarrow> ext_response \<Rightarrow> popup \<Rightarrow> popup" where
  "onRecomputeReply profileId res p =
     (case res of
        RECOMPUTE_IMPORT_DIFF_SUCCESS diff \<Rightarrow> p\<lparr>p_pendingImport := Some diff, p_importComparedProfileId := profileId\<rparr>
      | RECOMPUTE_IMPORT_DIFF_ERROR err \<Rightarrow> p\<lparr>p_error := Some err\<rparr>
      | _ \<Rightarrow> p)"

definition recomputeImportDiff :: "'b popup_env \<Rightarrow> string \<Rightarrow> ('b, unit) ui" where
  "recomputeImportDiff E profileId =
     bindP (modP (\<lambda>p. p\<lparr>p_importRecomputingDiff := True\<rparr>)) (\<lambda>_.
     bindP (sendP E (RECOMPUTE_IMPORT_DIFF profileId)) (\<lambda>res.
     bindP (modP (\<lambda>p. p\<lparr>p_importRecomputingDiff := False\<rparr>)) (\<lambda>_.
     modP (onRecomputeReply profileId res))))"

definition resolveImportMessage :: "popup \<Rightarrow> ext_message" where
  "resolveImportMessage p =
     RESOLVE_IMPORT (p_importAction p) (Some (p_importExcludeDupes p)) (Some (p_importProfileName p))
       (if p_importAction p = Merge \<or> p_importAction p = Overwrite then Some (p_importComparedProfileId p) else None)"

text \<open>Only a success is looked at: an error leaves no trace.\<close>

definition onResolveImportReply :: "ext_response \<Rightarrow> popup \<Rightarrow> popup" where
  "onResolveImportReply res p =
     (case res of
        RESOLVE_IMPORT_SUCCESS newProfile activeProfile \<Rightarrow>
          (case newProfile of
             Some np \<Rightarrow> p\<lparr>p_profiles := p_profiles p @ [np], p_profile := Some np\<rparr>
           | None \<Rightarrow> (case activeProfile of Some ap \<Rightarrow> p\<lparr>p_profile := Some ap\<rparr> | None \<Rightarrow> p))
      | _ \<Rightarrow> p)"

definition resolveImport :: "'b popup_env \<Rightarrow> ('b, unit) ui" where
  "resolveImport E =
     bindP (modP (\<lambda>p. p\<lparr>p_importResolving := True\<rparr>)) (\<lambda>_.
     bindP (lookP resolveImportMessage) (\<lambda>msg.
     bindP (sendP E msg) (\<lambda>res.
     bindP (modP (\<lambda>p. p\<lparr>p_importResolving := False, p_pendingImport := None\<rparr>)) (\<lambda>_.
     modP (onResolveImportReply res)))))"

definition resolveChanges :: "'b popup_env \<Rightarrow> bool \<Rightarrow> ('b, unit) ui" where
  "resolveChanges E apply =
     bindP (modP (\<lambda>p. p\<lparr>p_resolving := True\<rparr>)) (\<lambda>_.
     bindP (sendP E (RESOLVE_LOCKED_CHANGES apply)) (\<lambda>res.
     modP (\<lambda>p.
       let p1 = p\<lparr>p_resolving := False, p_pendingChanges := None\<rparr>
       in case res of RESOLVE_ERROR err \<Rightarrow> p1\<lparr>p_isLocked := True, p_error := Some err\<rparr> | _ \<Rightarrow> p1)))"

subsection \<open>Profiles\<close>

definition switchTo :: "'b popup_env \<Rightarrow> string \<Rightarrow> ('b, unit) ui" where
  "switchTo E profileId =
     bindP (modP (\<lambda>p. p\<lparr>p_switchingProfileId := Some profileId\<rparr>)) (\<lambda>_.
     bindP (sendP E (SWITCH_PROFILE profileId)) (\<lambda>res.
     modP (\<lambda>p. case res of SWITCH_ERROR err \<Rightarrow> p\<lparr>p_switchingProfileId := None\<rparr> | _ \<Rightarrow> p)))"

definition onCreateReply :: "ext_response \<Rightarrow> popup \<Rightarrow> popup" where
  "onCreateReply res p =
     (case res of
        CREATE_PROFILE_SUCCESS created \<Rightarrow>
          p\<lparr>p_profiles := p_profiles p @ [created], p_newProfileName := [], p_addingProfile := False\<rparr>
      | CREATE_PROFILE_ERROR err \<Rightarrow> p\<lparr>p_profileError := Some err\<rparr>
      | _ \<Rightarrow> p)"

definition createProfile :: "'b popup_env \<Rightarrow> ('b, unit) ui" where
  "createProfile E =
     bindP (modP (\<lambda>p. p\<lparr>p_loading := True, p_profileError := None\<rparr>)) (\<lambda>_.
     bindP (lookP p_newProfileName) (\<lambda>name.
     bindP (sendP E (CREATE_PROFILE name)) (\<lambda>res.
     bindP (modP (\<lambda>p. p\<lparr>p_loading := False\<rparr>)) (\<lambda>_.
     modP (onCreateReply res)))))"

definition onDeleteReply :: "string \<Rightarrow> ext_response \<Rightarrow> popup \<Rightarrow> popup" where
  "onDeleteReply profileId res p =
     (case res of
        DELETE_PROFILE_SUCCESS \<Rightarrow>
          p\<lparr>p_profiles := filter (\<lambda>q. pi_id q \<noteq> profileId) (p_profiles p), p_deletingProfileId := None\<rparr>
      | DELETE_PROFILE_ERROR err \<Rightarrow> p\<lparr>p_deleteError := Some (profileId, err)\<rparr>
      | _ \<Rightarrow> p)"

definition confirmDeleteProfile :: "'b popup_env \<Rightarrow> string \<Rightarrow> ('b, unit) ui" where
  "confirmDeleteProfile E profileId =
     bindP (modP (\<lambda>p. p\<lparr>p_deleteError := None\<rparr>)) (\<lambda>_.
     bindP (sendP E (DELETE_PROFILE profileId)) (\<lambda>res.
     modP (onDeleteReply profileId res)))"

text \<open>\<^verbatim>\<open>profiles().map((p) => p.id === profileId ? { ...p, name } : p)\<close>.\<close>

definition renamed :: "string \<Rightarrow> string \<Rightarrow> profileInfo list \<Rightarrow> profileInfo list" where
  "renamed profileId name ps = map (\<lambda>q. if pi_id q = profileId then q\<lparr>pi_name := name\<rparr> else q) ps"

definition onRenameReply :: "string \<Rightarrow> ext_response \<Rightarrow> popup \<Rightarrow> popup" where
  "onRenameReply profileId res p =
     (case res of
        RENAME_PROFILE_SUCCESS name \<Rightarrow>
          (let updated = renamed profileId name (p_profiles p);
               p1 = p\<lparr>p_profiles := updated\<rparr>;
               p2 = (if map_option pi_id (p_profile p) = Some profileId
                     then p1\<lparr>p_profile := findProfile profileId updated\<rparr> else p1)
           in p2\<lparr>p_editingProfileId := None\<rparr>)
      | RENAME_PROFILE_ERROR err \<Rightarrow> p\<lparr>p_editingError := Some err\<rparr>
      | _ \<Rightarrow> p)"

definition submitRename :: "'b popup_env \<Rightarrow> ('b, unit) ui" where
  "submitRename E =
     bindP (lookP p_editingProfileId) (\<lambda>editing.
       if \<not> truthy editing then retP ()
       else
         bindP (modP (\<lambda>p. p\<lparr>p_editingLoading := True, p_editingError := None\<rparr>)) (\<lambda>_.
         bindP (lookP p_editingProfileName) (\<lambda>name.
         bindP (sendP E (RENAME_PROFILE (the editing) name)) (\<lambda>res.
         bindP (modP (\<lambda>p. p\<lparr>p_editingLoading := False\<rparr>)) (\<lambda>_.
         modP (onRenameReply (the editing) res))))))"

subsection \<open>Exports\<close>

text \<open>\<^verbatim>\<open>const [root] = await getTree(); buildBookmarkNode(root, true)\<close>.\<close>

definition treeBody :: "'b popup_env \<Rightarrow> ('b, string) ui" where
  "treeBody E =
     bindP (envP (pe_tree E)) (\<lambda>tree.
       case tree of [] \<Rightarrow> throwP (JsError ''TypeError'')
       | root # _ \<Rightarrow> retP (buildBookmarkNode (pe_dateAdded E) root True))"

text \<open>A click on the link saves the file.\<close>

definition download :: "string \<Rightarrow> string \<Rightarrow> ('b, unit) ui" where
  "download name html = modP (\<lambda>p. p\<lparr>p_downloads := p_downloads p @ [(name, html)]\<rparr>)"

definition saveExport :: "'b popup_env \<Rightarrow> string \<Rightarrow> string \<Rightarrow> ('b, unit) ui" where
  "saveExport E profileName contents =
     download (exportFileName profileName (pe_today E)) (netscapeFile (escapeHtml profileName) contents)"

definition exportProfile :: "'b popup_env \<Rightarrow> string \<Rightarrow> string \<Rightarrow> ('b, unit) ui" where
  "exportProfile E profileId profileName =
     bindP (modP (\<lambda>p. p\<lparr>p_exportError := None, p_exportingProfileId := Some profileId\<rparr>)) (\<lambda>_.
     finallyP
       (bindP (lookP (\<lambda>p. map_option pi_id (p_profile p))) (\<lambda>active.
          if active = Some profileId then bindP (treeBody E) (saveExport E profileName)
          else
            bindP (sendP E (EXPORT_PROFILE profileId)) (\<lambda>res.
              case res of
                EXPORT_PROFILE_SUCCESS bms \<Rightarrow> saveExport E profileName (buildHtmlFromLoroBookmarks bms)
              | EXPORT_PROFILE_ERROR err \<Rightarrow> modP (\<lambda>p. p\<lparr>p_exportError := Some (profileId, err)\<rparr>)
              | _ \<Rightarrow> modP (\<lambda>p. p\<lparr>p_exportError := Some (profileId, ''Export failed.'')\<rparr>))))
       (modP (\<lambda>p. p\<lparr>p_exportingProfileId := None\<rparr>)))"

definition exportBookmarksBackup :: "'b popup_env \<Rightarrow> ('b, unit) ui" where
  "exportBookmarksBackup E =
     bindP (treeBody E) (\<lambda>contents.
     download (''bookmarks-backup-'' @ pe_today E @ ''.html'') (netscapeFile ''Bookmarks'' contents))"

subsection \<open>Settings\<close>

text \<open>``Never'' keeps the key on disk and has to be confirmed.\<close>

definition mayChoose :: "'b popup_env \<Rightarrow> sessionTimeout \<Rightarrow> sessionTimeout \<Rightarrow> bool" where
  "mayChoose E old new = (if new = Never \<and> old \<noteq> Never then pe_confirm E else True)"

definition changeOnboardingTimeout :: "'b popup_env \<Rightarrow> sessionTimeout \<Rightarrow> popup \<Rightarrow> popup" where
  "changeOnboardingTimeout E v p = (if mayChoose E (p_onboardingTimeout p) v then p\<lparr>p_onboardingTimeout := v\<rparr> else p)"

definition changeSessionTimeout :: "'b popup_env \<Rightarrow> sessionTimeout \<Rightarrow> ('b, unit) ui" where
  "changeSessionTimeout E v =
     bindP (lookP (\<lambda>p. mayChoose E (p_sessionTimeout p) v)) (\<lambda>ok.
     whenP ok
       (bindP (modP (\<lambda>p. p\<lparr>p_sessionTimeout := v\<rparr>)) (\<lambda>_.
        bindP (sendP E (SET_SESSION_TIMEOUT v)) (\<lambda>_. retP ()))))"

text \<open>
  \<^const>\<open>changePassword\<close> is everything before the message; its own two checks are the
  ones below.
\<close>

definition onChangePasswordReply :: "ext_response \<Rightarrow> popup \<Rightarrow> popup" where
  "onChangePasswordReply res p =
     (case res of
        CHANGE_PASSWORD_SUCCESS \<Rightarrow>
          p\<lparr>p_changePwSuccess := True, p_currentPassword := [], p_newPassword := [], p_confirmPassword := []\<rparr>
      | CHANGE_PASSWORD_ERROR err \<Rightarrow> p\<lparr>p_changePwError := Some err\<rparr>
      | _ \<Rightarrow> p)"

definition preparePassword :: "'b popup_env \<Rightarrow> ('b, change_password_message) ui" where
  "preparePassword E =
     bindP (envP (pe_stored E)) (\<lambda>stored.
     bindP (lookP (\<lambda>p. changePassword (pe_crypto E) (pe_iv E) (p_currentPassword p) (p_newPassword p)
        (p_confirmPassword p) (p_email p) stored)) (\<lambda>prepared.
     liftP prepared))"

definition submitPassword :: "'b popup_env \<Rightarrow> ('b, unit) ui" where
  "submitPassword E =
     bindP (modP (\<lambda>p. p\<lparr>p_changePwError := None, p_changePwSuccess := False\<rparr>)) (\<lambda>_.
     bindP (lookP (\<lambda>p. (p_newPassword p, p_confirmPassword p))) (\<lambda>(new, confirmed).
       if new \<noteq> confirmed then modP (\<lambda>p. p\<lparr>p_changePwError := Some ''New passwords do not match.''\<rparr>)
       else if length new < 1 then modP (\<lambda>p. p\<lparr>p_changePwError := Some ''New password cannot be empty.''\<rparr>)
       else
         bindP (modP (\<lambda>p. p\<lparr>p_changePwLoading := True\<rparr>)) (\<lambda>_.
         finallyP
           (catchP
             (bindP (preparePassword E) (\<lambda>msg.
              bindP (sendP E (CHANGE_PASSWORD (cp_oldAuthKey msg) (cp_newAuthKey msg) (cp_newPsk msg))) (\<lambda>res.
              modP (onChangePasswordReply res))))
             (\<lambda>err. modP (\<lambda>p. p\<lparr>p_changePwError := Some (errorMessage (pe_domText E) err)\<rparr>)))
           (modP (\<lambda>p. p\<lparr>p_changePwLoading := False\<rparr>)))))"

definition onDeleteAccountReply :: "ext_response \<Rightarrow> popup \<Rightarrow> popup" where
  "onDeleteAccountReply res p =
     (case res of
        DELETE_ACCOUNT_SUCCESS \<Rightarrow>
          p\<lparr>p_isLoggedIn := False, p_isLocked := False, p_profile := None, p_profiles := [], p_password := [], p_email := [],
            p_deleteAccountPassword := [], p_view := MainView, p_deleteAccountConfirm := False\<rparr>
      | DELETE_ACCOUNT_ERROR err \<Rightarrow> p\<lparr>p_deleteAccountError := Some err\<rparr>
      | _ \<Rightarrow> p)"

definition deleteAccount :: "'b popup_env \<Rightarrow> ('b, unit) ui" where
  "deleteAccount E =
     bindP (lookP p_deleteAccountPassword) (\<lambda>pw.
       if pw = [] then modP (\<lambda>p. p\<lparr>p_deleteAccountError := Some ''Please enter your password to confirm.''\<rparr>)
       else
         bindP (modP (\<lambda>p. p\<lparr>p_deleteAccountLoading := True, p_deleteAccountError := None\<rparr>)) (\<lambda>_.
         finallyP
           (catchP
             (bindP (lookP (\<lambda>p. deriveKeys (pe_crypto E) pw (p_email p))) (\<lambda>keys.
              bindP (sendP E (DELETE_ACCOUNT (authKey keys))) (\<lambda>res.
              modP (onDeleteAccountReply res))))
             (\<lambda>err. modP (\<lambda>p. p\<lparr>p_deleteAccountError := Some (errorMessage (pe_domText E) err)\<rparr>)))
           (modP (\<lambda>p. p\<lparr>p_deleteAccountLoading := False\<rparr>))))"

subsection \<open>Onboarding\<close>

text \<open>\<^verbatim>\<open>onboardingProfileName().trim() || "Default"\<close>.\<close>

definition chosenName :: "popup \<Rightarrow> string" where
  "chosenName p = (let t = trim (p_onboardingProfileName p) in if t = [] then ''Default'' else t)"

definition renameFirst :: "'b popup_env \<Rightarrow> profileInfo \<Rightarrow> ('b, unit) ui" where
  "renameFirst E active =
     bindP (lookP chosenName) (\<lambda>name.
     whenP (name \<noteq> ''Default'')
       (bindP (sendP E (RENAME_PROFILE (pi_id active) name)) (\<lambda>res.
        modP (\<lambda>p. case res of
            RENAME_PROFILE_SUCCESS new \<Rightarrow>
              (let updated = renamed (pi_id active) new (p_profiles p)
               in p\<lparr>p_profiles := updated, p_profile := firstProfile updated\<rparr>)
          | _ \<Rightarrow> p))))"

definition applyTimeout :: "'b popup_env \<Rightarrow> ('b, unit) ui" where
  "applyTimeout E =
     bindP (lookP p_onboardingTimeout) (\<lambda>v.
     whenP (v \<noteq> OnRestart)
       (bindP (modP (\<lambda>p. p\<lparr>p_sessionTimeout := v\<rparr>)) (\<lambda>_.
        bindP (sendP E (SET_SESSION_TIMEOUT v)) (\<lambda>_. retP ()))))"

definition finishOnboarding :: "'b popup_env \<Rightarrow> ('b, unit) ui" where
  "finishOnboarding E =
     bindP (modP (\<lambda>p. p\<lparr>p_onboardingLoading := True\<rparr>)) (\<lambda>_.
     bindP (lookP (\<lambda>p. firstProfile (p_profiles p))) (\<lambda>activeProfile.
     bindP (case activeProfile of
              None \<Rightarrow> retP ()
            | Some active \<Rightarrow> bindP (renameFirst E active) (\<lambda>_. applyTimeout E)) (\<lambda>_.
     bindP (lookP (\<lambda>p. p_hadExistingBookmarks p \<and> p_exportOnGetStarted p)) (\<lambda>backup.
     bindP (whenP backup (catchP (exportBookmarksBackup E) (\<lambda>_. retP ()))) (\<lambda>_.
     modP (\<lambda>p.
       let p1 = p\<lparr>p_onboardingLoading := False, p_onboarding := False\<rparr>
       in if p_hadExistingBookmarks p1 then p1\<lparr>p_bootstrapNotice := True\<rparr> else p1))))))"

subsection \<open>What is shown\<close>

definition isReady :: "popup \<Rightarrow> bool" where
  "isReady p \<longleftrightarrow> \<not> p_initializing p \<and> p_isLoggedIn p \<and> \<not> p_isLocked p \<and> \<not> p_onboarding p
     \<and> p_pendingChanges p = None \<and> p_pendingImport p = None"

definition goBack :: "popup \<Rightarrow> popup" where
  "goBack p =
     (if p_view p = SettingsView then p\<lparr>p_view := MainView\<rparr>
      else p\<lparr>p_deletingProfileId := None, p_deleteError := None, p_editingProfileId := None, p_editingError := None,
             p_deleteAccountConfirm := False, p_deleteAccountError := None, p_view := SettingsView\<rparr>)"

text \<open>The spinner turns for at least half a second; the delay is not modelled.\<close>

definition syncNow :: "'b popup_env \<Rightarrow> ('b, unit) ui" where
  "syncNow E =
     bindP (modP (\<lambda>p. p\<lparr>p_syncing := True\<rparr>)) (\<lambda>_.
     bindP (sendP E SYNC) (\<lambda>res.
     bindP (modP (\<lambda>p. p\<lparr>p_syncing := False\<rparr>)) (\<lambda>_.
     modP (onSyncReply res))))"

datatype led = LedOk | LedWarn | LedOff

definition statusBar :: "(int \<Rightarrow> string) \<Rightarrow> popup \<Rightarrow> string \<times> led" where
  "statusBar formatTime p =
     (if p_initializing p then ([], LedOff)
      else if \<not> p_isLoggedIn p then (''Not signed in'', LedOff)
      else if p_isLocked p then (''Locked'', LedWarn)
      else if p_syncing p then (''Syncing...'', LedWarn)
      else case p_lastSynced p of
             Some t \<Rightarrow> if t \<noteq> 0 then (''Synced at '' @ formatTime t, LedOk) else (''Not synced yet'', LedOff)
           | None \<Rightarrow> (''Not synced yet'', LedOff))"

definition plural :: "nat \<Rightarrow> string \<Rightarrow> string" where
  "plural n word = show_nat n @ '' '' @ word @ (if n \<noteq> 1 then ''s'' else [])"

text \<open>The lines of the panel about the changes made while locked.\<close>

definition changeLines :: "pendingChanges \<Rightarrow> string list" where
  "changeLines c =
     (if added c \<noteq> 0 then [plural (added c) ''bookmark'' @ '' added''] else [])
     @ (if removed c \<noteq> 0 then [plural (removed c) ''bookmark'' @ '' removed''] else [])
     @ (if modified c \<noteq> 0 then [plural (modified c) ''bookmark'' @ '' modified''] else [])"

text \<open>The lines of the panel about the import conflict; Solid may ask while the panel is being taken down.\<close>

definition shownDiff :: "popup \<Rightarrow> importDiff" where
  "shownDiff p = orElse (p_pendingImport p) \<lparr>localOnly = 0, serverOnly = 0\<rparr>"

definition importLines :: "popup \<Rightarrow> string list" where
  "importLines p =
     (let d = shownDiff p
      in if p_importRecomputingDiff p then []
         else (if localOnly d > 0 then [plural (localOnly d) ''bookmark'' @ '' only in this browser''] else [])
            @ (if serverOnly d > 0 then [plural (serverOnly d) ''bookmark'' @ '' only in your account''] else [])
            @ (if localOnly d = 0 \<and> serverOnly d = 0 then [''Your bookmarks already match this profile''] else []))"

definition importComparedProfileName :: "popup \<Rightarrow> string" where
  "importComparedProfileName p = orElse (map_option pi_name (findProfile (p_importComparedProfileId p) (p_profiles p))) []"

definition importButton :: "popup \<Rightarrow> string \<times> bool" where
  "importButton p =
     (if p_importResolving p then ''Applying...'' else if localOnly (shownDiff p) > 0 then ''Confirm'' else ''Continue'',
      p_importResolving p \<or> p_importRecomputingDiff p)"

text \<open>The panels of the main view under the conditions of their \<^verbatim>\<open>Show\<close>.\<close>

definition showLogin :: "popup \<Rightarrow> bool" where
  "showLogin p \<longleftrightarrow> \<not> p_initializing p \<and> \<not> p_isLoggedIn p \<and> \<not> p_isLocked p"

definition showLocked :: "popup \<Rightarrow> bool" where
  "showLocked p \<longleftrightarrow> \<not> p_initializing p \<and> p_isLocked p"

definition showChanges :: "popup \<Rightarrow> bool" where
  "showChanges p \<longleftrightarrow> \<not> p_initializing p \<and> p_isLoggedIn p \<and> \<not> p_isLocked p \<and> p_pendingChanges p \<noteq> None"

definition showImport :: "popup \<Rightarrow> bool" where
  "showImport p \<longleftrightarrow> \<not> p_initializing p \<and> p_isLoggedIn p \<and> \<not> p_isLocked p \<and> p_pendingImport p \<noteq> None"

definition showOnboarding :: "popup \<Rightarrow> bool" where
  "showOnboarding p \<longleftrightarrow> \<not> p_initializing p \<and> p_isLoggedIn p \<and> \<not> p_isLocked p \<and> p_onboarding p"

datatype panel = LoadingPanel | LoginPanel | LockedPanel | ChangesPanel | ImportPanel | OnboardingPanel | ReadyPanel

definition panels :: "popup \<Rightarrow> panel list" where
  "panels p =
     (if p_view p \<noteq> MainView then []
      else map snd (filter fst
        [(p_initializing p, LoadingPanel), (showLogin p, LoginPanel), (showLocked p, LockedPanel), (showChanges p, ChangesPanel),
         (showImport p, ImportPanel), (showOnboarding p, OnboardingPanel), (isReady p, ReadyPanel)]))"

lemmas panel_simps = panels_def showLogin_def showLocked_def showChanges_def showImport_def showOnboarding_def isReady_def

subsection \<open>Clicks that only change signals\<close>

definition toggleAdding :: "popup \<Rightarrow> popup" where
  "toggleAdding p = p\<lparr>p_addingProfile := \<not> p_addingProfile p, p_profileError := None\<rparr>"

definition openManageProfiles :: "popup \<Rightarrow> popup" where
  "openManageProfiles p = p\<lparr>p_deletingProfileId := None, p_deleteError := None, p_view := ManageProfilesView\<rparr>"

definition openAccountSecurity :: "popup \<Rightarrow> popup" where
  "openAccountSecurity p = p\<lparr>p_view := AccountSecurityView\<rparr>"

definition startRename :: "profileInfo \<Rightarrow> popup \<Rightarrow> popup" where
  "startRename q p =
     p\<lparr>p_editingProfileId := Some (pi_id q), p_editingProfileName := pi_name q, p_editingError := None,
       p_deletingProfileId := None, p_exportError := None\<rparr>"

definition cancelRename :: "popup \<Rightarrow> popup" where
  "cancelRename p = p\<lparr>p_editingProfileId := None, p_editingError := None\<rparr>"

text \<open>The bin asks for a confirmation first; a second click takes that back.\<close>

definition toggleDelete :: "profileInfo \<Rightarrow> popup \<Rightarrow> popup" where
  "toggleDelete q p =
     p\<lparr>p_deleteError := None, p_editingProfileId := None, p_exportError := None,
       p_deletingProfileId := (if p_deletingProfileId p = Some (pi_id q) then None else Some (pi_id q))\<rparr>"

definition cancelDelete :: "popup \<Rightarrow> popup" where
  "cancelDelete p = p\<lparr>p_deletingProfileId := None, p_deleteError := None\<rparr>"

definition askDeleteAccount :: "popup \<Rightarrow> popup" where
  "askDeleteAccount p = p\<lparr>p_deleteAccountConfirm := True, p_deleteAccountError := None\<rparr>"

definition cancelDeleteAccount :: "popup \<Rightarrow> popup" where
  "cancelDeleteAccount p = p\<lparr>p_deleteAccountConfirm := False, p_deleteAccountPassword := []\<rparr>"

end
