(* ===== verification/Background_Invariant.thy ===== *)
theory Background_Invariant
  imports Background
begin

text \<open>
  What every handler of the background keeps, however it ends: rules that show an invariant of an
  action from its parts, the simulation of the session store by the whole worker, and the flags
  that gate the syncs.
\<close>

subsection \<open>Rules\<close>

lemma keeps_let [keeps_intros]: "keeps P (f x) \<Longrightarrow> keeps P (let y = x in f y)"
  by simp

lemma keeps_option [keeps_intros]:
  "(x = None \<Longrightarrow> keeps P a) \<Longrightarrow> (\<And>y. x = Some y \<Longrightarrow> keeps P (b y)) \<Longrightarrow>
     keeps P (case x of None \<Rightarrow> a | Some y \<Rightarrow> b y)"
  by (cases x) simp_all

lemma keeps_prod [keeps_intros]:
  "(\<And>y z. x = (y, z) \<Longrightarrow> keeps P (f y z)) \<Longrightarrow> keeps P (case x of (y, z) \<Rightarrow> f y z)"
  by (cases x) simp

lemma keeps_init_result [keeps_intros]:
  "keeps P a \<Longrightarrow> (\<And>i b. keeps P (f i b)) \<Longrightarrow> keeps P (case x of Continue \<Rightarrow> a | Return i b \<Rightarrow> f i b)"
  by (cases x) simp_all

lemma keeps_choice [keeps_intros]:
  "keeps P a \<Longrightarrow> keeps P b \<Longrightarrow> keeps P c \<Longrightarrow> keeps P (case x of Overwrite \<Rightarrow> a | Merge \<Rightarrow> b | NewProfile \<Rightarrow> c)"
  by (cases x) simp_all

text \<open>Actions that look at the state before they go on.\<close>

lemma keeps_test:
  assumes "keeps P m" and "keeps P n"
  shows "keeps P (\<lambda>s. if c s then m s else n s)"
proof (rule keepsI)
  fix s r t assume p: "P s" and e: "(if c s then m s else n s) = Some (r, t)"
  show "P t"
  proof (cases "c s")
    case True
    with e have "m s = Some (r, t)" by simp
    from keepsD [OF assms(1) this p] show ?thesis .
  next
    case False
    with e have "n s = Some (r, t)" by simp
    from keepsD [OF assms(2) this p] show ?thesis .
  qed
qed

lemma keeps_skip [keeps_intros]: "keeps P (\<lambda>s. Some (r, s))"
  by (simp add: keeps_def)

text \<open>\<^verbatim>\<open>if (c) return; ... \<close>\<close>

lemma keeps_guard:
  assumes "\<And>s. F s = (if c s then Some (g s, s) else m s)" and "keeps P m"
  shows "keeps P F"
proof (rule keepsI)
  fix s r t assume p: "P s" and e: "F s = Some (r, t)"
  show "P t"
  proof (cases "c s")
    case True
    with e assms(1) [of s] p show ?thesis by simp
  next
    case False
    with e assms(1) [of s] have "m s = Some (r, t)" by simp
    from keepsD [OF assms(2) this p] show ?thesis .
  qed
qed

lemma keeps_bind_lift: "(\<And>x. r = Inr x \<Longrightarrow> keeps P (f x)) \<Longrightarrow> keeps P (bindP (liftP r) f)"
  by (cases r) (auto simp: keeps_def bindP_def liftP_def)

text \<open>Predicates that do not see the browser, the database, the document and the network.\<close>

definition blind :: "(('d, 'w, 'n) bg \<Rightarrow> bool) \<Rightarrow> bool" where
  "blind P \<longleftrightarrow> (\<forall>s w. P (s\<lparr>g_world := w\<rparr>) = P s) \<and> (\<forall>s n. P (s\<lparr>g_net := n\<rparr>) = P s)
     \<and> (\<forall>s h. P (s\<lparr>g_hasDoc := h\<rparr>) = P s)"

lemma blindD:
  "blind P \<Longrightarrow> P (s\<lparr>g_world := w\<rparr>) = P s" "blind P \<Longrightarrow> P (s\<lparr>g_net := n\<rparr>) = P s"
  "blind P \<Longrightarrow> P (s\<lparr>g_hasDoc := h\<rparr>) = P s" "blind P \<Longrightarrow> P (putDb db s) = P s" "blind P \<Longrightarrow> P (putBridge b s) = P s"
  by (simp_all add: blind_def putDb_def putBridge_def)

lemma keeps_withDoc [keeps_intros]: "keeps P m \<Longrightarrow> keeps P (withDoc m)"
  by (auto simp: keeps_def withDoc_def split: sum.splits)

lemma keeps_blind:
  assumes "blind P"
  shows "keeps P (worldP m1)" "keeps P (netP m2)" "keeps P (bridgeDbP m3)" "keeps P (dbP f)" "keeps P (docP m4)"
    "keeps P (sealP X key pt)" "keeps P (enqueueDeltaP X raw)" "keeps P (exportSnapshotP X)"
    "keeps P (loadMappingP pid)" "keeps P (runPushP X)" "keeps P (pullP X seq pid)" "keeps P (newKeyP X)"
  using assms
  by (auto intro!: keepsI simp: worldP_def netP_def bridgeDbP_def dbP_def docP_def sealP_def enqueueDeltaP_def Let_def
      exportSnapshotP_def loadMappingP_def runPushP_def pullP_def newKeyP_def blindD split: prod.splits option.splits)

lemma keeps_blind_calls:
  assumes "blind P"
  shows "keeps P (initDocP X snap)" "keeps P (resetVersionCursorP X)" "keeps P (importUpdateP X data)"
    "keeps P (reconcileP X)" "keeps P (mergeLocalP X)" "keeps P (exportAndEnqueueP X)" "keeps P (offlineChangesP X)"
    "keeps P (importDiffP X)" "keeps P (mergeImportP X excl)" "keeps P (bootstrapP X pid)" "keeps P (clearManagedP X)"
    "keeps P (persistSnapshot X pid)" "keeps P (browserRootsReady X)"
    "keeps P (putServerSnapshot X pid seq sealed)" "keeps P (maybeUploadServerSnapshot X pid seq)"
    "keeps P (mergeMissed X pid)" "keeps P (restoreDoc X pid)"
  using keeps_blind [OF assms]
  by (auto intro!: keeps_intros keeps_test
      simp: initDocP_def resetVersionCursorP_def importUpdateP_def reconcileP_def mergeLocalP_def exportAndEnqueueP_def
        offlineChangesP_def importDiffP_def mergeImportP_def bootstrapP_def clearManagedP_def persistSnapshot_def
        browserRootsReady_def putServerSnapshot_def maybeUploadServerSnapshot_def mergeMissed_def restoreDoc_def
        blindD [OF assms])

lemma keeps_pushP: "blind P \<Longrightarrow> keeps P (pushP X)"
  by (rule keeps_guard [of _ g_pushPaused "\<lambda>_. Inr ()" "runPushP X"]) (simp_all add: pushP_def keeps_blind)

subsection \<open>Interface: an invariant of the worker\<close>

text \<open>
  What the operations below the handlers keep: a predicate that sees neither the document, the
  browser, the database and the network nor the stream, alarms, icon, jobs and listeners.
\<close>

locale doc_invariant =
  fixes P :: "('d, 'w, 'n) bg \<Rightarrow> bool"
  assumes blind: "blind P"
    and unseen_doc:
      "\<And>s v. P (s\<lparr>g_sse := v\<rparr>) = P s" "\<And>s v. P (s\<lparr>g_alarms := v\<rparr>) = P s" "\<And>s v. P (s\<lparr>g_icon := v\<rparr>) = P s"
      "\<And>s v. P (s\<lparr>g_jobs := v\<rparr>) = P s" "\<And>s v. P (s\<lparr>g_lastSynced := v\<rparr>) = P s"
      "\<And>s v. P (s\<lparr>g_resyncRequested := v\<rparr>) = P s" "\<And>s v. P (s\<lparr>g_attached := v\<rparr>) = P s"
begin

lemmas calls = keeps_blind [OF blind] keeps_blind_calls [OF blind] keeps_pushP [OF blind]

lemma tearing_down:
  "keeps P stopRealtimeSync" "keeps P detachP" "keeps P attachP" "keeps P (setIcon i)" "keeps P (setIconLocked b)"
  "keeps P (postJob j)" "keeps P (stampSynced X)"
  by (auto simp: stopRealtimeSync_def detachP_def attachP_def setIcon_def setIconLocked_def postJob_def stampSynced_def
      unseen_doc blindD [OF blind] intro!: keeps_intros)

lemma starting: "keeps P startPush" "keeps P connectEventStream" "keeps P startSync"
proof -
  show *: "keeps P startPush"
    by (rule keeps_guard [of _ g_pushPaused "\<lambda>_. Inr ()" "postJob PushJob"]) (simp_all add: startPush_def tearing_down)
  show **: "keeps P connectEventStream"
    by (rule keeps_guard [of _ g_syncPaused "\<lambda>_. Inr ()"], simp only: connectEventStream_def)
       (intro keeps_intros, simp add: unseen_doc)
  show "keeps P startSync"
    by (rule keeps_guard [of _ g_syncPaused "\<lambda>_. Inr ()"], simp only: startSync_def)
       (intro keeps_intros * **, simp add: unseen_doc)
qed

lemma applying: "keeps P (applyDeltas X p skip ds)" "keeps P (syncFromInner X p n skip)"
proof -
  show *: "keeps P (applyDeltas X p skip ds)" for ds
    unfolding applyDeltas_def Let_def by (intro keeps_intros tearing_down calls)
  show "keeps P (syncFromInner X p n skip)"
    unfolding syncFromInner_def by (intro keeps_intros calls *)
qed

lemma catching_up: "keeps P runCatchUpSync"
proof (rule keepsI)
  fix s r t assume "P s" "runCatchUpSync s = Some (r, t)"
  then show "P t"
    by (cases "getActiveProfileId (g_auth s)")
       (auto simp: runCatchUpSync_def bindP_def postJob_def unseen_doc split: if_splits)
qed

lemma syncFrom_keeps:
  assumes "\<And>s v. P (s\<lparr>g_syncInProgress := v\<rparr>) = P s"
  shows "keeps P (syncFrom X p n skip exclusive)"
proof (rule keepsI)
  fix s r t assume p: "P s" and e: "syncFrom X p n skip exclusive s = Some (r, t)"
  have fin: "keeps P syncDone"
  proof (rule keepsI)
    fix s r t assume "P s" "syncDone s = Some (r, t)"
    then show "P t"
      using keepsD [OF catching_up, of "s\<lparr>g_syncInProgress := False, g_resyncRequested := False\<rparr>" r t]
      by (auto simp: syncDone_def Let_def unseen_doc assms split: if_splits)
  qed
  have k: "keeps P (finallyP (syncFromInner X p n skip) syncDone)"
    by (intro keeps_finally applying fin)
  from e p show "P t"
    using keepsD [OF k, of "s\<lparr>g_syncInProgress := True\<rparr>" r t]
    by (auto simp: syncFrom_def unseen_doc assms split: if_splits)
qed

lemma initializing_if:
  assumes pulling: "\<And>X p n skip exclusive. keeps P (syncFrom X p n skip exclusive)"
  shows "keeps P (initializeDocs X p merge check)"
proof -
  have 1: "keeps P (initFromLocal X p snap merge check)" for snap
    unfolding initFromLocal_def by (intro keeps_intros calls pulling)
  have 2: "keeps P (initFromServer X p check)"
    unfolding initFromServer_def by (intro keeps_intros calls pulling tearing_down)
  show ?thesis
    unfolding initializeDocs_def by (intro keeps_intros 1 2 calls tearing_down)
qed

end

text \<open>
  And that the quiet operations of the session store keep, those that neither open nor lock nor
  unlock a session.
\<close>

locale quiet_invariant = doc_invariant P for P :: "('d, 'w, 'n) bg \<Rightarrow> bool" +
  assumes quiet: "\<And>s a. quiet_op (g_auth s) a \<Longrightarrow> P s \<Longrightarrow> P (s\<lparr>g_auth := a\<rparr>)"
begin

lemma keeps_quiet: "(\<And>a. quiet_op a (f a)) \<Longrightarrow> keeps P (setP (\<lambda>s. s\<lparr>g_auth := f (g_auth s)\<rparr>))"
  by (rule keeps_set) (rule quiet)

lemma keeps_quietP: "(\<And>a. quiet_op a (snd (m a))) \<Longrightarrow> keeps P (authP m)"
  by (rule keepsI) (auto simp: authP_def split: prod.splits intro!: quiet, metis snd_conv)

lemma logout: "keeps P (handleLogout X c)" "keeps P (onAuthExpired X)" "keeps P m \<Longrightarrow> keeps P (orLogout X m)"
proof -
  show *: "keeps P (handleLogout X c)" for c
    unfolding handleLogout_def
    by (intro keeps_intros tearing_down calls keeps_quiet quiet_clear)
  show **: "keeps P (onAuthExpired X)"
    unfolding onAuthExpired_def by (intro keeps_intros *)
  show "keeps P m \<Longrightarrow> keeps P (orLogout X m)"
    unfolding orLogout_def by (intro keeps_intros **)
qed

lemma importing:
  assumes pulling: "\<And>X p n skip exclusive. keeps P (syncFrom X p n skip exclusive)"
  shows "keeps P (importOverwrite X p q)" "keeps P (importMerge X p q excl)" "keeps P (importNewProfile X p name)"
proof -
  have load: "keeps P (loadTarget X p)" for p
    unfolding loadTarget_def by (intro keeps_intros keeps_quietP quiet_switch calls pulling)
  show "keeps P (importOverwrite X p q)"
    unfolding importOverwrite_def by (intro keeps_intros load calls tearing_down)
  show "keeps P (importMerge X p q excl)"
    unfolding importMerge_def by (intro keeps_intros load calls tearing_down)
  have seed: "keeps P (seedNewProfile X p)" for p
    unfolding seedNewProfile_def by (intro keeps_intros keeps_quietP quiet_switch calls tearing_down)
  have undo: "keeps P (rollBackProfile X p q e)" for p q e
    unfolding rollBackProfile_def
    by (intro keeps_bind keeps_quietP quiet_switch keeps_quiet quiet_remove keeps_catch calls keeps_basic keeps_ask)
  show "keeps P (importNewProfile X p name)"
    unfolding importNewProfile_def by (intro keeps_intros calls keeps_quietP quiet_add seed undo)
qed

end

text \<open>
  Nor do they see what the handlers put aside. With the pull added, every handler follows that is
  itself quiet.
\<close>

locale quiet_worker = quiet_invariant P for P :: "('d, 'w, 'n) bg \<Rightarrow> bool" +
  assumes unseen_rest:
    "\<And>s v. P (s\<lparr>g_outbox := v\<rparr>) = P s" "\<And>s v. P (s\<lparr>g_pendingChanges := v\<rparr>) = P s"
    "\<And>s v. P (s\<lparr>g_pendingUnlockProfileId := v\<rparr>) = P s" "\<And>s v. P (s\<lparr>g_pendingImport := v\<rparr>) = P s"
    "\<And>s v. P (s\<lparr>g_pendingSwitchProfileId := v\<rparr>) = P s"
    and pulling: "\<And>X p n skip exclusive. keeps P (syncFrom X p n skip exclusive)"
begin

lemmas unseen = unseen_doc unseen_rest

lemmas initializing = initializing_if [OF pulling]

lemma parking: "keeps P (setPendingImport v)"
  unfolding setPendingImport_def by (intro keeps_set) (simp add: unseen quiet quiet_park)

lemma reacting: "keeps P (reactiveSync X p)" "keeps P (onNewSeq X p n)" "keeps P onReconnectNeeded" "keeps P (onCallback X p c)"
proof -
  show "keeps P (reactiveSync X p)"
    unfolding reactiveSync_def by (intro logout keeps_intros pulling)
  show *: "keeps P (onNewSeq X p n)" for n
    unfolding onNewSeq_def by (intro keeps_intros logout pulling)
  show **: "keeps P onReconnectNeeded"
    by (rule keeps_guard [of _ "\<lambda>s. \<not> isLoggedIn (g_auth s) \<or> isLocked (g_auth s) \<or> \<not> streamLost s" "\<lambda>_. Inr ()" connectEventStream])
       (auto simp: onReconnectNeeded_def starting)
  show "keeps P (onCallback X p c)"
    unfolding onCallback_def by (cases c) (simp_all add: * ** logout)
qed

lemma jobs: "keeps P (runJob X j)"
  unfolding runJob_def
  by (cases j) (auto intro!: keeps_intros logout calls reacting)

lemma reconnecting: "keeps P (\<lambda>s. if streamLost s then connectEventStream s else Some (Inr (), s))"
  by (rule keeps_test [OF starting(2) keeps_skip])

lemma polling: "keeps P (\<lambda>s. if hasEstablishedMapping (g_bridge s) then postJob j s else Some (Inr (), s))"
  by (rule keeps_test [OF tearing_down(6) keeps_skip])

lemma alarms: "keeps P (onAlarm X a)"
proof (rule keeps_guard [of _ "\<lambda>s. \<not> isLoggedIn (g_auth s) \<or> isLocked (g_auth s) \<or> g_syncPaused s" "\<lambda>_. Inr ()"])
  let ?m = "\<lambda>s. (case a of WsReconnect \<Rightarrow> (if streamLost s then connectEventStream s else Some (Inr (), s))
      | SyncPoll \<Rightarrow>
          bindP (askP (\<lambda>s. getActiveProfileId (g_auth s))) (\<lambda>profileId.
          bindP (\<lambda>s. if streamLost s then connectEventStream s else Some (Inr (), s)) (\<lambda>_.
          bindP (\<lambda>s. if hasEstablishedMapping (g_bridge s) then postJob (PollMergeJob profileId) s else Some (Inr (), s)) (\<lambda>_.
          bindP (postJob (SyncJob profileId)) (\<lambda>_.
          startPush)))) s)"
  show "onAlarm X a s = (if \<not> isLoggedIn (g_auth s) \<or> isLocked (g_auth s) \<or> g_syncPaused s then Some (Inr (), s) else ?m s)" for s
    by (simp add: onAlarm_def)
  show "keeps P ?m"
  proof (cases a)
    case SyncPoll
    have "keeps P (bindP (askP (\<lambda>s. getActiveProfileId (g_auth s))) (\<lambda>profileId.
          bindP (\<lambda>s. if streamLost s then connectEventStream s else Some (Inr (), s)) (\<lambda>_.
          bindP (\<lambda>s. if hasEstablishedMapping (g_bridge s) then postJob (PollMergeJob profileId) s else Some (Inr (), s)) (\<lambda>_.
          bindP (postJob (SyncJob profileId)) (\<lambda>_. startPush)))))"
      by (intro keeps_bind keeps_ask reconnecting polling tearing_down starting)
    with SyncPoll show ?thesis by simp
  next
    case WsReconnect
    with reconnecting show ?thesis by simp
  qed
qed

lemma resolving_import: "keeps P (handleResolveImport X choice excl name target)"
  unfolding handleResolveImport_def orReply_def Let_def
  by (intro keeps_intros parking tearing_down calls importing [OF pulling] pulling starting)

lemma recomputing: "keeps P (handleRecomputeImportDiff X p)"
  unfolding handleRecomputeImportDiff_def orReply_def
  by (intro keeps_intros calls pulling parking)

lemma exporting: "keeps P (handleExportProfile X p)"
  unfolding handleExportProfile_def orReply_def by (intro keeps_intros calls)

lemma deleting_account: "keeps P (handleDeleteAccount X auth)"
  unfolding handleDeleteAccount_def
  by (intro keeps_catch keeps_bind keeps_ask calls tearing_down keeps_quiet quiet_clear keeps_basic)

lemma missed: "keeps P (detectMissed X p)"
proof -
  have "keeps P (mergeMissed X p)" by (intro calls)
  then show ?thesis unfolding detectMissed_def by (rule keeps_test [OF _ keeps_skip])
qed

lemma syncing: "keeps P (handleSync X)"
proof -
  have 1: "keeps P (syncUnlocked X)"
    unfolding syncUnlocked_def
    by (intro keeps_bind keeps_ask missed calls pulling keeps_quiet quiet_update keeps_basic)
  have 2: "keeps P (syncLocked X)"
    unfolding syncLocked_def by (intro keeps_intros calls logout)
  show ?thesis
    unfolding handleSync_def by (intro keeps_intros 1 2 logout)
qed

lemma profile_list: "keeps P (handleCreateProfile X name)" "keeps P (handleRenameProfile X p name)" "keeps P (handleDeleteProfile X p)"
proof -
  show "keeps P (handleCreateProfile X name)"
    unfolding handleCreateProfile_def orReply_def by (intro keeps_intros calls keeps_quietP quiet_add)
  have "keeps P (setP (\<lambda>s. s\<lparr>g_auth := updateProfiles (f (getProfiles (g_auth s))) (g_auth s)\<rparr>))" for f
    by (rule keeps_set) (rule quiet, rule quiet_update)
  then show "keeps P (handleRenameProfile X p name)"
    unfolding handleRenameProfile_def orReply_def Let_def
    by (intro keeps_if keeps_catch keeps_bind keeps_ask calls keeps_basic)
  show "keeps P (handleDeleteProfile X p)"
    unfolding handleDeleteProfile_def orReply_def
    by (intro keeps_bind keeps_ask keeps_if keeps_catch calls keeps_quiet quiet_remove keeps_basic)
qed

end

text \<open>The handlers that set flags.\<close>

context quiet_worker
begin

lemma changing_password:
  assumes "\<And>s v. P (s\<lparr>g_syncPaused := v\<rparr>) = P s" and "\<And>s v. P (s\<lparr>g_pushPaused := v\<rparr>) = P s"
  shows "keeps P (handleChangePassword X x y z)"
proof -
  have pause: "keeps P (pausePushesP X)"
    unfolding pausePushesP_def by (intro keeps_intros jobs) (simp_all add: unseen assms)
  have wait: "keeps P waitForSyncIdle"
    by (auto simp: keeps_def waitForSyncIdle_def split: if_splits)
  have change: "keeps P (changeCredentials X x y z)"
    unfolding changeCredentials_def
    by (intro keeps_catch keeps_bind keeps_ask keeps_if keeps_quietP quiet_jwt quiet_psk pause wait calls logout keeps_basic)
  have resume: "keeps P resumeSync"
    unfolding resumeSync_def resumePushesP_def
    by (intro keeps_bind keeps_test starting keeps_skip keeps_set) (simp_all add: assms)
  show ?thesis
    unfolding handleChangePassword_def
    by (intro keeps_bind keeps_finally change resume tearing_down keeps_set) (simp_all add: assms)
qed

lemma draining: "keeps P (drainSwitches X arrivals p)"
proof -
  have round: "keeps P (switchRound Y p)" for Y :: "('d, 'w, 'n) platform" and p
    unfolding switchRound_def
    by (intro keeps_bind keeps_set tearing_down keeps_quietP quiet_switch initializing starting) (simp add: unseen)
  have queue: "keeps P (queueSwitch p)" for p
    unfolding queueSwitch_def by (intro keeps_bind keeps_set keeps_basic) (simp add: unseen)
  show ?thesis
    by (induction X arrivals p rule: drainSwitches.induct) (auto intro!: keeps_intros round queue)
qed

lemma switching:
  assumes "\<And>s v. P (s\<lparr>g_switchInProgress := v\<rparr>) = P s"
  shows "keeps P (handleSwitchProfile X arrivals p)"
proof (rule keepsI)
  fix s r t assume p: "P s" and e: "handleSwitchProfile X arrivals p s = Some (r, t)"
  have settled: "keeps P switchSettled"
    unfolding switchSettled_def by (intro keeps_bind keeps_set keeps_ask) (simp_all add: assms unseen)
  have k: "keeps P (finallyP (catchP (bindP (drainSwitches X arrivals p) (\<lambda>_. retP SWITCH_SUCCESS))
                  (\<lambda>e. retP (SWITCH_ERROR (errorString (x_domText X) e)))) switchSettled)"
    by (intro keeps_finally keeps_catch keeps_bind draining settled keeps_basic)
  from e p show "P t"
    using keepsD [OF k, of "s\<lparr>g_switchInProgress := True\<rparr>" r t]
    by (auto simp: handleSwitchProfile_def queueSwitch_def unseen assms split: if_splits)
qed

lemma commands:
  assumes "\<And>p. keeps P (handleSwitchProfile X arrivals p)"
  shows "keeps P (onCommand X arrivals c)"
proof (rule keepsI)
  fix s r t assume p: "P s" and e: "onCommand X arrivals c s = Some (r, t)"
  have k: "keeps P (bindP (askP (\<lambda>s. getActiveProfileId (g_auth s))) (\<lambda>active.
          let ps = getProfiles (g_auth s); target = pi_id (ps ! nat (nextIndex c ps active))
          in bindP (handleSwitchProfile X arrivals target) (\<lambda>result.
               whenP (result = SWITCH_SUCCESS)
                 (setP (\<lambda>s. s\<lparr>g_outbox := g_outbox s @ [PROFILE_SWITCHED target]\<rparr>)))))"
    unfolding Let_def by (intro keeps_bind keeps_ask keeps_when keeps_set assms) (simp add: unseen)
  from e p show "P t"
    using keepsD [OF k, of s r t] by (auto simp: onCommand_def split: if_splits)
qed

end

subsection \<open>Every handler\<close>

text \<open>Predicates that all operations of the session store keep.\<close>

locale session_invariant = doc_invariant P for P :: "('d, 'w, 'n) bg \<Rightarrow> bool" +
  assumes session: "\<And>s a. auth_step (g_auth s) a \<Longrightarrow> P s \<Longrightarrow> P (s\<lparr>g_auth := a\<rparr>)"
begin

lemma keeps_auth: "(\<And>a. auth_op a (f a)) \<Longrightarrow> keeps P (setP (\<lambda>s. s\<lparr>g_auth := f (g_auth s)\<rparr>))"
  by (rule keeps_set) (rule session, rule step_op)

lemma keeps_authP: "(\<And>a. auth_op a (snd (m a))) \<Longrightarrow> keeps P (authP m)"
  by (rule keepsI) (auto simp: authP_def split: prod.splits intro!: session step_op, metis snd_conv)

end

sublocale session_invariant < quiet_invariant P
  by unfold_locales (rule session [OF step_op [OF quiet_is_op]])

text \<open>And that do not see what the handlers put aside: only the session and the gate flags are left.\<close>

locale worker_invariant = session_invariant P for P :: "('d, 'w, 'n) bg \<Rightarrow> bool" +
  assumes unseen_late:
    "\<And>s v. P (s\<lparr>g_outbox := v\<rparr>) = P s" "\<And>s v. P (s\<lparr>g_pendingChanges := v\<rparr>) = P s"
    "\<And>s v. P (s\<lparr>g_pendingUnlockProfileId := v\<rparr>) = P s" "\<And>s v. P (s\<lparr>g_pendingImport := v\<rparr>) = P s"
    "\<And>s v. P (s\<lparr>g_pendingSwitchProfileId := v\<rparr>) = P s"

lemma worker_doc: "worker_invariant P \<Longrightarrow> doc_invariant P"
  by (intro session_invariant.axioms(1) worker_invariant.axioms(1))

text \<open>With the gate of the pull added, every handler follows that does not itself set a flag.\<close>

locale sync_invariant = worker_invariant P for P :: "('d, 'w, 'n) bg \<Rightarrow> bool" +
  assumes pulled: "\<And>X p n skip exclusive. keeps P (syncFrom X p n skip exclusive)"

sublocale sync_invariant < quiet_worker P
  by unfold_locales (simp_all add: unseen_late pulled)

context sync_invariant
begin

lemma is_quiet: "quiet_worker P"
  by unfold_locales

lemma locking: "keeps P handleLock"
  unfolding handleLock_def by (intro keeps_intros tearing_down keeps_auth op_lock)

lemma resolving_changes: "keeps P (handleResolveLockedChanges X apply)"
proof -
  have "keeps P (completeUnlockInit X p apply)" for p
    unfolding completeUnlockInit_def by (intro keeps_intros calls pulling tearing_down)
  then show ?thesis
    unfolding handleResolveLockedChanges_def
    by (intro keeps_intros tearing_down starting keeps_auth op_lock) (simp_all add: unseen)
qed

lemma unlocking: "keeps P (handleUnlock X key)"
  unfolding handleUnlock_def
  by (intro keeps_catch keeps_bind keeps_bind_lift keeps_option calls keeps_authP op_unlock initializing tearing_down starting
      keeps_basic keeps_set keeps_ask)
     (simp_all add: unseen)

lemma logging_in: "keeps P (handleLogin X mail auth wrapping)"
proof -
  have reg: "keeps P (registerAccount X mail auth k)" for k
    unfolding registerAccount_def by (intro keeps_intros calls)
  have login: "keeps P (loginOrRegister X mail auth k)" for k
    unfolding loginOrRegister_def by (intro keeps_intros calls reg)
  have reply: "keeps P (loginReply ps active isNew pending boot)" for ps active isNew pending boot
    unfolding loginReply_def by (intro keeps_option keeps_bind parking tearing_down starting keeps_basic)
  have opened: "keeps P (openSession X mail k token ps psk isNew)" for k token ps psk isNew
    unfolding openSession_def
    by (intro keeps_bind_lift keeps_bind keeps_auth op_session keeps_prod initializing reply)
  show ?thesis
    unfolding handleLogin_def
    by (intro keeps_catch keeps_bind_lift keeps_bind [OF login] keeps_prod opened keeps_basic)
qed

lemma messages:
  assumes "\<And>x y z. keeps P (handleChangePassword X x y z)" and "\<And>p. keeps P (handleSwitchProfile X arrivals p)"
  shows "keeps P (handleMessage X arrivals msg)"
  by (cases msg)
     (auto intro!: keeps_bind keeps_basic keeps_quiet quiet_timeout logging_in unlocking logout resolving_changes resolving_import
        locking profile_list syncing recomputing exporting deleting_account assms)

lemma booting: "keeps P (startup X)"
proof -
  have "keeps P (\<lambda>s. case restoreFromSessionStorage (g_auth s) of (restored, a) \<Rightarrow> Some (Inr restored, s\<lparr>g_auth := a\<rparr>))"
  proof (rule keepsI)
    fix s r t
    assume "P s" "(case restoreFromSessionStorage (g_auth s) of (restored, a) \<Rightarrow> Some (Inr restored, s\<lparr>g_auth := a\<rparr>)) = Some (r, t)"
    then show "P t" using session [OF step_restore] by (auto split: prod.splits) (metis snd_conv)
  qed
  then show ?thesis
    unfolding startup_def
    by (intro keeps_catch keeps_bind calls keeps_basic keeps_if keeps_option keeps_ask keeps_set initializing tearing_down starting)
       (simp_all add: unseen)
qed

end

subsection \<open>Four invariants\<close>

text \<open>The worker's session only moves by steps of the session store.\<close>

definition session_from :: "auth \<Rightarrow> ('d, 'w, 'n) bg \<Rightarrow> bool" where
  "session_from a0 s \<longleftrightarrow> auth_step\<^sup>*\<^sup>* a0 (g_auth s)"

definition unpaused :: "('d, 'w, 'n) bg \<Rightarrow> bool" where
  "unpaused s \<longleftrightarrow> \<not> g_syncPaused s \<and> \<not> g_pushPaused s"

definition not_switching :: "('d, 'w, 'n) bg \<Rightarrow> bool" where
  "not_switching s \<longleftrightarrow> \<not> g_switchInProgress s"

definition not_syncing :: "('d, 'w, 'n) bg \<Rightarrow> bool" where
  "not_syncing s \<longleftrightarrow> \<not> g_syncInProgress s"

lemma session_worker: "worker_invariant (session_from a0)"
  by unfold_locales (auto simp: session_from_def blind_def)

lemma unpaused_worker: "worker_invariant unpaused"
  by unfold_locales (auto simp: unpaused_def blind_def)

lemma not_switching_worker: "worker_invariant not_switching"
  by unfold_locales (auto simp: not_switching_def blind_def)

lemma not_syncing_worker: "worker_invariant not_syncing"
  by unfold_locales (auto simp: not_syncing_def blind_def)

text \<open>Whatever a sync does, the flag is down when it returns.\<close>

lemma syncFrom_not_syncing: "keeps not_syncing (syncFrom X p n skip exclusive)"
proof (rule keepsI)
  fix s r t assume p: "not_syncing s" and e: "syncFrom X p n skip exclusive s = Some (r, t)"
  show "not_syncing t"
  proof (cases "g_syncPaused s \<or> exclusive \<and> (g_switchInProgress s \<or> g_syncInProgress s)")
    case True
    with e p show ?thesis by (auto simp: syncFrom_def not_syncing_def split: if_splits)
  next
    case False
    with e have "finallyP (syncFromInner X p n skip) syncDone (s\<lparr>g_syncInProgress := True\<rparr>) = Some (r, t)"
      by (auto simp: syncFrom_def)
    then obtain s1 r1 where d: "syncDone s1 = Some (r1, t)" by (rule finallyP_SomeE)
    have k: "keeps not_syncing runCatchUpSync" by (rule doc_invariant.catching_up [OF worker_doc, OF not_syncing_worker])
    from d show ?thesis
      using keepsD [OF k, of "s1\<lparr>g_syncInProgress := False, g_resyncRequested := False\<rparr>" r1 t]
      by (auto simp: syncDone_def Let_def not_syncing_def split: if_splits)
  qed
qed

interpretation session_sim: sync_invariant "session_from a0" for a0
proof -
  have "keeps (session_from a0) (syncFrom X p n skip exclusive)" for X p n skip exclusive
    by (rule doc_invariant.syncFrom_keeps [OF worker_doc, OF session_worker]) (simp add: session_from_def)
  then show "sync_invariant (session_from a0)"
    by (intro sync_invariant.intro session_worker sync_invariant_axioms.intro)
qed

interpretation unpaused_inv: sync_invariant unpaused
proof -
  have "keeps unpaused (syncFrom X p n skip exclusive)" for X p n skip exclusive
    by (rule doc_invariant.syncFrom_keeps [OF worker_doc, OF unpaused_worker]) (simp add: unpaused_def)
  then show "sync_invariant unpaused"
    by (intro sync_invariant.intro unpaused_worker sync_invariant_axioms.intro)
qed

interpretation switch_inv: sync_invariant not_switching
proof -
  have "keeps not_switching (syncFrom X p n skip exclusive)" for X p n skip exclusive
    by (rule doc_invariant.syncFrom_keeps [OF worker_doc, OF not_switching_worker]) (simp add: not_switching_def)
  then show "sync_invariant not_switching"
    by (intro sync_invariant.intro not_switching_worker sync_invariant_axioms.intro)
qed

interpretation sync_inv: sync_invariant not_syncing
  by (intro sync_invariant.intro not_syncing_worker sync_invariant_axioms.intro syncFrom_not_syncing)

end
