(* ===== verification/Reconcile_Safety.thy ===== *)
theory Reconcile_Safety
  imports Reconcile_Correct
begin

text \<open>
  What a reconcile may touch: the calls it makes, read from a log around an arbitrary browser;
  and the descendants it takes for deleted, which are exactly those of the snapshot.
\<close>

subsection \<open>What a reconcile may touch\<close>

text \<open>The API with a log of the mutating calls.\<close>

datatype call = Create string | Update string | Move string string | RemoveTree string

definition logged :: "'w chrome \<Rightarrow> ('w \<times> call list) chrome" where
  "logged A =
     \<lparr>ch_getTree = (\<lambda>(w, log). ch_getTree A w), ch_get = (\<lambda>i (w, log). ch_get A i w),
      ch_getChildren = (\<lambda>i (w, log). ch_getChildren A i w),
      ch_create = (\<lambda>p t u (w, log). case ch_create A p t u w of (r, w') \<Rightarrow> (r, (w', log @ [Create p]))),
      ch_update = (\<lambda>i t u (w, log). case ch_update A i t u w of (r, w') \<Rightarrow> (r, (w', log @ [Update i]))),
      ch_move = (\<lambda>i p k (w, log). case ch_move A i p k w of (r, w') \<Rightarrow> (r, (w', log @ [Move i p]))),
      ch_removeTree = (\<lambda>i (w, log). case ch_removeTree A i w of (r, w') \<Rightarrow> (r, (w', log @ [RemoveTree i])))\<rparr>"

lemma logged_calls [simp]:
  "snd (snd (ch_create (logged A) p t u w)) = snd w @ [Create p]"
  "snd (snd (ch_update (logged A) i t u w)) = snd w @ [Update i]"
  "snd (snd (ch_move (logged A) i p k w)) = snd w @ [Move i p]"
  "snd (snd (ch_removeTree (logged A) i w)) = snd w @ [RemoveTree i]"
  "ch_getTree (logged A) w = ch_getTree A (fst w)"
  by (simp_all add: logged_def split: prod.splits)

text \<open>Entries whose ancestors are all entries, up to a canonical root.\<close>

definition rooted :: "bookmarks \<Rightarrow> string \<Rightarrow> bool" where
  "rooted d l \<longleftrightarrow> map_of (dropOrphans Map.empty d) l \<noteq> None"

lemma rooted_survives:
  assumes "distinct (map fst d)" and "rooted d l"
  shows "map_of (dropOrphans mapped d) l \<noteq> None"
proof -
  let ?S = "dom (map_of (dropOrphans Map.empty d))"
  have "closed_ids mapped d ?S"
    using dropOrphans_facts(4) [OF assms(1), of Map.empty] unfolding closed_ids_def by fastforce
  from dropOrphans_facts(5) [OF assms(1) this] assms(2) show ?thesis by (auto simp: rooted_def)
qed

fun permitted :: "roots \<Rightarrow> string set \<Rightarrow> (string \<Rightarrow> bool) \<Rightarrow> call \<Rightarrow> bool" where
  "permitted R ids kept (Create p) = (\<not> isVirtualRootId R p)"
| "permitted R ids kept (Update c) = (c \<in> ids)"
| "permitted R ids kept (Move c p) = (c \<in> ids)"
| "permitted R ids kept (RemoveTree c) = (c \<in> ids \<and> \<not> kept c)"

lemma purge_current:
  "fst (forA (purgeStale A R current) es s) = Inr ()
    \<and> w_browser (snd (forA (purgeStale A R current) es s)) = w_browser s
    \<and> (map_of current c \<noteq> None \<longrightarrow>
         c2l (w_bridge (snd (forA (purgeStale A R current) es s))) c = c2l (w_bridge s) c)"
proof (induction es arbitrary: s)
  case (Cons e es)
  obtain l c' where e: "e = (l, c')" by (cases e)
  define s' where "s' = snd (purgeStale A R current e s)"
  have p: "purgeStale A R current e s = (Inr (), s')" and b: "w_browser s' = w_browser s"
    and c: "map_of current c \<noteq> None \<longrightarrow> c2l (w_bridge s') c = c2l (w_bridge s) c"
    by (auto simp: s'_def e purgeStale_def bridgeA_def)
  from Cons.IH [of s'] p b c show ?case by simp
qed simp

lemma forget_other: "c \<notin> set cs \<Longrightarrow> c2l (fold forgetChrome cs b) c = c2l b c"
proof (induction cs arbitrary: b)
  case (Cons x cs)
  have "c2l (forgetChrome x b) c = c2l b c" using Cons.prems by (simp add: forgetChrome_def)
  with Cons show ?case by simp
qed simp

lemma deleteOne_permitted:
  assumes "list_all (permitted R ids kept) (snd (w_browser s))"
    and "\<And>c l. c2l b c = Some l \<Longrightarrow> c \<in> ids \<Longrightarrow> c2l (w_bridge s) c = Some l \<or> c \<in> deleted"
    and kept: "\<And>c. kept c \<longleftrightarrow> (\<exists>l. c2l b c = Some l \<and> l \<noteq> [] \<and> map_of eff l \<noteq> None)"
    and "c \<in> ids" and r: "deleteOne (logged A) eff current c deleted s = (Inr deleted', s')"
  shows "list_all (permitted R ids kept) (snd (w_browser s'))
    \<and> (\<forall>c l. c2l b c = Some l \<longrightarrow> c \<in> ids \<longrightarrow> c2l (w_bridge s') c = Some l \<or> c \<in> deleted')"
proof -
  let ?l = "c2l (w_bridge s) c"
  show ?thesis
  proof (cases "c \<in> deleted \<or> truthy ?l \<and> map_of eff (the ?l) \<noteq> None")
    case True
    then have "deleteOne (logged A) eff current c deleted s = (Inr deleted, s)" by (auto simp: deleteOne_def Let_def)
    with r assms(1,2) show ?thesis by auto
  next
    case False
    then have nk: "\<not> kept c"
      using assms(2) [of c] assms(4) kept [of c] by (auto simp: truthy_iff)
    obtain q w where rm: "ch_removeTree (logged A) c (w_browser s) = (q, w)"
      by (cases "ch_removeTree (logged A) c (w_browser s)")
    have w: "snd w = snd (w_browser s) @ [RemoveTree c]"
      using logged_calls(4) [of A c "w_browser s"] rm by simp
    have log: "list_all (permitted R ids kept) (snd w)" using assms(1,4) nk by (simp add: w)
    have other: "c2l (w_bridge s') x = c2l (w_bridge s) x \<or> x \<in> deleted'" for x
      using r rm False by (cases q) (auto simp: deleteOne_def Let_def browserA_def forget_other split: if_splits)
    have del: "deleted \<subseteq> deleted'" and b: "w_browser s' = w"
      using r rm False by (cases q; auto simp: deleteOne_def Let_def browserA_def split: if_splits)+
    have "c2l (w_bridge s') x = Some l \<or> x \<in> deleted'" if "c2l b x = Some l" "x \<in> ids" for x l
      using assms(2) [OF that] other [of x] del by auto
    with log b show ?thesis by simp
  qed
qed

lemma deleteLoop_permitted:
  assumes "list_all (permitted R ids kept) (snd (w_browser s))"
    and "\<And>c l. c2l b c = Some l \<Longrightarrow> c \<in> ids \<Longrightarrow> c2l (w_bridge s) c = Some l \<or> c \<in> deleted"
    and kept: "\<And>c. kept c \<longleftrightarrow> (\<exists>l. c2l b c = Some l \<and> l \<noteq> [] \<and> map_of eff l \<noteq> None)"
    and "set cs \<subseteq> ids" and "deleteLoop (logged A) eff current cs deleted s = (Inr deleted', s')"
  shows "list_all (permitted R ids kept) (snd (w_browser s'))"
  using assms(1,2,4,5)
proof (induction cs arbitrary: s deleted)
  case (Cons c cs)
  obtain d1 s1 where r: "deleteOne (logged A) eff current c deleted s = (Inr d1, s1)"
    using deleteOne_returns by (metis prod.collapse)
  from deleteOne_permitted [OF Cons.prems(1,2) kept _ r] Cons.prems(3)
  have "list_all (permitted R ids kept) (snd (w_browser s1))"
    "\<And>c l. c2l b c = Some l \<Longrightarrow> c \<in> ids \<Longrightarrow> c2l (w_bridge s1) c = Some l \<or> c \<in> d1" by auto
  from Cons.IH [OF this] Cons.prems(3,4) r show ?case by simp
qed simp

lemma createOne_permitted:
  assumes "list_all (permitted R ids kept) (snd (w_browser s))"
  shows "list_all (permitted R ids kept) (snd (w_browser (snd (createOne (logged A) R a (l, nd) s))))"
proof (cases rule: createOne_cases [of "logged A" R a l nd s])
  case (created i w)
  let ?p = "loroParentToChrome R (w_bridge s) (bn_parentId nd)"
  have "snd w = snd (w_browser s) @ [Create ?p]"
    using logged_calls(1) [of A ?p "bn_title nd" "bn_url nd" "w_browser s"] created(1) by simp
  moreover have "\<not> isVirtualRootId R ?p" using created(3) by (auto simp: isValidChromeParentId_def)
  ultimately show ?thesis using assms created(2) by simp
next
  case (failed w)
  let ?p = "loroParentToChrome R (w_bridge s) (bn_parentId nd)"
  have "\<not> isVirtualRootId R ?p" using failed(3) by (auto simp: isValidChromeParentId_def)
  then show ?thesis using assms failed(1,2) by simp
qed (use assms in simp)

lemma reconcile_permitted:
  fixes s :: "('d, 'w \<times> call list) bworld"
  assumes L: "loro_map_ok L" and m: "mapping_ok (w_bridge s)" and t: "tree_ok R t"
    and "ch_getTree A (fst (w_browser s)) = [t]"
    and log: "snd (w_browser s) = []"
    and kept: "\<And>c. kept c \<Longrightarrow> \<exists>l. c2l (w_bridge s) c = Some l \<and> rooted (bookmarks L (w_bridge s)) l"
  shows "list_all (permitted R (tn_id ` managedNodes R t) kept) (snd (w_browser (snd (reconcile L (logged A) R a s))))"
proof -
  let ?d = "bookmarks L (w_bridge s)" and ?cur = "currentChrome R [t]" and ?ids = "tn_id ` managedNodes R t"
  let ?s = "s\<lparr>w_ignore := w_ignore s + 1\<rparr>"
  note w = tree_walk [OF t]
  have cur: "map_of ?cur c \<noteq> None \<longleftrightarrow> c \<in> ?ids" for c
    using currentChrome_None [of R "[t]" c] w(1) by auto
  define s1 where "s1 = snd (forA (purgeStale (logged A) R ?cur) (loroToChrome (w_bridge s)) ?s)"
  note purge = purge_current [of "logged A" R ?cur "loroToChrome (w_bridge s)" ?s]
  have p: "forA (purgeStale (logged A) R ?cur) (loroToChrome (w_bridge s)) ?s = (Inr (), s1)"
    and b1: "w_browser s1 = w_browser s"
    using purge [of "[]"] by (auto simp: s1_def prod_eq_iff)
  have c1: "c2l (w_bridge s1) c = c2l (w_bridge s) c" if "c \<in> ?ids" for c
    using purge [of c] that cur [of c] by (simp add: s1_def)
  let ?eff = "dropOrphans (l2c (w_bridge s1)) ?d"
  let ?kept = "\<lambda>c. \<exists>l. c2l (w_bridge s) c = Some l \<and> l \<noteq> [] \<and> map_of ?eff l \<noteq> None"
  have weaker: "list_all (permitted R ?ids ?kept) cs \<Longrightarrow> list_all (permitted R ?ids kept) cs" for cs
  proof (erule list.pred_mono_strong)
    fix c assume "permitted R ?ids ?kept c"
    then show "permitted R ?ids kept c"
    proof (cases c)
      case (RemoveTree i)
      have "?kept i" if "kept i"
        using kept [OF that] rooted_survives [OF bookmarks_distinct [OF L]] mapping_ok_nonempty [OF m] mapping_ok_iff [OF m]
        by blast
      with RemoveTree \<open>permitted R ?ids ?kept c\<close> show ?thesis by auto
    qed simp_all
  qed
  let ?Q = "\<lambda>w :: 'w \<times> call list. list_all (permitted R ?ids ?kept) (snd w)"
  obtain del s2 where s2: "deleteLoop (logged A) ?eff ?cur (map fst (objectEntries ?cur)) {} s1 = (Inr del, s2)"
    using deleteLoop_returns by (metis prod.collapse)
  have "set (map fst (objectEntries ?cur)) \<subseteq> ?ids"
    using cur by (auto simp: map_of_eq_None_iff)
  then have q2: "?Q (w_browser s2)"
    using deleteLoop_permitted [OF _ _ refl _ s2, of R ?ids "w_bridge s"] log b1 c1 by simp
  obtain r s3 where s3: "forA (createOne (logged A) R a) (toCreate ?eff (w_bridge s2)) s2 = (r, s3)"
    by (cases "forA (createOne (logged A) R a) (toCreate ?eff (w_bridge s2)) s2")
  have "?Q (w_browser (snd (forA (createOne (logged A) R a) (toCreate ?eff (w_bridge s2)) s2)))"
    by (rule forA_inv) (use q2 createOne_permitted in \<open>auto simp del: split_paired_All\<close>)
  then have q3: "?Q (w_browser s3)" by (simp add: s3)
  obtain w where s4: "bindA (updateLoop (logged A) R ?cur del ?eff []) (\<lambda>byFolder. forA (moveFolder (logged A)) byFolder) s3
      = (Inr (), s3\<lparr>w_browser := w\<rparr>)" and q4: "?Q w"
    using steps34 [of ?cur ?Q "logged A" s3 R del ?eff] cur q3 by auto
  have "?Q (w_browser (snd (reconcileBody L (logged A) R a ?d ?cur ?s)))"
    using q3 q4 s4 by (cases r) (simp_all add: reconcileBody_def bindA_def p s2 s3)
  then have body: "list_all (permitted R ?ids kept) (snd (w_browser (snd (reconcileBody L (logged A) R a ?d ?cur ?s))))"
    by (rule weaker)
  obtain r' s' where r': "reconcileBody L (logged A) R a ?d ?cur ?s = (r', s')"
    by (cases "reconcileBody L (logged A) R a ?d ?cur ?s")
  show ?thesis
    using body by (cases r') (simp_all add: reconcile_def withEchoFilter_def bindA_def r' assms(4) saveMappingA_def split: prod.split)
qed

subsection \<open>The descendants of a deleted node\<close>

lemma kids_fold:
  "orElse (map_of (fold (\<lambda>(i, n). pushTo (orElse (tn_parentId n) []) (tn_id n)) es m) p) [] =
     orElse (map_of m p) [] @ map (\<lambda>(i, n). tn_id n) (filter (\<lambda>(i, n). orElse (tn_parentId n) [] = p) es)"
  by (induction es arbitrary: m) (auto simp: pushTo_def update_conv')

lemma kidsOf_eq:
  "kidsOf current p = map (\<lambda>(i, n). tn_id n) (filter (\<lambda>(i, n). orElse (tn_parentId n) [] = p) (objectEntries current))"
  using kids_fold [of "objectEntries current" "[]" p] by (simp add: kidsOf_def childrenOf_def)

text \<open>A snapshot with a rank that grows from parent to child, and one entry per id.\<close>

definition ranked :: "(string \<Rightarrow> string list) \<Rightarrow> string set \<Rightarrow> (string \<Rightarrow> nat) \<Rightarrow> bool" where
  "ranked kids ids rank \<longleftrightarrow> finite ids
     \<and> (\<forall>x. distinct (kids x) \<and> set (kids x) \<subseteq> ids \<and> (x \<in> ids \<longrightarrow> (\<forall>y \<in> set (kids x). rank x < rank y)))
     \<and> (\<forall>x x' y. y \<in> set (kids x) \<longrightarrow> y \<in> set (kids x') \<longrightarrow> x = x')"

definition child_of :: "(string \<Rightarrow> string list) \<Rightarrow> string \<Rightarrow> string \<Rightarrow> bool" where
  "child_of kids x y \<longleftrightarrow> y \<in> set (kids x)"

definition desc_inv :: "(string \<Rightarrow> string list) \<Rightarrow> string set \<Rightarrow> (string \<Rightarrow> nat) \<Rightarrow> string \<Rightarrow> string list \<Rightarrow> string list \<Rightarrow> bool" where
  "desc_inv kids ids rank c queue result \<longleftrightarrow>
     distinct (result @ queue) \<and> set (result @ queue) \<subseteq> ids
     \<and> (\<forall>y \<in> set (result @ queue). rank c < rank y \<and> (\<exists>x \<in> insert c (set result). y \<in> set (kids x))
          \<and> (child_of kids)\<^sup>+\<^sup>+ c y)
     \<and> (\<forall>x \<in> insert c (set result). set (kids x) \<subseteq> set (result @ queue))"

lemma desc_inv_init:
  assumes "ranked kids ids rank" and "c \<in> ids"
  shows "desc_inv kids ids rank c (kids c) []"
  using assms by (auto simp: desc_inv_def ranked_def child_of_def)

lemma desc_inv_step:
  assumes r: "ranked kids ids rank" and inv: "desc_inv kids ids rank c (i # queue) result"
  shows "desc_inv kids ids rank c (queue @ kids i) (result @ [i])"
proof -
  have i: "i \<in> ids" "i \<notin> set result" "rank c < rank i" "(child_of kids)\<^sup>+\<^sup>+ c i"
    using inv by (auto simp: desc_inv_def)
  have k: "distinct (kids i)" "set (kids i) \<subseteq> ids" "\<And>y. y \<in> set (kids i) \<Longrightarrow> rank i < rank y"
    using r i(1) by (auto simp: ranked_def)
  have new: "y \<notin> set (result @ i # queue)" if y: "y \<in> set (kids i)" for y
  proof
    assume "y \<in> set (result @ i # queue)"
    then obtain x where x: "x = c \<or> x \<in> set result" "y \<in> set (kids x)"
      using inv unfolding desc_inv_def by blast
    then have "x = i" using r y unfolding ranked_def by blast
    with x i show False by auto
  qed
  have reach: "(child_of kids)\<^sup>+\<^sup>+ c y" if "y \<in> set (kids i)" for y
    using i(4) that by (auto simp: child_of_def intro: tranclp.trancl_into_trancl)
  have lt: "rank c < rank y" if "y \<in> set (kids i)" for y
    using k(3) [OF that] i(3) by simp
  show ?thesis
    using inv k(1,2) new reach lt unfolding desc_inv_def by auto
qed

lemma desc_inv_done:
  assumes inv: "desc_inv kids ids rank c [] result"
  shows "distinct result \<and> set result = {d. (child_of kids)\<^sup>+\<^sup>+ c d}"
proof -
  have "d \<in> set result" if "(child_of kids)\<^sup>+\<^sup>+ c d" for d
    using that
  proof (induction rule: tranclp_induct)
    case (base y)
    with inv show ?case by (auto simp: desc_inv_def child_of_def)
  next
    case (step y z)
    with inv show ?case by (auto simp: desc_inv_def child_of_def)
  qed
  with inv show ?thesis by (auto simp: desc_inv_def)
qed

lemma descLoop_complete:
  assumes r: "ranked kids ids rank" and "desc_inv kids ids rank c queue result" and "card ids \<le> fuel + length result"
  shows "\<exists>ds. descLoop kids fuel queue result = (ds, []) \<and> distinct ds \<and> set ds = {d. (child_of kids)\<^sup>+\<^sup>+ c d}"
  using assms(2,3)
proof (induction fuel arbitrary: queue result)
  case 0
  show ?case
  proof (cases queue)
    case Nil
    with 0 show ?thesis by (simp add: desc_inv_done)
  next
    case (Cons i q)
    have "finite ids" using r by (simp add: ranked_def)
    moreover have "distinct (result @ queue)" "set (result @ queue) \<subseteq> ids"
      using 0(1) by (auto simp: desc_inv_def)
    ultimately have "length (result @ queue) \<le> card ids"
      by (metis card_mono distinct_card)
    with 0(2) Cons show ?thesis by simp
  qed
next
  case (Suc fuel)
  show ?case
  proof (cases queue)
    case Nil
    with Suc.prems show ?thesis by (simp add: desc_inv_done)
  next
    case (Cons i q)
    from Suc.IH [OF desc_inv_step [OF r Suc.prems(1) [unfolded Cons]]] Suc.prems(2) show ?thesis by (simp add: Cons)
  qed
qed

lemma parents_first_rank:
  assumes "parents_first A ns" and "distinct (map tn_id ns)" and "A \<inter> tn_id ` set ns = {}"
  shows "\<exists>rank. \<forall>n \<in> set ns. \<forall>m \<in> set ns. tn_parentId m = Some (tn_id n) \<longrightarrow> rank (tn_id n) < (rank (tn_id m) :: nat)"
proof -
  have "\<exists>rank. (\<forall>n \<in> set ns. k < rank (tn_id n)) \<and> (\<forall>n \<in> set ns. \<forall>m \<in> set ns.
      tn_parentId m = Some (tn_id n) \<longrightarrow> rank (tn_id n) < (rank (tn_id m) :: nat))" for k
    using assms
  proof (induction ns arbitrary: A k)
    case (Cons n ns)
    have "insert (tn_id n) A \<inter> tn_id ` set ns = {}" using Cons.prems by auto
    with Cons.IH [of "insert (tn_id n) A" "Suc k"] Cons.prems obtain rank where
      r: "\<forall>m \<in> set ns. Suc k < rank (tn_id m)"
      "\<forall>n \<in> set ns. \<forall>m \<in> set ns. tn_parentId m = Some (tn_id n) \<longrightarrow> rank (tn_id n) < (rank (tn_id m) :: nat)" by auto
    obtain p where p: "tn_parentId n = Some p" "p \<in> A" using Cons.prems(1) by auto
    have no: "tn_id n \<notin> tn_id ` set ns" "p \<notin> tn_id ` set ns"
      using Cons.prems p by auto
    have no': "tn_id m \<noteq> tn_id n" "tn_id m \<noteq> p" if "m \<in> set ns" for m
      using no imageI [OF that, of tn_id] by metis+
    have "p \<noteq> tn_id n" using Cons.prems(3) p by auto
    let ?rk = "rank(tn_id n := Suc k)"
    have "k < ?rk (tn_id m)" if "m \<in> set (n # ns)" for m
      using that r(1) by (cases "tn_id m = tn_id n") (auto dest: Suc_lessD)
    moreover have "?rk (tn_id x) < ?rk (tn_id m)"
      if "x \<in> set (n # ns)" "m \<in> set (n # ns)" "tn_parentId m = Some (tn_id x)" for x m
    proof -
      have "m \<noteq> n"
      proof
        assume "m = n"
        with that(3) p(1) have "tn_id x = p" by simp
        with that(1) no'(2) [of x] \<open>p \<noteq> tn_id n\<close> show False by auto
      qed
      then have m: "m \<in> set ns" "tn_id m \<noteq> tn_id n" using that(2) no'(1) by auto
      show ?thesis
      proof (cases "x = n")
        case True
        with r(1) m show ?thesis by simp
      next
        case False
        then have "x \<in> set ns" "tn_id x \<noteq> tn_id n" using that(1) no'(1) by auto
        with r(2) m that(3) show ?thesis by simp
      qed
    qed
    ultimately show ?case by blast
  qed simp
  then show ?thesis by blast
qed

lemma snapshot_ranked:
  assumes t: "tree_ok R t"
  shows "\<exists>rank. ranked (kidsOf (currentChrome R [t])) (tn_id ` managedNodes R t) rank"
    and "length (currentChrome R [t]) = card (tn_id ` managedNodes R t)"
    and "child_of (kidsOf (currentChrome R [t])) x y \<longleftrightarrow>
      (\<exists>n \<in> managedNodes R t. tn_id n = y \<and> tn_parentId n = Some x)"
proof -
  let ?cur = "currentChrome R [t]"
  note w = tree_walk [OF t]
  have d: "distinct (map fst ?cur)" by (rule currentChrome_distinct)
  have cur: "(c, n) \<in> set ?cur \<longleftrightarrow> n \<in> managedNodes R t \<and> tn_id n = c" for c n
    using currentChrome_Some [OF w(2), of c n] d w(1) by simp
  have cs: "set ?cur = (\<lambda>n. (tn_id n, n)) ` managedNodes R t"
    by (rule set_eqI) (metis (mono_tags, lifting) cur image_iff prod.exhaust_sel prod.inject)
  have ids: "fst ` set ?cur = tn_id ` managedNodes R t" by (simp add: cs image_image)
  then show "length ?cur = card (tn_id ` managedNodes R t)"
    using distinct_card [OF d] by simp
  have par: "\<exists>p. tn_parentId n = Some p" if "n \<in> managedNodes R t" for n
    using tree_parent [OF t that] by blast
  have kids: "y \<in> set (kidsOf ?cur x) \<longleftrightarrow> (\<exists>n \<in> managedNodes R t. tn_id n = y \<and> tn_parentId n = Some x)" for x y
  proof -
    have "orElse (tn_parentId n) [] = x \<longleftrightarrow> tn_parentId n = Some x" if "n \<in> managedNodes R t" for n
      using par [OF that] by auto
    moreover have "y \<in> set (kidsOf ?cur x) \<longleftrightarrow> (\<exists>n \<in> managedNodes R t. tn_id n = y \<and> orElse (tn_parentId n) [] = x)"
      by (auto simp: kidsOf_eq cs)
    ultimately show ?thesis by metis
  qed
  then show "child_of (kidsOf ?cur) x y \<longleftrightarrow> (\<exists>n \<in> managedNodes R t. tn_id n = y \<and> tn_parentId n = Some x)"
    by (simp add: child_of_def)
  have same: "n = m" if "n \<in> managedNodes R t" "m \<in> managedNodes R t" "tn_id n = tn_id m" for n m
    using w(2) that unfolding w(1) [symmetric] by (simp add: distinct_map inj_on_def)
  have kf: "kidsOf ?cur x = map fst (filter (\<lambda>(i, n). orElse (tn_parentId n) [] = x) (objectEntries ?cur))" for x
    unfolding kidsOf_eq by (rule map_cong [OF refl]) (auto simp: cs)
  have dk: "distinct (kidsOf ?cur x)" for x
    unfolding kf by (rule distinct_map_filter [OF distinct_objectEntries [OF d]])
  have "set (allNativeRootIds R) \<inter> tn_id ` set (managedWalk R [t]) = {}"
    using w(4) unfolding isAnyRootId_def by blast
  from parents_first_rank [OF w(3,2) this] obtain rank where
    rk: "\<forall>n \<in> managedNodes R t. \<forall>m \<in> managedNodes R t. tn_parentId m = Some (tn_id n) \<longrightarrow> rank (tn_id n) < (rank (tn_id m) :: nat)"
    unfolding w(1) by blast
  have "ranked (kidsOf ?cur) (tn_id ` managedNodes R t) rank"
    unfolding ranked_def
  proof (intro conjI allI impI ballI)
    show "finite (tn_id ` managedNodes R t)" by (simp add: managedNodes_def)
    show "distinct (kidsOf ?cur x)" for x by (rule dk)
    show "set (kidsOf ?cur x) \<subseteq> tn_id ` managedNodes R t" for x
      using kids [of _ x] by (intro subsetI) auto
    show "rank x < rank y" if x: "x \<in> tn_id ` managedNodes R t" and y: "y \<in> set (kidsOf ?cur x)" for x y
    proof -
      obtain n m where "n \<in> managedNodes R t" "tn_id n = x" "m \<in> managedNodes R t" "tn_id m = y" "tn_parentId m = Some x"
        using x y unfolding kids by blast
      with rk show ?thesis by blast
    qed
    show "x = x'" if y: "y \<in> set (kidsOf ?cur x)" "y \<in> set (kidsOf ?cur x')" for x x' y
    proof -
      obtain n m where nm: "n \<in> managedNodes R t" "tn_id n = y" "tn_parentId n = Some x"
        "m \<in> managedNodes R t" "tn_id m = y" "tn_parentId m = Some x'"
        using y unfolding kids by blast
      then have "n = m" by (intro same) simp_all
      with nm show ?thesis by simp
    qed
  qed
  then show "\<exists>rank. ranked (kidsOf ?cur) (tn_id ` managedNodes R t) rank" by blast
qed

subsection \<open>Properties\<close>



text \<open>
  allDescendants terminates with the whole subtree: on the snapshot of a well-formed tree its
  queue runs empty within as many rounds as there are nodes, and it returns each node strictly below
  the given one exactly once.
\<close>

theorem allDescendants_complete:
  assumes "tree_ok R t" and "c \<in> tn_id ` managedNodes R t"
  shows "snd (descLoop (kidsOf (currentChrome R [t])) (length (currentChrome R [t])) (kidsOf (currentChrome R [t]) c) []) = []
    \<and> distinct (allDescendants (currentChrome R [t]) c)
    \<and> set (allDescendants (currentChrome R [t]) c) =
        {d. (\<lambda>x y. \<exists>n \<in> managedNodes R t. tn_id n = y \<and> tn_parentId n = Some x)\<^sup>+\<^sup>+ c d}"
proof -
  let ?cur = "currentChrome R [t]"
  obtain rank where r: "ranked (kidsOf ?cur) (tn_id ` managedNodes R t) rank"
    using snapshot_ranked(1) [OF assms(1)] by blast
  have ch: "child_of (kidsOf ?cur) = (\<lambda>x y. \<exists>n \<in> managedNodes R t. tn_id n = y \<and> tn_parentId n = Some x)"
    by (intro ext) (rule snapshot_ranked(3) [OF assms(1)])
  have "card (tn_id ` managedNodes R t) \<le> length ?cur + length []"
    using snapshot_ranked(2) [OF assms(1)] by simp
  from descLoop_complete [OF r desc_inv_init [OF r assms(2)] this]
  obtain ds where ds: "descLoop (kidsOf ?cur) (length ?cur) (kidsOf ?cur c) [] = (ds, [])" "distinct ds"
    "set ds = {d. (child_of (kidsOf ?cur))\<^sup>+\<^sup>+ c d}" by blast
  have all: "allDescendants ?cur c = ds" by (simp only: allDescendants_def ds(1) fst_conv)
  show ?thesis
    using ds(2,3) by (simp only: all ds(1) snd_conv ch simp_thms)
qed

lemma allDescendants_complete_witness:
  "''7'' \<in> set (allDescendants (currentChrome defaultRoots [example_tree]) ''5'')"
proof -
  let ?R = "\<lambda>x y. \<exists>n \<in> managedNodes defaultRoots example_tree. tn_id n = y \<and> tn_parentId n = Some x"
  have "''5'' \<in> tn_id ` managedNodes defaultRoots example_tree"
    unfolding managedNodes_def set_map [symmetric] example_managed by simp
  note c = allDescendants_complete [OF example_tree_ok this]
  have "?R ''5'' ''7''"
    by (simp add: managedNodes_def example_tree_def defaultRoots_def CANONICAL_ROOT_IDS_def isAnyRootId_def excluded_def isVirtualRootId_def)
  then have "''7'' \<in> {d. ?R\<^sup>+\<^sup>+ ''5'' d}" by blast
  then show ?thesis using c by blast
qed

end
