(* ===== verification/Listeners_Correct.thy ===== *)
theory Listeners_Correct
  imports Listeners Reconcile_Safety
begin

text \<open>
  Correctness of Listeners.thy: a removal takes its whole subtree out of the document, a creation
  that runs alone records the bookmark below a parent the document knows, and a creation that
  overlaps another can map a folder twice.
\<close>

subsection \<open>Frames\<close>

lemma quietly_worldA [simp]: "quietly (worldA m) s = s\<lparr>ls_world := snd (m (ls_world s))\<rparr>"
  by (simp add: quietly_def worldA_def split: prod.split)

text \<open>Exporting only moves the cursor, the counter and the queue.\<close>

definition same_doc :: "'d bridge \<Rightarrow> 'd bridge \<Rightarrow> bool" where
  "same_doc b b' \<longleftrightarrow> doc b' = doc b \<and> loroToChrome b' = loroToChrome b \<and> chromeToLoro b' = chromeToLoro b
     \<and> uuids b \<le> uuids b'"

lemma same_doc_refl [simp]: "same_doc b b"
  by (simp add: same_doc_def)

lemma same_doc_trans: "same_doc b b' \<Longrightarrow> same_doc b' b'' \<Longrightarrow> same_doc b b''"
  by (simp add: same_doc_def)

lemma same_docD:
  assumes "same_doc b b'"
  shows "l2c b' = l2c b" and "c2l b' = c2l b" and "bookmarks L b' = bookmarks L b" and "mapping_ok b' = mapping_ok b"
    and "roots_unmapped R b' = roots_unmapped R b" and "chromeParentToLoro R b' = chromeParentToLoro R b"
    and "resolves R b' = resolves R b"
proof -
  show l: "l2c b' = l2c b" and c: "c2l b' = c2l b" and "bookmarks L b' = bookmarks L b"
    using assms by (simp_all add: same_doc_def l2c_def c2l_def bookmarks_def)
  show "mapping_ok b' = mapping_ok b"
    using assms l c by (simp add: mapping_ok_def id_map.inverse_maps_def same_doc_def)
  show "roots_unmapped R b' = roots_unmapped R b" by (simp add: roots_unmapped_def l c)
  show "chromeParentToLoro R b' = chromeParentToLoro R b" by (intro ext chromeParentToLoro_cong) (simp add: c)
  show "resolves R b' = resolves R b" by (simp add: fun_eq_iff resolves_def c)
qed

lemma bridge_ok_same: "bridge_ok L uuid R b \<Longrightarrow> same_doc b b' \<Longrightarrow> bridge_ok L uuid R b'"
  using same_docD [of b b'] by (auto simp: bridge_ok_def fresh_def same_doc_def)

lemma export_same: "same_doc (w_bridge w) (w_bridge (snd (exportAndEnqueueLocalChanges L E a w)))"
  by (simp add: exportAndEnqueueLocalChanges_def Let_def same_doc_def resetVersionCursor_def split: sum.split prod.split)

lemma onLocalChange_world:
  "ls_world (snd (onLocalChange L E a s)) = snd (exportAndEnqueueLocalChanges L E a (ls_world s))"
  by (cases "exportAndEnqueueLocalChanges L E a (ls_world s)"; cases "fst (exportAndEnqueueLocalChanges L E a (ls_world s))")
     (simp_all add: onLocalChange_def bindA_def worldA_def)

lemma onLocalChange_same: "same_doc (w_bridge (ls_world s)) (w_bridge (ls_world (quietly (onLocalChange L E a) s)))"
  by (simp add: quietly_def onLocalChange_world export_same)

lemma finishCreate_same:
  assumes "mapAncestors L (e_uuid E) folders topId (w_bridge (ls_world s)) = (p, b)"
  shows "same_doc (putBookmark L (e_uuid E (uuids b)) (toNode (liveNode node lp li) p)
            (link (e_uuid E (uuids b)) (tn_id node) (b\<lparr>uuids := Suc (uuids b)\<rparr>)))
          (w_bridge (ls_world (quietly (finishCreate L E a node lp li folders topId) s)))"
proof -
  let ?b2 = "putBookmark L (e_uuid E (uuids b)) (toNode (liveNode node lp li) p)
            (link (e_uuid E (uuids b)) (tn_id node) (b\<lparr>uuids := Suc (uuids b)\<rparr>))"
  let ?s = "s\<lparr>ls_world := (ls_world s)\<lparr>w_bridge := ?b2\<rparr>\<rparr>"
  obtain r w where r: "saveMappingA a (ls_world ?s) = (r, w)" by (cases "saveMappingA a (ls_world ?s)")
  have w: "w_bridge w = ?b2" using saveMappingA_frames(1) [of a "ls_world ?s"] unfolding r by simp
  show ?thesis
    using onLocalChange_same [of "?s\<lparr>ls_world := w\<rparr>" L E a] r w assms
    by (cases r) (simp_all add: finishCreate_def Let_def bindA_def worldA_def quietly_def)
qed

subsection \<open>Removal\<close>

lemma purge_ids: "purge L n b = fold (purgeOne L) (tree_ids n) b"
proof (induction n arbitrary: b)
  case (TreeNode i p ix t u cs)
  have "fold (purge L) xs b = fold (purgeOne L) (concat (map tree_ids xs)) b" if "set xs \<subseteq> set cs" for xs b
    using that TreeNode by (induction xs arbitrary: b) auto
  then show ?case by simp
qed

text \<open>Everything mapped to an id of the list is gone, on all three sides.\<close>

definition purged :: "'d loro \<Rightarrow> string set \<Rightarrow> 'd bridge \<Rightarrow> 'd bridge \<Rightarrow> bool" where
  "purged L ids b b' \<longleftrightarrow> mapping_ok b'
     \<and> (\<forall>c. c2l b' c = (if c \<in> ids then None else c2l b c))
     \<and> (\<forall>l. l2c b' l = (if (\<exists>c \<in> ids. l2c b l = Some c) then None else l2c b l))
     \<and> (\<forall>l. map_of (bookmarks L b') l = (if (\<exists>c \<in> ids. c2l b c = Some l) then None else map_of (bookmarks L b) l))"

lemma purgeOne_purged:
  assumes L: "loro_map_ok L" and m: "mapping_ok b"
  shows "purged L {c} b (purgeOne L c b)"
proof (cases "c2l b c")
  case None
  then have "l2c b l \<noteq> Some c" for l using mapping_ok_iff [OF m] by simp
  with None m show ?thesis by (simp add: purgeOne_def purged_def)
next
  case (Some l)
  then have l: "l2c b l = Some c" using mapping_ok_iff [OF m] by simp
  have t: "truthy (c2l b c)" unfolding truthy_c2l [OF m] using Some by simp
  have "mapping_ok (unlink l c b)" by (rule mapping_ok_unlink [OF m l])
  moreover have "l2c b k = Some c \<longleftrightarrow> k = l" "c2l b c = Some k \<longleftrightarrow> k = l" for k
    using l Some mapping_ok_iff [OF m, of k c] by auto
  moreover have "purgeOne L c b = dropBookmark L l (unlink l c b)" using t Some by (simp add: purgeOne_def)
  ultimately show ?thesis
    using L by (simp add: purged_def)
qed

lemma purged_trans:
  assumes "purged L A b b1" and "purged L B b1 b2"
  shows "purged L (A \<union> B) b b2"
proof -
  have c1: "c2l b1 c = (if c \<in> A then None else c2l b c)"
    and l1: "l2c b1 l = (if (\<exists>c \<in> A. l2c b l = Some c) then None else l2c b l)"
    and d1: "map_of (bookmarks L b1) l = (if (\<exists>c \<in> A. c2l b c = Some l) then None else map_of (bookmarks L b) l)" for c l
    using assms(1) unfolding purged_def by blast+
  have m2: "mapping_ok b2" and c2: "c2l b2 c = (if c \<in> B then None else c2l b1 c)"
    and l2: "l2c b2 l = (if (\<exists>c \<in> B. l2c b1 l = Some c) then None else l2c b1 l)"
    and d2: "map_of (bookmarks L b2) l = (if (\<exists>c \<in> B. c2l b1 c = Some l) then None else map_of (bookmarks L b1) l)" for c l
    using assms(2) unfolding purged_def by blast+
  have "l2c b2 l = (if (\<exists>c \<in> A \<union> B. l2c b l = Some c) then None else l2c b l)" for l
    by (cases "l2c b l") (auto simp: l2 l1)
  moreover have "map_of (bookmarks L b2) l = (if (\<exists>c \<in> A \<union> B. c2l b c = Some l) then None else map_of (bookmarks L b) l)" for l
  proof -
    have "(\<exists>c \<in> A \<union> B. c2l b c = Some l) \<longleftrightarrow> (\<exists>c \<in> A. c2l b c = Some l) \<or> (\<exists>c \<in> B. c2l b1 c = Some l)"
      by (auto simp: c1)
    then show ?thesis by (simp add: d2 d1)
  qed
  ultimately show ?thesis using m2 by (simp add: purged_def c2 c1)
qed

lemma purge_purged:
  assumes "loro_map_ok L" and "mapping_ok b"
  shows "purged L (set (tree_ids n)) b (purge L n b)"
proof -
  have "purged L (set cs) b (fold (purgeOne L) cs b)" for cs
    using assms(2)
  proof (induction cs arbitrary: b)
    case (Cons c cs)
    have one: "purged L {c} b (purgeOne L c b)" by (rule purgeOne_purged [OF assms(1) Cons.prems])
    then have "mapping_ok (purgeOne L c b)" by (simp add: purged_def)
    from purged_trans [OF one Cons.IH [OF this]] show ?case by simp
  qed (simp add: purged_def)
  then show ?thesis by (simp add: purge_ids)
qed

subsection \<open>A creation that runs alone\<close>

text \<open>The browser replies at once, until the creation is over; None when the fuel is too small.\<close>

fun runTask ::
  "'d loro \<Rightarrow> 'w chrome \<Rightarrow> roots \<Rightarrow> env \<Rightarrow> auth \<Rightarrow> nat \<Rightarrow> task \<Rightarrow> ('d, 'w) listening \<Rightarrow> ('d, 'w) listening option" where
  "runTask L A R E a 0 tk s = None"
| "runTask L A R E a (Suc fuel) tk s =
     (case resume L A R E a tk s of (None, s') \<Rightarrow> Some s' | (Some tk', s') \<Rightarrow> runTask L A R E a fuel tk' s')"

text \<open>A path of folders: below \<^verbatim>\<open>q\<close>, each the parent of the next, the last one \<^verbatim>\<open>lp\<close>.\<close>

fun chainup :: "string \<Rightarrow> tree_node list \<Rightarrow> string \<Rightarrow> bool" where
  "chainup q [] lp = (q = lp)"
| "chainup q (f # fs) lp = (tn_parentId f = Some q \<and> chainup (tn_id f) fs lp)"

lemma chainup_parents: "chainup q fs lp \<Longrightarrow> q \<in> A \<Longrightarrow> tn_parentId n = Some lp \<Longrightarrow> parents_first A (fs @ [n])"
  by (induction fs arbitrary: q A) auto

lemma addNode_at:
  "tn_parentId f = Some q \<Longrightarrow> addNode L uuid R f b =
     putBookmark L (uuid (uuids b)) (toNode f (chromeParentToLoro R b q))
       (link (uuid (uuids b)) (tn_id f) (b\<lparr>uuids := Suc (uuids b)\<rparr>))"
  by (simp add: addNode_def Let_def)

lemma mapAncestors_fold:
  assumes R: "roots_ok R" and "chainup q fs lp" and "\<forall>f \<in> set fs. \<not> isAnyRootId R (tn_id f)"
  shows "mapAncestors L uuid fs (chromeParentToLoro R b q) b =
     (chromeParentToLoro R (fold (addNode L uuid R) fs b) lp, fold (addNode L uuid R) fs b)"
  using assms(2,3)
proof (induction fs arbitrary: q b)
  case (Cons f fs)
  let ?b = "addNode L uuid R f b"
  have "map_of (nativeToCanonical R) (tn_id f) = None"
    using R Cons.prems(2) by (auto simp: roots_ok_def isAnyRootId_def)
  then have "chromeParentToLoro R ?b (tn_id f) = uuid (uuids b)"
    by (simp add: chromeParentToLoro_def c2l_addNode)
  with Cons.IH [of "tn_id f" ?b] Cons.prems show ?case
    by (simp add: addNode_at [of f q] Let_def)
qed simp

lemma ancestorsCall_known:
  assumes "bridge_ok L uuid R b"
  shows "ancestorsCall R b p = (if resolves R b p then Known (chromeParentToLoro R b p) else Ask p)"
proof -
  have m: "mapping_ok b" and u: "roots_unmapped R b" and R: "roots_ok R" using assms by (simp_all add: bridge_ok_def)
  have "c2l b p = None" if "isAnyRootId R p" using u that by (simp add: roots_unmapped_def)
  moreover have "map_of (nativeToCanonical R) p = None" if "\<not> isAnyRootId R p"
    using R that by (auto simp: roots_ok_def isAnyRootId_def)
  ultimately show ?thesis
    unfolding ancestorsCall_def truthy_c2l [OF m] resolves_def chromeParentToLoro_def
    by (cases "map_of (nativeToCanonical R) p"; cases "isAnyRootId R p") auto
qed

text \<open>What the tasks need of the browser: get returns the nodes of the tree.\<close>

definition gets :: "'w chrome \<Rightarrow> 'w \<Rightarrow> roots \<Rightarrow> tree_node \<Rightarrow> bool" where
  "gets A w R t \<longleftrightarrow> (\<forall>n \<in> managedNodes R t. ch_get A (tn_id n) w = Inr (Some n))"

lemma managed_parent:
  assumes "tree_ok R t" and "n \<in> managedNodes R t"
  obtains p where "tn_parentId n = Some p" and "\<not> isVirtualRootId R p"
    and "isAnyRootId R p \<or> (\<exists>m \<in> managedNodes R t. tn_id m = p)"
proof -
  obtain p where p: "tn_parentId n = Some p" "isAnyRootId R p \<or> p \<in> tn_id ` managedNodes R t"
    using tree_parent [OF assms] by blast
  moreover have "\<not> excluded R n" using managed_not_root assms(2) by (simp add: managedNodes_def)
  ultimately show ?thesis using that [of p] by (auto simp: excluded_def)
qed

text \<open>A rank that grows from parent to child, shared with the deletion of subtrees.\<close>

definition tree_rank :: "roots \<Rightarrow> tree_node \<Rightarrow> (string \<Rightarrow> nat) \<Rightarrow> bool" where
  "tree_rank R t rank \<longleftrightarrow> (\<forall>n \<in> managedNodes R t. \<forall>m \<in> managedNodes R t.
     tn_parentId m = Some (tn_id n) \<longrightarrow> rank (tn_id n) < rank (tn_id m))"

definition climbing ::
  "roots \<Rightarrow> tree_node \<Rightarrow> (string \<Rightarrow> nat) \<Rightarrow> 'd bridge \<Rightarrow> tree_node \<Rightarrow> string \<Rightarrow> tree_node list \<Rightarrow> bool" where
  "climbing R t rank b n q fs \<longleftrightarrow> distinct (map tn_id fs) \<and> chainup q fs (the (tn_parentId n))
     \<and> (\<forall>f \<in> set fs. f \<in> managedNodes R t \<and> c2l b (tn_id f) = None \<and> rank (tn_id f) < rank (tn_id n))
     \<and> (\<forall>m \<in> managedNodes R t. tn_id m = q \<longrightarrow> rank q < rank (tn_id n) \<and> (\<forall>f \<in> set fs. rank q < rank (tn_id f)))"

lemma climb_run:
  assumes b: "bridge_ok L (e_uuid E) R (w_bridge (ls_world s))" and t: "tree_ok R t" and g: "gets A (w_browser (ls_world s)) R t"
    and rk: "tree_rank R t rank" and "climbing R t rank (w_bridge (ls_world s)) n q fs"
    and "\<exists>m \<in> managedNodes R t. tn_id m = q" and "\<not> resolves R (w_bridge (ls_world s)) q"
    and "card (managedNodes R t) \<le> fuel + length fs"
  shows "\<exists>ns q'. runTask L A R E a fuel (Ancestors node lp li fs q) s =
        Some (quietly (finishCreate L E a node lp li ns (chromeParentToLoro R (w_bridge (ls_world s)) q')) s)
      \<and> resolves R (w_bridge (ls_world s)) q' \<and> climbing R t rank (w_bridge (ls_world s)) n q' ns"
  using assms(5-)
proof (induction fuel arbitrary: q fs)
  case 0
  obtain m where m: "m \<in> managedNodes R t" "tn_id m = q" using 0(2) by blast
  have "tn_id m \<notin> tn_id ` set fs" using 0(1) m unfolding climbing_def by auto
  then have d: "distinct (m # fs)" using 0(1) by (auto simp: climbing_def distinct_map)
  moreover have "set (m # fs) \<subseteq> managedNodes R t" using 0(1) m(1) by (auto simp: climbing_def)
  moreover have "finite (managedNodes R t)" by (simp add: managedNodes_def)
  ultimately have "length (m # fs) \<le> card (managedNodes R t)" by (metis card_mono distinct_card)
  with 0(4) show ?case by simp
next
  case (Suc fuel)
  let ?b = "w_bridge (ls_world s)"
  obtain m where m: "m \<in> managedNodes R t" "tn_id m = q" using Suc.prems(2) by blast
  obtain p where p: "tn_parentId m = Some p" "\<not> isVirtualRootId R p" "isAnyRootId R p \<or> (\<exists>k \<in> managedNodes R t. tn_id k = p)"
    by (rule managed_parent [OF t m(1)])
  have get: "ch_get A q (w_browser (ls_world s)) = Inr (Some m)" using g m by (auto simp: gets_def)
  have "c2l ?b q = None" using Suc.prems(3) by (simp add: resolves_def)
  moreover have "q \<notin> tn_id ` set fs" "rank q < rank (tn_id n)" "\<forall>f \<in> set fs. rank q < rank (tn_id f)"
    using Suc.prems(1) m unfolding climbing_def by auto
  moreover have "rank p < rank q" if "k \<in> managedNodes R t" "tn_id k = p" for k
    using rk that m p(1) unfolding tree_rank_def by blast
  ultimately have climb: "climbing R t rank ?b n p (m # fs)"
    using Suc.prems(1) m p(1) unfolding climbing_def by fastforce
  show ?case
  proof (cases "resolves R ?b p")
    case True
    then have "resume L A R E a (Ancestors node lp li fs q) s =
        (None, quietly (finishCreate L E a node lp li (m # fs) (chromeParentToLoro R ?b p)) s)"
      using get p by (simp add: resume_def Let_def ancestorsCall_known [OF b])
    with True climb show ?thesis by auto
  next
    case False
    then have "resume L A R E a (Ancestors node lp li fs q) s = (Some (Ancestors node lp li (m # fs) p), s)"
      using get p by (simp add: resume_def Let_def ancestorsCall_known [OF b])
    moreover have "\<exists>k \<in> managedNodes R t. tn_id k = p" using p(3) False by (auto simp: resolves_def)
    ultimately show ?thesis using Suc.IH [OF climb _ False] Suc.prems(4) by simp
  qed
qed

lemma tree_has_rank:
  assumes t: "tree_ok R t"
  obtains rank where "tree_rank R t rank"
proof -
  note w = tree_walk [OF t]
  have "set (allNativeRootIds R) \<inter> tn_id ` set (managedWalk R [t]) = {}"
    using w(4) unfolding isAnyRootId_def by blast
  from parents_first_rank [OF w(3,2) this] that show ?thesis
    unfolding w(1) tree_rank_def by blast
qed

lemma climb_finish:
  assumes b: "bridge_ok L (e_uuid E) R (w_bridge (ls_world s))" and t: "tree_ok R t" and n: "n \<in> managedNodes R t"
    and lp: "tn_parentId n = Some lp" and id: "tn_id node = tn_id n" and un: "c2l (w_bridge (ls_world s)) (tn_id n) = None"
    and q: "resolves R (w_bridge (ls_world s)) q" and cl: "climbing R t rank (w_bridge (ls_world s)) n q ns"
    and b': "b' = w_bridge (ls_world (quietly (finishCreate L E a node lp li ns (chromeParentToLoro R (w_bridge (ls_world s)) q)) s))"
  shows "bridge_ok L (e_uuid E) R b'" and "extends L R (w_bridge (ls_world s)) b'"
    and "recorded L R b' (liveNode node lp li)" and "resolves R b' lp"
proof -
  let ?b = "w_bridge (ls_world s)" and ?ln = "liveNode node lp li"
  let ?e = "fold (addNode L (e_uuid E) R) (ns @ [?ln]) ?b"
  note w = tree_walk [OF t]
  have ln: "tn_id ?ln = tn_id n" "tn_parentId ?ln = Some lp" by (simp_all add: liveNode_def id)
  have idok: "tn_id f \<noteq> [] \<and> \<not> isAnyRootId R (tn_id f)" if "f \<in> managedNodes R t" for f
    using w(4) that unfolding w(1) by blast
  have ns: "distinct (map tn_id ns)" "chainup q ns lp"
      "\<forall>f \<in> set ns. f \<in> managedNodes R t \<and> c2l ?b (tn_id f) = None \<and> tn_id f \<noteq> tn_id n"
    using cl lp unfolding climbing_def by auto
  have R: "roots_ok R" using b by (simp add: bridge_ok_def)
  have "\<forall>f \<in> set ns. \<not> isAnyRootId R (tn_id f)" using ns(3) idok by blast
  note mf = mapAncestors_fold [OF R ns(2) this, of L "e_uuid E" ?b]
  have sd: "same_doc ?e b'"
    using finishCreate_same [OF mf, of node lp li a] ln id unfolding b' by (simp add: addNode_at [OF ln(2)])
  have d: "distinct (map tn_id (ns @ [?ln]))" "\<forall>f \<in> set (ns @ [?ln]). c2l ?b (tn_id f) = None"
    using ns un ln by auto
  have e: "?e = fold (addMissing L (e_uuid E) R) (ns @ [?ln]) ?b" by (rule addNode_fold_missing [OF d])
  have pf: "parents_first {q} (ns @ [?ln])" by (rule chainup_parents [OF ns(2) _ ln(2)]) simp
  have res: "\<forall>p \<in> {q}. resolves R ?b p" using q by blast
  have "\<forall>f \<in> set (ns @ [?ln]). tn_id f \<noteq> [] \<and> \<not> isAnyRootId R (tn_id f)"
    using ns(3) idok n ln by auto
  from addMissing_fold [OF b pf res this] have ad: "adds L (e_uuid E) R ?b (ns @ [?ln]) ?e"
    unfolding e .
  then have "bridge_ok L (e_uuid E) R ?e" by (simp add: adds_def)
  then show "bridge_ok L (e_uuid E) R b'" by (rule bridge_ok_same [OF _ sd])
  have "extends L R ?b ?e" using ad by (simp add: adds_def)
  then show "extends L R ?b b'" unfolding extends_def same_docD [OF sd] .
  have "c2l ?e (tn_id n) \<noteq> None" using ad ln by (simp add: adds_def)
  then obtain f where f: "f \<in> set (ns @ [?ln])" "tn_id f = tn_id n" "recorded L R ?e f"
    using ad un unfolding adds_def by blast
  then have "f = ?ln" using ns(3) by auto
  with f(3) show "recorded L R b' ?ln" unfolding recorded_def same_docD [OF sd] by simp
  have "\<exists>p. tn_parentId ?ln = Some p \<and> resolves R ?e p" using ad by (simp add: adds_def)
  then show "resolves R b' lp" using ln(2) unfolding same_docD [OF sd] by simp
qed

subsection \<open>Moves\<close>

text \<open>One child: its entry moves to the folder and the position; nothing else changes.\<close>

lemma moveChild_same:
  "l2c (moveChild L p e b) = l2c b" "c2l (moveChild L p e b) = c2l b" "mapping_ok (moveChild L p e b) = mapping_ok b"
  by (cases e; cases "map_of (bookmarks L b) (the (c2l b (tn_id (snd e))))"; simp add: moveChild_def)+

lemma moveChild_doc:
  assumes L: "loro_map_ok L" and m: "mapping_ok b"
  shows "map_of (bookmarks L (moveChild L p (idx, child) b)) l =
    (if c2l b (tn_id child) = Some l
     then map_option (\<lambda>nd. nd\<lparr>bn_parentId := p, bn_index := int idx\<rparr>) (map_of (bookmarks L b) l)
     else map_of (bookmarks L b) l)"
  using truthy_c2l [OF m, of "tn_id child"] L
  by (cases "c2l b (tn_id child)"; cases "map_of (bookmarks L b) (the (c2l b (tn_id child)))")
     (auto simp: moveChild_def)

lemma moveChildren_doc:
  assumes L: "loro_map_ok L" and "mapping_ok b" and "distinct (map (\<lambda>(i, n). tn_id n) es)"
  shows "l2c (fold (moveChild L p) es b) = l2c b \<and> c2l (fold (moveChild L p) es b) = c2l b \<and> mapping_ok (fold (moveChild L p) es b)
    \<and> (\<forall>i n l. (i, n) \<in> set es \<longrightarrow> c2l b (tn_id n) = Some l \<longrightarrow>
          map_of (bookmarks L (fold (moveChild L p) es b)) l =
            map_option (\<lambda>nd. nd\<lparr>bn_parentId := p, bn_index := int i\<rparr>) (map_of (bookmarks L b) l))
    \<and> (\<forall>l. (\<forall>(i, n) \<in> set es. c2l b (tn_id n) \<noteq> Some l) \<longrightarrow>
          map_of (bookmarks L (fold (moveChild L p) es b)) l = map_of (bookmarks L b) l)"
  using assms(2,3)
proof (induction es arbitrary: b)
  case (Cons e es)
  obtain i n where e: "e = (i, n)" by (cases e)
  let ?b = "moveChild L p e b"
  have m: "mapping_ok ?b" "c2l ?b = c2l b" "l2c ?b = l2c b" using Cons.prems(1) by (simp_all add: moveChild_same)
  have d: "map_of (bookmarks L ?b) l = (if c2l b (tn_id n) = Some l
     then map_option (\<lambda>nd. nd\<lparr>bn_parentId := p, bn_index := int i\<rparr>) (map_of (bookmarks L b) l)
     else map_of (bookmarks L b) l)" for l
    unfolding e by (rule moveChild_doc [OF L Cons.prems(1)])
  have dist: "distinct (map (\<lambda>(i, n). tn_id n) es)" "\<forall>(i', n') \<in> set es. tn_id n' \<noteq> tn_id n"
    using Cons.prems(2) e by (auto simp: image_iff)
  note IH = Cons.IH [OF m(1) dist(1)]
  have in_rest: "map_of (bookmarks L (fold (moveChild L p) es ?b)) l =
      map_option (\<lambda>nd. nd\<lparr>bn_parentId := p, bn_index := int i'\<rparr>) (map_of (bookmarks L ?b) l)"
    if "(i', n') \<in> set es" "c2l b (tn_id n') = Some l" for i' n' l
    using IH that unfolding m by blast
  have off_rest: "map_of (bookmarks L (fold (moveChild L p) es ?b)) l = map_of (bookmarks L ?b) l"
    if "\<forall>(i, n) \<in> set es. c2l b (tn_id n) \<noteq> Some l" for l
    using IH that unfolding m by blast
  have other: "c2l b (tn_id n') \<noteq> Some l" if "c2l b (tn_id n) = Some l" "(i', n') \<in> set es" for i' n' l
  proof
    assume "c2l b (tn_id n') = Some l"
    with that(1) mapping_ok_iff [OF Cons.prems(1)] have "tn_id n = tn_id n'" by (metis option.inject)
    with dist(2) that(2) show False by auto
  qed
  have "map_of (bookmarks L (fold (moveChild L p) es ?b)) l =
      map_option (\<lambda>nd. nd\<lparr>bn_parentId := p, bn_index := int i'\<rparr>) (map_of (bookmarks L b) l)"
    if in': "(i', n') \<in> set (e # es)" and l: "c2l b (tn_id n') = Some l" for i' n' l
  proof (cases "(i', n') \<in> set es")
    case True
    then have "c2l b (tn_id n) \<noteq> Some l" using other l by blast
    with in_rest [OF True l] show ?thesis by (simp add: d)
  next
    case False
    then have eq: "n' = n" "i' = i" using in' e by auto
    have "\<forall>(j, k) \<in> set es. c2l b (tn_id k) \<noteq> Some l" using other l unfolding eq by blast
    from off_rest [OF this] l show ?thesis by (simp add: d eq)
  qed
  moreover have "map_of (bookmarks L (fold (moveChild L p) es ?b)) l = map_of (bookmarks L b) l"
    if "\<forall>(i, n) \<in> set (e # es). c2l b (tn_id n) \<noteq> Some l" for l
    using that off_rest [of l] d [of l] unfolding e by simp
  moreover have "l2c (fold (moveChild L p) es ?b) = l2c b" "c2l (fold (moveChild L p) es ?b) = c2l b"
    "mapping_ok (fold (moveChild L p) es ?b)"
    using IH unfolding m by blast+
  ultimately show ?case by (simp only: fold.simps o_apply) blast
qed simp

subsection \<open>A browser that answers\<close>

text \<open>get and getChildren read a fixed tree; every change is refused.\<close>

definition serving :: "roots \<Rightarrow> tree_node \<Rightarrow> unit chrome" where
  "serving R t =
     \<lparr>ch_getTree = (\<lambda>w. [t]),
      ch_get = (\<lambda>i w. case find (\<lambda>n. tn_id n = i) (managed R t) of
                   None \<Rightarrow> Inl (JsError ''no such bookmark'') | Some n \<Rightarrow> Inr (Some n)),
      ch_getChildren = (\<lambda>i w. Inr (filter (\<lambda>n. tn_parentId n = Some i) (managed R t))),
      ch_create = (\<lambda>p u t w. (Inl (JsError ''refused''), w)), ch_update = (\<lambda>i u t w. (Inl (JsError ''refused''), w)),
      ch_move = (\<lambda>i p j w. (Inl (JsError ''refused''), w)), ch_removeTree = (\<lambda>i w. (Inl (JsError ''refused''), w))\<rparr>"

lemma serving_gets: "tree_ok R t \<Longrightarrow> gets (serving R t) w R t"
proof -
  assume t: "tree_ok R t"
  then have d: "distinct (map tn_id (managed R t))" by (simp add: tree_ok_def managed_ids_distinct)
  have "find (\<lambda>m. tn_id m = tn_id n) ns = Some n" if "n \<in> set ns" "distinct (map tn_id ns)" for n ns
    using that by (induction ns) (auto simp: image_iff)
  from this [OF _ d] show ?thesis by (simp add: gets_def serving_def managedNodes_def)
qed

definition example_env :: env where
  "example_env = \<lparr>e_crypto = example_webcrypto, e_uuid = example_uuid, e_iv = (\<lambda>k. replicate 12 7), e_now = int\<rparr>"

definition example_listening :: "'d bridge \<Rightarrow> ('d, unit) listening" where
  "example_listening b =
     \<lparr>ls_world = \<lparr>w_bridge = b, w_db = emptyDb, w_browser = (), w_ignore = 0\<rparr>,
      ls_attached = True, ls_tasks = [], ls_pushPaused = False, ls_pushes = 0\<rparr>"

lemma example_listening_simps [simp]:
  "w_bridge (ls_world (example_listening b)) = b" "ls_attached (example_listening b)"
  "\<not> isIgnoring (ls_world (example_listening b))" "w_browser (ls_world (example_listening b)) = ()"
  "w_db (ls_world (example_listening b)) = emptyDb" "ls_tasks (example_listening b) = []"
  by (simp_all add: example_listening_def isIgnoring_def)

text \<open>A new folder with two bookmarks.\<close>

definition example_child :: "string \<Rightarrow> int \<Rightarrow> tree_node" where
  "example_child i k = TreeNode i (Some ''f'') (Some k) i (Some ''http://a'') []"

definition example_folder :: tree_node where
  "example_folder = TreeNode ''f'' (Some ''1'') (Some 0) ''F'' None [example_child ''x'' 0, example_child ''y'' 1]"

definition example_folder_tree :: tree_node where
  "example_folder_tree = TreeNode ''0'' None (Some 0) [] None
     [TreeNode ''1'' (Some ''0'') (Some 0) ''Bar'' None [example_folder]]"

lemma example_folder_managed:
  "managed defaultRoots example_folder_tree = [example_folder, example_child ''x'' 0, example_child ''y'' 1]"
  by (simp add: example_folder_tree_def example_folder_def example_child_def defaultRoots_def CANONICAL_ROOT_IDS_def
      isAnyRootId_def excluded_def isVirtualRootId_def)

lemma example_folder_tree_ok: "tree_ok defaultRoots example_folder_tree"
  by (simp add: tree_ok_def example_folder_tree_def example_folder_def example_child_def defaultRoots_def
      CANONICAL_ROOT_IDS_def isAnyRootId_def)

subsection \<open>Properties\<close>

text \<open>
  C15. A bookmark created while nothing else is going on is recorded under a parent the document
  knows, however deep the new folders above it: the creation is over after at most one reply per
  managed node and one for the bookmark itself; then the bookmark is mapped and its entry holds its
  title, url and live index below the translation of its live parent, which is a root or mapped;
  what was mapped or recorded before is unchanged, and the bridge keeps its invariant.
\<close>

theorem created_bookmark_is_recorded:
  assumes b: "bridge_ok L (e_uuid E) R (w_bridge (ls_world s))" and t: "tree_ok R t"
    and g: "gets A (w_browser (ls_world s)) R t" and n: "n \<in> managedNodes R t"
    and id: "tn_id node = tn_id n" and un: "c2l (w_bridge (ls_world s)) (tn_id n) = None"
    and fuel: "card (managedNodes R t) < fuel"
  shows "\<exists>s' p. runTask L A R E a fuel (Fetch node) s = Some s' \<and> tn_parentId n = Some p
    \<and> bridge_ok L (e_uuid E) R (w_bridge (ls_world s'))
    \<and> extends L R (w_bridge (ls_world s)) (w_bridge (ls_world s'))
    \<and> recorded L R (w_bridge (ls_world s')) (liveNode node p (orElse (tn_index n) (orElse (tn_index node) 0)))
    \<and> resolves R (w_bridge (ls_world s')) p"
proof -
  let ?b = "w_bridge (ls_world s)" and ?li = "orElse (tn_index n) (orElse (tn_index node) 0)"
  obtain rank where rk: "tree_rank R t rank" by (rule tree_has_rank [OF t])
  obtain k where k: "fuel = Suc k" using fuel by (cases fuel) auto
  obtain p where p: "tn_parentId n = Some p" "isAnyRootId R p \<or> (\<exists>m \<in> managedNodes R t. tn_id m = p)"
    by (rule managed_parent [OF t n])
  have get: "ch_get A (tn_id node) (w_browser (ls_world s)) = Inr (Some n)" using g n id by (simp add: gets_def)
  have base: "climbing R t rank ?b n p []"
    using rk n p(1) unfolding climbing_def tree_rank_def by auto
  obtain s' q ns where run: "runTask L A R E a fuel (Fetch node) s = Some s'"
    and s': "s' = quietly (finishCreate L E a node p ?li ns (chromeParentToLoro R ?b q)) s"
    and q: "resolves R ?b q" and cl: "climbing R t rank ?b n q ns"
  proof (cases "resolves R ?b p")
    case True
    then have "runTask L A R E a fuel (Fetch node) s = Some (quietly (finishCreate L E a node p ?li [] (chromeParentToLoro R ?b p)) s)"
      using get p un id by (simp add: k resume_def Let_def ancestorsCall_known [OF b])
    with True base show ?thesis using that by blast
  next
    case False
    have "card (managedNodes R t) \<le> k + length ([] :: tree_node list)" using fuel k by simp
    moreover have "\<exists>m \<in> managedNodes R t. tn_id m = p" using p(2) False by (auto simp: resolves_def)
    moreover have "runTask L A R E a fuel (Fetch node) s = runTask L A R E a k (Ancestors node p ?li [] p) s"
      using get p un id False by (simp add: k resume_def Let_def ancestorsCall_known [OF b])
    ultimately show ?thesis
      using climb_run [OF b t g rk base _ False, where fuel = k and a = a and node = node and li = ?li] that by auto
  qed
  from climb_finish [OF b t n p(1) id un q cl, of _ a ?li] run p(1) show ?thesis by (auto simp: s')
qed

lemma created_bookmark_is_recorded_witness:
  "\<exists>s'. runTask example_loro (serving defaultRoots example_folder_tree) defaultRoots example_env example_auth_bridge 4
       (Fetch (example_child ''x'' 0)) (example_listening (emptyBridge example_loro)) = Some s'
     \<and> c2l (w_bridge (ls_world s')) ''x'' \<noteq> None \<and> c2l (w_bridge (ls_world s')) ''f'' \<noteq> None"
proof -
  let ?t = example_folder_tree and ?n = "example_child ''x'' 0" and ?s = "example_listening (emptyBridge example_loro)"
  have b: "bridge_ok example_loro (e_uuid example_env) defaultRoots (w_bridge (ls_world ?s))"
    using example_bridge_ok by (simp add: example_env_def)
  have nodes: "managedNodes defaultRoots ?t = {example_folder, ?n, example_child ''y'' 1}"
    by (simp add: managedNodes_def example_folder_managed)
  have "card (managedNodes defaultRoots ?t) \<le> length (managed defaultRoots ?t)"
    unfolding managedNodes_def by (rule card_length)
  then have "card (managedNodes defaultRoots ?t) < 4" by (simp add: example_folder_managed)
  from created_bookmark_is_recorded [OF b example_folder_tree_ok serving_gets [OF example_folder_tree_ok] _ refl _ this,
      of ?n example_auth_bridge]
  obtain s' p where s': "runTask example_loro (serving defaultRoots ?t) defaultRoots example_env example_auth_bridge 4
        (Fetch ?n) ?s = Some s'" "tn_parentId ?n = Some p" "recorded example_loro defaultRoots (w_bridge (ls_world s')) (liveNode ?n p 0)"
      "resolves defaultRoots (w_bridge (ls_world s')) p"
    by (auto simp: nodes example_child_def)
  have p: "p = ''f''" "tn_id (liveNode ?n p 0) = ''x''" using s'(2) by (simp_all add: example_child_def liveNode_def)
  have "c2l (w_bridge (ls_world s')) ''f'' \<noteq> None"
    using s'(4) p by (simp add: resolves_def isAnyRootId_def defaultRoots_def CANONICAL_ROOT_IDS_def)
  moreover have "c2l (w_bridge (ls_world s')) ''x'' \<noteq> None"
    using s'(3) p(2) by (auto simp: recorded_def)
  ultimately show ?thesis using s'(1) by blast
qed

text \<open>
  C16. Removing a bookmark or a folder while the handlers listen takes its whole subtree out: no id
  of the subtree stays mapped, no entry of one stays in the document, every other mapping and entry
  is as before, and the two maps stay inverse.
\<close>

theorem removal_purges_subtree:
  assumes "loro_map_ok L" and "mapping_ok (w_bridge (ls_world s))" and "ls_attached s" and "\<not> isIgnoring (ls_world s)"
    and "b' = w_bridge (ls_world (dispatch L A R E a (Removed n) s))"
  shows "mapping_ok b'
    \<and> (\<forall>c. c2l b' c = (if c \<in> set (tree_ids n) then None else c2l (w_bridge (ls_world s)) c))
    \<and> (\<forall>l c. l2c (w_bridge (ls_world s)) l = Some c \<longrightarrow>
         (if c \<in> set (tree_ids n) then l2c b' l = None \<and> map_of (bookmarks L b') l = None
          else l2c b' l = Some c \<and> map_of (bookmarks L b') l = map_of (bookmarks L (w_bridge (ls_world s))) l))"
proof -
  let ?b = "w_bridge (ls_world s)"
  let ?s1 = "s\<lparr>ls_world := (ls_world s)\<lparr>w_bridge := purge L n ?b\<rparr>\<rparr>"
  have "same_doc (purge L n ?b) (w_bridge (ls_world (quietly (worldA (saveMappingA a)) ?s1)))" by simp
  from same_doc_trans [OF this onLocalChange_same [of "quietly (worldA (saveMappingA a)) ?s1" L E a]]
  have sd: "same_doc (purge L n ?b) b'"
    using assms(3-5) by (simp add: dispatch_def onRemove_def Let_def)
  have p: "purged L (set (tree_ids n)) ?b b'"
    using purge_purged [OF assms(1,2), of n] unfolding purged_def same_docD [OF sd] .
  have inv: "l2c ?b l = Some c \<longleftrightarrow> c2l ?b c = Some l" for l c using mapping_ok_iff [OF assms(2)] .
  have "if c \<in> set (tree_ids n) then l2c b' l = None \<and> map_of (bookmarks L b') l = None
          else l2c b' l = Some c \<and> map_of (bookmarks L b') l = map_of (bookmarks L ?b) l"
    if l: "l2c ?b l = Some c" for l c
  proof -
    have "(\<exists>x \<in> set (tree_ids n). l2c ?b l = Some x) \<longleftrightarrow> c \<in> set (tree_ids n)" using l by auto
    moreover have "(\<exists>x \<in> set (tree_ids n). c2l ?b x = Some l) \<longleftrightarrow> c \<in> set (tree_ids n)"
      using l unfolding inv [symmetric] by auto
    ultimately show ?thesis using p l unfolding purged_def by simp
  qed
  with p show ?thesis unfolding purged_def by blast
qed

definition example_linked :: "bookmarks bridge" where
  "example_linked = link ''lx'' ''x'' (link ''lf'' ''f''
     ((emptyBridge example_loro)\<lparr>doc :=
        [(''lf'', toNode example_folder ''1''), (''lx'', toNode (example_child ''x'' 0) ''lf'')]\<rparr>))"

lemma example_linked_ok: "mapping_ok example_linked"
  unfolding example_linked_def by (intro mapping_ok_link) simp_all

lemma removal_purges_subtree_witness:
  "c2l (w_bridge (ls_world (dispatch example_loro (serving defaultRoots example_folder_tree) defaultRoots example_env
     example_auth_bridge (Removed example_folder) (example_listening example_linked)))) ''x'' = None"
proof -
  have m: "mapping_ok (w_bridge (ls_world (example_listening example_linked)))" by (simp add: example_linked_ok)
  have "''x'' \<in> set (tree_ids example_folder)" by (simp add: example_folder_def example_child_def)
  then show ?thesis
    using removal_purges_subtree [OF example_loro_ok m _ _ refl, of "serving defaultRoots example_folder_tree" defaultRoots
        example_env example_auth_bridge example_folder] by simp
qed

text \<open>
  After a move within or between folders every child of the affected folders has its true place
  in the document: when the browser lists the children of the folders, every mapped child with an
  entry gets the folder's translated id as parent and its position as index, keeping title and url.
\<close>

theorem move_records_positions:
  assumes "loro_map_ok L" and "mapping_ok (w_bridge (ls_world s))" and "ls_attached s" and "\<not> isIgnoring (ls_world s)"
    and "ch_getChildren A p (w_browser (ls_world s)) = Inr cs" and "ch_getChildren A old (w_browser (ls_world s)) = Inr cs'"
    and "distinct (map tn_id (if old = p then cs else cs @ cs'))"
    and "b' = w_bridge (ls_world (dispatch L A R E a (Moved p old) s))"
    and "i < length cs" and "c2l (w_bridge (ls_world s)) (tn_id (cs ! i)) = Some l"
    and "map_of (bookmarks L (w_bridge (ls_world s))) l = Some nd"
  shows "map_of (bookmarks L b') l =
    Some (nd\<lparr>bn_parentId := chromeParentToLoro R (w_bridge (ls_world s)) p, bn_index := int i\<rparr>)"
proof -
  let ?w = "ls_world s"
  let ?b = "w_bridge ?w" and ?q = "chromeParentToLoro R (w_bridge ?w) p"
  let ?es = "zip [0..<length cs] cs" and ?es' = "zip [0..<length cs'] cs'"
  let ?b1 = "fold (moveChild L ?q) ?es ?b"
  let ?b2 = "fold (moveChild L (chromeParentToLoro R ?b1 old)) ?es' ?b1"
  have "map (\<lambda>(i, n). tn_id n) (zip ks xs) = map tn_id xs" if "length ks = length xs" for ks :: "nat list" and xs
    using that by (induction ks xs rule: list_induct2) simp_all
  then have zip_ids: "map (\<lambda>(i, n). tn_id n) (zip [0..<length xs] xs) = map tn_id xs" for xs by simp
  have d: "distinct (map tn_id cs)" using assms(7) by (simp split: if_splits)
  note one = moveChildren_doc [OF assms(1,2), of ?es ?q, unfolded zip_ids, OF d]
  have mem: "(i, cs ! i) \<in> set ?es" using assms(9) by (force simp: set_zip)
  have at1: "map_of (bookmarks L ?b1) l = Some (nd\<lparr>bn_parentId := ?q, bn_index := int i\<rparr>)"
    using one mem assms(10,11) by simp
  have sd: "same_doc (if old = p then ?b1 else ?b2) b'"
    using assms(3,4) onLocalChange_same [of "s\<lparr>ls_world := ?w\<lparr>w_bridge := if old = p then ?b1 else ?b2\<rparr>\<rparr>" L E a]
    unfolding assms(8)
    by (simp add: dispatch_def onMove_def quietly_def bindA_def worldA_def moveFolderChildren_def assms(5,6) Let_def
        split: if_splits)
  have "map_of (bookmarks L (if old = p then ?b1 else ?b2)) l = map_of (bookmarks L ?b1) l"
  proof (cases "old = p")
    case False
    have d': "distinct (map tn_id cs')" and dis: "set (map tn_id cs) \<inter> set (map tn_id cs') = {}"
      using assms(7) False by auto
    have m1: "mapping_ok ?b1" "c2l ?b1 = c2l ?b" using one by simp_all
    note two = moveChildren_doc [OF assms(1) m1(1), of ?es' "chromeParentToLoro R ?b1 old", unfolded zip_ids, OF d']
    have off: "map_of (bookmarks L ?b2) l = map_of (bookmarks L ?b1) l"
      if "\<forall>(j, n) \<in> set ?es'. c2l ?b1 (tn_id n) \<noteq> Some l"
      using two that by blast
    have "c2l ?b1 (tn_id n) \<noteq> Some l" if "(j, n) \<in> set ?es'" for j n
    proof
      assume "c2l ?b1 (tn_id n) = Some l"
      then have "tn_id n = tn_id (cs ! i)"
        using assms(10) mapping_ok_iff [OF assms(2)] unfolding m1(2) by (metis option.inject)
      moreover have "n \<in> set cs'" using that by (rule set_zip_rightD)
      ultimately show False using dis assms(9) by (metis disjoint_iff image_eqI nth_mem set_map)
    qed
    then have "map_of (bookmarks L ?b2) l = map_of (bookmarks L ?b1) l" by (intro off) blast
    with False show ?thesis by (simp only: if_False)
  qed simp
  with at1 show ?thesis unfolding same_docD(3) [OF sd] by simp
qed

lemma move_records_positions_witness:
  "map_of (bookmarks example_loro (w_bridge (ls_world (dispatch example_loro (serving defaultRoots example_folder_tree)
     defaultRoots example_env example_auth_bridge (Moved ''f'' ''f'') (example_listening example_linked))))) ''lx'' =
   Some ((toNode (example_child ''x'' 0) ''lf'')\<lparr>bn_parentId := ''lf'', bn_index := 0\<rparr>)"
proof -
  let ?A = "serving defaultRoots example_folder_tree" and ?s = "example_listening example_linked"
  let ?cs = "[example_child ''x'' 0, example_child ''y'' 1]"
  have m: "mapping_ok (w_bridge (ls_world ?s))" by (simp add: example_linked_ok)
  have ch: "ch_getChildren ?A ''f'' (w_browser (ls_world ?s)) = Inr ?cs"
    by (simp add: serving_def example_folder_managed) (simp add: example_folder_def example_child_def)
  have d: "distinct (map tn_id (if ''f'' = ''f'' then ?cs else ?cs @ ?cs))" by (simp add: example_child_def)
  have c: "c2l (w_bridge (ls_world ?s)) (tn_id (?cs ! 0)) = Some ''lx''"
    by (simp add: example_linked_def example_child_def)
  have l: "map_of (bookmarks example_loro (w_bridge (ls_world ?s))) ''lx'' = Some (toNode (example_child ''x'' 0) ''lf'')"
    by (simp add: example_linked_def bookmarks_def example_loro_def)
  have "chromeParentToLoro defaultRoots example_linked ''f'' = ''lf''"
    by (simp add: chromeParentToLoro_def defaultRoots_def CANONICAL_ROOT_IDS_def example_linked_def)
  then show ?thesis
    using move_records_positions [OF example_loro_ok m _ _ ch ch d refl _ c l, of defaultRoots example_env example_auth_bridge]
    by simp
qed



text \<open>Two bookmarks of an unmapped folder are created; both ask for the folder before either reply.\<close>

definition overlapped :: "(bookmarks, unit) listening" where
  "overlapped =
     (let D = dispatch example_loro (serving defaultRoots example_folder_tree) defaultRoots example_env example_auth_bridge;
          G = resumeAt example_loro (serving defaultRoots example_folder_tree) defaultRoots example_env example_auth_bridge
      in G 0 (G 0 (G 1 (G 0 (D (Created (example_child ''y'' 1)) (D (Created (example_child ''x'' 0))
           (example_listening (emptyBridge example_loro))))))))"

lemma asking_folder:
  assumes "w_browser (ls_world s) = ()" and "c2l (w_bridge (ls_world s)) ''f'' = None" and "c2l (w_bridge (ls_world s)) i = None"
    and "(i, k) \<in> {(''x'', 0), (''y'', 1)}"
  shows "resume example_loro (serving defaultRoots example_folder_tree) defaultRoots example_env a (Fetch (example_child i k)) s
     = (Some (Ancestors (example_child i k) ''f'' k [] ''f''), s)"
proof -
  let ?n = "example_child i k"
  have ids: "tn_id ?n = i" "tn_parentId ?n = Some ''f''" "tn_index ?n = Some k" by (simp_all add: example_child_def)
  have "find (\<lambda>m. tn_id m = i) [example_folder, example_child ''x'' 0, example_child ''y'' 1] = Some ?n"
    using assms(4) by (auto simp: example_folder_def example_child_def)
  then have "ch_get (serving defaultRoots example_folder_tree) i (w_browser (ls_world s)) = Inr (Some ?n)"
    by (simp add: serving_def example_folder_managed)
  moreover have "ancestorsCall defaultRoots (w_bridge (ls_world s)) ''f'' = Ask ''f''"
    using assms(2) by (simp add: ancestorsCall_def isAnyRootId_def defaultRoots_def CANONICAL_ROOT_IDS_def)
  ultimately show ?thesis using assms(3) by (simp add: resume_def Let_def ids)
qed

lemma answered_folder:
  "resume example_loro (serving defaultRoots example_folder_tree) defaultRoots example_env a (Ancestors n ''f'' k [] ''f'') s
     = (None, quietly (finishCreate example_loro example_env a n ''f'' k [example_folder] ''1'') s)"
  by (simp add: resume_def Let_def serving_def example_folder_managed)
     (simp add: example_folder_def ancestorsCall_def isAnyRootId_def defaultRoots_def CANONICAL_ROOT_IDS_def isVirtualRootId_def)

lemma finishCreate_tasks:
  fixes L :: "'d loro" and s :: "('d, 'w) listening"
  shows "ls_tasks (quietly (finishCreate L E a n lp li fs p) s) = ls_tasks s"
proof -
  have w: "ls_tasks (snd (worldA m s)) = ls_tasks s" for m :: "(('d, 'w) bworld, 'a) act" and s
    by (simp add: worldA_def split: prod.split)
  have o: "ls_tasks (snd (onLocalChange L E a s)) = ls_tasks s" for s :: "('d, 'w) listening"
    by (cases "exportAndEnqueueLocalChanges L E a (ls_world s)"; cases "fst (exportAndEnqueueLocalChanges L E a (ls_world s))")
       (simp_all add: onLocalChange_def bindA_def worldA_def)
  have "ls_tasks (snd (bindA (worldA (saveMappingA a)) (\<lambda>_. onLocalChange L E a) s)) = ls_tasks s" for s :: "('d, 'w) listening"
    using w [of "saveMappingA a" s] o by (auto simp: bindA_def split: prod.split sum.split)
  then show ?thesis
    by (simp add: quietly_def finishCreate_def Let_def split: prod.split)
qed

text \<open>The folder is mapped once more, under a new id, by each creation that has asked for it.\<close>

lemma answered_folder_links:
  assumes s': "s' = quietly (finishCreate example_loro example_env a n ''f'' k [example_folder] ''1'') s"
    and j: "j = uuids (w_bridge (ls_world s))" and n: "tn_id n \<noteq> ''f''"
  shows "l2c (w_bridge (ls_world s')) = (l2c (w_bridge (ls_world s)))(example_uuid j \<mapsto> ''f'', example_uuid (Suc j) \<mapsto> tn_id n)"
    and "map_of (bookmarks example_loro (w_bridge (ls_world s'))) (example_uuid j) = Some (toNode example_folder ''1'')"
    and "i < j \<Longrightarrow> map_of (bookmarks example_loro (w_bridge (ls_world s'))) (example_uuid i) =
        map_of (bookmarks example_loro (w_bridge (ls_world s))) (example_uuid i)"
    and "j + 2 \<le> uuids (w_bridge (ls_world s'))"
proof -
  have inj: "example_uuid i = example_uuid k \<longleftrightarrow> i = k" for i k
    using example_uuid_ok by (auto simp: uuid_stream_def inj_def)
  have f: "tn_id example_folder = ''f''" by (simp add: example_folder_def)
  let ?b = "w_bridge (ls_world s)"
  let ?b1 = "putBookmark example_loro (example_uuid j) (toNode example_folder ''1'') (link (example_uuid j) ''f'' (?b\<lparr>uuids := Suc j\<rparr>))"
  have "mapAncestors example_loro (e_uuid example_env) [example_folder] ''1'' ?b = (example_uuid j, ?b1)"
    by (simp add: Let_def example_env_def j f)
  from finishCreate_same [OF this, of n "''f''" k a] have sd: "same_doc
      (putBookmark example_loro (example_uuid (Suc j)) (toNode (liveNode n ''f'' k) (example_uuid j))
         (link (example_uuid (Suc j)) (tn_id n) (?b1\<lparr>uuids := Suc (Suc j)\<rparr>))) (w_bridge (ls_world s'))"
    by (simp add: s' example_env_def)
  note d = same_docD [OF sd]
  show "l2c (w_bridge (ls_world s')) = (l2c ?b)(example_uuid j \<mapsto> ''f'', example_uuid (Suc j) \<mapsto> tn_id n)"
    unfolding d by simp
  show "map_of (bookmarks example_loro (w_bridge (ls_world s'))) (example_uuid j) = Some (toNode example_folder ''1'')"
    unfolding d by (simp add: example_loro_ok inj)
  show "i < j \<Longrightarrow> map_of (bookmarks example_loro (w_bridge (ls_world s'))) (example_uuid i) =
        map_of (bookmarks example_loro ?b) (example_uuid i)"
    unfolding d by (simp add: example_loro_ok inj)
  show "j + 2 \<le> uuids (w_bridge (ls_world s'))"
    using sd by (simp add: same_doc_def)
qed

text \<open>
  Creations that overlap map a folder twice. When two bookmarks are created in a folder the
  document does not know (the events of one folder import, or a folder the browser never reported),
  and both handlers ask for the folder before either gets its reply, each of them adds the folder to
  the document under an id of its own: the mapping is no longer one to one and the document has two
  entries for the one folder.
\<close>

theorem overlapping_creations_duplicate_folder:
  "\<exists>l l'. l \<noteq> l' \<and> l2c (w_bridge (ls_world overlapped)) l = Some ''f'' \<and> l2c (w_bridge (ls_world overlapped)) l' = Some ''f''
     \<and> map_of (bookmarks example_loro (w_bridge (ls_world overlapped))) l = Some (toNode example_folder ''1'')
     \<and> map_of (bookmarks example_loro (w_bridge (ls_world overlapped))) l' = Some (toNode example_folder ''1'')
     \<and> \<not> mapping_ok (w_bridge (ls_world overlapped))"
proof -
  let ?x = "example_child ''x'' 0" and ?y = "example_child ''y'' 1"
  let ?G = "resumeAt example_loro (serving defaultRoots example_folder_tree) defaultRoots example_env example_auth_bridge"
  let ?s0 = "example_listening (emptyBridge example_loro)"
  let ?F = "\<lambda>n k. quietly (finishCreate example_loro example_env example_auth_bridge n ''f'' k [example_folder] ''1'')"
  have ids: "tn_id ?x = ''x''" "tn_id ?y = ''y''" by (simp_all add: example_child_def)
  define s2 where "s2 = ?s0\<lparr>ls_tasks := [Ancestors ?x ''f'' 0 [] ''f'', Ancestors ?y ''f'' 1 [] ''f'']\<rparr>"
  define s3 where "s3 = (?F ?x 0 s2)\<lparr>ls_tasks := [Ancestors ?y ''f'' 1 [] ''f'']\<rparr>"
  have "?G 1 (?G 0 (?s0\<lparr>ls_tasks := [Fetch ?x, Fetch ?y]\<rparr>)) = s2"
    by (simp add: resumeAt_def asking_folder s2_def)
  moreover have "?G 0 s2 = s3"
    by (simp add: resumeAt_def s2_def s3_def answered_folder finishCreate_tasks)
  moreover have "?G 0 s3 = (?F ?y 1 s3)\<lparr>ls_tasks := []\<rparr>"
    by (simp add: resumeAt_def s3_def answered_folder finishCreate_tasks)
  ultimately have over: "overlapped = (?F ?y 1 s3)\<lparr>ls_tasks := []\<rparr>"
    by (simp add: overlapped_def Let_def dispatch_def onCreate_def ids)
  have b2: "w_bridge (ls_world s2) = emptyBridge example_loro" by (simp add: s2_def)
  then have u2: "uuids (w_bridge (ls_world s2)) = 0" by (simp add: emptyBridge_def)
  note r3 = answered_folder_links [OF refl u2 [symmetric], where n = ?x and a = example_auth_bridge and k = 0, unfolded ids, simplified]
  have b3: "w_bridge (ls_world s3) = w_bridge (ls_world (?F ?x 0 s2))" by (simp add: s3_def)
  define j where "j = uuids (w_bridge (ls_world s3))"
  have j: "2 \<le> j" using r3(4) by (simp add: j_def b3)
  note r4 = answered_folder_links [OF refl j_def, where n = ?y and a = example_auth_bridge and k = 1, unfolded ids, simplified]
  have inj: "example_uuid i = example_uuid k \<longleftrightarrow> i = k" for i k
    using example_uuid_ok by (auto simp: uuid_stream_def inj_def)
  let ?b = "w_bridge (ls_world overlapped)"
  have l: "l2c ?b (example_uuid 0) = Some ''f''" "l2c ?b (example_uuid j) = Some ''f''"
    using j r3(1) r4(1) by (simp_all add: over b3 inj)
  moreover have "map_of (bookmarks example_loro ?b) (example_uuid 0) = Some (toNode example_folder ''1'')"
    "map_of (bookmarks example_loro ?b) (example_uuid j) = Some (toNode example_folder ''1'')"
    using j r3(2) r4(2) r4(3) [of 0] by (simp_all add: over b3)
  moreover have "example_uuid 0 \<noteq> example_uuid j" using j by (simp add: inj)
  moreover from this l have "\<not> mapping_ok ?b"
    using mapping_ok_iff [of ?b "example_uuid 0" "''f''"] mapping_ok_iff [of ?b "example_uuid j" "''f''"] by auto
  ultimately show ?thesis by blast
qed

end
