(* ===== verification/Background_Worker.thy ===== *)
theory Background_Worker
  imports Background_Invariant Listeners_Correct
begin

text \<open>
  The service worker as a transition system: a message of the popup, a job, an alarm, a callback of
  the event stream, a keyboard command, a restart of the worker or of the browser, and everything
  the outside does to the browser, the database's neighbours and the network. The session store is
  what the whole worker simulates; the gate flags are down between the steps.
\<close>

subsection \<open>Steps\<close>

definition browserClosed :: "('d, 'w, 'n) bg \<Rightarrow> ('d, 'w, 'n) bg" where
  "browserClosed s = (workerRestart s)\<lparr>g_auth := browserRestart (g_auth s)\<rparr>"

inductive bg_step :: "('d, 'w, 'n) platform \<Rightarrow> ('d, 'w, 'n) bg \<Rightarrow> ('d, 'w, 'n) bg \<Rightarrow> bool" for X where
  message: "handleMessage X arrivals msg s = Some (r, t) \<Longrightarrow> bg_step X s t"
| job: "j \<in> set (g_jobs s) \<Longrightarrow> runJob X j (s\<lparr>g_jobs := remove1 j (g_jobs s)\<rparr>) = Some (r, t) \<Longrightarrow> bg_step X s t"
| alarm: "onAlarm X a s = Some (r, t) \<Longrightarrow> bg_step X s t"
| callback: "onCallback X p c s = Some (r, t) \<Longrightarrow> bg_step X s t"
| keyboard: "onCommand X arrivals c s = Some (r, t) \<Longrightarrow> bg_step X s t"
| sw_restart: "startup X (workerRestart s) = Some (r, t) \<Longrightarrow> bg_step X s t"
| browser_restart: "startup X (browserClosed s) = Some (r, t) \<Longrightarrow> bg_step X s t"
| stream: "bg_step X s (s\<lparr>g_sse := v, g_alarms := alarms\<rparr>)"
| world: "bg_step X s (s\<lparr>g_world := w, g_net := n\<rparr>)"

inductive bg_reachable :: "('d, 'w, 'n) platform \<Rightarrow> ('d, 'w, 'n) bg \<Rightarrow> bool" for X where
  install: "g_auth s = freshAuth \<Longrightarrow> workerRestart s = s \<Longrightarrow> bg_reachable X s"
| step: "bg_reachable X s \<Longrightarrow> bg_step X s t \<Longrightarrow> bg_reachable X t"

lemma install_flags:
  assumes "workerRestart s = s"
  shows "unpaused s" "not_switching s" "not_syncing s"
  by (subst assms [symmetric], simp add: workerRestart_def unpaused_def not_switching_def not_syncing_def)+

subsection \<open>The flags after a password change and a switch\<close>

lemma keeps_weak: "(\<And>s r t. m s = Some (r, t) \<Longrightarrow> P t) \<Longrightarrow> keeps P m"
  by (simp add: keeps_def)

lemma resumeSync_unpaused: "resumeSync s = Some (r, t) \<Longrightarrow> unpaused t"
proof -
  assume r: "resumeSync s = Some (r, t)"
  let ?s = "s\<lparr>g_pushPaused := False, g_syncPaused := False\<rparr>"
  have e: "resumeSync s = (if isLoggedIn (g_auth ?s) \<and> \<not> isLocked (g_auth ?s) then startSync ?s else Some (Inr (), ?s))"
    by (simp add: resumeSync_def resumePushesP_def)
  have "unpaused ?s" by (simp add: unpaused_def)
  with r show "unpaused t"
    unfolding e by (auto split: if_splits dest: keepsD [OF unpaused_inv.starting(3)])
qed

lemma password_unpaused: "handleChangePassword X x y z s = Some (r, t) \<Longrightarrow> unpaused t"
proof -
  assume "handleChangePassword X x y z s = Some (r, t)"
  then have "finallyP (changeCredentials X x y z) resumeSync
      (s\<lparr>g_syncPaused := True, g_sse := None, g_alarms := g_alarms s - {SyncPoll, WsReconnect}\<rparr>) = Some (r, t)"
    by (simp add: handleChangePassword_def stopRealtimeSync_def)
  then show "unpaused t" by (rule finallyP_SomeE) (rule resumeSync_unpaused)
qed

lemma settled_not_switching: "switchSettled s = Some (r, t) \<Longrightarrow> not_switching t \<and> g_pendingSwitchProfileId t = None"
  by (cases "getActiveProfileId (g_auth s)") (auto simp: switchSettled_def bindP_def not_switching_def)

lemma switch_not_switching: "keeps not_switching (handleSwitchProfile X arrivals p)"
proof (rule keepsI)
  fix s r t assume p: "not_switching s" and e: "handleSwitchProfile X arrivals p s = Some (r, t)"
  show "not_switching t"
  proof (cases "isLocked (g_auth s)")
    case True
    with e p show ?thesis by (auto simp: handleSwitchProfile_def)
  next
    case False
    with e p have "finallyP (catchP (bindP (drainSwitches X arrivals p) (\<lambda>_. retP SWITCH_SUCCESS))
          (\<lambda>e. retP (SWITCH_ERROR (errorString (x_domText X) e)))) switchSettled (s\<lparr>g_switchInProgress := True\<rparr>) = Some (r, t)"
      by (simp add: handleSwitchProfile_def not_switching_def)
    then show ?thesis by (rule finallyP_SomeE) (use settled_not_switching in blast)
  qed
qed

lemma password_flags:
  "keeps not_switching (handleChangePassword X x y z)" "keeps not_syncing (handleChangePassword X x y z)"
  "keeps (session_from a0) (handleChangePassword X x y z)" "keeps unpaused (handleChangePassword X x y z)"
  by (rule switch_inv.changing_password sync_inv.changing_password session_sim.changing_password
      keeps_weak [OF password_unpaused];
      simp add: not_switching_def not_syncing_def session_from_def; fail)+

lemma switch_flags:
  "keeps not_switching (handleSwitchProfile X arrivals p)" "keeps not_syncing (handleSwitchProfile X arrivals p)"
  "keeps (session_from a0) (handleSwitchProfile X arrivals p)" "keeps unpaused (handleSwitchProfile X arrivals p)"
  by (rule switch_not_switching sync_inv.switching session_sim.switching unpaused_inv.switching;
      simp add: not_syncing_def session_from_def unpaused_def; fail)+

subsection \<open>A step keeps the invariants\<close>

lemma restart_flags:
  "unpaused (workerRestart s)" "not_switching (workerRestart s)" "not_syncing (workerRestart s)"
  "unpaused (browserClosed s)" "not_switching (browserClosed s)" "not_syncing (browserClosed s)"
  "session_from (g_auth s) (workerRestart s)" "session_from (g_auth s) (browserClosed s)"
  using step_sw [of "g_auth s"] step_browser [of "g_auth s"]
  by (auto simp: workerRestart_def browserClosed_def unpaused_def not_switching_def not_syncing_def session_from_def)

text \<open>One rule for the three flags and the session.\<close>

lemma step_keeps:
  assumes "sync_invariant P" and "\<And>x y z. keeps P (handleChangePassword X x y z)"
    and "\<And>arrivals p. keeps P (handleSwitchProfile X arrivals p)"
    and "P s \<Longrightarrow> P (workerRestart s)" and "P s \<Longrightarrow> P (browserClosed s)"
    and "bg_step X s t" and "P s"
  shows "P t"
proof -
  note worker = sync_invariant.axioms(1) [OF assms(1)] and quiet = sync_invariant.is_quiet [OF assms(1)]
  have b: "blind P" by (rule doc_invariant.blind [OF worker_doc [OF worker]])
  note unseen = doc_invariant.unseen_doc [OF worker_doc [OF worker]]
  from assms(6,7) show "P t"
  proof (cases rule: bg_step.cases)
    case (message arrivals msg r)
    with assms(7) show ?thesis by (blast intro: keepsD sync_invariant.messages [OF assms(1)] assms(2,3))
  next
    case (job j r)
    have "P (s\<lparr>g_jobs := remove1 j (g_jobs s)\<rparr>)"
      using assms(7) unseen(4) by simp
    with job show ?thesis by (blast intro: keepsD quiet_worker.jobs [OF quiet])
  next
    case (alarm a r)
    with assms(7) show ?thesis by (blast intro: keepsD quiet_worker.alarms [OF quiet])
  next
    case (callback p c r)
    with assms(7) show ?thesis by (blast intro: keepsD quiet_worker.reacting(4) [OF quiet])
  next
    case (keyboard arrivals c r)
    with assms(7) show ?thesis by (blast intro: keepsD quiet_worker.commands [OF quiet] assms(3))
  next
    case (sw_restart r)
    with assms(4) [OF assms(7)] show ?thesis by (blast intro: keepsD sync_invariant.booting [OF assms(1)])
  next
    case (browser_restart r)
    with assms(5) [OF assms(7)] show ?thesis by (blast intro: keepsD sync_invariant.booting [OF assms(1)])
  next
    case (stream v alarms)
    then show ?thesis using assms(7) unseen(1,2) by simp
  next
    case (world w n)
    then show ?thesis using assms(7) blindD(1,2) [OF b] by simp
  qed
qed

lemma session_step: "bg_step X s t \<Longrightarrow> auth_step\<^sup>*\<^sup>* (g_auth s) (g_auth t)"
proof -
  assume st: "bg_step X s t"
  have "session_from (g_auth s) t"
  proof (rule step_keeps [OF session_sim.sync_invariant_axioms password_flags(3) switch_flags(3) _ _ st])
    show "session_from (g_auth s) s" by (simp add: session_from_def)
    show "session_from (g_auth s) (workerRestart s)" "session_from (g_auth s) (browserClosed s)" by (rule restart_flags)+
  qed
  then show ?thesis by (simp add: session_from_def)
qed

lemma flags_step:
  "bg_step X s t \<Longrightarrow> unpaused s \<Longrightarrow> unpaused t"
  "bg_step X s t \<Longrightarrow> not_switching s \<Longrightarrow> not_switching t"
  "bg_step X s t \<Longrightarrow> not_syncing s \<Longrightarrow> not_syncing t"
  by (rule step_keeps [OF unpaused_inv.sync_invariant_axioms password_flags(4) switch_flags(4) restart_flags(1) restart_flags(4)]
      step_keeps [OF switch_inv.sync_invariant_axioms password_flags(1) switch_flags(1) restart_flags(2) restart_flags(5)]
      step_keeps [OF sync_inv.sync_invariant_axioms password_flags(2) switch_flags(2) restart_flags(3) restart_flags(6)]; assumption)+

lemma auth_reachable_steps: "auth_step\<^sup>*\<^sup>* a b \<Longrightarrow> auth_reachable a \<Longrightarrow> auth_reachable b"
  by (induction rule: rtranclp_induct) (auto intro: auth_reachable.step)

lemma reachable_worker:
  assumes "bg_reachable X s"
  shows "auth_reachable (g_auth s) \<and> unpaused s \<and> not_switching s \<and> not_syncing s"
  using assms
proof (induction rule: bg_reachable.induct)
  case (install s)
  then show ?case using install_flags [of s] auth_reachable.start by simp
next
  case (step s t)
  then show ?case using flags_step [OF step.hyps(2)] auth_reachable_steps [OF session_step [OF step.hyps(2)]] by blast
qed

end
