(* ===== verification/Background_Correct.thy ===== *)
theory Background_Correct
  imports Background_Worker
begin

text \<open>
  What the background promises whatever happens: the session it keeps is the session store's, its
  gates are open between the steps, a logout leaves nothing of the account behind, and a password
  change always resumes the syncs.
\<close>

subsection \<open>An example worker\<close>

text \<open>A Loro that keeps the document when it imports, one profile ``p1'', a server that has nothing.\<close>

definition keeping_loro :: "bookmarks loro" where
  "keeping_loro = example_loro\<lparr>loro_import := (\<lambda>data d. Inr d)\<rparr>"

definition example_fetch :: "unit fetch" where
  "example_fetch req n =
     (case req of
        GetPull token profileId seq \<Rightarrow> (Inr \<lparr>status = 200, body = PullJson [] None\<rparr>, n)
      | GetSnapshot token profileId \<Rightarrow> (Inr \<lparr>status = 404, body = NoJson\<rparr>, n)
      | PostLogin mail auth \<Rightarrow>
          (Inr \<lparr>status = 200, body = LoginJson ''t'' [\<lparr>pi_id = ''p2'', pi_name = ''Work''\<rparr>]
             (Some (encrypt example_webcrypto (replicate 12 7) (replicate 32 1) (replicate 32 1)))\<rparr>, n)
      | PostChangePassword token x y z \<Rightarrow> (Inr \<lparr>status = 200, body = TokenJson ''t2''\<rparr>, n)
      | _ \<Rightarrow> (Inr \<lparr>status = 200, body = NoJson\<rparr>, n))"

definition example_with :: "'d loro \<Rightarrow> 'n fetch \<Rightarrow> 'w chrome \<Rightarrow> ('d, 'w, 'n) platform" where
  "example_with L F A =
     \<lparr>x_loro = L, x_chrome = A, x_fetch = F, x_env = example_env, x_roots = defaultRoots,
      x_rootsReady = Inr (), x_newKey = (\<lambda>k. replicate 32 3), x_domText = (\<lambda>e. [])\<rparr>"

definition example_platform :: "'w chrome \<Rightarrow> (bookmarks, 'w, unit) platform" where
  "example_platform A = example_with keeping_loro example_fetch A"

definition example_profiles :: "profileInfo list" where
  "example_profiles = [\<lparr>pi_id = ''p1'', pi_name = ''Default''\<rparr>, \<lparr>pi_id = ''p2'', pi_name = ''Work''\<rparr>]"

definition example_login :: auth where
  "example_login = setSession ''t'' ''e'' (replicate 32 1) (replicate 32 1) ''k'' ''u'' example_profiles ''p1'' freshAuth"

definition fresh_with :: "'d loro \<Rightarrow> 'w \<Rightarrow> ('d, 'w, unit) bg" where
  "fresh_with L w =
     \<lparr>g_auth = freshAuth, g_world = \<lparr>w_bridge = emptyBridge L, w_db = emptyDb, w_browser = w, w_ignore = 0\<rparr>,
      g_hasDoc = False, g_attached = False, g_net = (), g_pushPaused = False, g_sse = None, g_alarms = {},
      g_icon = IconSignedout, g_jobs = [], g_outbox = [], g_lastSynced = None, g_pendingChanges = None,
      g_pendingUnlockProfileId = None, g_pendingImport = None, g_syncInProgress = False, g_syncPaused = False,
      g_switchInProgress = False, g_pendingSwitchProfileId = None, g_resyncRequested = False\<rparr>"

definition fresh_worker :: "'w \<Rightarrow> (bookmarks, 'w, unit) bg" where
  "fresh_worker w = fresh_with keeping_loro w"

definition example_worker :: "'w \<Rightarrow> (bookmarks, 'w, unit) bg" where
  "example_worker w = (fresh_worker w)\<lparr>g_auth := example_login\<rparr>"

lemmas platform_simps = example_platform_def example_with_def keeping_loro_def example_fetch_def

subsection \<open>The session behind the worker\<close>



text \<open>
  C19. Between the steps of the worker the gates are open: no sync and no switch is under way, syncs
  and pushes are not paused, however the handlers before ended; and a locked worker has no copy
  of the encryption key in memory or in either storage.
\<close>

theorem reachable_worker_is_idle:
  assumes "bg_reachable X s"
  shows "\<not> g_syncInProgress s \<and> \<not> g_syncPaused s \<and> \<not> g_switchInProgress s \<and> \<not> g_pushPaused s
    \<and> (isLocked (g_auth s) \<longrightarrow>
         getEncryptionKey (g_auth s) = Inl (JsError ''Session is locked - encryption key not available'')
         \<and> ss_encryptionKeyRaw (sstore (g_auth s)) = None \<and> ls_encryptionKeyRaw (lstore (g_auth s)) = None)"
proof -
  from reachable_worker [OF assms] have a: "auth_reachable (g_auth s)" "unpaused s" "not_switching s" "not_syncing s"
    by blast+
  from key_custody_reachable [OF a(1)] a(2-4) show ?thesis
    by (auto simp: unpaused_def not_switching_def not_syncing_def key_custody_def isLocked_def getEncryptionKey_def
        split: option.splits)
qed

lemma reachable_worker_is_idle_witness:
  "\<not> g_syncPaused (the (map_option snd (handleLock (fresh_worker ()))))"
proof -
  let ?X = "example_platform (serving defaultRoots example_folder_tree)"
  have "bg_reachable ?X (fresh_worker ())"
    by (rule bg_reachable.install)
       (simp_all add: fresh_worker_def fresh_with_def workerRestart_def swRestart_def freshAuth_def emptyBridge_def)
  moreover have "handleMessage ?X [] LOCK (fresh_worker ()) =
      Some (Inr LOCK_SUCCESS, the (map_option snd (handleLock (fresh_worker ()))))"
    by (simp add: handleLock_def stopRealtimeSync_def detachP_def setIconLocked_def setIcon_def)
  ultimately have "bg_reachable ?X (the (map_option snd (handleLock (fresh_worker ()))))"
    by (blast intro: bg_reachable.step bg_step.message)
  from reachable_worker_is_idle [OF this] show ?thesis by blast
qed

lemma clearManaged_frame:
  "w_db (snd (clearManagedBookmarks A R s)) = w_db s \<and> w_bridge (snd (clearManagedBookmarks A R s)) = w_bridge s"
proof (cases "ch_getTree A (w_browser s)")
  case Nil
  then show ?thesis by (simp add: clearManagedBookmarks_def)
next
  case (Cons root rest)
  let ?P = "\<lambda>t. w_db t = w_db s \<and> w_bridge t = w_bridge s"
  let ?rm = "\<lambda>child s. (Inr (), snd (browserA (ch_removeTree A (tn_id child)) s))"
  have one: "?P (snd (forA ?rm ns t))" if "?P t" for ns t
    by (rule forA_inv [where P = ?P]) (use that in \<open>auto simp: browserA_def split: prod.splits\<close>)
  have "?P (snd (forA (\<lambda>container. if \<not> isAnyRootId R (tn_id container) then retA () else forA ?rm (tn_children container))
      (tn_children root) s))"
    by (rule forA_inv [where P = ?P]) (use one in \<open>auto\<close>)
  with Cons show ?thesis by (simp add: clearManagedBookmarks_def)
qed

subsection \<open>Logout\<close>

lemma logout_result:
  "\<exists>r t. handleLogout X clearBookmarks s = Some (r, t)
     \<and> sess (g_auth t) = None \<and> ls_jwt (lstore (g_auth t)) = None
     \<and> ls_encryptionKeyRaw (lstore (g_auth t)) = None \<and> sstore (g_auth t) = emptySession
     \<and> deltaQueue (g_db t) = [] \<and> g_sse t = None \<and> g_alarms t \<inter> {SyncPoll, WsReconnect} = {}
     \<and> \<not> g_attached t \<and> lastVersion (g_bridge t) = None
     \<and> (if clearBookmarks then True else r = Inr LOGOUT_SUCCESS \<and> w_browser (g_world t) = w_browser (g_world s))"
proof -
  define s1 where "s1 = (putDb (clearDeltaQueue (g_db s)) (putBridge ((g_bridge s)\<lparr>lastVersion := None\<rparr>)
      (s\<lparr>g_sse := None, g_alarms := g_alarms s - {SyncPoll, WsReconnect}, g_attached := False,
         g_auth := clearSession (g_auth s)\<rparr>)))"
  have e: "handleLogout X clearBookmarks s =
      bindP (whenP clearBookmarks (clearManagedP X)) (\<lambda>_. bindP (setIcon IconSignedout) (\<lambda>_. retP LOGOUT_SUCCESS)) s1"
    by (simp add: handleLogout_def stopRealtimeSync_def detachP_def dbP_def s1_def putDb_def putBridge_def)
  have f: "sess (g_auth s1) = None" "ls_jwt (lstore (g_auth s1)) = None" "ls_encryptionKeyRaw (lstore (g_auth s1)) = None"
    "sstore (g_auth s1) = emptySession" "deltaQueue (g_db s1) = []" "g_sse s1 = None"
    "g_alarms s1 \<inter> {SyncPoll, WsReconnect} = {}" "\<not> g_attached s1" "lastVersion (g_bridge s1) = None"
    "w_browser (g_world s1) = w_browser (g_world s)"
    by (auto simp: s1_def putDb_def putBridge_def clearSession_def clearDeltaQueue_def)
  show ?thesis
  proof (cases clearBookmarks)
    case False
    then show ?thesis unfolding e using f by (simp add: setIcon_def)
  next
    case True
    obtain q w where c: "clearManagedBookmarks (x_chrome X) (x_roots X) (g_world s1) = (q, w)"
      by (cases "clearManagedBookmarks (x_chrome X) (x_roots X) (g_world s1)")
    have fr: "w_db w = g_db s1 \<and> w_bridge w = g_bridge s1"
      using clearManaged_frame [of "x_chrome X" "x_roots X" "g_world s1"] c by simp
    have "whenP clearBookmarks (clearManagedP X) s1 = Some (q, s1\<lparr>g_world := w\<rparr>)"
      using True c by (simp add: clearManagedP_def worldP_def)
    then show ?thesis
      unfolding e using f fr True by (cases q) (simp_all add: bindP_def setIcon_def)
  qed
qed


subsection \<open>Password change\<close>

text \<open>Below the handlers the session does not change, except that a push may log out.\<close>

definition same_auth :: "auth \<Rightarrow> ('d, 'w, 'n) bg \<Rightarrow> bool" where
  "same_auth a s \<longleftrightarrow> g_auth s = a"

definition same_or_out :: "auth \<Rightarrow> ('d, 'w, 'n) bg \<Rightarrow> bool" where
  "same_or_out a s \<longleftrightarrow> g_auth s = a \<or> sess (g_auth s) = None"

interpretation same: doc_invariant "same_auth a" for a
  by unfold_locales (auto simp: same_auth_def blind_def)

interpretation out: doc_invariant "same_or_out a" for a
  by unfold_locales (auto simp: same_or_out_def blind_def)

lemma pausing_session: "keeps (same_or_out a) (pausePushesP X)"
proof -
  have "keeps (same_or_out a) (handleLogout X False)"
    unfolding handleLogout_def
    by (intro keeps_intros out.tearing_down out.calls) (simp add: same_or_out_def clearSession_def)
  then have "keeps (same_or_out a) (onAuthExpired X)"
    unfolding onAuthExpired_def by (intro keeps_intros)
  then have "keeps (same_or_out a) (runJob X PushJob)"
    unfolding runJob_def orLogout_def by (simp, intro keeps_intros out.calls)
  moreover have "pausePushesP X = bindP (setP (\<lambda>s. s\<lparr>g_pushPaused := True\<rparr>)) (\<lambda>_.
     bindP (getP (\<lambda>s. length (filter (\<lambda>j. j = PushJob) (g_jobs s)))) (\<lambda>n.
     bindP (forP (\<lambda>_. runJob X PushJob) (replicate n ())) (\<lambda>_.
     setP (\<lambda>s. s\<lparr>g_jobs := filter (\<lambda>j. j \<noteq> PushJob) (g_jobs s)\<rparr>))))"
  proof -
    have *: "forP (runJob X) (filter (\<lambda>j. j = PushJob) js) =
        forP (\<lambda>_. runJob X PushJob) (replicate (length (filter (\<lambda>j. j = PushJob) js)) ())" for js
      by (induction js) auto
    show ?thesis by (rule ext) (simp add: pausePushesP_def *)
  qed
  ultimately show ?thesis
    by simp (intro keeps_intros; simp add: same_or_out_def out.unseen_doc)
qed

lemma changeCredentials_success:
  assumes "changeCredentials X x y z s = Some (Inr CHANGE_PASSWORD_SUCCESS, t)"
  shows "\<exists>u token. sess (g_auth s) = Some u \<and> sess (g_auth t) = Some (u\<lparr>jwt := token, protectedSymmetricKey := z\<rparr>)
     \<and> ls_jwt (lstore (g_auth t)) = Some token \<and> ls_protectedSymmetricKey (lstore (g_auth t)) = Some z"
proof -
  let ?m = "bindP (pausePushesP X) (\<lambda>_. bindP waitForSyncIdle (\<lambda>_. bindP (askP (\<lambda>s. getJwt (g_auth s))) (\<lambda>token.
        bindP (netP (\<lambda>_. apiChangePassword (x_fetch X) x y z token)) (\<lambda>newToken.
        bindP (authP (updateJwt newToken)) (\<lambda>_. bindP (authP (updateProtectedSymmetricKey z)) (\<lambda>_.
        retP CHANGE_PASSWORD_SUCCESS))))))"
  have "?m s = Some (Inr CHANGE_PASSWORD_SUCCESS, t)"
    using assms unfolding changeCredentials_def by (rule catchP_SomeE) (auto elim!: bindP_SomeE)
  then obtain s1 where 1: "pausePushesP X s = Some (Inr (), s1)"
    and r1: "bindP waitForSyncIdle (\<lambda>_. bindP (askP (\<lambda>s. getJwt (g_auth s))) (\<lambda>token.
        bindP (netP (\<lambda>_. apiChangePassword (x_fetch X) x y z token)) (\<lambda>newToken.
        bindP (authP (updateJwt newToken)) (\<lambda>_. bindP (authP (updateProtectedSymmetricKey z)) (\<lambda>_.
        retP CHANGE_PASSWORD_SUCCESS))))) s1 = Some (Inr CHANGE_PASSWORD_SUCCESS, t)"
    by (auto elim!: bindP_SomeE [of "pausePushesP X"])
  have so: "same_or_out (g_auth s) s1"
    by (rule keepsD [OF pausing_session 1]) (simp add: same_or_out_def)
  have "waitForSyncIdle s1 = Some (Inr (), s1)"
    using r1 by (auto simp: waitForSyncIdle_def bindP_def split: if_splits)
  with r1 obtain token s2 tok' where j: "getJwt (g_auth s1) = Inr tok'"
    and n: "netP (\<lambda>_. apiChangePassword (x_fetch X) x y z tok') s1 = Some (Inr token, s2)"
    and r2: "bindP (authP (updateJwt token)) (\<lambda>_. bindP (authP (updateProtectedSymmetricKey z)) (\<lambda>_.
        retP CHANGE_PASSWORD_SUCCESS)) s2 = Some (Inr CHANGE_PASSWORD_SUCCESS, t)"
    by (auto elim!: bindP_SomeE [of "askP _"] bindP_SomeE [of "netP _"])
  from j obtain u where u: "sess (g_auth s1) = Some u" by (auto simp: getJwt_def split: option.splits)
  with so have a: "g_auth s1 = g_auth s" by (simp add: same_or_out_def)
  from n have a2: "g_auth s2 = g_auth s1" by (auto simp: netP_def split: prod.splits)
  from r2 u a2 have "g_auth t = snd (updateProtectedSymmetricKey z (snd (updateJwt token (g_auth s1))))"
    by (auto simp: authP_def updateJwt_def updateProtectedSymmetricKey_def bindP_def retP_def)
  with u a show ?thesis by (auto simp: updateJwt_def updateProtectedSymmetricKey_def)
qed

lemma resumed:
  assumes "resumeSync s = Some (q, t)"
  shows "g_auth t = g_auth s"
    and "sess (g_auth s) = Some u \<Longrightarrow> encryptionKey u \<noteq> None \<Longrightarrow> activeProfileId u \<noteq> [] \<Longrightarrow>
      g_sse t = Some (activeProfileId u, jwt u, openEventStream)"
proof -
  let ?s = "s\<lparr>g_pushPaused := False, g_syncPaused := False\<rparr>"
  have e: "resumeSync s = (if isLoggedIn (g_auth s) \<and> \<not> isLocked (g_auth s) then startSync ?s else Some (Inr (), ?s))"
    by (simp add: resumeSync_def resumePushesP_def)
  show "g_auth t = g_auth s"
  proof (cases "isLoggedIn (g_auth s) \<and> \<not> isLocked (g_auth s)")
    case True
    with assms e have "startSync ?s = Some (q, t)" by simp
    from keepsD [OF same.starting(3) [of "g_auth s"] this] show ?thesis by (simp add: same_auth_def)
  next
    case False
    with assms e show ?thesis by auto
  qed
  assume u: "sess (g_auth s) = Some u" "encryptionKey u \<noteq> None" "activeProfileId u \<noteq> []"
  then have "isLoggedIn (g_auth s) \<and> \<not> isLocked (g_auth s)" by (simp add: isLoggedIn_def isLocked_def)
  with assms e have "startSync ?s = Some (q, t)" by simp
  with u show "g_sse t = Some (activeProfileId u, jwt u, openEventStream)"
    by (auto simp: startSync_def connectEventStream_def getActiveProfileId_def getJwt_def startPush_def postJob_def)
qed

lemma password_result:
  assumes "handleChangePassword X oldAuth newAuth newPsk s = Some (Inr CHANGE_PASSWORD_SUCCESS, t)"
  shows "\<exists>u token. sess (g_auth s) = Some u
     \<and> sess (g_auth t) = Some (u\<lparr>jwt := token, protectedSymmetricKey := newPsk\<rparr>)
     \<and> ls_jwt (lstore (g_auth t)) = Some token \<and> ls_protectedSymmetricKey (lstore (g_auth t)) = Some newPsk
     \<and> (encryptionKey u \<noteq> None \<and> activeProfileId u \<noteq> [] \<longrightarrow>
          g_sse t = Some (activeProfileId u, token, openEventStream))"
proof -
  let ?s = "s\<lparr>g_syncPaused := True, g_sse := None, g_alarms := g_alarms s - {SyncPoll, WsReconnect}\<rparr>"
  from assms have "finallyP (changeCredentials X oldAuth newAuth newPsk) resumeSync ?s = Some (Inr CHANGE_PASSWORD_SUCCESS, t)"
    by (simp add: handleChangePassword_def stopRealtimeSync_def)
  then obtain q s1 q' where c: "changeCredentials X oldAuth newAuth newPsk ?s = Some (q, s1)"
    and f: "resumeSync s1 = Some (q', t)" and "Inr CHANGE_PASSWORD_SUCCESS = (case q' of Inl e \<Rightarrow> Inl e | Inr u \<Rightarrow> q)"
    by (rule finallyP_SomeE)
  then have "q = Inr CHANGE_PASSWORD_SUCCESS" by (auto split: sum.splits)
  from changeCredentials_success [OF c [unfolded this]] obtain u token where
    "sess (g_auth s) = Some u" "sess (g_auth s1) = Some (u\<lparr>jwt := token, protectedSymmetricKey := newPsk\<rparr>)"
    "ls_jwt (lstore (g_auth s1)) = Some token" "ls_protectedSymmetricKey (lstore (g_auth s1)) = Some newPsk"
    by auto
  with resumed(1) [OF f] resumed(2) [OF f] show ?thesis by auto
qed

text \<open>
  C21. Every password change that returns, whatever failed on the way, has resumed syncs and pushes.
  If it succeeded, exactly the JWT and the protected key of the session were swapped, in memory and
  in local storage, and an unlocked session has its event stream open with the new JWT.
\<close>

theorem password_change_always_resumes:
  assumes "handleChangePassword X oldAuth newAuth newPsk s = Some (r, t)"
  shows "\<not> g_syncPaused t \<and> \<not> g_pushPaused t
    \<and> (r = Inr CHANGE_PASSWORD_SUCCESS \<longrightarrow>
        (\<exists>u token. sess (g_auth s) = Some u
           \<and> sess (g_auth t) = Some (u\<lparr>jwt := token, protectedSymmetricKey := newPsk\<rparr>)
           \<and> ls_jwt (lstore (g_auth t)) = Some token \<and> ls_protectedSymmetricKey (lstore (g_auth t)) = Some newPsk
           \<and> (encryptionKey u \<noteq> None \<and> activeProfileId u \<noteq> [] \<longrightarrow>
                g_sse t = Some (activeProfileId u, token, openEventStream))))"
  using password_unpaused [OF assms] password_result [of X oldAuth newAuth newPsk s t] assms
  by (auto simp: unpaused_def)

lemma password_change_always_resumes_witness:
  "\<exists>t. handleChangePassword (example_platform (serving defaultRoots example_folder_tree)) ''a'' ''b'' ''k2'' (example_worker ()) =
       Some (Inr CHANGE_PASSWORD_SUCCESS, t)
     \<and> \<not> g_syncPaused t \<and> \<not> g_pushPaused t \<and> g_sse t = Some (''p1'', ''t2'', openEventStream)"
proof -
  let ?X = "example_platform (serving defaultRoots example_folder_tree)"
  have "\<exists>t. handleChangePassword ?X ''a'' ''b'' ''k2'' (example_worker ()) = Some (Inr CHANGE_PASSWORD_SUCCESS, t)
      \<and> map_option jwt (sess (g_auth t)) = Some ''t2''"
    by (simp add: handleChangePassword_def stopRealtimeSync_def changeCredentials_def finallyP_def pausePushesP_def
        waitForSyncIdle_def netP_def apiChangePassword_def fetchJson_def bindA_def throwIfNotOk_def res_ok_def authP_def
        updateJwt_def updateProtectedSymmetricKey_def resumeSync_def resumePushesP_def startSync_def connectEventStream_def
        startPush_def postJob_def getActiveProfileId_def getJwt_def isLoggedIn_def isLocked_def bindP_def catchP_def
        platform_simps example_worker_def fresh_worker_def fresh_with_def example_login_def setSession_def example_profiles_def)
  then obtain t where t: "handleChangePassword ?X ''a'' ''b'' ''k2'' (example_worker ()) = Some (Inr CHANGE_PASSWORD_SUCCESS, t)"
    and j: "map_option jwt (sess (g_auth t)) = Some ''t2''" by blast
  from password_change_always_resumes [OF t] t j show ?thesis
    by (auto simp: example_worker_def example_login_def setSession_def)
qed

end
