(* ===== verification/Background_Pull.thy ===== *)
theory Background_Pull
  imports Background_Correct
begin

text \<open>
  What a pull does to the worker: the cursor and the stored snapshot, the gate that keeps reactive
  syncs apart and the catch-up, and the interleavings the gate lets through.
\<close>

subsection \<open>What a reconcile does to the database\<close>

definition keepsW :: "('s \<Rightarrow> bool) \<Rightarrow> ('s, 'a) act \<Rightarrow> bool" where
  "keepsW P m \<longleftrightarrow> (\<forall>s. P s \<longrightarrow> P (snd (m s)))"

lemma keepsW_bind: "keepsW P m \<Longrightarrow> (\<And>x. keepsW P (f x)) \<Longrightarrow> keepsW P (bindA m f)"
  by (simp add: keepsW_def bindA_def split: prod.split sum.split) (metis snd_conv)

lemma keepsW_ret: "keepsW P (retA x)"
  by (simp add: keepsW_def)

lemma keepsW_if: "keepsW P m \<Longrightarrow> keepsW P n \<Longrightarrow> keepsW P (if b then m else n)"
  by simp

lemma keepsW_for: "(\<And>x. keepsW P (m x)) \<Longrightarrow> keepsW P (forA m xs)"
  by (induction xs) (simp_all add: keepsW_ret keepsW_bind)

locale world_invariant =
  fixes P :: "('d, 'w) bworld \<Rightarrow> bool" and a :: auth
  assumes unseen: "\<And>s b. P (s\<lparr>w_bridge := b\<rparr>) = P s" "\<And>s w. P (s\<lparr>w_browser := w\<rparr>) = P s"
      "\<And>s k. P (s\<lparr>w_ignore := k\<rparr>) = P s"
    and saving: "keepsW P (saveMappingA a)"
begin

lemma browser_step: "browserA m s = (r, t) \<Longrightarrow> P s \<Longrightarrow> P t"
  by (auto simp: browserA_def unseen split: prod.splits)

lemma purging: "keepsW P (purgeStale A R current x)"
  by (cases x) (simp add: keepsW_def purgeStale_def bridgeA_def unseen)

lemma deleting: "keepsW P (deleteLoop A eff current is deleted)"
proof (induction "is" arbitrary: deleted)
  case (Cons i js)
  have "keepsW P (deleteOne A eff current i deleted)"
    by (auto simp: keepsW_def deleteOne_def Let_def unseen split: prod.split sum.split dest: browser_step)
  then show ?case by (simp add: keepsW_bind Cons.IH)
qed (simp add: keepsW_ret)

lemma creating: "keepsW P (createOne A R a x)"
proof -
  obtain l node where x: "x = (l, node)" by (cases x)
  have *: "P t \<Longrightarrow> P (snd (bindA (bridgeA f) (\<lambda>_. saveMappingA a) t))" for f t
    using saving by (simp add: keepsW_def bindA_def bridgeA_def unseen)
  show ?thesis
    unfolding keepsW_def x createOne_def
    by (auto simp: Let_def split: prod.split sum.split dest: browser_step intro: *)
qed

lemma updating: "keepsW P (updateLoop A R current deleted es byFolder)"
proof (induction es arbitrary: byFolder)
  case (Cons e es)
  have "keepsW P (updateOne A R current deleted e byFolder)"
    by (auto simp: keepsW_def updateOne_def Let_def unseen split: prod.split option.split)
  then show ?case by (simp add: keepsW_bind Cons.IH)
qed (simp add: keepsW_ret)

lemma moving: "keepsW P (moveFolder A x)"
proof -
  obtain p es where x: "x = (p, es)" by (cases x)
  show ?thesis
    unfolding x moveFolder_def Let_def prod.case
    by (intro keepsW_if keepsW_ret keepsW_for) (auto simp: keepsW_def unseen split: prod.split)
qed

lemma stepwise:
  "keepsW P (\<lambda>s2. bindA (forA (createOne A R a) (f s2)) (\<lambda>_. bindA (updateLoop A R current deleted eff []) (\<lambda>byFolder.
      forA (moveFolder A) byFolder)) s2)"
proof -
  have "keepsW P (bindA (forA (createOne A R a) xs) (\<lambda>_. bindA (updateLoop A R current deleted eff []) (\<lambda>byFolder.
      forA (moveFolder A) byFolder)))" for xs
    by (intro keepsW_bind keepsW_for creating updating moving)
  then show ?thesis by (simp add: keepsW_def)
qed

lemma body: "keepsW P (reconcileBody L A R a desired current)"
proof -
  have "keepsW P (\<lambda>s1. (let eff = dropOrphans (l2c (w_bridge s1)) desired
        in bindA (deleteLoop A eff current (map fst (objectEntries current)) {}) (\<lambda>deleted s2.
             bindA (forA (createOne A R a) (toCreate eff (w_bridge s2))) (\<lambda>_.
               bindA (updateLoop A R current deleted eff []) (\<lambda>byFolder.
                 forA (moveFolder A) byFolder)) s2) s1))"
  proof -
    have "keepsW P (bindA (deleteLoop A eff current (map fst (objectEntries current)) {}) (\<lambda>deleted s2.
             bindA (forA (createOne A R a) (toCreate eff (w_bridge s2))) (\<lambda>_.
               bindA (updateLoop A R current deleted eff []) (\<lambda>byFolder.
                 forA (moveFolder A) byFolder)) s2))" for eff
      by (intro keepsW_bind deleting stepwise)
    then show ?thesis by (simp add: keepsW_def Let_def)
  qed
  then have "keepsW P (bindA (forA (purgeStale A R current) xs) (\<lambda>_ s1. (let eff = dropOrphans (l2c (w_bridge s1)) desired
        in bindA (deleteLoop A eff current (map fst (objectEntries current)) {}) (\<lambda>deleted s2.
             bindA (forA (createOne A R a) (toCreate eff (w_bridge s2))) (\<lambda>_.
               bindA (updateLoop A R current deleted eff []) (\<lambda>byFolder.
                 forA (moveFolder A) byFolder)) s2) s1)))" for xs
    by (intro keepsW_bind keepsW_for purging)
  then show ?thesis unfolding keepsW_def reconcileBody_def by blast
qed

lemma reconciling: "keepsW P (reconcile L A R a)"
proof -
  have filtered: "keepsW P (withEchoFilter (reconcileBody L A R a desired current))" for desired current
    unfolding keepsW_def
  proof (intro allI impI)
    fix s assume "P s"
    then have "P (snd (reconcileBody L A R a desired current (s\<lparr>w_ignore := w_ignore s + 1\<rparr>)))"
      using body [unfolded keepsW_def] unseen(3) by metis
    then show "P (snd (withEchoFilter (reconcileBody L A R a desired current) s))"
      by (cases "reconcileBody L A R a desired current (s\<lparr>w_ignore := w_ignore s + 1\<rparr>)")
         (simp add: withEchoFilter_def unseen)
  qed
  have "keepsW P (bindA (withEchoFilter (reconcileBody L A R a desired current)) (\<lambda>_. saveMappingA a))" for desired current
    by (intro keepsW_bind filtered saving)
  then show ?thesis by (simp add: keepsW_def reconcile_def Let_def)
qed

end

text \<open>A reconcile writes the id mapping of the active profile, and nothing else, into the database.\<close>

definition sync_db :: "idb \<Rightarrow> ('d, 'w) bworld \<Rightarrow> bool" where
  "sync_db db w \<longleftrightarrow> loroStore (w_db w) = loroStore db \<and> deltaQueue (w_db w) = deltaQueue db
     \<and> (\<forall>p. meta (w_db w) (lastSeqKey p) = meta db (lastSeqKey p))"

interpretation sync_db: world_invariant "sync_db db" a for db a
  by unfold_locales
     (auto simp: sync_db_def keepsW_def saveMappingA_def saveMapping_def setMeta_def split: prod.splits sum.splits)

lemma reconcileP_db: "keeps (\<lambda>s. sync_db db (g_world s)) (reconcileP X)"
proof (rule keepsI)
  fix s r t assume "sync_db db (g_world s)" "reconcileP X s = Some (r, t)"
  then show "sync_db db (g_world t)"
    using sync_db.reconciling [of db "x_loro X" "x_chrome X" "x_roots X" "g_auth s", unfolded keepsW_def]
    by (auto simp: reconcileP_def withDoc_def worldP_def reconcileBookmarks_def split: sum.splits prod.splits)
qed

subsection \<open>Applying deltas\<close>

fun importAll :: "'d loro \<Rightarrow> rawDelta list \<Rightarrow> 'd \<Rightarrow> js_error + 'd" where
  "importAll L [] d = Inr d"
| "importAll L (x # xs) d = bindE (loro_import L (rawDelta.payload x) d) (importAll L xs)"

definition putDoc :: "'d \<Rightarrow> ('d, 'w, 'n) bg \<Rightarrow> ('d, 'w, 'n) bg" where
  "putDoc d s = (putBridge ((g_bridge s)\<lparr>doc := d\<rparr>) s)\<lparr>g_hasDoc := True\<rparr>"

lemma putDoc_simps [simp]:
  "g_db (putDoc d s) = g_db s" "theDoc (putDoc d s) = Some d" "g_auth (putDoc d s) = g_auth s"
  "putDoc d (putDoc d' s) = putDoc d s" "g_pushPaused (putDoc d s) = g_pushPaused s" "g_net (putDoc d s) = g_net s"
  "w_browser (g_world (putDoc d s)) = w_browser (g_world s)" "g_jobs (putDoc d s) = g_jobs s"
  by (simp_all add: putDoc_def putBridge_def theDoc_def)

lemma putDoc_same: "theDoc s = Some d \<Longrightarrow> putDoc d s = s"
  by (auto simp: putDoc_def putBridge_def theDoc_def split: if_splits)

lemma importUpdateP_simp:
  "theDoc s = Some d \<Longrightarrow> importUpdateP X data s =
     (case loro_import (x_loro X) data d of Inl e \<Rightarrow> Some (Inl e, s) | Inr d' \<Rightarrow> Some (Inr (), putDoc d' s))"
  by (auto simp: importUpdateP_def docP_def importUpdate_def loroDoc_def putDoc_def [symmetric] putDoc_same split: sum.split)

lemma importDeltas:
  assumes "theDoc s = Some d"
  shows "forP (\<lambda>x. importUpdateP X (rawDelta.payload x)) ds s =
     (case importAll (x_loro X) ds d of
        Inr d' \<Rightarrow> Some (Inr (), putDoc d' s)
      | Inl e \<Rightarrow> Some (Inl e, snd (the (forP (\<lambda>x. importUpdateP X (rawDelta.payload x)) ds s))))"
  using assms
proof (induction ds arbitrary: s d)
  case Nil
  then show ?case by (simp add: putDoc_same)
next
  case (Cons x xs)
  show ?case
  proof (cases "loro_import (x_loro X) (rawDelta.payload x) d")
    case (Inl e)
    with Cons.prems show ?thesis by (simp add: importUpdateP_simp)
  next
    case (Inr d1)
    with Cons.IH [of "putDoc d1 s" d1] Cons.prems show ?thesis
      by (cases "importAll (x_loro X) xs d1") (simp_all add: importUpdateP_simp)
  qed
qed

lemma importDeltas_db: "keeps (\<lambda>s. g_db s = db) (forP (\<lambda>x. importUpdateP X (rawDelta.payload x)) ds)"
  by (rule keeps_for, rule keepsI)
     (auto simp: importUpdateP_def docP_def putBridge_def split: prod.splits option.splits)

lemma importDeltas_None:
  "theDoc s = None \<Longrightarrow> ds \<noteq> [] \<Longrightarrow> \<exists>e. forP (\<lambda>x. importUpdateP X (rawDelta.payload x)) ds s = Some (Inl e, s)"
  by (cases ds) (auto simp: importUpdateP_def docP_def importUpdate_def loroDoc_def)

text \<open>Once every delta is imported, the snapshot and the cursor are written, however the rest ends.\<close>

lemma applyDeltas_imported:
  assumes "applyDeltas X p skip ds s = Some (r, t)" and "ds \<noteq> []" and "theDoc s = Some d"
    and "importAll (x_loro X) ds d = Inr d'"
  shows "loadSnapshot (g_db t) p = Some (loro_exportSnapshot (x_loro X) d') \<and> lastSeqOf p t = sequenceId (last ds)"
proof -
  let ?n = "sequenceId (last ds)"
  let ?db = "setMeta (lastSeqKey p) (MNum ?n) (saveSnapshot p (loro_exportSnapshot (x_loro X) d') (g_db s))"
  let ?rest = "bindP (whenP (\<not> skip) (reconcileP X)) (\<lambda>_. bindP (stampSynced X) (\<lambda>_. postJob (UploadJob p ?n)))"
  have "forP (\<lambda>x. importUpdateP X (rawDelta.payload x)) ds s = Some (Inr (), putDoc d' s)"
    using importDeltas [OF assms(3), of X ds] assms(4) by simp
  with assms(1,2) have b: "?rest (putDb ?db (putDoc d' s)) = Some (r, t)"
    by (simp add: applyDeltas_def Let_def persistSnapshot_def exportSnapshotP_def exportSnapshot_def loroDoc_def dbP_def putDb_def)
  have "keeps (\<lambda>s. sync_db ?db (g_world s)) ?rest"
    by (intro keeps_intros reconcileP_db) (auto intro!: keeps_set simp: stampSynced_def postJob_def)
  from keepsD [OF this b] have "sync_db ?db (g_world t)" by (simp add: sync_db_def putDb_def)
  then show ?thesis
    by (auto simp: sync_db_def loadSnapshot_def lastSeqOf_def getMetaNum_def getMeta_def setMeta_def saveSnapshot_def)
qed

text \<open>The two outcomes of the second half of a pull.\<close>

lemma applyDeltas_cases:
  assumes "applyDeltas X p skip ds s = Some (r, t)"
  obtains "g_db t = g_db s" "ds = [] \<or> (\<exists>e. r = Inl e)"
  | d d' where "ds \<noteq> []" "theDoc s = Some d" "importAll (x_loro X) ds d = Inr d'"
      "loadSnapshot (g_db t) p = Some (loro_exportSnapshot (x_loro X) d')" "lastSeqOf p t = sequenceId (last ds)"
proof (cases "ds = []")
  case True
  with assms have "g_db t = g_db s" by (auto simp: applyDeltas_def stampSynced_def)
  with that(1) True show thesis by blast
next
  case False
  let ?imp = "forP (\<lambda>x. importUpdateP X (rawDelta.payload x)) ds"
  let ?n = "sequenceId (last ds)"
  let ?rest = "bindP (whenP (\<not> skip) (reconcileP X)) (\<lambda>_. bindP (stampSynced X) (\<lambda>_. postJob (UploadJob p ?n)))"
  have a: "bindP ?imp (\<lambda>_. bindP (persistSnapshot X p) (\<lambda>_. bindP (dbP (setMeta (lastSeqKey p) (MNum ?n))) (\<lambda>_. ?rest))) s = Some (r, t)"
    using assms False by (simp add: applyDeltas_def Let_def)
  show thesis
  proof (cases "theDoc s")
    case None
    with importDeltas_None [OF None False, of X] obtain e where "?imp s = Some (Inl e, s)" by blast
    with a that(1) show thesis by auto
  next
    case (Some d)
    show thesis
    proof (cases "importAll (x_loro X) ds d")
      case (Inl e)
      with importDeltas [OF Some, of X ds] have i: "?imp s = Some (Inl e, snd (the (?imp s)))" by simp
      with a have "t = snd (the (?imp s))" "r = Inl e" by auto
      moreover have "g_db (snd (the (?imp s))) = g_db s"
        using keepsD [OF importDeltas_db [of "g_db s"] i] by simp
      ultimately show thesis using that(1) by auto
    next
      case (Inr d')
      with applyDeltas_imported [OF assms False Some] that(2) False Some show thesis by blast
    qed
  qed
qed

subsection \<open>The cursor and the snapshot\<close>


text \<open>A server with one delta, for the profile ``p1''.\<close>

definition delta_fetch :: "unit fetch" where
  "delta_fetch req n =
     (case req of
        GetPull token profileId seq \<Rightarrow>
          (Inr \<lparr>status = 200, body = PullJson (if profileId = ''p1''
              then [(5, encrypt example_webcrypto (replicate 12 7) (replicate 32 1) [9])] else []) None\<rparr>, n)
      | _ \<Rightarrow> example_fetch req n)"

lemma delta_pull:
  assumes "getJwt a = Inr tok" and "getEncryptionKey a = Inr (replicate 32 1)"
  shows "pullSince delta_fetch example_webcrypto a seq (Some ''p1'') n = Some (Inr [\<lparr>sequenceId = 5, payload = [9]\<rparr>], n)"
    and "p \<noteq> ''p1'' \<Longrightarrow> pullSince delta_fetch example_webcrypto a seq (Some p) n = Some (Inr [], n)"
  using assms decrypt_encrypt [OF example_webcrypto_ok(1), of "replicate 12 7" "replicate 32 1" "[9]"]
  by (simp_all add: pullSince_def pullLoop.simps [of _ _ _ _ _ _ "[]"] fetchJson_def bindA_def delta_fetch_def throwIfNotOk_def
      res_ok_def decryptEntry_def)

text \<open>A document that is the list of all bytes imported.\<close>

definition byte_loro :: "bytes loro" where
  "byte_loro =
     \<lparr>loro_new = [], loro_import = (\<lambda>data d. Inr (d @ data)), loro_exportSnapshot = id, loro_exportFrom = (\<lambda>v d. d),
      loro_version = id, loro_set = (\<lambda>i n d. d), loro_delete = (\<lambda>i d. d), loro_toJSON = (\<lambda>d. [])\<rparr>"

definition byte_platform :: "(bytes, unit, unit) platform" where
  "byte_platform = example_with byte_loro delta_fetch (serving defaultRoots example_folder_tree)"

definition byte_worker :: "(bytes, unit, unit) bg" where
  "byte_worker = (fresh_with byte_loro ())\<lparr>g_auth := example_login, g_hasDoc := True\<rparr>"

lemma example_login_simps [simp]:
  "getJwt example_login = Inr ''t''" "getEncryptionKey example_login = Inr (replicate 32 1)"
  "getActiveProfileId example_login = Inr ''p1''" "isLoggedIn example_login" "\<not> isLocked example_login"
  "getProfiles example_login = example_profiles"
  by (simp_all add: example_login_def setSession_def getJwt_def getEncryptionKey_def getActiveProfileId_def isLoggedIn_def
      isLocked_def getProfiles_def)


subsection \<open>The gate\<close>

text \<open>What a pull leaves alone: the flags, the session and what waits for the user.\<close>

definition gates_as :: "('d, 'w, 'n) bg \<Rightarrow> ('d, 'w, 'n) bg \<Rightarrow> bool" where
  "gates_as s0 s \<longleftrightarrow> g_auth s = g_auth s0 \<and> g_syncInProgress s = g_syncInProgress s0 \<and> g_syncPaused s = g_syncPaused s0
     \<and> g_switchInProgress s = g_switchInProgress s0 \<and> g_resyncRequested s = g_resyncRequested s0
     \<and> g_pendingImport s = g_pendingImport s0 \<and> g_pendingChanges s = g_pendingChanges s0"

lemma gates_blind: "blind (gates_as s0)"
  by (simp add: blind_def gates_as_def)

lemma applyDeltas_gates: "keeps (gates_as s0) (applyDeltas X p skip ds)"
proof -
  have "keeps (gates_as s0) (stampSynced X)" "keeps (gates_as s0) (postJob j)" for j
    by (auto simp: stampSynced_def postJob_def gates_as_def intro!: keeps_set)
  then show ?thesis
    unfolding applyDeltas_def Let_def
    by (intro keeps_intros keeps_blind [OF gates_blind] keeps_blind_calls [OF gates_blind])
qed

lemma inner_gates: "keeps (gates_as s0) (syncFromInner X p n skip)"
  unfolding syncFromInner_def by (intro keeps_bind keeps_blind [OF gates_blind] applyDeltas_gates)

text \<open>
  C23. No notification is lost in the gate: a reactive sync that is skipped because another one runs
  leaves a request behind, and when the running one ends -- with a result or an exception -- a
  catch-up of the active profile is started, unless the session was locked or the user is still to
  resolve something.
\<close>

theorem skipped_sync_is_caught_up:
  assumes "g_syncInProgress s" and "\<not> g_syncPaused s" and "\<not> g_switchInProgress s"
    and "getActiveProfileId (g_auth s) = Inr q" and "\<not> isLocked (g_auth s)"
    and "g_pendingImport s = None" and "g_pendingChanges s = None"
    and "finallyP (applyDeltas X p skipReconcile ds) syncDone (s\<lparr>g_resyncRequested := True\<rparr>) = Some (r, t)"
  shows "syncFrom X p' n skip' True s = Some (Inr (), s\<lparr>g_resyncRequested := True\<rparr>)
    \<and> SyncJob q \<in> set (g_jobs t) \<and> \<not> g_syncInProgress t \<and> \<not> g_resyncRequested t"
proof -
  let ?s = "s\<lparr>g_resyncRequested := True\<rparr>"
  from assms(8) obtain r1 s1 r2 where a: "applyDeltas X p skipReconcile ds ?s = Some (r1, s1)" and d: "syncDone s1 = Some (r2, t)"
    by (rule finallyP_SomeE)
  have g: "gates_as ?s s1" by (rule keepsD [OF applyDeltas_gates a]) (simp add: gates_as_def)
  have "isLoggedIn (g_auth s)"
    using assms(4) by (auto simp: isLoggedIn_def getActiveProfileId_def split: option.splits)
  with g d assms(2-7) have "t = s1\<lparr>g_syncInProgress := False, g_resyncRequested := False, g_jobs := g_jobs s1 @ [SyncJob q]\<rparr>"
    by (simp add: syncDone_def Let_def gates_as_def runCatchUpSync_def postJob_def)
  moreover have "syncFrom X p' n skip' True s = Some (Inr (), ?s)"
    using assms(1-3) by (simp add: syncFrom_def)
  ultimately show ?thesis by simp
qed

lemma skipped_sync_is_caught_up_witness:
  "\<exists>t. finallyP (applyDeltas byte_platform ''p1'' True []) syncDone (byte_worker\<lparr>g_syncInProgress := True, g_resyncRequested := True\<rparr>) =
       Some (Inr (), t) \<and> SyncJob ''p1'' \<in> set (g_jobs t) \<and> \<not> g_resyncRequested t"
proof -
  let ?s = "byte_worker\<lparr>g_syncInProgress := True\<rparr>"
  have b: "g_auth ?s = example_login" "\<not> g_syncPaused ?s" "\<not> g_switchInProgress ?s" "g_pendingImport ?s = None" "g_pendingChanges ?s = None"
    "g_syncInProgress ?s"
    by (simp_all add: byte_worker_def fresh_with_def)
  obtain t where t: "finallyP (applyDeltas byte_platform ''p1'' True []) syncDone (?s\<lparr>g_resyncRequested := True\<rparr>) = Some (Inr (), t)"
    using b by (simp add: applyDeltas_def stampSynced_def finallyP_def syncDone_def Let_def runCatchUpSync_def postJob_def)
  have "getActiveProfileId (g_auth ?s) = Inr ''p1''" "\<not> isLocked (g_auth ?s)" using b by simp_all
  from skipped_sync_is_caught_up [OF b(6) b(2,3) this b(4,5) t] t show ?thesis by simp
qed

text \<open>
  The gate does not keep syncs apart that are not exclusive: the manual sync pulls while another
  sync runs, and when it is done it lowers the flag although the other has not ended. A password
  change then no longer waits, and the next reactive sync pulls beside the one still running.
\<close>

theorem overlapping_sync_opens_the_gate:
  assumes "g_syncInProgress s" and "\<not> g_syncPaused s" and "\<not> g_switchInProgress s" and "\<not> g_resyncRequested s"
    and "syncFromInner X p n skipReconcile s = Some (r, u)"
  shows "\<exists>t. syncFrom X p n skipReconcile False s = Some (r, t) \<and> \<not> g_syncInProgress t
    \<and> waitForSyncIdle t = Some (Inr (), t)
    \<and> syncFrom X q m skip' True t = finallyP (syncFromInner X q m skip') syncDone (t\<lparr>g_syncInProgress := True\<rparr>)"
proof -
  have g: "gates_as s u" by (rule keepsD [OF inner_gates assms(5)]) (simp add: gates_as_def)
  let ?t = "u\<lparr>g_syncInProgress := False\<rparr>"
  have "s\<lparr>g_syncInProgress := True\<rparr> = s" using assms(1) by simp
  then have "syncFrom X p n skipReconcile False s = Some (r, ?t)"
    using assms(2,5) g assms(4) by (simp add: syncFrom_def finallyP_def syncDone_def Let_def gates_as_def)
  moreover have "waitForSyncIdle ?t = Some (Inr (), ?t)"
    using g assms(3) by (simp add: waitForSyncIdle_def gates_as_def)
  moreover have "syncFrom X q m skip' True ?t = finallyP (syncFromInner X q m skip') syncDone (?t\<lparr>g_syncInProgress := True\<rparr>)"
    using g assms(2,3) by (simp add: syncFrom_def gates_as_def)
  ultimately show ?thesis by (intro exI [of _ ?t]) simp
qed

lemma overlapping_sync_opens_the_gate_witness:
  "\<exists>t. syncFrom byte_platform ''p2'' 0 True False (byte_worker\<lparr>g_syncInProgress := True\<rparr>) = Some (Inr (), t)
     \<and> waitForSyncIdle t = Some (Inr (), t)"
proof -
  let ?s = "byte_worker\<lparr>g_syncInProgress := True\<rparr>"
  have b: "g_syncInProgress ?s" "\<not> g_syncPaused ?s" "\<not> g_switchInProgress ?s" "\<not> g_resyncRequested ?s"
    by (simp_all add: byte_worker_def fresh_with_def)
  have "pullSince (x_fetch byte_platform) (e_crypto (x_env byte_platform)) (g_auth ?s) 0 (Some ''p2'') (g_net ?s) = Some (Inr [], ())"
    using delta_pull(2) [of example_login "''t''" "''p2''" 0 "()"]
    by (simp add: byte_platform_def byte_worker_def example_with_def example_env_def)
  then obtain u where "syncFromInner byte_platform ''p2'' 0 True ?s = Some (Inr (), u)"
    by (simp add: syncFromInner_def bindP_def pullP_def applyDeltas_def stampSynced_def)
  from overlapping_sync_opens_the_gate [OF b this] show ?thesis by blast
qed

end
