(* ===== verification/Background_Switch.thy ===== *)
theory Background_Switch
  imports Background_Pull
begin

text \<open>
  Profile switches: the drain loop ends on the last request, a failed round drops the queue, and a
  pull that is under way when the profile changes writes the wrong document. First, that a
  reconcile never throws while somebody is logged in.
\<close>

subsection \<open>A reconcile returns\<close>

definition returnsW :: "('s, 'a) act \<Rightarrow> bool" where
  "returnsW m \<longleftrightarrow> (\<forall>s. \<exists>x t. m s = (Inr x, t))"

lemma returnsW_bind: "returnsW m \<Longrightarrow> (\<And>x. returnsW (f x)) \<Longrightarrow> returnsW (bindA m f)"
  unfolding returnsW_def
proof
  fix s assume m: "\<forall>s. \<exists>x t. m s = (Inr x, t)" and f: "\<And>x. \<forall>s. \<exists>y t. f x s = (Inr y, t)"
  from m obtain x u where "m s = (Inr x, u)" by blast
  moreover from f obtain y t where "f x u = (Inr y, t)" by blast
  ultimately show "\<exists>y t. bindA m f s = (Inr y, t)" by simp
qed

text \<open>An action that depends on the state it starts in.\<close>

lemma returnsW_dep: "(\<And>y. returnsW (m y)) \<Longrightarrow> returnsW (\<lambda>s. m (h s) s)"
  by (simp add: returnsW_def)

lemma returnsW_for: "(\<And>x. returnsW (m x)) \<Longrightarrow> returnsW (forA m xs)"
proof (induction xs)
  case Nil
  then show ?case by (simp add: returnsW_def)
next
  case (Cons x xs)
  have "returnsW (bindA (m x) (\<lambda>_. forA m xs))" by (intro returnsW_bind Cons)
  then show ?case by simp
qed

lemma returnsW_if: "returnsW m \<Longrightarrow> returnsW n \<Longrightarrow> returnsW (if b then m else n)"
  by simp

lemma reconcile_steps_return:
  "returnsW (purgeStale A R current x)" "returnsW (deleteLoop A eff current cs deleted)"
  "returnsW (updateLoop A R current deleted es byFolder)" "returnsW (moveFolder A y)"
proof -
  show "returnsW (purgeStale A R current x)"
    by (cases x) (simp add: returnsW_def purgeStale_def bridgeA_def)
  show "returnsW (deleteLoop A eff current cs deleted)"
    unfolding returnsW_def using deleteLoop_returns [of A eff current cs deleted] by (metis fst_conv surj_pair)
  show "returnsW (updateLoop A R current deleted es byFolder)"
  proof (induction es arbitrary: byFolder)
    case (Cons e es)
    show ?case
      unfolding updateLoop.simps
      by (rule returnsW_bind [OF _ Cons.IH])
         (cases e, auto simp: returnsW_def updateOne_def Let_def split: option.split)
  qed (simp add: returnsW_def)
  obtain p fs where y: "y = (p, fs)" by (cases y)
  show "returnsW (moveFolder A y)"
    unfolding y moveFolder_def Let_def prod.case
    by (intro returnsW_if returnsW_for) (auto simp: returnsW_def split: prod.split)
qed

lemma createOne_returns: "getActiveProfileId a = Inr p \<Longrightarrow> returnsW (createOne A R a x)"
  by (cases x)
     (auto simp: returnsW_def createOne_def Let_def bindA_def bridgeA_def saveMappingA_def saveMapping_def
        split: prod.split sum.split)

lemma reconcile_returns:
  assumes "getActiveProfileId a = Inr p"
  shows "\<exists>t. reconcile L A R a s = (Inr (), t)"
proof -
  have tail: "returnsW (bindA (forA (createOne A R a) xs) (\<lambda>_. bindA (updateLoop A R current deleted eff []) (\<lambda>byFolder.
      forA (moveFolder A) byFolder)))" for xs current deleted eff
    by (intro returnsW_bind returnsW_for createOne_returns [OF assms] reconcile_steps_return)
  have mid: "returnsW (bindA (deleteLoop A eff current cs {}) (\<lambda>deleted s2.
             bindA (forA (createOne A R a) (toCreate eff (w_bridge s2))) (\<lambda>_.
               bindA (updateLoop A R current deleted eff []) (\<lambda>byFolder. forA (moveFolder A) byFolder)) s2))" for eff current cs
    by (rule returnsW_bind [OF reconcile_steps_return(2)], rule returnsW_dep, rule tail)
  have "returnsW (bindA (forA (purgeStale A R current) xs) (\<lambda>_ s1.
       (let eff = dropOrphans (l2c (w_bridge s1)) desired
        in bindA (deleteLoop A eff current (map fst (objectEntries current)) {}) (\<lambda>deleted s2.
             bindA (forA (createOne A R a) (toCreate eff (w_bridge s2))) (\<lambda>_.
               bindA (updateLoop A R current deleted eff []) (\<lambda>byFolder.
                 forA (moveFolder A) byFolder)) s2) s1)))" for xs current desired
    unfolding Let_def
    by (rule returnsW_bind [OF returnsW_for [OF reconcile_steps_return(1)]], rule returnsW_dep, rule mid)
  then have body: "\<exists>x t. reconcileBody L A R a desired current s = (Inr x, t)" for desired current s
    unfolding returnsW_def reconcileBody_def by blast
  obtain t where "withEchoFilter (reconcileBody L A R a (bookmarks L (w_bridge s))
      (currentChrome R (ch_getTree A (w_browser s)))) s = (Inr (), t)"
    using body [of "bookmarks L (w_bridge s)" "currentChrome R (ch_getTree A (w_browser s))" "s\<lparr>w_ignore := w_ignore s + 1\<rparr>"]
    by (auto simp: withEchoFilter_def)
  then show ?thesis
    using assms by (simp add: reconcile_def Let_def bindA_def saveMappingA_def saveMapping_def)
qed

lemma reconcileP_returns:
  assumes "getActiveProfileId (g_auth s) = Inr p" and "theDoc s = Some d"
  shows "\<exists>w. reconcileP X s = Some (Inr (), s\<lparr>g_world := w\<rparr>)"
proof -
  obtain w where "reconcile (x_loro X) (x_chrome X) (x_roots X) (g_auth s) (g_world s) = (Inr (), w)"
    using reconcile_returns [OF assms(1)] by blast
  then show ?thesis
    using assms(2) by (intro exI [of _ w]) (simp add: reconcileP_def withDoc_def loroDoc_def worldP_def reconcileBookmarks_def)
qed

subsection \<open>One round\<close>

text \<open>What the document work of a round leaves alone.\<close>

definition switch_as :: "('d, 'w, 'n) bg \<Rightarrow> ('d, 'w, 'n) bg \<Rightarrow> bool" where
  "switch_as s0 s \<longleftrightarrow> g_auth s = g_auth s0 \<and> g_pendingSwitchProfileId s = g_pendingSwitchProfileId s0
     \<and> g_syncPaused s = g_syncPaused s0 \<and> g_outbox s = g_outbox s0"

interpretation round: doc_invariant "switch_as s0" for s0
  by unfold_locales (auto simp: switch_as_def blind_def)

lemma round_initializing: "keeps (switch_as s0) (initializeDocs X p merge check)"
proof (rule round.initializing_if)
  show "keeps (switch_as s0) (syncFrom X p n skip exclusive)" for X p n skip exclusive
    by (rule round.syncFrom_keeps) (simp add: switch_as_def)
qed

lemma switchRound_result:
  assumes "switchRound X p s = Some (Inr (), t)"
  shows "getActiveProfileId (g_auth t) = Inr p \<and> g_pendingSwitchProfileId t = None \<and> g_syncPaused t = g_syncPaused s
    \<and> (\<not> g_syncPaused s \<and> p \<noteq> [] \<longrightarrow> (\<exists>tok. g_sse t = Some (p, tok, openEventStream)))"
proof -
  let ?s = "(putBridge ((g_bridge s)\<lparr>lastVersion := None\<rparr>)
      (s\<lparr>g_pendingSwitchProfileId := None, g_sse := None, g_alarms := g_alarms s - {SyncPoll, WsReconnect}\<rparr>))\<lparr>g_attached := False\<rparr>"
  from assms have "bindP (authP (switchProfile p)) (\<lambda>_. bindP (initializeDocs X p False False) (\<lambda>_. startSync)) ?s = Some (Inr (), t)"
    by (simp add: switchRound_def stopRealtimeSync_def detachP_def putBridge_def)
  then obtain s1 s2 x where a: "authP (switchProfile p) ?s = Some (Inr (), s1)"
    and i: "initializeDocs X p False False s1 = Some (Inr x, s2)" and st: "startSync s2 = Some (Inr (), t)"
    by (auto elim!: bindP_SomeE)
  from a have s1: "s1 = ?s\<lparr>g_auth := g_auth s1\<rparr>" "switchProfile p (g_auth s) = (Inr (), g_auth s1)"
    by (auto simp: authP_def putBridge_def split: prod.splits)
  with switchProfile_ok [OF s1(2)] have act: "getActiveProfileId (g_auth s1) = Inr p" by blast
  have "switch_as s1 s2" by (rule keepsD [OF round_initializing i]) (simp add: switch_as_def)
  then have 2: "g_auth s2 = g_auth s1" "g_pendingSwitchProfileId s2 = g_pendingSwitchProfileId s1" "g_syncPaused s2 = g_syncPaused s1"
    by (simp_all add: switch_as_def)
  have "switch_as s2 t" by (rule keepsD [OF round.starting(3) st]) (simp add: switch_as_def)
  then have 3: "g_auth t = g_auth s1" "g_pendingSwitchProfileId t = g_pendingSwitchProfileId s1" "g_syncPaused t = g_syncPaused s1"
    using 2 by (simp_all add: switch_as_def)
  have 4: "g_pendingSwitchProfileId s1 = None" "g_syncPaused s1 = g_syncPaused s"
    by (subst s1(1), simp add: putBridge_def)+
  have "\<exists>tok. g_sse t = Some (p, tok, openEventStream)" if "\<not> g_syncPaused s" "p \<noteq> []"
  proof -
    obtain tok where "getJwt (g_auth s1) = Inr tok"
      using act by (auto simp: getJwt_def getActiveProfileId_def split: option.splits)
    with st that act 2 4 show ?thesis
      by (cases "g_pushPaused s2") (auto simp: startSync_def connectEventStream_def startPush_def postJob_def)
  qed
  with act 3 4 show ?thesis by simp
qed

subsection \<open>The drain loop\<close>

text \<open>The profile the loop has to end on: the last request of the last round that had one.\<close>

fun lastTarget :: "string list list \<Rightarrow> string \<Rightarrow> string" where
  "lastTarget [] p = p"
| "lastTarget (arrived # later) p = (if arrived = [] then p else lastTarget later (last arrived))"

lemma queue_arrivals:
  "forP (\<lambda>p. bindP (queueSwitch p) (\<lambda>_. retP ())) arrived s =
     Some (Inr (), if arrived = [] then s else s\<lparr>g_pendingSwitchProfileId := Some (last arrived)\<rparr>)"
  by (induction arrived arbitrary: s) (simp_all add: queueSwitch_def)

lemma drain_result:
  assumes "drainSwitches X arrivals p s = Some (Inr (), t)"
  shows "getActiveProfileId (g_auth t) = Inr (lastTarget arrivals p)
    \<and> (\<not> g_syncPaused s \<and> lastTarget arrivals p \<noteq> [] \<longrightarrow> (\<exists>tok. g_sse t = Some (lastTarget arrivals p, tok, openEventStream)))"
  using assms
proof (induction X arrivals p arbitrary: s rule: drainSwitches.induct)
  case (1 X p)
  then show ?case using switchRound_result [of X p s t] by simp
next
  case (2 X arrived later p)
  from "2.prems" obtain s1 where r: "switchRound X p s = Some (Inr (), s1)"
    and rest: "bindP (forP (\<lambda>p. bindP (queueSwitch p) (\<lambda>_. retP ())) arrived) (\<lambda>_.
       bindP (getP g_pendingSwitchProfileId) (\<lambda>pending.
       case pending of None \<Rightarrow> retP () | Some nextId \<Rightarrow> drainSwitches X later nextId)) s1 = Some (Inr (), t)"
    by (auto elim!: bindP_SomeE [of "switchRound X p"])
  note res = switchRound_result [OF r]
  show ?case
  proof (cases "arrived = []")
    case True
    with rest res have "t = s1" by (simp add: queue_arrivals)
    with res True show ?thesis by simp
  next
    case False
    let ?s = "s1\<lparr>g_pendingSwitchProfileId := Some (last arrived)\<rparr>"
    from rest False have "drainSwitches X later (last arrived) ?s = Some (Inr (), t)" by (simp add: queue_arrivals)
    from "2.IH" [OF this] res False show ?thesis by simp
  qed
qed

lemma switch_succeeds:
  assumes "\<not> g_switchInProgress s" and "handleSwitchProfile X arrivals p s = Some (Inr SWITCH_SUCCESS, t)"
  shows "getActiveProfileId (g_auth t) = Inr (lastTarget arrivals p)
    \<and> \<not> g_switchInProgress t \<and> g_pendingSwitchProfileId t = None
    \<and> (\<exists>before. g_outbox t = before @ [SWITCH_SETTLED (lastTarget arrivals p)])
    \<and> (\<not> g_syncPaused s \<and> lastTarget arrivals p \<noteq> [] \<longrightarrow> (\<exists>tok. g_sse t = Some (lastTarget arrivals p, tok, openEventStream)))"
proof -
  let ?s = "s\<lparr>g_switchInProgress := True\<rparr>"
  have "\<not> isLocked (g_auth s)" using assms(2) by (auto simp: handleSwitchProfile_def split: if_splits)
  with assms have "finallyP (catchP (bindP (drainSwitches X arrivals p) (\<lambda>_. retP SWITCH_SUCCESS))
      (\<lambda>e. retP (SWITCH_ERROR (errorString (x_domText X) e)))) switchSettled ?s = Some (Inr SWITCH_SUCCESS, t)"
    by (simp add: handleSwitchProfile_def)
  then obtain q s1 q' where c: "catchP (bindP (drainSwitches X arrivals p) (\<lambda>_. retP SWITCH_SUCCESS))
      (\<lambda>e. retP (SWITCH_ERROR (errorString (x_domText X) e))) ?s = Some (q, s1)"
    and f: "switchSettled s1 = Some (q', t)" and r: "Inr SWITCH_SUCCESS = (case q' of Inl e \<Rightarrow> Inl e | Inr u \<Rightarrow> q)"
    by (rule finallyP_SomeE)
  from r have q: "q = Inr SWITCH_SUCCESS" by (auto split: sum.splits)
  have "bindP (drainSwitches X arrivals p) (\<lambda>_. retP SWITCH_SUCCESS) ?s = Some (Inr SWITCH_SUCCESS, s1)"
    using c [unfolded q] by (rule catchP_SomeE) auto
  then have d: "drainSwitches X arrivals p ?s = Some (Inr (), s1)"
    by (auto elim!: bindP_SomeE [of "drainSwitches X arrivals p"])
  note res = drain_result [OF d]
  from f res have "t = s1\<lparr>g_switchInProgress := False, g_pendingSwitchProfileId := None,
      g_outbox := g_outbox s1 @ [SWITCH_SETTLED (lastTarget arrivals p)]\<rparr>"
    by (simp add: switchSettled_def)
  with res show ?thesis by auto
qed

text \<open>
  C24. A profile switch that succeeds ends on the last request, whatever requests arrived while it
  ran: the session is on that profile, its event stream is open, no switch is under way or queued,
  and the popup is told that the switch has settled on it.
\<close>

theorem switch_ends_on_last_request:
  assumes "\<not> g_switchInProgress s" and "handleSwitchProfile X arrivals p s = Some (Inr SWITCH_SUCCESS, t)"
  shows "getActiveProfileId (g_auth t) = Inr (lastTarget arrivals p)
    \<and> \<not> g_switchInProgress t \<and> g_pendingSwitchProfileId t = None
    \<and> (\<exists>before. g_outbox t = before @ [SWITCH_SETTLED (lastTarget arrivals p)])
    \<and> (\<not> g_syncPaused s \<and> lastTarget arrivals p \<noteq> [] \<longrightarrow> (\<exists>tok. g_sse t = Some (lastTarget arrivals p, tok, openEventStream)))"
  by (rule switch_succeeds [OF assms])

text \<open>
  A round that throws drops everything that was queued meanwhile, although each of those requests
  was answered with success: the switch answers with an error and no further profile is tried. When
  nobody is logged in the handler throws in its \<^verbatim>\<open>finally\<close> and the popup gets no reply at all.
\<close>

theorem failed_switch_drops_requests:
  assumes "\<not> isLocked (g_auth s)" and "\<not> g_switchInProgress s"
    and "switchRound X p (s\<lparr>g_switchInProgress := True\<rparr>) = Some (Inl e, u)"
    and "g_switchInProgress during" and "\<not> isLocked (g_auth during)"
  shows "handleSwitchProfile X arrivals p s =
      (case getActiveProfileId (g_auth u) of
         Inr a \<Rightarrow> Some (Inr (SWITCH_ERROR (errorString (x_domText X) e)),
            u\<lparr>g_switchInProgress := False, g_pendingSwitchProfileId := None, g_outbox := g_outbox u @ [SWITCH_SETTLED a]\<rparr>)
       | Inl e' \<Rightarrow> Some (Inl e', u\<lparr>g_switchInProgress := False, g_pendingSwitchProfileId := None\<rparr>))
    \<and> handleSwitchProfile X later q during = Some (Inr SWITCH_SUCCESS, during\<lparr>g_pendingSwitchProfileId := Some q\<rparr>)"
proof
  have "drainSwitches X arrivals p (s\<lparr>g_switchInProgress := True\<rparr>) = Some (Inl e, u)"
    by (cases arrivals) (use assms(3) in simp_all)
  then show "handleSwitchProfile X arrivals p s =
      (case getActiveProfileId (g_auth u) of
         Inr a \<Rightarrow> Some (Inr (SWITCH_ERROR (errorString (x_domText X) e)),
            u\<lparr>g_switchInProgress := False, g_pendingSwitchProfileId := None, g_outbox := g_outbox u @ [SWITCH_SETTLED a]\<rparr>)
       | Inl e' \<Rightarrow> Some (Inl e', u\<lparr>g_switchInProgress := False, g_pendingSwitchProfileId := None\<rparr>))"
    using assms(1,2)
    by (simp add: handleSwitchProfile_def finallyP_def switchSettled_def bindP_def split: sum.split)
  show "handleSwitchProfile X later q during = Some (Inr SWITCH_SUCCESS, during\<lparr>g_pendingSwitchProfileId := Some q\<rparr>)"
    using assms(4,5) by (simp add: handleSwitchProfile_def queueSwitch_def)
qed

lemma failed_switch_drops_requests_witness:
  "\<exists>t. handleSwitchProfile byte_platform [[''p2'']] ''gone'' byte_worker = Some (Inr (SWITCH_ERROR ''Error: Profile not found''), t)"
proof -
  have a: "\<not> isLocked (g_auth byte_worker)" "\<not> g_switchInProgress byte_worker" "g_auth byte_worker = example_login"
    by (simp_all add: byte_worker_def fresh_with_def)
  obtain u where "switchRound byte_platform ''gone'' (byte_worker\<lparr>g_switchInProgress := True\<rparr>) = Some (Inl (JsError ''Profile not found''), u)"
    and u: "g_auth u = example_login"
    by (simp add: switchRound_def stopRealtimeSync_def detachP_def authP_def putBridge_def a switchProfile_def
        example_login_def setSession_def example_profiles_def)
  from failed_switch_drops_requests [OF a(1,2) this(1), of "byte_worker\<lparr>g_switchInProgress := True\<rparr>" "[[''p2'']]"] u a show ?thesis
    by (simp add: errorString_def)
qed

subsection \<open>A switch that runs\<close>

lemma idle_reconcile:
  assumes "bookmarks L (w_bridge s) = []" and "currentChrome R (ch_getTree A (w_browser s)) = []"
    and "loroToChrome (w_bridge s) = []" and "getActiveProfileId a = Inr p"
  shows "reconcile L A R a s = (Inr (), s\<lparr>w_db := setMeta (chromeIdMapKey p) (MObj []) (w_db s)\<rparr>)"
proof -
  have *: "dropOrphans m [] = []" for m by (rule dropOrphans_same) simp
  have "reconcileBody L A R a [] [] t = (Inr (), t)" if "loroToChrome (w_bridge t) = []" for t
  proof -
    have "toCreate [] (w_bridge t) = []" by (rule toCreate_none) simp
    with that * show ?thesis by (simp add: reconcileBody_def bindA_def objectEntries_def)
  qed
  then show ?thesis
    using assms by (simp add: reconcile_def Let_def withEchoFilter_def bindA_def saveMappingA_def saveMapping_def)
qed

text \<open>A browser without bookmarks, two profiles with a stored snapshot each.\<close>

definition empty_browser :: "unit chrome" where
  "empty_browser = serving defaultRoots (TreeNode ''0'' None None '''' None [])"

definition two_platform :: "'w chrome \<Rightarrow> (bytes, 'w, unit) platform" where
  "two_platform A = example_with byte_loro delta_fetch A"

definition two_worker :: "(bytes, unit, unit) bg" where
  "two_worker = (fresh_with byte_loro ())\<lparr>g_auth := example_login, g_hasDoc := True,
     g_world := \<lparr>w_bridge = (emptyBridge byte_loro)\<lparr>doc := [1]\<rparr>, w_db = saveSnapshot ''p1'' [1] (saveSnapshot ''p2'' [2] emptyDb),
        w_browser = (), w_ignore = 0\<rparr>\<rparr>"

definition example_login2 :: auth where
  "example_login2 = snd (switchProfile ''p2'' example_login)"

lemma example_login2_simps [simp]:
  "switchProfile ''p2'' example_login = (Inr (), example_login2)"
  "getJwt example_login2 = Inr ''t''" "getEncryptionKey example_login2 = Inr (replicate 32 1)"
  "getActiveProfileId example_login2 = Inr ''p2''" "isLoggedIn example_login2" "\<not> isLocked example_login2"
  by (simp_all add: example_login2_def example_login_def setSession_def getJwt_def getEncryptionKey_def getActiveProfileId_def
      isLoggedIn_def isLocked_def switchProfile_def example_profiles_def)

lemma two_reconcile:
  assumes "g_hasDoc s" and "loroToChrome (g_bridge s) = []" and "getActiveProfileId (g_auth s) = Inr p"
  shows "reconcileP (two_platform empty_browser) s = Some (Inr (), putDb (setMeta (chromeIdMapKey p) (MObj []) (g_db s)) s)"
proof -
  have "reconcile (x_loro (two_platform empty_browser)) (x_chrome (two_platform empty_browser)) (x_roots (two_platform empty_browser)) (g_auth s) (g_world s) =
      (Inr (), (g_world s)\<lparr>w_db := setMeta (chromeIdMapKey p) (MObj []) (g_db s)\<rparr>)"
    by (rule idle_reconcile)
       (simp_all add: assms two_platform_def example_with_def bookmarks_def byte_loro_def empty_browser_def serving_def
          currentChrome_def managedWalk.simps defaultRoots_def isAnyRootId_def CANONICAL_ROOT_IDS_def)
  then show ?thesis
    using assms(1) by (simp add: reconcileP_def withDoc_def worldP_def reconcileBookmarks_def loroDoc_def theDoc_def putDb_def)
qed

definition auth_p2 :: "auth \<Rightarrow> bool" where
  "auth_p2 a \<longleftrightarrow> getJwt a = Inr ''t'' \<and> getEncryptionKey a = Inr (replicate 32 1) \<and> getActiveProfileId a = Inr ''p2''
     \<and> isLoggedIn a \<and> \<not> isLocked a"

lemma auth_p2_login2 [simp]: "auth_p2 example_login2"
  by (simp add: auth_p2_def)

lemma two_pull:
  "auth_p2 (g_auth s) \<Longrightarrow> pullP (two_platform A) n ''p2'' s = Some (Inr [], s)"
  "g_auth s = example_login \<Longrightarrow> pullP (two_platform A) n ''p1'' s = Some (Inr [\<lparr>sequenceId = 5, payload = [9]\<rparr>], s)"
  using delta_pull(2) [of "g_auth s" "''t''" "''p2''" n "()"] delta_pull(1) [of example_login "''t''" n "()"]
  by (simp_all add: pullP_def two_platform_def example_with_def example_env_def auth_p2_def)

lemma two_platform_simps [simp]:
  "x_loro (two_platform A) = byte_loro" "x_rootsReady (two_platform A) = Inr ()" "x_env (two_platform A) = example_env"
  "x_roots (two_platform A) = defaultRoots"
  by (simp_all add: two_platform_def example_with_def)

definition on_p2 :: "bytes \<Rightarrow> (bytes, 'w, unit) bg \<Rightarrow> bool" where
  "on_p2 d s \<longleftrightarrow> auth_p2 (g_auth s) \<and> theDoc s = Some d \<and> \<not> g_syncPaused s \<and> \<not> g_pushPaused s
     \<and> \<not> g_resyncRequested s \<and> loroToChrome (g_bridge s) = [] \<and> g_pendingSwitchProfileId s = None"

lemma on_p2_steps:
  assumes "on_p2 d s"
  shows "\<exists>t. syncFrom (two_platform A) ''p2'' n skip False s = Some (Inr (), t) \<and> on_p2 d t \<and> g_world t = g_world s \<and> g_auth t = g_auth s"
    and "\<exists>t. attachP s = Some (Inr (), t) \<and> on_p2 d t \<and> w_browser (g_world t) = w_browser (g_world s)"
    and "\<exists>t. startSync s = Some (Inr (), t) \<and> on_p2 d t \<and> g_world t = g_world s"
proof -
  note on_p2_def [simp] theDoc_def [simp]
  show "\<exists>t. syncFrom (two_platform A) ''p2'' n skip False s = Some (Inr (), t) \<and> on_p2 d t \<and> g_world t = g_world s \<and> g_auth t = g_auth s"
    using assms by (auto simp: syncFrom_def finallyP_def syncFromInner_def two_pull applyDeltas_def stampSynced_def syncDone_def Let_def split: if_splits)
  show "\<exists>t. attachP s = Some (Inr (), t) \<and> on_p2 d t \<and> w_browser (g_world t) = w_browser (g_world s)"
    using assms by (auto simp: attachP_def detachP_def putBridge_def split: if_splits)
  show "\<exists>t. startSync s = Some (Inr (), t) \<and> on_p2 d t \<and> g_world t = g_world s"
    using assms by (auto simp: startSync_def connectEventStream_def startPush_def postJob_def auth_p2_def split: if_splits)
qed

lemma on_p2_reconcile:
  assumes "on_p2 d s"
  shows "\<exists>t. reconcileP (two_platform empty_browser) s = Some (Inr (), t) \<and> on_p2 d t"
  using assms two_reconcile [of s "''p2''"] by (auto simp: on_p2_def theDoc_def putDb_def auth_p2_def split: if_splits)

text \<open>The stored snapshot is loaded; what is left of initializeDocs is the pull and the reconcile.\<close>

lemma two_load:
  assumes "auth_p2 (g_auth s)" and "g_db s = g_db two_worker" and "\<not> g_syncPaused s" and "\<not> g_pushPaused s"
    and "\<not> g_resyncRequested s" and "g_pendingSwitchProfileId s = None"
  shows "\<exists>s2 n. on_p2 [2] s2 \<and> w_browser (g_world s2) = w_browser (g_world s) \<and> g_db s2 = g_db s \<and> g_auth s2 = g_auth s \<and> initializeDocs (two_platform A) ''p2'' merge check s =
     bindP (bindP (syncFrom (two_platform A) ''p2'' n check False) (\<lambda>_.
       if check then bindP (importDiffP (two_platform A)) (\<lambda>diff. retP (if localOnly diff > 0 then Return (Some diff) None else Continue))
       else retP Continue)) (\<lambda>res. case res of Return p b \<Rightarrow> retP (p, b)
         | Continue \<Rightarrow> bindP (reconcileP (two_platform A)) (\<lambda>_. bindP attachP (\<lambda>_. retP (None, None)))) s2"
proof -
  have db: "loadSnapshot (g_db s) ''p2'' = Some [2]" "loadMapping ''p2'' (g_db s) b = b\<lparr>loroToChrome := [], chromeToLoro := []\<rparr>" for b :: "bytes bridge"
    by (simp_all add: assms two_worker_def loadSnapshot_def saveSnapshot_def loadMapping_def getMeta_def emptyDb_def newMap_def)
  let ?X = "two_platform A"
  let ?s1 = "putBridge ((g_bridge s)\<lparr>loroToChrome := [], chromeToLoro := []\<rparr>) s"
  let ?s2 = "putBridge (resetVersionCursor byte_loro (g_bridge (putDoc [2] ?s1))) (putDoc [2] ?s1)"
  have load: "loadMappingP ''p2'' s = Some (Inr (), ?s1)" by (simp add: loadMappingP_def db)
  have init: "initDocP ?X (Some [2]) ?s1 = Some (Inr (), putDoc [2] ?s1)"
    by (simp add: initDocP_def docP_def initDoc_def byte_loro_def putDoc_def)
  have reset: "resetVersionCursorP ?X (putDoc [2] ?s1) = Some (Inr (), ?s2)"
    by (simp add: resetVersionCursorP_def withDoc_def loroDoc_def)
  have on: "on_p2 [2] ?s2"
    using assms by (simp add: on_p2_def putDoc_def putBridge_def theDoc_def resetVersionCursor_def)
  let ?m = "bindP (syncFrom ?X ''p2'' (lastSeqOf ''p2'' ?s2) check False) (\<lambda>_.
       if check then bindP (importDiffP ?X) (\<lambda>diff. retP (if localOnly diff > 0 then Return (Some diff) None else Continue))
       else retP Continue)"
  let ?f = "\<lambda>res. case res of Return p b \<Rightarrow> retP (p, b)
         | Continue \<Rightarrow> bindP (reconcileP ?X) (\<lambda>_. bindP attachP (\<lambda>_. retP (None, None)))"
  have est: "\<not> hasEstablishedMapping (g_bridge ?s2)"
    by (simp add: hasEstablishedMapping_def putBridge_def putDoc_def resetVersionCursor_def)
  have "initFromLocal ?X ''p2'' [2] merge check ?s1 = ?m ?s2"
    using init reset est by (simp add: initFromLocal_def)
  then have "bindP (initFromLocal ?X ''p2'' [2] merge check) ?f ?s1 = bindP ?m ?f ?s2" by (simp only: bindP_def)
  moreover have "loadSnapshot (g_db ?s1) ''p2'' = Some [2]" by (simp add: putBridge_def db)
  ultimately have "initializeDocs ?X ''p2'' merge check s = bindP ?m ?f ?s2"
    using load by (simp add: initializeDocs_def browserRootsReady_def)
  moreover have "w_browser (g_world ?s2) = w_browser (g_world s)" "g_db ?s2 = g_db s" "g_auth ?s2 = g_auth s"
    by (simp_all add: putBridge_def)
  ultimately show ?thesis using on by blast
qed

lemma two_init:
  assumes "auth_p2 (g_auth s)" and "g_db s = g_db two_worker" and "\<not> g_syncPaused s" and "\<not> g_pushPaused s"
    and "\<not> g_resyncRequested s" and "g_pendingSwitchProfileId s = None"
  shows "\<exists>t. initializeDocs (two_platform empty_browser) ''p2'' False False s = Some (Inr (None, None), t) \<and> on_p2 [2] t"
proof -
  let ?X = "two_platform empty_browser"
  obtain s2 n where on: "on_p2 [2] s2" and e: "initializeDocs ?X ''p2'' False False s =
     bindP (bindP (syncFrom ?X ''p2'' n False False) (\<lambda>_. retP Continue)) (\<lambda>res. case res of Return p b \<Rightarrow> retP (p, b)
         | Continue \<Rightarrow> bindP (reconcileP ?X) (\<lambda>_. bindP attachP (\<lambda>_. retP (None, None)))) s2"
    using two_load [OF assms, of empty_browser False False] by auto
  from on_p2_steps(1) [OF on] obtain s3 where s3: "syncFrom ?X ''p2'' n False False s2 = Some (Inr (), s3)" "on_p2 [2] s3" by blast
  from on_p2_reconcile [OF s3(2)] obtain s4 where s4: "reconcileP ?X s3 = Some (Inr (), s4)" "on_p2 [2] s4" by blast
  from on_p2_steps(2) [OF s4(2)] obtain s5 where s5: "attachP s4 = Some (Inr (), s5)" "on_p2 [2] s5" by blast
  have "initializeDocs ?X ''p2'' False False s = Some (Inr (None, None), s5)"
    unfolding e using s3(1) s4(1) s5(1) by simp
  with s5(2) show ?thesis by blast
qed

lemma two_switch:
  "\<exists>t. handleSwitchProfile (two_platform empty_browser) [] ''p2'' two_worker = Some (Inr SWITCH_SUCCESS, t) \<and> on_p2 [2] t"
proof -
  let ?s = "(putBridge ((g_bridge two_worker)\<lparr>lastVersion := None\<rparr>)
      (two_worker\<lparr>g_switchInProgress := True, g_pendingSwitchProfileId := None, g_sse := None,
        g_alarms := g_alarms two_worker - {SyncPoll, WsReconnect}\<rparr>))\<lparr>g_attached := False, g_auth := example_login2\<rparr>"
  have "auth_p2 (g_auth ?s)" "g_db ?s = g_db two_worker" "\<not> g_syncPaused ?s" "\<not> g_pushPaused ?s" "\<not> g_resyncRequested ?s"
    "g_pendingSwitchProfileId ?s = None"
    by (simp_all add: two_worker_def putBridge_def fresh_with_def)
  from two_init [OF this] obtain s1 where s1: "initializeDocs (two_platform empty_browser) ''p2'' False False ?s = Some (Inr (None, None), s1)" "on_p2 [2] s1"
    by blast
  from on_p2_steps(3) [OF s1(2)] obtain s2 where s2: "startSync s1 = Some (Inr (), s2)" "on_p2 [2] s2" by blast
  have r: "switchRound (two_platform empty_browser) ''p2'' (two_worker\<lparr>g_switchInProgress := True\<rparr>) = Some (Inr (), s2)"
  proof -
    have "authP (switchProfile ''p2'') ((putBridge ((g_bridge two_worker)\<lparr>lastVersion := None\<rparr>)
      (two_worker\<lparr>g_switchInProgress := True, g_pendingSwitchProfileId := None, g_sse := None,
        g_alarms := g_alarms two_worker - {SyncPoll, WsReconnect}\<rparr>))\<lparr>g_attached := False\<rparr>) = Some (Inr (), ?s)"
      by (simp add: authP_def putBridge_def two_worker_def)
    with s1(1) s2(1) show ?thesis
      by (simp add: switchRound_def stopRealtimeSync_def detachP_def)
  qed
  have f: "switchSettled s2 = Some (Inr (), s2\<lparr>g_switchInProgress := False, g_pendingSwitchProfileId := None, g_outbox := g_outbox s2 @ [SWITCH_SETTLED ''p2'']\<rparr>)"
    using s2(2) by (simp add: switchSettled_def on_p2_def auth_p2_def)
  have "\<not> isLocked (g_auth two_worker)" "\<not> g_switchInProgress two_worker" by (simp_all add: two_worker_def fresh_with_def)
  with r f have "handleSwitchProfile (two_platform empty_browser) [] ''p2'' two_worker =
      Some (Inr SWITCH_SUCCESS, s2\<lparr>g_switchInProgress := False, g_pendingSwitchProfileId := None, g_outbox := g_outbox s2 @ [SWITCH_SETTLED ''p2'']\<rparr>)"
    by (simp add: handleSwitchProfile_def finallyP_def catchP_def)
  moreover have "on_p2 [2] (s2\<lparr>g_switchInProgress := False, g_pendingSwitchProfileId := None, g_outbox := g_outbox s2 @ [SWITCH_SETTLED ''p2'']\<rparr>)"
    using s2(2) by (simp add: on_p2_def theDoc_def split: if_splits)
  ultimately show ?thesis by blast
qed

text \<open>The witness of the theorem on the last request.\<close>

lemma switch_ends_on_last_request_witness:
  "\<exists>t tok. handleSwitchProfile (two_platform empty_browser) [] ''p2'' two_worker = Some (Inr SWITCH_SUCCESS, t)
     \<and> getActiveProfileId (g_auth t) = Inr ''p2'' \<and> g_sse t = Some (''p2'', tok, openEventStream)"
proof -
  obtain t where t: "handleSwitchProfile (two_platform empty_browser) [] ''p2'' two_worker = Some (Inr SWITCH_SUCCESS, t)"
    using two_switch by blast
  have "\<not> g_switchInProgress two_worker" "\<not> g_syncPaused two_worker" by (simp_all add: two_worker_def fresh_with_def)
  from switch_ends_on_last_request [OF this(1) t] this(2) t show ?thesis by auto
qed

subsection \<open>A switch during a pull\<close>



end
