(* ===== verification/Background_Conflict.thy ===== *)
theory Background_Conflict
  imports Background_Switch
begin

text \<open>
  What waits for the user -- an import conflict after a login, offline changes after an unlock -- and
  how the handlers treat it: what a login promises while a conflict is open, what a logout forgets to
  clear, and what a restart of the worker does to an open conflict.
\<close>

subsection \<open>What the handlers leave waiting\<close>

definition waiting_as :: "('d, 'w, 'n) bg \<Rightarrow> ('d, 'w, 'n) bg \<Rightarrow> bool" where
  "waiting_as s0 s \<longleftrightarrow> g_pendingImport s = g_pendingImport s0 \<and> g_pendingChanges s = g_pendingChanges s0
     \<and> g_pendingUnlockProfileId s = g_pendingUnlockProfileId s0"

interpretation waiting: session_invariant "waiting_as s0" for s0
  by unfold_locales (auto simp: waiting_as_def blind_def)

lemma waiting_pull: "keeps (waiting_as s0) (syncFrom X p n skip exclusive)"
  by (rule waiting.syncFrom_keeps) (simp add: waiting_as_def)

lemma waiting_init: "keeps (waiting_as s0) (initializeDocs X p merge check)"
  by (rule waiting.initializing_if) (rule waiting_pull)

lemma waiting_account: "keeps (waiting_as s0) (loginOrRegister X mail auth k)"
proof -
  have "keeps (waiting_as s0) (registerAccount X mail auth k)"
    unfolding registerAccount_def by (intro keeps_intros waiting.calls)
  then show ?thesis
    unfolding loginOrRegister_def by (intro keeps_intros waiting.calls)
qed

lemma io_laws: "bindP (retP x) f = f x" "bindP (liftP (Inr x)) f = f x" "getP (\<lambda>s. x) = retP x"
  by (rule ext, simp)+

text \<open>A flag that is read: as a conditional rule the truth value would be unified with its negation.\<close>

lemma bindP_getP: "bindP (getP f) g s = g (f s) s"
  by simp

lemma bindP_ok: "bindP m f s = Some (Inr y, t) \<Longrightarrow> \<exists>x s1. m s = Some (Inr x, s1) \<and> f x s1 = Some (Inr y, t)"
  by (erule bindP_SomeE) auto

text \<open>The steps of a login that succeeds.\<close>

lemma openSession_success:
  assumes "openSession X mail wk token ps psk isNew s = Some (Inr r, t)"
  obtains pk sk key p imp boot s2
  where "ps = p # tl ps"
    and "initializeDocs X (pi_id p) False True (s\<lparr>g_auth := setSession token mail key sk pk [] ps (pi_id p) (g_auth s)\<rparr>) =
           Some (Inr (imp, boot), s2)"
    and "loginReply ps (pi_id p) isNew imp boot s2 = Some (Inr r, t)"
proof (cases ps)
  case Nil
  with assms show thesis unfolding openSession_def by (auto dest!: bindP_ok)
next
  case (Cons p qs)
  with assms show thesis unfolding openSession_def by (auto dest!: bindP_ok intro: that)
qed

lemma handleLogin_success:
  assumes "handleLogin X mail auth wrapping s = Some (Inr (LOGIN_SUCCESS ps imp b n), t)"
  obtains k token psk isNew s1 pk sk key p boot s2
  where "loginOrRegister X mail auth k s = Some (Inr (token, ps, psk, isNew), s1)"
    and "ps = p # tl ps"
    and "initializeDocs X (pi_id p) False True (s1\<lparr>g_auth := setSession token mail key sk pk [] ps (pi_id p) (g_auth s1)\<rparr>) =
           Some (Inr (imp, boot), s2)"
    and "loginReply ps (pi_id p) isNew imp boot s2 = Some (Inr (LOGIN_SUCCESS ps imp b n), t)"
proof -
  obtain wk where "bindP (loginOrRegister X mail auth wk) (\<lambda>(token, ps, psk, isNewAccount).
        openSession X mail wk token ps psk isNewAccount) s = Some (Inr (LOGIN_SUCCESS ps imp b n), t)"
    using assms unfolding handleLogin_def
    by (elim catchP_SomeE) (cases "importKey wrapping", simp_all)
  from bindP_ok [OF this] obtain token ps' psk isNew s1 where
    l: "loginOrRegister X mail auth wk s = Some (Inr (token, ps', psk, isNew), s1)"
    and o: "openSession X mail wk token ps' psk isNew s1 = Some (Inr (LOGIN_SUCCESS ps imp b n), t)"
    by auto
  from o obtain pk sk key p imp' boot s2 where 1: "ps' = p # tl ps'"
    "initializeDocs X (pi_id p) False True (s1\<lparr>g_auth := setSession token mail key sk pk [] ps' (pi_id p) (g_auth s1)\<rparr>) =
       Some (Inr (imp', boot), s2)"
    and r: "loginReply ps' (pi_id p) isNew imp' boot s2 = Some (Inr (LOGIN_SUCCESS ps imp b n), t)"
    by (rule openSession_success)
  from r have "ps' = ps \<and> imp' = imp"
    unfolding loginReply_def by (cases imp') (auto dest!: bindP_ok)
  with l 1 r that show thesis by blast
qed

subsection \<open>A conflict that outlives its account\<close>

lemma conflict_after_login:
  assumes "handleLogout X c s = Some (r, s1)" and "handleLogin X mail auth wrapping s1 = Some (Inr (LOGIN_SUCCESS ps None b n), t)"
  shows "waiting_as s t"
proof -
  have "waiting_as s s1" by (rule keepsD [OF waiting.logout(1) assms(1)]) (simp add: waiting_as_def)
  moreover from assms(2) obtain k token psk isNew s2 pk sk key boot s3 and p :: profileInfo
    where l: "loginOrRegister X mail auth k s1 = Some (Inr (token, ps, psk, isNew), s2)"
      and i: "initializeDocs X (pi_id p) False True (s2\<lparr>g_auth := setSession token mail key sk pk [] ps (pi_id p) (g_auth s2)\<rparr>) =
           Some (Inr (None, boot), s3)"
      and t: "loginReply ps (pi_id p) isNew None boot s3 = Some (Inr (LOGIN_SUCCESS ps None b n), t)"
    by (rule handleLogin_success) blast
  moreover have "waiting_as s1 s2" by (rule keepsD [OF waiting_account l]) (simp add: waiting_as_def)
  moreover have "waiting_as s2 s3" by (rule keepsD [OF waiting_init i]) (simp add: waiting_as_def)
  moreover have "waiting_as s3 t"
  proof -
    have "keeps (waiting_as s3) (loginReply ps (pi_id p) isNew None boot)"
      unfolding loginReply_def by (simp, intro keeps_bind waiting.tearing_down waiting.starting keeps_basic)
    from keepsD [OF this t] show ?thesis by (simp add: waiting_as_def)
  qed
  ultimately show ?thesis by (simp add: waiting_as_def)
qed

text \<open>What an overwrite does when the conflict names another profile than the session.\<close>

lemma keeps_sync_db:
  "keeps (\<lambda>s. sync_db db (g_world s)) attachP" "keeps (\<lambda>s. sync_db db (g_world s)) (setIconLocked b)"
  "keeps (\<lambda>s. sync_db db (g_world s)) startSync"
proof -
  show "keeps (\<lambda>s. sync_db db (g_world s)) attachP"
    unfolding attachP_def detachP_def by (intro keeps_intros) (simp_all add: sync_db_def putBridge_def)
  show "keeps (\<lambda>s. sync_db db (g_world s)) (setIconLocked b)"
    unfolding setIconLocked_def setIcon_def by (intro keeps_intros) simp
  have push: "keeps (\<lambda>s. sync_db db (g_world s)) startPush"
    by (rule keeps_guard [of _ g_pushPaused "\<lambda>_. Inr ()" "postJob PushJob"])
       (simp_all add: startPush_def postJob_def keeps_set)
  have stream: "keeps (\<lambda>s. sync_db db (g_world s)) connectEventStream"
    by (rule keeps_guard [of _ g_syncPaused "\<lambda>_. Inr ()"], simp only: connectEventStream_def)
       (intro keeps_intros, simp)
  show "keeps (\<lambda>s. sync_db db (g_world s)) startSync"
    by (rule keeps_guard [of _ g_syncPaused "\<lambda>_. Inr ()"], simp only: startSync_def)
       (intro keeps_intros push stream, simp)
qed

lemma overwrite_stores:
  assumes "g_pendingImport t = Some (p, diff)" and "x_rootsReady X = Inr ()" and "theDoc t = Some d"
    and "handleResolveImport X Overwrite e name None t = Some (q, u)"
  shows "loadSnapshot (g_db u) p = Some (loro_exportSnapshot (x_loro X) d)"
proof -
  let ?t = "t\<lparr>g_pendingImport := None, g_auth := (g_auth t)\<lparr>sstore := (sstore (g_auth t))\<lparr>ss_pendingImport := None\<rparr>\<rparr>\<rparr>"
  let ?db = "saveSnapshot p (loro_exportSnapshot (x_loro X) d) (g_db t)"
  let ?rest = "bindP (reconcileP X) (\<lambda>_. bindP attachP (\<lambda>_. bindP (setIconLocked False) (\<lambda>_. bindP startSync (\<lambda>_.
      retP (RESOLVE_IMPORT_SUCCESS None None)))))"
  let ?m = "bindP (importOverwrite X p p) (\<lambda>_. bindP (setIconLocked False) (\<lambda>_. bindP startSync (\<lambda>_.
      retP (RESOLVE_IMPORT_SUCCESS None None))))"
  have "orReply X RESOLVE_IMPORT_ERROR ?m ?t = Some (q, u)"
    using assms(1,2,4)
    by (simp add: handleResolveImport_def setPendingImport_def browserRootsReady_def orReply_def orElse_def Let_def bindP_assoc io_laws)
  then obtain q' where "?m ?t = Some (q', u)"
    unfolding orReply_def by (rule catchP_SomeE) auto
  moreover have "theDoc ?t = Some d" using assms(3) by (simp add: theDoc_def split: if_splits)
  then have "persistSnapshot X p ?t = Some (Inr (), putDb ?db ?t)"
    by (simp add: persistSnapshot_def exportSnapshotP_def exportSnapshot_def loroDoc_def dbP_def)
  ultimately have r: "?rest (putDb ?db ?t) = Some (q', u)"
    by (simp add: importOverwrite_def bindP_assoc)
  have "keeps (\<lambda>s. sync_db ?db (g_world s)) ?rest"
    by (intro keeps_bind reconcileP_db keeps_sync_db keeps_basic)
  from keepsD [OF this r] have "sync_db ?db (g_world u)" by (simp add: sync_db_def putDb_def)
  then show ?thesis by (simp add: sync_db_def loadSnapshot_def saveSnapshot_def)
qed

text \<open>
  C27. A logout clears the stored import conflict but not the one in memory. After another account
  has signed in, without a conflict of its own, the popup is told the old account's conflict, the
  catch-up of skipped syncs is off, and resolving it with ``overwrite'' stores the document of the
  new account as the snapshot of the old account's profile.
\<close>

theorem logout_keeps_conflict:
  assumes "g_pendingImport s = Some (p, diff)"
    and "handleLogout X c s = Some (r, s1)" and "handleLogin X mail auth wrapping s1 = Some (Inr (LOGIN_SUCCESS ps None b n), t)"
    and "x_rootsReady X = Inr ()" and "theDoc t = Some d"
    and "handleMessage X arrivals (RESOLVE_IMPORT Overwrite e name None) t = Some (q, u)"
  shows "ss_pendingImport (sstore (g_auth s1)) = None
    \<and> (\<exists>st. handleMessage X arrivals GET_STATUS t = Some (Inr (STATUS st), t) \<and> st_pendingImport st = Some diff)
    \<and> runCatchUpSync t = Some (Inr (), t)
    \<and> loadSnapshot (g_db u) p = Some (loro_exportSnapshot (x_loro X) d)"
proof -
  have w: "waiting_as s t" by (rule conflict_after_login [OF assms(2,3)])
  with assms(1) have p: "g_pendingImport t = Some (p, diff)" by (simp add: waiting_as_def)
  have "ss_pendingImport (sstore (g_auth s1)) = None"
    using logout_result [of X c s] assms(2) by (auto simp: emptySession_def)
  moreover have "runCatchUpSync t = Some (Inr (), t)" using p by (simp add: runCatchUpSync_def)
  moreover have "loadSnapshot (g_db u) p = Some (loro_exportSnapshot (x_loro X) d)"
    using assms(6) by (intro overwrite_stores [OF p assms(4,5)]) simp
  moreover have "\<exists>st. handleMessage X arrivals GET_STATUS t = Some (Inr (STATUS st), t) \<and> st_pendingImport st = Some diff"
    using p by (simp add: statusOf_def)
  ultimately show ?thesis by blast
qed

subsection \<open>A login that finds a conflict\<close>

text \<open>The browser, the listeners and the event stream.\<close>

definition untouched :: "('d, 'w, 'n) bg \<Rightarrow> ('d, 'w, 'n) bg \<Rightarrow> bool" where
  "untouched s0 s \<longleftrightarrow> w_browser (g_world s) = w_browser (g_world s0) \<and> g_attached s = g_attached s0 \<and> g_sse s = g_sse s0"

lemma untouched_calls:
  "keeps (untouched s0) (loadMappingP p)" "keeps (untouched s0) (docP m)" "keeps (untouched s0) (netP m2)"
  "keeps (untouched s0) (dbP f)" "keeps (untouched s0) (exportSnapshotP X)" "keeps (untouched s0) (pullP X n p)"
  "keeps (untouched s0) (sealP X k pt)" "keeps (untouched s0) (newKeyP X)" "keeps (untouched s0) (postJob j)"
  "keeps (untouched s0) (stampSynced X)" "keeps (untouched s0) (setPendingImport v)"
  by (auto intro!: keepsI simp: untouched_def loadMappingP_def docP_def netP_def dbP_def exportSnapshotP_def pullP_def sealP_def
      newKeyP_def postJob_def stampSynced_def setPendingImport_def putBridge_def putDb_def Let_def
      split: prod.splits option.splits)

lemma untouched_docs:
  "keeps (untouched s0) (initDocP X d)" "keeps (untouched s0) (resetVersionCursorP X)" "keeps (untouched s0) (importUpdateP X d2)"
  "keeps (untouched s0) (persistSnapshot X p)" "keeps (untouched s0) (importDiffP X)" "keeps (untouched s0) (browserRootsReady X)"
  by (auto intro!: keeps_intros untouched_calls simp: initDocP_def importUpdateP_def resetVersionCursorP_def persistSnapshot_def
      importDiffP_def browserRootsReady_def)
     (auto simp: untouched_def putBridge_def)

lemma untouched_pull: "keeps (untouched s0) (syncFrom X p n True exclusive)"
proof -
  have apply_: "keeps (untouched s0) (applyDeltas X p True ds)" for ds
    unfolding applyDeltas_def Let_def by (intro keeps_intros untouched_calls untouched_docs) simp
  have catch: "keeps (untouched s0) runCatchUpSync"
    by (rule keepsI) (auto simp: runCatchUpSync_def untouched_def bindP_def postJob_def split: if_splits sum.splits)
  have "keeps (untouched s0) syncDone"
  proof (rule keepsI)
    fix s r t assume "untouched s0 s" "syncDone s = Some (r, t)"
    then show "untouched s0 t"
      using keepsD [OF catch, of "s\<lparr>g_syncInProgress := False, g_resyncRequested := False\<rparr>" r t]
      by (auto simp: syncDone_def Let_def untouched_def split: if_splits)
  qed
  then have k: "keeps (untouched s0) (finallyP (syncFromInner X p n True) syncDone)"
    unfolding syncFromInner_def by (intro keeps_finally keeps_bind untouched_calls apply_)
  show ?thesis
  proof (rule keepsI)
    fix s r t assume "untouched s0 s" "syncFrom X p n True exclusive s = Some (r, t)"
    then show "untouched s0 t"
      using keepsD [OF k, of "s\<lparr>g_syncInProgress := True\<rparr>" r t] by (auto simp: syncFrom_def untouched_def split: if_splits)
  qed
qed

lemma conflict_from_local:
  assumes "initFromLocal X p snap False True s = Some (Inr (Return (Some diff) b), t)" and "untouched s0 s"
  shows "untouched s0 t \<and> localOnly diff > 0"
proof
  have "keeps (untouched s0) (initFromLocal X p snap False True)"
    unfolding initFromLocal_def by (simp, intro keeps_intros untouched_docs untouched_pull)
  from keepsD [OF this assms] show "untouched s0 t" .
  show "localOnly diff > 0"
    using assms(1) unfolding initFromLocal_def by (auto dest!: bindP_ok split: if_splits)
qed

lemma conflict_from_server:
  assumes "initFromServer X p True s = Some (Inr (Return (Some diff) b), t)" and "untouched s0 s"
  shows "untouched s0 t \<and> localOnly diff > 0"
proof -
  let ?load = "\<lambda>k snap. case snap of
              Some (snapshotSeq, sealed) \<Rightarrow>
                bindP (liftP (decrypt (e_crypto (x_env X)) k sealed)) (\<lambda>decrypted.
                bindP (initDocP X (Some decrypted)) (\<lambda>_.
                bindP (resetVersionCursorP X) (\<lambda>_.
                bindP (dbP (setMeta (lastSeqKey p) (MNum snapshotSeq))) (\<lambda>_.
                syncFrom X p snapshotSeq True False))))
            | None \<Rightarrow>
                bindP (initDocP X None) (\<lambda>_. syncFrom X p 0 True False)"
  have load: "keeps (untouched s0) (?load k snap)" for k snap
    by (intro keeps_intros untouched_docs untouched_calls untouched_pull)
  from assms(1) obtain k snap s1 s2 seq where f: "catchP (netP (\<lambda>a. apiGetServerSnapshot (x_fetch X) a p)) (\<lambda>_. retP None) s = Some (Inr snap, s1)"
    and l: "?load k snap s1 = Some (Inr (), s2)"
    and r: "bindP (if seq \<noteq> 0 then bindP (importDiffP X) (\<lambda>diff. retP (Some diff)) else retP None) (\<lambda>diff.
           if diff \<noteq> None \<and> localOnly (the diff) > 0
           then bindP (persistSnapshot X p) (\<lambda>_. retP (Return diff None))
           else
             bindP (persistSnapshot X p) (\<lambda>_.
             bindP (whenP (snap = None \<and> seq > 0)
               (bindP (exportSnapshotP X) (\<lambda>snapshot.
                bindP (sealP X k snapshot) (\<lambda>encryptedSnapshot.
                postJob (PutSnapshotJob p seq encryptedSnapshot))))) (\<lambda>_.
             retP Continue))) s2 = Some (Inr (Return (Some diff) b), t)"
    unfolding initFromServer_def by (auto dest!: bindP_ok split: if_splits)
  have "keeps (untouched s0) (catchP (netP (\<lambda>a. apiGetServerSnapshot (x_fetch X) a p)) (\<lambda>_. retP None))"
    by (intro keeps_catch untouched_calls keeps_basic)
  from keepsD [OF this f assms(2)] have "untouched s0 s1" .
  from keepsD [OF load l this] have u2: "untouched s0 s2" .
  from r obtain s3 where d: "importDiffP X s2 = Some (Inr diff, s3)" and pos: "localOnly diff > 0"
    and q: "persistSnapshot X p s3 = Some (Inr (), t)"
    by (auto dest!: bindP_ok split: if_splits)
  from keepsD [OF untouched_docs(5) d u2] have "untouched s0 s3" .
  from keepsD [OF untouched_docs(4) q this] pos show ?thesis by blast
qed

lemma conflict_init:
  assumes "initializeDocs X p False True s = Some (Inr (Some diff, b), t)" and "untouched s0 s"
  shows "untouched s0 t \<and> localOnly diff > 0"
proof -
  from assms(1) obtain u s1 s2 stored where b: "browserRootsReady X s = Some (Inr u, s1)" and m: "loadMappingP p s1 = Some (Inr (), s2)"
    and i: "(case stored of Some snap \<Rightarrow> initFromLocal X p snap False True | None \<Rightarrow> initFromServer X p True) s2 =
       Some (Inr (Return (Some diff) b), t)"
    unfolding initializeDocs_def by (auto dest!: bindP_ok split: init_result.splits)
  from keepsD [OF untouched_docs(6) b assms(2)] have "untouched s0 s1" .
  from keepsD [OF untouched_calls(1) m this] have "untouched s0 s2" .
  with i show ?thesis
    by (cases stored) (auto dest: conflict_from_local conflict_from_server)
qed

text \<open>
  C26. A login that finds local bookmarks the account does not have leaves everything to the user: the
  browser's bookmarks, the listeners and the event stream are as before the login, at least one
  bookmark exists only locally, and the conflict is parked for the profile, in memory and in
  session storage.
\<close>

theorem login_conflict_waits_for_user:
  assumes "handleLogin X mail auth wrapping s = Some (Inr (LOGIN_SUCCESS ps (Some diff) b n), t)"
  shows "w_browser (g_world t) = w_browser (g_world s) \<and> g_attached t = g_attached s \<and> g_sse t = g_sse s
    \<and> localOnly diff > 0 \<and> g_pendingImport t = Some (pi_id (hd ps), diff)
    \<and> ss_pendingImport (sstore (g_auth t)) = Some (pi_id (hd ps), diff)"
proof -
  from assms obtain k token psk isNew s1 pk sk key boot s2 and p :: profileInfo
    where l: "loginOrRegister X mail auth k s = Some (Inr (token, ps, psk, isNew), s1)" and ps: "ps = p # tl ps"
      and i: "initializeDocs X (pi_id p) False True (s1\<lparr>g_auth := setSession token mail key sk pk [] ps (pi_id p) (g_auth s1)\<rparr>) =
           Some (Inr (Some diff, boot), s2)"
      and r: "loginReply ps (pi_id p) isNew (Some diff) boot s2 = Some (Inr (LOGIN_SUCCESS ps (Some diff) b n), t)"
    by (rule handleLogin_success) blast
  have "keeps (untouched s) (registerAccount X mail auth k)"
    unfolding registerAccount_def by (intro keeps_intros untouched_calls)
  then have "keeps (untouched s) (loginOrRegister X mail auth k)"
    unfolding loginOrRegister_def by (intro keeps_intros untouched_calls)
  from keepsD [OF this l] have "untouched s (s1\<lparr>g_auth := setSession token mail key sk pk [] ps (pi_id p) (g_auth s1)\<rparr>)"
    by (simp add: untouched_def)
  from conflict_init [OF i this] have "untouched s s2" and "localOnly diff > 0" by blast+
  moreover have "pi_id (hd ps) = pi_id p" by (subst ps) simp
  moreover from r have "t = s2\<lparr>g_pendingImport := Some (pi_id p, diff),
      g_auth := (g_auth s2)\<lparr>sstore := (sstore (g_auth s2))\<lparr>ss_pendingImport := Some (pi_id p, diff)\<rparr>\<rparr>\<rparr>"
    by (simp add: loginReply_def setPendingImport_def)
  ultimately show ?thesis by (simp add: untouched_def)
qed

text \<open>The login of the examples: the account has the profile ``p2'', the device its snapshot.\<close>

definition two_account :: "auth \<Rightarrow> auth" where
  "two_account = setSession ''t'' ''e'' (replicate 32 1) (replicate 32 1)
     (encrypt example_webcrypto (replicate 12 7) (replicate 32 1) (replicate 32 1)) [] [\<lparr>pi_id = ''p2'', pi_name = ''Work''\<rparr>] ''p2''"

lemma two_account_p2 [simp]: "auth_p2 (two_account a)"
  by (simp add: two_account_def auth_p2_def setSession_def getJwt_def getEncryptionKey_def getActiveProfileId_def isLoggedIn_def isLocked_def)

lemma two_sealed: "encrypt example_webcrypto (replicate 12 7) (replicate 32 1) (replicate 32 1) \<noteq> []"
proof
  assume e: "encrypt example_webcrypto (replicate 12 7) (replicate 32 1) (replicate 32 1) = []"
  have "fromBase64 [] = Inr []" using base64_roundtrip [of "[]"] by (simp add: toBase64_def btoa_def)
  with e base64_roundtrip [of "replicate 12 7 @ gcm_encrypt example_webcrypto (replicate 32 1) (replicate 12 7) (replicate 32 1)"]
  show False by (simp add: encrypt_def)
qed

lemma two_login:
  "handleLogin (two_platform A) ''e'' ''a'' (replicate 32 1) s =
     catchP (bindP (initializeDocs (two_platform A) ''p2'' False True) (\<lambda>(pending, bootstrapped).
         loginReply [\<lparr>pi_id = ''p2'', pi_name = ''Work''\<rparr>] ''p2'' False pending bootstrapped))
       (\<lambda>e. retP (LOGIN_ERROR (errorString (\<lambda>e. []) e))) (s\<lparr>g_auth := two_account (g_auth s)\<rparr>)"
proof -
  let ?K = "replicate 32 1 :: bytes" and ?ps = "[\<lparr>pi_id = ''p2'', pi_name = ''Work''\<rparr>]"
  let ?sealed = "encrypt example_webcrypto (replicate 12 7) ?K ?K"
  have k: "importKey ?K = Inr ?K" by (simp add: importKey_def)
  have d: "decrypt example_webcrypto ?K ?sealed = Inr ?K"
    by (rule decrypt_encrypt [OF example_webcrypto_ok(1)]) simp
  note ne = two_sealed
  have l: "loginOrRegister (two_platform A) ''e'' ''a'' ?K s = Some (Inr (''t'', ?ps, Some ?sealed, False), s)"
    by (simp add: loginOrRegister_def netP_def apiLogin_def bindA_def two_platform_def example_with_def delta_fetch_def
        example_fetch_def throwIfNotOk_def res_ok_def catchP_def bindP_def)
  show ?thesis
    using k l d ne
    by (simp add: handleLogin_def openSession_def catchP_def bindP_assoc io_laws two_account_def two_platform_def example_with_def
        example_env_def truthy_iff cong del: option.case_cong)
qed

lemma two_diff:
  assumes "on_p2 d s"
  shows "importDiffP (two_platform empty_browser) s = Some (Inr \<lparr>localOnly = 0, serverOnly = 0\<rparr>, s)"
    and "importDiffP (two_platform (serving defaultRoots example_folder_tree)) s = Some (Inr \<lparr>localOnly = 1, serverOnly = 0\<rparr>, s)"
proof -
  have b: "bookmarks byte_loro (g_bridge s) = []" by (simp add: bookmarks_def byte_loro_def)
  have e: "managedWalk defaultRoots [TreeNode ''0'' None None '''' None []] = []"
    by (simp add: managedWalk.simps defaultRoots_def isAnyRootId_def CANONICAL_ROOT_IDS_def)
  have f: "map tn_url (managedWalk defaultRoots [example_folder_tree]) = [None, Some ''http://a'', Some ''http://a'']"
    by (simp add: managedWalk.simps example_folder_tree_def example_folder_def example_child_def defaultRoots_def
        isAnyRootId_def CANONICAL_ROOT_IDS_def excluded_def isVirtualRootId_def)
  show "importDiffP (two_platform empty_browser) s = Some (Inr \<lparr>localOnly = 0, serverOnly = 0\<rparr>, s)"
    using assms b e
    by (simp add: importDiffP_def withDoc_def loroDoc_def on_p2_def computeLocalImportDiff_def Let_def newSet_def truthyUrls_def serverUrlsOf_def two_platform_def
        example_with_def empty_browser_def serving_def)
  show "importDiffP (two_platform (serving defaultRoots example_folder_tree)) s = Some (Inr \<lparr>localOnly = 1, serverOnly = 0\<rparr>, s)"
    using assms b f
    by (simp add: importDiffP_def withDoc_def loroDoc_def on_p2_def computeLocalImportDiff_def Let_def newSet_def truthyUrls_def serverUrlsOf_def two_platform_def
        example_with_def serving_def)
qed

lemma two_login_quiet:
  assumes "g_db s = g_db two_worker" and "\<not> g_syncPaused s" and "\<not> g_pushPaused s"
    and "\<not> g_resyncRequested s" and "g_pendingSwitchProfileId s = None"
  shows "\<exists>t. handleLogin (two_platform empty_browser) ''e'' ''a'' (replicate 32 1) s =
      Some (Inr (LOGIN_SUCCESS [\<lparr>pi_id = ''p2'', pi_name = ''Work''\<rparr>] None None (Some False)), t) \<and> on_p2 [2] t"
proof -
  let ?X = "two_platform empty_browser" and ?s = "s\<lparr>g_auth := two_account (g_auth s)\<rparr>"
  have "auth_p2 (g_auth ?s)" "g_db ?s = g_db two_worker" "\<not> g_syncPaused ?s" "\<not> g_pushPaused ?s" "\<not> g_resyncRequested ?s"
    "g_pendingSwitchProfileId ?s = None" using assms by simp_all
  from two_load [OF this, of empty_browser False True] obtain s2 n where on: "on_p2 [2] s2"
    and e: "initializeDocs ?X ''p2'' False True ?s =
     bindP (bindP (syncFrom ?X ''p2'' n True False) (\<lambda>_.
       bindP (importDiffP ?X) (\<lambda>diff. retP (if localOnly diff > 0 then Return (Some diff) None else Continue)))) (\<lambda>res. case res of Return p b \<Rightarrow> retP (p, b)
         | Continue \<Rightarrow> bindP (reconcileP ?X) (\<lambda>_. bindP attachP (\<lambda>_. retP (None, None)))) s2"
    by auto
  from on_p2_steps(1) [OF on] obtain s3 where s3: "syncFrom ?X ''p2'' n True False s2 = Some (Inr (), s3)" "on_p2 [2] s3" by blast
  from on_p2_reconcile [OF s3(2)] obtain s4 where s4: "reconcileP ?X s3 = Some (Inr (), s4)" "on_p2 [2] s4" by blast
  from on_p2_steps(2) [OF s4(2)] obtain s5 where s5: "attachP s4 = Some (Inr (), s5)" "on_p2 [2] s5" by blast
  have "on_p2 [2] (s5\<lparr>g_icon := IconDefault\<rparr>)" using s5(2) by (simp add: on_p2_def theDoc_def split: if_splits)
  from on_p2_steps(3) [OF this] obtain s6 where s6: "startSync (s5\<lparr>g_icon := IconDefault\<rparr>) = Some (Inr (), s6)" "on_p2 [2] s6" by blast
  have "initializeDocs ?X ''p2'' False True ?s = Some (Inr (None, None), s5)"
    unfolding e using s3(1) s4(1) s5(1) two_diff(1) [OF s3(2)] by simp
  then have "handleLogin ?X ''e'' ''a'' (replicate 32 1) s =
      Some (Inr (LOGIN_SUCCESS [\<lparr>pi_id = ''p2'', pi_name = ''Work''\<rparr>] None None (Some False)), s6)"
    using s6(1) by (simp add: two_login loginReply_def setIconLocked_def setIcon_def)
  with s6(2) show ?thesis by blast
qed

lemma two_login_conflict:
  "\<exists>t. handleLogin (two_platform (serving defaultRoots example_folder_tree)) ''e'' ''a'' (replicate 32 1) two_worker =
      Some (Inr (LOGIN_SUCCESS [\<lparr>pi_id = ''p2'', pi_name = ''Work''\<rparr>] (Some \<lparr>localOnly = 1, serverOnly = 0\<rparr>) None None), t)"
proof -
  let ?X = "two_platform (serving defaultRoots example_folder_tree)" and ?s = "two_worker\<lparr>g_auth := two_account (g_auth two_worker)\<rparr>"
  have "auth_p2 (g_auth ?s)" "g_db ?s = g_db two_worker" "\<not> g_syncPaused ?s" "\<not> g_pushPaused ?s" "\<not> g_resyncRequested ?s"
    "g_pendingSwitchProfileId ?s = None" by (simp_all, simp_all add: two_worker_def fresh_with_def)
  from two_load [OF this, of "serving defaultRoots example_folder_tree" False True] obtain s2 n where on: "on_p2 [2] s2"
    and e: "initializeDocs ?X ''p2'' False True ?s =
     bindP (bindP (syncFrom ?X ''p2'' n True False) (\<lambda>_.
       bindP (importDiffP ?X) (\<lambda>diff. retP (if localOnly diff > 0 then Return (Some diff) None else Continue)))) (\<lambda>res. case res of Return p b \<Rightarrow> retP (p, b)
         | Continue \<Rightarrow> bindP (reconcileP ?X) (\<lambda>_. bindP attachP (\<lambda>_. retP (None, None)))) s2"
    by auto
  from on_p2_steps(1) [OF on] obtain s3 where s3: "syncFrom ?X ''p2'' n True False s2 = Some (Inr (), s3)" "on_p2 [2] s3" by blast
  have "initializeDocs ?X ''p2'' False True ?s = Some (Inr (Some \<lparr>localOnly = 1, serverOnly = 0\<rparr>, None), s3)"
    unfolding e using s3(1) two_diff(2) [OF s3(2)] by simp
  then show ?thesis by (simp add: two_login loginReply_def setPendingImport_def)
qed

lemma login_conflict_waits_for_user_witness:
  "\<exists>t diff. handleLogin (two_platform (serving defaultRoots example_folder_tree)) ''e'' ''a'' (replicate 32 1) two_worker =
      Some (Inr (LOGIN_SUCCESS [\<lparr>pi_id = ''p2'', pi_name = ''Work''\<rparr>] (Some diff) None None), t)
     \<and> g_sse t = None \<and> g_pendingImport t = Some (''p2'', diff)"
proof -
  obtain t where t: "handleLogin (two_platform (serving defaultRoots example_folder_tree)) ''e'' ''a'' (replicate 32 1) two_worker =
      Some (Inr (LOGIN_SUCCESS [\<lparr>pi_id = ''p2'', pi_name = ''Work''\<rparr>] (Some \<lparr>localOnly = 1, serverOnly = 0\<rparr>) None None), t)"
    using two_login_conflict by blast
  have "g_sse two_worker = None" by (simp add: two_worker_def fresh_with_def)
  with login_conflict_waits_for_user [OF t] t show ?thesis by auto
qed

lemma two_overwrite:
  assumes "on_p2 d s" and "g_pendingImport s = Some (p, diff)"
  shows "\<exists>t. handleResolveImport (two_platform empty_browser) Overwrite e name None s = Some (Inr (RESOLVE_IMPORT_SUCCESS None None), t)"
proof -
  let ?X = "two_platform empty_browser"
  let ?s = "s\<lparr>g_pendingImport := None, g_auth := (g_auth s)\<lparr>sstore := (sstore (g_auth s))\<lparr>ss_pendingImport := None\<rparr>\<rparr>\<rparr>"
  let ?s1 = "putDb (saveSnapshot p (loro_exportSnapshot byte_loro d) (g_db s)) ?s"
  have on: "on_p2 d ?s1"
    using assms(1)
    by (simp add: on_p2_def auth_p2_def theDoc_def putDb_def getJwt_def getEncryptionKey_def getActiveProfileId_def isLoggedIn_def
        isLocked_def split: if_splits)
  then have "persistSnapshot ?X p ?s = Some (Inr (), ?s1)"
    by (simp add: persistSnapshot_def exportSnapshotP_def exportSnapshot_def loroDoc_def dbP_def on_p2_def theDoc_def putDb_def
        split: if_splits)
  moreover from on_p2_reconcile [OF on] obtain s2 where "reconcileP ?X ?s1 = Some (Inr (), s2)" "on_p2 d s2" by blast
  moreover from on_p2_steps(2) [OF this(2)] obtain s3 where "attachP s2 = Some (Inr (), s3)" and s3: "on_p2 d s3" by blast
  moreover from s3 have "on_p2 d (s3\<lparr>g_icon := IconDefault\<rparr>)" by (simp add: on_p2_def theDoc_def split: if_splits)
  from on_p2_steps(3) [OF this] obtain s4 where "startSync (s3\<lparr>g_icon := IconDefault\<rparr>) = Some (Inr (), s4)" by blast
  ultimately show ?thesis
    using assms(2)
    by (simp add: handleResolveImport_def setPendingImport_def browserRootsReady_def orReply_def orElse_def Let_def bindP_assoc
        io_laws importOverwrite_def catchP_def setIconLocked_def setIcon_def)
qed

lemma logout_keeps_conflict_witness:
  "\<exists>t q u. handleMessage (two_platform empty_browser) [] GET_STATUS t = Some (Inr (statusOf t), t)
     \<and> g_pendingImport t = Some (''p1'', \<lparr>localOnly = 3, serverOnly = 0\<rparr>)
     \<and> handleMessage (two_platform empty_browser) [] (RESOLVE_IMPORT Overwrite None None None) t = Some (q, u)
     \<and> loadSnapshot (g_db two_worker) ''p1'' = Some [1] \<and> loadSnapshot (g_db u) ''p1'' = Some [2]"
proof -
  let ?X = "two_platform empty_browser" and ?diff = "\<lparr>localOnly = 3, serverOnly = 0\<rparr>"
  let ?s = "two_worker\<lparr>g_pendingImport := Some (''p1'', ?diff)\<rparr>"
  obtain r s1 where out: "handleLogout ?X False ?s = Some (r, s1)" and db: "g_db s1 = g_db two_worker"
    and fl: "\<not> g_syncPaused s1" "\<not> g_pushPaused s1" "\<not> g_resyncRequested s1" "g_pendingSwitchProfileId s1 = None"
    by (simp add: handleLogout_def stopRealtimeSync_def detachP_def dbP_def setIcon_def putDb_def putBridge_def clearDeltaQueue_def
        two_worker_def fresh_with_def saveSnapshot_def emptyDb_def)
  from two_login_quiet [OF db fl] obtain t where t: "handleLogin ?X ''e'' ''a'' (replicate 32 1) s1 =
      Some (Inr (LOGIN_SUCCESS [\<lparr>pi_id = ''p2'', pi_name = ''Work''\<rparr>] None None (Some False)), t)" and on: "on_p2 [2] t" by blast
  have d: "theDoc t = Some [2]" using on by (simp add: on_p2_def)
  have p: "g_pendingImport ?s = Some (''p1'', ?diff)" by simp
  have "waiting_as ?s t" by (rule conflict_after_login [OF out t])
  then have pt: "g_pendingImport t = Some (''p1'', ?diff)" by (simp add: waiting_as_def)
  obtain q u where u: "handleMessage ?X [] (RESOLVE_IMPORT Overwrite None None None) t = Some (q, u)"
    using two_overwrite [OF on pt, of None None] by auto
  from logout_keeps_conflict [OF p out t _ d u] pt u show ?thesis
    by (auto simp: byte_loro_def two_worker_def loadSnapshot_def saveSnapshot_def)
qed

subsection \<open>A restart of the worker while the user decides\<close>

text \<open>A browser that can delete: the state says whether its only bookmark, below the bar, is there.\<close>

definition one_bookmark :: "bool chrome" where
  "one_bookmark =
     \<lparr>ch_getTree = (\<lambda>w. [TreeNode ''0'' None (Some 0) [] None
        [TreeNode ''1'' (Some ''0'') (Some 0) ''Bar'' None
          (if w then [TreeNode ''x'' (Some ''1'') (Some 0) ''x'' (Some ''http://a'') []] else [])]]),
      ch_get = (\<lambda>i w. Inl (JsError ''refused'')), ch_getChildren = (\<lambda>i w. Inl (JsError ''refused'')),
      ch_create = (\<lambda>p u t w. (Inl (JsError ''refused''), w)), ch_update = (\<lambda>i u t w. (Inl (JsError ''refused''), w)),
      ch_move = (\<lambda>i p j w. (Inl (JsError ''refused''), w)), ch_removeTree = (\<lambda>i w. (Inr (), w \<and> i \<noteq> ''x''))\<rparr>"

definition one_worker :: "(bytes, bool, unit) bg" where
  "one_worker = (fresh_with byte_loro True)\<lparr>g_world := \<lparr>w_bridge = emptyBridge byte_loro, w_db = g_db two_worker,
     w_browser = True, w_ignore = 0\<rparr>\<rparr>"

lemma one_walk:
  "managedWalk defaultRoots (ch_getTree one_bookmark True) = [TreeNode ''x'' (Some ''1'') (Some 0) ''x'' (Some ''http://a'') []]"
  by (simp add: one_bookmark_def managedWalk.simps defaultRoots_def isAnyRootId_def CANONICAL_ROOT_IDS_def excluded_def isVirtualRootId_def)

lemma one_diff:
  assumes "on_p2 d s" and "w_browser (g_world s)"
  shows "importDiffP (two_platform one_bookmark) s = Some (Inr \<lparr>localOnly = 1, serverOnly = 0\<rparr>, s)"
proof -
  have b: "bookmarks byte_loro (g_bridge s) = []" by (simp add: bookmarks_def byte_loro_def)
  from assms b one_walk show ?thesis
    by (simp add: importDiffP_def withDoc_def loroDoc_def on_p2_def computeLocalImportDiff_def Let_def newSet_def truthyUrls_def
        serverUrlsOf_def two_platform_def example_with_def)
qed

text \<open>A reconcile with an empty mapping removes the bookmark.\<close>

lemma one_reconcile:
  assumes "on_p2 d s" and "w_browser (g_world s)"
  shows "\<exists>t. reconcileP (two_platform one_bookmark) s = Some (Inr (), t) \<and> \<not> w_browser (g_world t) \<and> g_auth t = g_auth s
     \<and> g_pendingImport t = g_pendingImport s"
proof -
  let ?n = "TreeNode ''x'' (Some ''1'') (Some 0) ''x'' (Some ''http://a'') []" and ?w = "g_world s"
  have drop: "dropOrphans m [] = []" for m by (rule dropOrphans_same) simp
  have create: "toCreate [] b = []" for b :: "bytes bridge" by (rule toCreate_none) simp
  have cur: "currentChrome defaultRoots (ch_getTree one_bookmark True) = [(''x'', ?n)]"
    by (simp add: currentChrome_def one_walk)
  have keys: "map fst (objectEntries [(''x'', ?n)]) = [''x'']"
    by (simp add: objectEntries_def)
  have l: "loroToChrome (w_bridge ?w) = []" using assms(1) by (simp add: on_p2_def)
  have "\<exists>b. reconcileBody byte_loro one_bookmark defaultRoots a [] [(''x'', ?n)] (?w\<lparr>w_ignore := k\<rparr>) =
      (Inr (), ?w\<lparr>w_ignore := k, w_browser := False, w_bridge := b\<rparr>)" for a k
    using assms(2) l
    by (simp add: reconcileBody_def bindA_def keys drop create deleteOne_def browserA_def one_bookmark_def Let_def) blast
  then obtain b where body: "reconcileBody byte_loro one_bookmark defaultRoots (g_auth s) [] [(''x'', ?n)] (?w\<lparr>w_ignore := w_ignore ?w + 1\<rparr>) =
      (Inr (), ?w\<lparr>w_ignore := w_ignore ?w + 1, w_browser := False, w_bridge := b\<rparr>)" by blast
  have bm: "bookmarks byte_loro (g_bridge s) = []" by (simp add: bookmarks_def byte_loro_def)
  have "getActiveProfileId (g_auth s) = Inr ''p2''" using assms(1) by (simp add: on_p2_def auth_p2_def)
  then have "\<exists>w. reconcile byte_loro one_bookmark defaultRoots (g_auth s) ?w = (Inr (), w) \<and> \<not> w_browser w"
    using body bm cur assms(2)
    by (simp add: reconcile_def Let_def withEchoFilter_def bindA_def saveMappingA_def saveMapping_def)
  then obtain w where "reconcile byte_loro one_bookmark defaultRoots (g_auth s) ?w = (Inr (), w)" "\<not> w_browser w" by blast
  then have "reconcileP (two_platform one_bookmark) s = Some (Inr (), s\<lparr>g_world := w\<rparr>)"
    using assms(1)
    by (simp add: reconcileP_def withDoc_def loroDoc_def on_p2_def worldP_def reconcileBookmarks_def two_platform_def example_with_def)
  with \<open>\<not> w_browser w\<close> show ?thesis by simp
qed

lemma one_login:
  "\<exists>t. handleLogin (two_platform one_bookmark) ''e'' ''a'' (replicate 32 1) one_worker =
      Some (Inr (LOGIN_SUCCESS [\<lparr>pi_id = ''p2'', pi_name = ''Work''\<rparr>] (Some \<lparr>localOnly = 1, serverOnly = 0\<rparr>) None None), t)
     \<and> w_browser (g_world t) \<and> g_db t = g_db two_worker
     \<and> g_auth t = (two_account freshAuth)\<lparr>sstore := (sstore (two_account freshAuth))\<lparr>ss_pendingImport :=
         Some (''p2'', \<lparr>localOnly = 1, serverOnly = 0\<rparr>)\<rparr>\<rparr>"
proof -
  let ?X = "two_platform one_bookmark" and ?s = "one_worker\<lparr>g_auth := two_account (g_auth one_worker)\<rparr>"
  have w: "g_auth one_worker = freshAuth" "w_browser (g_world one_worker)" by (simp_all add: one_worker_def fresh_with_def)
  have "auth_p2 (g_auth ?s)" "g_db ?s = g_db two_worker" "\<not> g_syncPaused ?s" "\<not> g_pushPaused ?s" "\<not> g_resyncRequested ?s"
    "g_pendingSwitchProfileId ?s = None" by (simp_all, simp_all add: one_worker_def fresh_with_def)
  from two_load [OF this, of one_bookmark False True] obtain s2 n where on: "on_p2 [2] s2"
    and g2: "w_browser (g_world s2)" "g_db s2 = g_db two_worker" "g_auth s2 = two_account freshAuth"
    and e: "initializeDocs ?X ''p2'' False True ?s =
     bindP (bindP (syncFrom ?X ''p2'' n True False) (\<lambda>_.
       bindP (importDiffP ?X) (\<lambda>diff. retP (if localOnly diff > 0 then Return (Some diff) None else Continue)))) (\<lambda>res. case res of Return p b \<Rightarrow> retP (p, b)
         | Continue \<Rightarrow> bindP (reconcileP ?X) (\<lambda>_. bindP attachP (\<lambda>_. retP (None, None)))) s2"
    using w by (auto simp: one_worker_def)
  from on_p2_steps(1) [OF on] obtain s3 where s3: "syncFrom ?X ''p2'' n True False s2 = Some (Inr (), s3)" "on_p2 [2] s3"
    "g_world s3 = g_world s2" "g_auth s3 = g_auth s2" by blast
  have "initializeDocs ?X ''p2'' False True ?s = Some (Inr (Some \<lparr>localOnly = 1, serverOnly = 0\<rparr>, None), s3)"
    unfolding e using s3 g2 one_diff [OF s3(2)] by simp
  then show ?thesis using s3 g2 by (simp add: two_login loginReply_def setPendingImport_def)
qed

text \<open>
  A restart of the service worker does not wait for the user, although the conflict is read back
  from session storage: after a login that found a local bookmark the account does not have, the
  startup of the next worker reconciles and the bookmark is gone, while the popup still asks what
  to do with it.
\<close>

theorem restart_discards_conflict:
  "\<exists>s1 s2. handleLogin (two_platform one_bookmark) ''e'' ''a'' (replicate 32 1) one_worker =
      Some (Inr (LOGIN_SUCCESS [\<lparr>pi_id = ''p2'', pi_name = ''Work''\<rparr>] (Some \<lparr>localOnly = 1, serverOnly = 0\<rparr>) None None), s1)
     \<and> w_browser (g_world s1)
     \<and> startup (two_platform one_bookmark) (workerRestart s1) = Some (Inr (), s2)
     \<and> g_pendingImport s2 = Some (''p2'', \<lparr>localOnly = 1, serverOnly = 0\<rparr>) \<and> \<not> w_browser (g_world s2)"
proof -
  let ?X = "two_platform one_bookmark" and ?diff = "\<lparr>localOnly = 1, serverOnly = 0\<rparr>"
  let ?a1 = "(two_account freshAuth)\<lparr>sstore := (sstore (two_account freshAuth))\<lparr>ss_pendingImport := Some (''p2'', ?diff)\<rparr>\<rparr>"
  obtain s1 where s1: "handleLogin ?X ''e'' ''a'' (replicate 32 1) one_worker =
      Some (Inr (LOGIN_SUCCESS [\<lparr>pi_id = ''p2'', pi_name = ''Work''\<rparr>] (Some ?diff) None None), s1)"
    and w1: "w_browser (g_world s1)" "g_db s1 = g_db two_worker" "g_auth s1 = ?a1"
    using one_login by blast
  obtain a where a: "restoreFromSessionStorage (swRestart ?a1) = (True, a)" and p2: "auth_p2 a"
    and parked: "ss_pendingImport (sstore a) = Some (''p2'', ?diff)"
    using two_sealed
    by (simp add: restoreFromSessionStorage_def swRestart_def two_account_def setSession_def freshAuth_def emptyLocal_def
        emptySession_def orElse_def truthy_iff importKey_def auth_p2_def getJwt_def getEncryptionKey_def getActiveProfileId_def
        isLoggedIn_def isLocked_def Let_def)
  let ?s = "(workerRestart s1)\<lparr>g_auth := a, g_icon := IconDefault, g_pendingImport := Some (''p2'', ?diff)\<rparr>"
  have "auth_p2 (g_auth ?s)" "g_db ?s = g_db two_worker" "\<not> g_syncPaused ?s" "\<not> g_pushPaused ?s" "\<not> g_resyncRequested ?s"
    "g_pendingSwitchProfileId ?s = None"
    using p2 w1 by (simp_all add: workerRestart_def)
  from two_load [OF this, of one_bookmark True False] obtain s2 n where on: "on_p2 [2] s2" and g2: "w_browser (g_world s2)"
    and e: "initializeDocs ?X ''p2'' True False ?s =
     bindP (bindP (syncFrom ?X ''p2'' n False False) (\<lambda>_. retP Continue)) (\<lambda>res. case res of Return p b \<Rightarrow> retP (p, b)
         | Continue \<Rightarrow> bindP (reconcileP ?X) (\<lambda>_. bindP attachP (\<lambda>_. retP (None, None)))) s2"
    using w1 by (auto simp: workerRestart_def)
  from on_p2_steps(1) [OF on] obtain s3 where s3: "syncFrom ?X ''p2'' n False False s2 = Some (Inr (), s3)" "on_p2 [2] s3"
    "w_browser (g_world s3)" using g2 by metis
  from one_reconcile [OF s3(2,3)] obtain s4 where s4: "reconcileP ?X s3 = Some (Inr (), s4)" "\<not> w_browser (g_world s4)" by blast
  obtain s5 where s5: "attachP s4 = Some (Inr (), s5)" "w_browser (g_world s5) = w_browser (g_world s4)"
    by (simp add: attachP_def detachP_def putBridge_def)
  have i: "initializeDocs ?X ''p2'' True False ?s = Some (Inr (None, None), s5)"
    unfolding e using s3(1) s4(1) s5(1) by simp
  have "waiting_as ?s s5" by (rule keepsD [OF waiting_init i]) (simp add: waiting_as_def)
  then have "g_pendingImport s5 = Some (''p2'', ?diff)" by (simp add: waiting_as_def)
  moreover have "startup ?X (workerRestart s1) = Some (Inr (), s5)"
  proof -
    have "g_auth (workerRestart s1) = swRestart ?a1" using w1 by (simp add: workerRestart_def)
    with a i p2 parked show ?thesis
      by (simp add: startup_def browserRootsReady_def catchP_def auth_p2_def setIconLocked_def setIcon_def bindP_getP
          bindP_def [of "\<lambda>s. case restoreFromSessionStorage _ of _ \<Rightarrow> _ _"])
  qed
  ultimately show ?thesis using s1 w1 s4 s5 by blast
qed

end
