(* ===== verification/Background_Replies.thy ===== *)
theory Background_Replies
  imports Background_Conflict
begin

text \<open>
  The protocol of the messages, which types.ts leaves to the handlers: what every message can be
  answered with, and which handlers can throw, so that the popup gets no answer at all.
\<close>

subsection \<open>How an action ends\<close>

text \<open>An action that returns a value returns one in Q; it throws only if R.\<close>

definition yields :: "('a \<Rightarrow> bool) \<Rightarrow> bool \<Rightarrow> ('s, 'a) io \<Rightarrow> bool" where
  "yields Q R m \<longleftrightarrow> (\<forall>s r t. m s = Some (r, t) \<longrightarrow> (case r of Inl e \<Rightarrow> R | Inr x \<Rightarrow> Q x))"

named_theorems yields_intros \<open>rules that show how an action ends\<close>

lemma yieldsI: "(\<And>s r t. m s = Some (r, t) \<Longrightarrow> case r of Inl e \<Rightarrow> R | Inr x \<Rightarrow> Q x) \<Longrightarrow> yields Q R m"
  by (simp add: yields_def)

lemma yieldsD: "yields Q R m \<Longrightarrow> m s = Some (r, t) \<Longrightarrow> case r of Inl e \<Rightarrow> R | Inr x \<Rightarrow> Q x"
  unfolding yields_def by blast

lemma yields_value: "yields Q R m \<Longrightarrow> m s = Some (Inr x, t) \<Longrightarrow> Q x"
  by (auto dest: yieldsD)

lemma yields_anything [yields_intros]: "yields (\<lambda>x. True) True m"
  by (auto simp: yields_def split: sum.split)

lemma yields_basic [yields_intros]:
  "Q x \<Longrightarrow> yields Q R (retP x)" "(\<And>s. Q (f s)) \<Longrightarrow> yields Q R (getP f)" "yields (\<lambda>x. True) R (setP g)"
  "R \<Longrightarrow> yields Q R (throwP e)"
  by (auto simp: yields_def)

lemma yields_bind: "yields (\<lambda>x. True) R m \<Longrightarrow> (\<And>x. yields Q R (f x)) \<Longrightarrow> yields Q R (bindP m f)"
  by (rule yieldsI, erule bindP_SomeE) (auto dest: yieldsD)

lemma yields_catch: "yields Q True m \<Longrightarrow> (\<And>e. yields Q R (h e)) \<Longrightarrow> yields Q R (catchP m h)"
  by (rule yieldsI, erule catchP_SomeE) (auto dest: yieldsD)

lemma yields_if [yields_intros]: "yields Q R m1 \<Longrightarrow> yields Q R m2 \<Longrightarrow> yields Q R (if b then m1 else m2)"
  by simp

lemma yields_option [yields_intros]:
  "yields Q R m1 \<Longrightarrow> (\<And>y. yields Q R (m2 y)) \<Longrightarrow> yields Q R (case v of None \<Rightarrow> m1 | Some y \<Rightarrow> m2 y)"
  by (cases v) auto

lemma yields_prod [yields_intros]: "(\<And>x y. yields Q R (f x y)) \<Longrightarrow> yields Q R (case v of (x, y) \<Rightarrow> f x y)"
  by (cases v) auto

lemma yields_orReply: "yields Q True m \<Longrightarrow> (\<And>txt. Q (err txt)) \<Longrightarrow> yields Q R (orReply X err m)"
  unfolding orReply_def by (intro yields_catch yields_basic)

lemma logout_answer: "handleLogout X False s = Some (r, t) \<Longrightarrow> r = Inr LOGOUT_SUCCESS"
  using logout_result [of X False s] by auto

lemma yields_logout: "yields (\<lambda>r. r = LOGOUT_SUCCESS) False (handleLogout X False)"
  by (rule yieldsI) (auto dest!: logout_answer)

lemma yields_quiet [yields_intros]:
  "yields (\<lambda>x. True) R stopRealtimeSync" "yields (\<lambda>x. True) R detachP" "yields (\<lambda>x. True) R (setIconLocked b)"
  "yields (\<lambda>x. True) R (setPendingImport v)"
  by (auto simp: yields_def stopRealtimeSync_def detachP_def setIconLocked_def setIcon_def setPendingImport_def)

lemma yields_resume: "yields (\<lambda>x. True) False resumeSync"
proof (rule yieldsI)
  fix s r t assume "resumeSync s = Some (r, t)"
  then show "case r of Inl e \<Rightarrow> False | Inr x \<Rightarrow> True"
    by (auto simp: resumeSync_def resumePushesP_def startSync_def connectEventStream_def startPush_def postJob_def isLoggedIn_def
        getActiveProfileId_def getJwt_def split: if_splits)
qed

lemmas yields_rules = yields_bind yields_catch yields_orReply yields_intros

subsection \<open>The answers\<close>

fun answers :: "ext_message \<Rightarrow> ext_response \<Rightarrow> bool" where
  "answers (LOGIN x1 x2 x3) res = (case res of LOGIN_SUCCESS y1 y2 y3 y4 \<Rightarrow> True | LOGIN_ERROR e \<Rightarrow> True | _ \<Rightarrow> False)"
| "answers (UNLOCK x1) res = (case res of UNLOCK_SUCCESS y1 y2 y3 \<Rightarrow> True | UNLOCK_ERROR e \<Rightarrow> True | _ \<Rightarrow> False)"
| "answers (CHANGE_PASSWORD x1 x2 x3) res = (case res of CHANGE_PASSWORD_SUCCESS \<Rightarrow> True | CHANGE_PASSWORD_ERROR e \<Rightarrow> True | _ \<Rightarrow> False)"
| "answers (RESOLVE_LOCKED_CHANGES x1) res = (case res of RESOLVE_SUCCESS \<Rightarrow> True | RESOLVE_ERROR e \<Rightarrow> True | _ \<Rightarrow> False)"
| "answers (RESOLVE_IMPORT x1 x2 x3 x4) res =
     (case res of RESOLVE_IMPORT_SUCCESS y1 y2 \<Rightarrow> True | RESOLVE_IMPORT_ERROR e \<Rightarrow> True | _ \<Rightarrow> False)"
| "answers LOCK res = (res = LOCK_SUCCESS)"
| "answers (LOGOUT x1) res = (res = LOGOUT_SUCCESS)"
| "answers GET_STATUS res = (case res of STATUS st \<Rightarrow> True | _ \<Rightarrow> False)"
| "answers (SWITCH_PROFILE x1) res = (case res of SWITCH_SUCCESS \<Rightarrow> True | SWITCH_ERROR e \<Rightarrow> True | _ \<Rightarrow> False)"
| "answers (CREATE_PROFILE x1) res = (case res of CREATE_PROFILE_SUCCESS y1 \<Rightarrow> True | CREATE_PROFILE_ERROR e \<Rightarrow> True | _ \<Rightarrow> False)"
| "answers (DELETE_PROFILE x1) res = (case res of DELETE_PROFILE_SUCCESS \<Rightarrow> True | DELETE_PROFILE_ERROR e \<Rightarrow> True | _ \<Rightarrow> False)"
| "answers (RENAME_PROFILE x1 x2) res = (case res of RENAME_PROFILE_SUCCESS y1 \<Rightarrow> True | RENAME_PROFILE_ERROR e \<Rightarrow> True | _ \<Rightarrow> False)"
| "answers (SET_SESSION_TIMEOUT x1) res = (res = SET_SESSION_TIMEOUT_SUCCESS)"
| "answers SYNC res = (case res of SYNC_SUCCESS y1 y2 \<Rightarrow> True | SYNC_ERROR e \<Rightarrow> True | LOGOUT_SUCCESS \<Rightarrow> True | _ \<Rightarrow> False)"
| "answers (RECOMPUTE_IMPORT_DIFF x1) res =
     (case res of RECOMPUTE_IMPORT_DIFF_SUCCESS y1 \<Rightarrow> True | RECOMPUTE_IMPORT_DIFF_ERROR e \<Rightarrow> True | _ \<Rightarrow> False)"
| "answers (EXPORT_PROFILE x1) res = (case res of EXPORT_PROFILE_SUCCESS y1 \<Rightarrow> True | EXPORT_PROFILE_ERROR e \<Rightarrow> True | _ \<Rightarrow> False)"
| "answers (DELETE_ACCOUNT x1) res = (case res of DELETE_ACCOUNT_SUCCESS \<Rightarrow> True | DELETE_ACCOUNT_ERROR e \<Rightarrow> True | _ \<Rightarrow> False)"

text \<open>Clearing the bookmarks, settling a switch and the guard of a profile deletion stand outside every try.\<close>

definition mayThrow :: "ext_message \<Rightarrow> bool" where
  "mayThrow msg \<longleftrightarrow> msg = LOGOUT (Some True) \<or> (\<exists>i. msg = SWITCH_PROFILE i) \<or> (\<exists>i. msg = DELETE_PROFILE i)"

lemma yields_login: "yields (answers (LOGIN a b c)) R (handleLogin X mail auth wrapping)"
  unfolding handleLogin_def openSession_def loginReply_def by (intro yields_rules) auto

lemma yields_unlock: "yields (answers (UNLOCK a)) R (handleUnlock X key)"
  unfolding handleUnlock_def by (intro yields_rules) auto

lemma yields_resolve: "yields (answers (RESOLVE_LOCKED_CHANGES a)) R (handleResolveLockedChanges X apply)"
  unfolding handleResolveLockedChanges_def by (intro yields_rules) auto

lemma yields_resolve_import: "yields (answers (RESOLVE_IMPORT a b c d)) R (handleResolveImport X choice excl name target)"
  unfolding handleResolveImport_def Let_def by (intro yields_rules) auto

lemma yields_recompute: "yields (answers (RECOMPUTE_IMPORT_DIFF a)) R (handleRecomputeImportDiff X p)"
  unfolding handleRecomputeImportDiff_def by (intro yields_rules) auto

lemma yields_password: "yields (answers (CHANGE_PASSWORD a b c)) R (handleChangePassword X x y z)"
proof -
  have "yields (\<lambda>x. True) False (handleLogout X False)"
    using yields_logout [of X] by (auto simp: yields_def split: sum.splits)
  then have c: "yields (answers (CHANGE_PASSWORD a b c)) False (changeCredentials X x y z)"
    unfolding changeCredentials_def by (intro yields_rules) auto
  have "yields (answers (CHANGE_PASSWORD a b c)) R (finallyP (changeCredentials X x y z) resumeSync)"
  proof (rule yieldsI)
    fix s r t assume "finallyP (changeCredentials X x y z) resumeSync s = Some (r, t)"
    then show "case r of Inl e \<Rightarrow> R | Inr x \<Rightarrow> answers (CHANGE_PASSWORD a b c) x"
      by (rule finallyP_SomeE) (use yieldsD [OF c] yieldsD [OF yields_resume] in \<open>force split: sum.splits\<close>)
  qed
  then show ?thesis unfolding handleChangePassword_def by (intro yields_rules)
qed

lemma yields_sync: "yields (answers SYNC) R (handleSync X)"
proof -
  have out: "yields (answers SYNC) Q (handleLogout X False)" for Q
    by (rule yieldsI) (auto dest!: logout_answer)
  show ?thesis
    unfolding handleSync_def syncLocked_def syncUnlocked_def by (intro yields_rules out) auto
qed

lemma yields_lists:
  "yields (answers (CREATE_PROFILE a)) R (handleCreateProfile X name)"
  "yields (answers (RENAME_PROFILE a b)) R (handleRenameProfile X p name)"
  "yields (answers (DELETE_PROFILE a)) True (handleDeleteProfile X p)"
  "yields (answers (EXPORT_PROFILE a)) R (handleExportProfile X p)"
  "yields (answers (DELETE_ACCOUNT a)) R (handleDeleteAccount X auth)"
  unfolding handleCreateProfile_def handleRenameProfile_def handleDeleteProfile_def handleExportProfile_def handleDeleteAccount_def Let_def
  by (intro yields_rules; simp)+

lemma yields_switch: "yields (answers (SWITCH_PROFILE a)) True (handleSwitchProfile X arrivals p)"
proof -
  have q: "yields (answers (SWITCH_PROFILE a)) True (queueSwitch p)"
    unfolding queueSwitch_def by (intro yields_rules) simp
  have d: "yields (answers (SWITCH_PROFILE a)) True
      (catchP (bindP (drainSwitches X arrivals p) (\<lambda>_. retP SWITCH_SUCCESS)) (\<lambda>e. retP (SWITCH_ERROR (errorString (x_domText X) e))))"
    by (intro yields_rules) simp_all
  show ?thesis
  proof (rule yieldsI)
    fix s r t assume e: "handleSwitchProfile X arrivals p s = Some (r, t)"
    show "case r of Inl e \<Rightarrow> True | Inr x \<Rightarrow> answers (SWITCH_PROFILE a) x"
    proof (cases "isLocked (g_auth s) \<or> g_switchInProgress s")
      case True
      with e yieldsD [OF q] show ?thesis by (auto simp: handleSwitchProfile_def split: if_splits)
    next
      case False
      with e have "finallyP (catchP (bindP (drainSwitches X arrivals p) (\<lambda>_. retP SWITCH_SUCCESS))
          (\<lambda>e. retP (SWITCH_ERROR (errorString (x_domText X) e)))) switchSettled (s\<lparr>g_switchInProgress := True\<rparr>) = Some (r, t)"
        by (simp add: handleSwitchProfile_def)
      then show ?thesis
        by (rule finallyP_SomeE) (use yieldsD [OF d] in \<open>force split: sum.splits\<close>)
    qed
  qed
qed

lemma yields_lock: "yields (answers LOCK) R handleLock"
  unfolding handleLock_def by (intro yields_rules) simp

lemma yields_logout_clear: "yields (answers (LOGOUT a)) True (handleLogout X c)"
  unfolding handleLogout_def by (intro yields_rules) simp



end
