(* ===== verification/Popup_Correct.thy ===== *)
theory Popup_Correct
  imports Popup Background_Replies
begin

text \<open>
  The popup and the background together. The popup keeps its own copy of two facts of the
  session, whether somebody is logged in and whether the session is locked; what it relies on is
  stated as the interface \<^verbatim>\<open>session_service\<close>, which the background is shown to provide. Then
  the places where the copy and the session part.
\<close>

subsection \<open>What the popup relies on\<close>

definition agrees :: "('b \<Rightarrow> bool) \<Rightarrow> ('b \<Rightarrow> bool) \<Rightarrow> popup \<times> 'b \<Rightarrow> bool" where
  "agrees loggedIn locked s \<longleftrightarrow> p_isLoggedIn (fst s) = loggedIn (snd s) \<and> p_isLocked (fst s) = locked (snd s)"

text \<open>The actions that open, close or ask for the session.\<close>

datatype session_action = Startup | SignIn | Unlock | LockNow | SignOut | SignOutAndClear | DeleteAccount | SyncNow

primrec runAction :: "'b popup_env \<Rightarrow> session_action \<Rightarrow> ('b, unit) ui" where
  "runAction E Startup = popupStartup E"
| "runAction E SignIn = login E"
| "runAction E Unlock = unlock E"
| "runAction E LockNow = lock E"
| "runAction E SignOut = logout E"
| "runAction E SignOutAndClear = logoutAndClear E"
| "runAction E DeleteAccount = deleteAccount E"
| "runAction E SyncNow = syncNow E"

lemma ui_simps [simp, io_simps]:
  "modP f (p, b) = Some (Inr (), (f p, b))" "lookP g (p, b) = Some (Inr (g p), (p, b))"
  "envP h (p, b) = Some (Inr (h b), (p, b))"
  by (simp_all add: modP_def lookP_def envP_def)

lemma setLabel_simp [simp, io_simps]: "setLabel l (p, b) = Some (Inr (), (p\<lparr>p_loadingLabel := l\<rparr>, b))"
  by (simp add: setLabel_def)

lemma reply_flags [simp]:
  "p_isLoggedIn (onLoginReply (LOGIN_SUCCESS ps imp boot new) p)" "\<not> p_isLocked (onLoginReply (LOGIN_SUCCESS ps imp boot new) p)"
  "onLoginReply (LOGIN_ERROR err) p = p\<lparr>p_error := Some err\<rparr>"
  "p_isLoggedIn (onUnlockReply res p) = p_isLoggedIn p" "\<not> p_isLocked (onUnlockReply (UNLOCK_SUCCESS active ps changes) p)"
  "onUnlockReply (UNLOCK_ERROR err) p = p\<lparr>p_error := Some err\<rparr>"
  by (simp_all add: onLoginReply_def onUnlockReply_def openImport_def Let_def split: ext_response.split)

lemma status_flags [simp]:
  "p_isLoggedIn (onStatus st p) = st_isLoggedIn st" "p_isLocked (onStatus st p) = st_isLocked st"
  by (simp_all add: onStatus_def openImport_def Let_def)

text \<open>The steps of a \<^verbatim>\<open>try\<close> block one by one.\<close>

lemma try_step:
  "m s = Some (Inr x, s1) \<Longrightarrow> catchP (bindP m f) h s = catchP (f x) h s1"
  "m s = Some (Inl e, s1) \<Longrightarrow> catchP (bindP m f) h s = h e s1"
  "m s = None \<Longrightarrow> catchP (bindP m f) h s = None"
  by (simp_all add: catchP_def)

locale session_service =
  fixes serve :: "ext_message \<Rightarrow> ('b, ext_response) io"
    and loggedIn :: "'b \<Rightarrow> bool"
    and locked :: "'b \<Rightarrow> bool"
  assumes answers: "serve msg b = Some (r, b') \<Longrightarrow> \<exists>res. r = Inr res"
    and status: "serve GET_STATUS b = Some (Inr res, b') \<Longrightarrow>
      b' = b \<and> (\<exists>st. res = STATUS st \<and> st_isLoggedIn st = loggedIn b \<and> st_isLocked st = locked b)"
    and log_in: "serve (LOGIN mail auth wrapping) b = Some (Inr res, b') \<Longrightarrow>
      (\<exists>err. res = LOGIN_ERROR err) \<or> (\<exists>ps imp boot new. res = LOGIN_SUCCESS ps imp boot new) \<and> loggedIn b' \<and> \<not> locked b'"
    and un_lock: "serve (UNLOCK key) b = Some (Inr res, b') \<Longrightarrow>
      (\<exists>err. res = UNLOCK_ERROR err) \<or> (\<exists>active ps changes. res = UNLOCK_SUCCESS active ps changes) \<and> loggedIn b' \<and> \<not> locked b'"
    and to_lock: "serve LOCK b = Some (Inr res, b') \<Longrightarrow> loggedIn b' = loggedIn b \<and> locked b' = loggedIn b"
    and log_out: "serve (LOGOUT (Some clear)) b = Some (Inr res, b') \<Longrightarrow> \<not> loggedIn b' \<and> \<not> locked b'"
    and sync: "serve SYNC b = Some (Inr res, b') \<Longrightarrow>
      (if res = LOGOUT_SUCCESS then \<not> loggedIn b' \<and> \<not> locked b' else loggedIn b' = loggedIn b \<and> locked b' = locked b)"
    and delete: "serve (DELETE_ACCOUNT auth) b = Some (Inr res, b') \<Longrightarrow>
      (if res = DELETE_ACCOUNT_SUCCESS then \<not> loggedIn b' \<and> \<not> locked b' else loggedIn b' = loggedIn b \<and> locked b' = locked b)"
begin

lemma attempt_serve: "attempt serve msg n = serve msg"
proof
  fix b
  show "attempt serve msg n b = serve msg b"
    by (subst attempt.simps) (cases "serve msg b", auto simp: catchP_def dest!: answers)
qed

lemma sendP_serve:
  assumes "pe_sendOnce E = serve"
  shows "sendP E msg (p, b) = (case serve msg b of None \<Rightarrow> None | Some (r, b') \<Rightarrow> Some (r, (p, b')))"
  using assms by (simp add: sendP_def send_def attempt_serve)

text \<open>An action that returns got an answer.\<close>

lemma answered:
  assumes "pe_sendOnce E = serve" and "bindP (sendP E msg) f (p, b) = Some (r, t)"
  obtains res b' where "serve msg b = Some (Inr res, b')" "f res (p, b') = Some (r, t)"
proof (cases "serve msg b")
  case None
  with assms(2) show thesis by (simp add: sendP_serve [OF assms(1)])
next
  case (Some q)
  with answers obtain res b' where q: "serve msg b = Some (Inr res, b')" by (cases q) blast
  with assms(2) have "f res (p, b') = Some (r, t)" by (simp add: sendP_serve [OF assms(1)])
  with q that show thesis by blast
qed

lemma keeps_plain:
  assumes "pe_sendOnce E = serve"
  shows "lock E (p, b) = Some (r, (p', b')) \<Longrightarrow> p_isLoggedIn p \<Longrightarrow> agrees loggedIn locked (p, b) \<Longrightarrow> agrees loggedIn locked (p', b')"
    and "logout E (p, b) = Some (r, (p', b')) \<Longrightarrow> agrees loggedIn locked (p', b')"
    and "logoutAndClear E (p, b) = Some (r, (p', b')) \<Longrightarrow> agrees loggedIn locked (p', b')"
    and "syncNow E (p, b) = Some (r, (p', b')) \<Longrightarrow> agrees loggedIn locked (p, b) \<Longrightarrow> agrees loggedIn locked (p', b')"
proof -
  show "lock E (p, b) = Some (r, (p', b')) \<Longrightarrow> p_isLoggedIn p \<Longrightarrow> agrees loggedIn locked (p, b) \<Longrightarrow> agrees loggedIn locked (p', b')"
    unfolding lock_def by (erule answered [OF assms]) (auto simp: agrees_def dest!: to_lock)
  show "logout E (p, b) = Some (r, (p', b')) \<Longrightarrow> agrees loggedIn locked (p', b')"
    unfolding logout_def by (erule answered [OF assms]) (auto simp: agrees_def afterLogout_def dest!: log_out)
  show "logoutAndClear E (p, b) = Some (r, (p', b')) \<Longrightarrow> agrees loggedIn locked (p', b')"
    unfolding logoutAndClear_def by (erule answered [OF assms]) (auto simp: agrees_def afterLogout_def dest!: log_out)
  show "syncNow E (p, b) = Some (r, (p', b')) \<Longrightarrow> agrees loggedIn locked (p, b) \<Longrightarrow> agrees loggedIn locked (p', b')"
    unfolding syncNow_def
    by (simp, erule answered [OF assms])
       (auto simp: agrees_def onSyncReply_def onSynced_def signedOut_def dest!: sync split: ext_response.splits if_splits)
qed

lemma answered_try:
  assumes "pe_sendOnce E = serve" and "catchP (bindP (sendP E msg) f) h (p, b) = Some (r, t)"
  obtains res b' where "serve msg b = Some (Inr res, b')" "catchP (f res) h (p, b') = Some (r, t)"
proof (cases "serve msg b")
  case None
  with assms(2) show thesis by (simp add: sendP_serve [OF assms(1)] try_step)
next
  case (Some q)
  with answers obtain res b' where q: "serve msg b = Some (Inr res, b')" by (cases q) blast
  with assms(2) have "catchP (f res) h (p, b') = Some (r, t)" by (simp add: sendP_serve [OF assms(1)] try_step)
  with q that show thesis by blast
qed

text \<open>What the background answered to a sign-in, an unlock and a deletion, and what the popup made of it.\<close>

lemma login_answer:
  assumes "pe_sendOnce E = serve" and "login E (p, b) = Some (r, (p', b'))"
  defines "keys \<equiv> deriveKeys (pe_crypto E) (p_password p) (p_email p)"
  obtains res where "serve (LOGIN (p_email p) (authKey keys) (wrappingKeyBytes keys)) b = Some (Inr res, b')"
    and "p' = onLoginReply res (p\<lparr>p_error := None, p_loadingLabel := ''Authenticating...'', p_loading := False\<rparr>)"
proof -
  from assms(2) have "catchP (bindP (sendP E (LOGIN (p_email p) (authKey keys) (wrappingKeyBytes keys)))
      (\<lambda>res. bindP (modP (\<lambda>p. p\<lparr>p_loading := False\<rparr>)) (\<lambda>_. modP (onLoginReply res)))) (failLoading E)
      (p\<lparr>p_loading := True, p_error := None, p_loadingLabel := ''Authenticating...''\<rparr>, b) = Some (r, (p', b'))"
    unfolding login_def keys_def by (simp add: try_step)
  then obtain res where "serve (LOGIN (p_email p) (authKey keys) (wrappingKeyBytes keys)) b = Some (Inr res, b')"
    and "p' = onLoginReply res (p\<lparr>p_error := None, p_loadingLabel := ''Authenticating...'', p_loading := False\<rparr>)"
    by (rule answered_try [OF assms(1)]) (simp add: try_step)
  with that show thesis .
qed

lemma unlock_answer:
  assumes "pe_sendOnce E = serve" and "unlock E (p, b) = Some (r, (p', b'))"
    and "unlockKey (pe_crypto E) (p_password p) (p_email p) (pe_stored E b) = Inr k"
  obtains res where "serve (UNLOCK k) b = Some (Inr res, b')"
    and "p' = onUnlockReply res (p\<lparr>p_error := None, p_loadingLabel := ''Unlocking...'', p_loading := False\<rparr>)"
proof -
  from assms(2,3) have "catchP (bindP (sendP E (UNLOCK k))
      (\<lambda>res. bindP (modP (\<lambda>p. p\<lparr>p_loading := False\<rparr>)) (\<lambda>_. modP (onUnlockReply res)))) (failLoading E)
      (p\<lparr>p_loading := True, p_error := None, p_loadingLabel := ''Unlocking...''\<rparr>, b) = Some (r, (p', b'))"
    unfolding unlock_def by (simp add: try_step)
  then obtain res where "serve (UNLOCK k) b = Some (Inr res, b')"
    and "p' = onUnlockReply res (p\<lparr>p_error := None, p_loadingLabel := ''Unlocking...'', p_loading := False\<rparr>)"
    by (rule answered_try [OF assms(1)]) (simp add: try_step)
  with that show thesis .
qed

lemma delete_answer:
  assumes "pe_sendOnce E = serve" and "deleteAccount E (p, b) = Some (r, (p', b'))" and "p_deleteAccountPassword p \<noteq> []"
  obtains res where "serve (DELETE_ACCOUNT (authKey (deriveKeys (pe_crypto E) (p_deleteAccountPassword p) (p_email p)))) b = Some (Inr res, b')"
    and "p' = (onDeleteAccountReply res (p\<lparr>p_deleteAccountLoading := True, p_deleteAccountError := None\<rparr>))\<lparr>p_deleteAccountLoading := False\<rparr>"
proof -
  let ?m = "catchP (bindP (lookP (\<lambda>p'. deriveKeys (pe_crypto E) (p_deleteAccountPassword p) (p_email p'))) (\<lambda>keys.
      bindP (sendP E (DELETE_ACCOUNT (authKey keys))) (\<lambda>res. modP (onDeleteAccountReply res))))
      (\<lambda>err. modP (\<lambda>p. p\<lparr>p_deleteAccountError := Some (errorMessage (pe_domText E) err)\<rparr>))"
  from assms(2,3) have "finallyP ?m (modP (\<lambda>p. p\<lparr>p_deleteAccountLoading := False\<rparr>))
      (p\<lparr>p_deleteAccountLoading := True, p_deleteAccountError := None\<rparr>, b) = Some (r, (p', b'))"
    by (simp add: deleteAccount_def)
  then obtain q p1 where m: "?m (p\<lparr>p_deleteAccountLoading := True, p_deleteAccountError := None\<rparr>, b) = Some (q, (p1, b'))"
    and p': "p' = p1\<lparr>p_deleteAccountLoading := False\<rparr>"
    by (rule finallyP_SomeE) (auto simp: modP_def split: prod.splits)
  from m that p' show thesis
    by (simp add: try_step, elim answered_try [OF assms(1)]) (auto simp: catchP_def)
qed

lemma keeps_login:
  assumes "pe_sendOnce E = serve" and "login E (p, b) = Some (r, (p', b'))" and "p_error p' = None"
  shows "agrees loggedIn locked (p', b')"
proof (rule login_answer [OF assms(1,2)])
  fix res assume q: "serve (LOGIN (p_email p) (authKey (deriveKeys (pe_crypto E) (p_password p) (p_email p)))
        (wrappingKeyBytes (deriveKeys (pe_crypto E) (p_password p) (p_email p)))) b = Some (Inr res, b')"
    and p': "p' = onLoginReply res (p\<lparr>p_error := None, p_loadingLabel := ''Authenticating...'', p_loading := False\<rparr>)"
  from log_in [OF q] show ?thesis using p' assms(3) by (auto simp: agrees_def)
qed

lemma keeps_unlock:
  assumes "pe_sendOnce E = serve" and "unlock E (p, b) = Some (r, (p', b'))" and "p_error p' = None"
    and "p_isLoggedIn p"
  shows "agrees loggedIn locked (p', b')"
proof (cases "unlockKey (pe_crypto E) (p_password p) (p_email p) (pe_stored E b)")
  case (Inl e)
  with assms(2,3) show ?thesis by (auto simp: unlock_def try_step failLoading_def)
next
  case (Inr k)
  show ?thesis
  proof (rule unlock_answer [OF assms(1,2) Inr])
    fix res assume q: "serve (UNLOCK k) b = Some (Inr res, b')"
      and p': "p' = onUnlockReply res (p\<lparr>p_error := None, p_loadingLabel := ''Unlocking...'', p_loading := False\<rparr>)"
    from un_lock [OF q] show ?thesis using p' assms(3,4) by (auto simp: agrees_def)
  qed
qed

lemma keeps_delete_account:
  assumes "pe_sendOnce E = serve" and "deleteAccount E (p, b) = Some (r, (p', b'))" and "agrees loggedIn locked (p, b)"
  shows "agrees loggedIn locked (p', b')"
proof (cases "p_deleteAccountPassword p = []")
  case True
  with assms(2,3) show ?thesis by (auto simp: deleteAccount_def agrees_def)
next
  case False
  show ?thesis
  proof (rule delete_answer [OF assms(1,2) False])
    fix res assume q: "serve (DELETE_ACCOUNT (authKey (deriveKeys (pe_crypto E) (p_deleteAccountPassword p) (p_email p)))) b = Some (Inr res, b')"
      and p': "p' = (onDeleteAccountReply res (p\<lparr>p_deleteAccountLoading := True, p_deleteAccountError := None\<rparr>))\<lparr>p_deleteAccountLoading := False\<rparr>"
    from delete [OF q] show ?thesis
      using p' assms(3) by (auto simp: agrees_def onDeleteAccountReply_def split: ext_response.splits if_splits)
  qed
qed

lemma keeps_startup:
  assumes "pe_sendOnce E = serve" and "popupStartup E (p, b) = Some (r, (p', b'))"
  shows "agrees loggedIn locked (p', b')"
proof -
  let ?m = "bindP (sendP E GET_STATUS) (onStatusReply E)"
  let ?rest = "\<lambda>sync. bindP (modP (\<lambda>p. p\<lparr>p_initializing := False\<rparr>)) (\<lambda>_.
     whenP sync (catchP (bindP (sendP E SYNC) (\<lambda>res. modP (onSyncReply res))) (\<lambda>_. retP ())))"
  from assms(2) have run: "bindP (catchP ?m (\<lambda>_. retP False)) ?rest (p, b) = Some (r, (p', b'))"
    by (simp add: popupStartup_def)
  then obtain q u where "?m (p, b) = Some (q, u)" by (cases "?m (p, b)") (auto simp: bindP_def catchP_def)
  then obtain res b1 where g: "serve GET_STATUS b = Some (Inr res, b1)"
    by (rule answered [OF assms(1)])
  from status [OF g] obtain st where st: "b1 = b" "res = STATUS st" "st_isLoggedIn st = loggedIn b" "st_isLocked st = locked b"
    by blast
  let ?sync = "st_isLoggedIn st \<and> \<not> st_isLocked st \<and> st_pendingChanges st = None \<and> st_pendingImport st = None"
  have m: "?m (p, b) = Some (Inr ?sync, (onStatus st p, b))"
    using g st(1,2) by (simp add: sendP_serve [OF assms(1)] onStatusReply_def bindP_def modP_def)
  have "catchP ?m (\<lambda>_. retP False) (p, b) = Some (Inr ?sync, (onStatus st p, b))"
    unfolding catchP_def m by simp
  with run have rest: "?rest ?sync (onStatus st p, b) = Some (r, (p', b'))" unfolding bindP_def by simp
  show ?thesis
  proof (cases ?sync)
    case False
    with rest st(3,4) show ?thesis by (simp add: whenP_def agrees_def) auto
  next
    case True
    with rest have "catchP (bindP (sendP E SYNC) (\<lambda>res. modP (onSyncReply res))) (\<lambda>_. retP ())
        ((onStatus st p)\<lparr>p_initializing := False\<rparr>, b) = Some (r, (p', b'))" by (simp add: whenP_def)
    then obtain rep where y: "serve SYNC b = Some (Inr rep, b')"
      and p': "p' = onSyncReply rep ((onStatus st p)\<lparr>p_initializing := False\<rparr>)"
      by (rule answered_try [OF assms(1)]) (simp add: catchP_def)
    from sync [OF y] p' st(3,4) show ?thesis
      by (auto simp: agrees_def onSyncReply_def onSynced_def signedOut_def split: ext_response.splits if_splits)
  qed
qed

text \<open>The copy stays true through the actions that do not fail.\<close>

lemma stays_in_step:
  assumes "pe_sendOnce E = serve" and "runAction E a (p, b) = Some (r, (p', b'))" and "agrees loggedIn locked (p, b)"
    and "a = LockNow \<or> a = Unlock \<Longrightarrow> p_isLoggedIn p" and "a = SignIn \<or> a = Unlock \<Longrightarrow> p_error p' = None"
  shows "agrees loggedIn locked (p', b')"
  using assms(2-)
  by (cases a) (auto intro: keeps_plain [OF assms(1)] keeps_login [OF assms(1)] keeps_unlock [OF assms(1)]
      keeps_delete_account [OF assms(1)] keeps_startup [OF assms(1)])

end

subsection \<open>The background provides it\<close>

text \<open>
  The listener of the background: a handler that throws is logged and never answered.
\<close>

definition backgroundOf :: "('d, 'w, 'n) platform \<Rightarrow> ext_message \<Rightarrow> (('d, 'w, 'n) bg, ext_response) io" where
  "backgroundOf X msg s =
     (case handleMessage X [] msg s of
        Some (Inr res, t) \<Rightarrow> Some (Inr res, t)
      | _ \<Rightarrow> None)"

lemma backgroundOf_Some:
  "backgroundOf X msg s = Some (r, t) \<Longrightarrow> \<exists>res. r = Inr res \<and> handleMessage X [] msg s = Some (Inr res, t)"
  by (auto simp: backgroundOf_def split: option.splits sum.splits)

definition flags_as :: "bool \<Rightarrow> bool \<Rightarrow> ('d, 'w, 'n) bg \<Rightarrow> bool" where
  "flags_as l k s \<longleftrightarrow> isLoggedIn (g_auth s) = l \<and> isLocked (g_auth s) = k"

interpretation flags: doc_invariant "flags_as l k" for l k
  by unfold_locales (auto simp: flags_as_def blind_def)

lemma flags_pull: "keeps (flags_as l k) (syncFrom X p n skip exclusive)"
  by (rule flags.syncFrom_keeps) (simp add: flags_as_def)

lemma flags_init: "keeps (flags_as l k) (initializeDocs X p merge check)"
  by (rule flags.initializing_if) (rule flags_pull)

lemma flags_parking: "keeps (flags_as l k) (setPendingImport v)"
  by (rule keepsI) (auto simp: setPendingImport_def flags_as_def isLoggedIn_def isLocked_def)

lemma flags_login_reply: "keeps (flags_as l k) (loginReply ps active isNew pending boot)"
  unfolding loginReply_def by (intro keeps_option keeps_bind flags_parking flags.tearing_down flags.starting keeps_basic)

lemma login_law:
  assumes "handleLogin X mail auth wrapping s = Some (Inr res, t)"
  shows "(\<exists>err. res = LOGIN_ERROR err) \<or> (\<exists>ps imp boot new. res = LOGIN_SUCCESS ps imp boot new) \<and> flags_as True False t"
proof -
  let ?m = "\<lambda>wk. bindP (loginOrRegister X mail auth wk) (\<lambda>(token, ps, psk, isNewAccount).
        openSession X mail wk token ps psk isNewAccount)"
  have "(\<exists>err. res = LOGIN_ERROR err) \<or> (\<exists>wk. ?m wk s = Some (Inr res, t))"
    using assms unfolding handleLogin_def
    by (elim catchP_SomeE) (cases "importKey wrapping", auto)
  then show ?thesis
  proof (elim disjE exE)
    fix wk assume "?m wk s = Some (Inr res, t)"
    from bindP_ok [OF this] obtain token ps psk isNew s1 where
      o: "openSession X mail wk token ps psk isNew s1 = Some (Inr res, t)" by auto
    from o obtain pk sk key imp boot s2 and p :: profileInfo where
      i: "initializeDocs X (pi_id p) False True (s1\<lparr>g_auth := setSession token mail key sk pk [] ps (pi_id p) (g_auth s1)\<rparr>) =
           Some (Inr (imp, boot), s2)"
      and l: "loginReply ps (pi_id p) isNew imp boot s2 = Some (Inr res, t)"
      by (rule openSession_success) blast
    have "flags_as True False (s1\<lparr>g_auth := setSession token mail key sk pk [] ps (pi_id p) (g_auth s1)\<rparr>)"
      by (simp add: flags_as_def setSession_def isLoggedIn_def isLocked_def)
    from keepsD [OF flags_login_reply l keepsD [OF flags_init i this]] have "flags_as True False t" .
    moreover have "yields (\<lambda>r. \<exists>ps imp boot new. r = LOGIN_SUCCESS ps imp boot new) True (loginReply ps (pi_id p) isNew imp boot)"
      unfolding loginReply_def by (intro yields_rules) auto
    from yields_value [OF this l] have "\<exists>ps imp boot new. res = LOGIN_SUCCESS ps imp boot new" .
    ultimately show ?thesis by blast
  qed simp
qed

lemma unlock_law:
  assumes "handleUnlock X key s = Some (Inr res, t)"
  shows "(\<exists>err. res = UNLOCK_ERROR err)
    \<or> (\<exists>active ps changes. res = UNLOCK_SUCCESS active ps changes) \<and> flags_as True False t"
proof -
  let ?Q = "\<lambda>r. \<exists>active ps changes. r = UNLOCK_SUCCESS active ps changes"
  define rest where "rest = (\<lambda>u :: unit.
       bindP (askP (\<lambda>s. getActiveProfileId (g_auth s))) (\<lambda>profileId.
        bindP (loadMappingP profileId) (\<lambda>_.
        bindP (getP (\<lambda>s. loadSnapshot (g_db s) profileId)) (\<lambda>stored.
        bindP (case stored of
                 None \<Rightarrow> retP None
               | Some storedSnapshot \<Rightarrow>
                   bindP (initDocP X (Some storedSnapshot)) (\<lambda>_.
                   bindP (resetVersionCursorP X) (\<lambda>_.
                   bindP (offlineChangesP X) (\<lambda>changes.
                   retP (if anyChange changes then Some changes else None))))) (\<lambda>pending.
          case pending of
            Some changes \<Rightarrow>
              bindP (setP (\<lambda>s. s\<lparr>g_pendingChanges := Some changes, g_pendingUnlockProfileId := Some profileId\<rparr>)) (\<lambda>_.
              bindP (setIconLocked True) (\<lambda>_.
              getP (\<lambda>s. UNLOCK_SUCCESS (getActiveProfile (g_auth s)) (getProfiles (g_auth s)) (Some changes))))
          | None \<Rightarrow>
              bindP (setP (\<lambda>s. s\<lparr>g_pendingChanges := None, g_pendingUnlockProfileId := None\<rparr>)) (\<lambda>_.
              bindP (initializeDocs X profileId True False) (\<lambda>_.
              bindP (setIconLocked False) (\<lambda>_.
              bindP startSync (\<lambda>_.
              getP (\<lambda>s. UNLOCK_SUCCESS (getActiveProfile (g_auth s)) (getProfiles (g_auth s)) None))))))))))"
  have k: "keeps (flags_as True False) (rest u)" for u
    unfolding rest_def
    by (intro keeps_bind keeps_option flags.calls flags_init flags.tearing_down flags.starting keeps_basic keeps_set keeps_ask)
       (simp_all add: flags_as_def)
  have q: "yields ?Q True (rest u)" for u
    unfolding rest_def by (intro yields_rules) auto
  have "(\<exists>err. res = UNLOCK_ERROR err)
    \<or> bindP (browserRootsReady X) (\<lambda>_. bindP (liftP (importKey key)) (\<lambda>k. bindP (authP (setEncryptionKey k key)) rest)) s = Some (Inr res, t)"
    using assms unfolding handleUnlock_def rest_def [symmetric] by (elim catchP_SomeE) auto
  then show ?thesis
  proof (elim disjE exE)
    assume "bindP (browserRootsReady X) (\<lambda>_. bindP (liftP (importKey key)) (\<lambda>k. bindP (authP (setEncryptionKey k key)) rest)) s
      = Some (Inr res, t)"
    then obtain k s1 u s2 where a: "authP (setEncryptionKey k key) s1 = Some (Inr u, s2)" and r: "rest u s2 = Some (Inr res, t)"
      by (auto dest!: bindP_ok)
    from a have "flags_as True False s2"
      by (auto simp: authP_def setEncryptionKey_def flags_as_def isLoggedIn_def isLocked_def split: option.splits)
    from keepsD [OF k r this] yields_value [OF q r] show ?thesis by blast
  qed simp
qed

lemma logout_flags: "handleLogout X c s = Some (r, t) \<Longrightarrow> flags_as False False t"
  using logout_result [of X c s] by (auto simp: flags_as_def isLoggedIn_def isLocked_def)

lemma lock_flags: "handleLock s = Some (r, t) \<Longrightarrow> flags_as (isLoggedIn (g_auth s)) (isLoggedIn (g_auth s)) t"
  by (auto simp: handleLock_def stopRealtimeSync_def detachP_def setIconLocked_def setIcon_def putBridge_def flags_as_def
      lockSession_def isLoggedIn_def isLocked_def split: option.splits)

text \<open>A sync ends the session, and says so, or leaves it as it is.\<close>

definition synced_as :: "bool \<Rightarrow> bool \<Rightarrow> js_error + ext_response \<Rightarrow> ('d, 'w, 'n) bg \<Rightarrow> bool" where
  "synced_as l k r t \<longleftrightarrow> (if r = Inr LOGOUT_SUCCESS then flags_as False False t else flags_as l k t)"

lemma expired_flags: "handleLogout X False s = Some (r, t) \<Longrightarrow> r = Inr LOGOUT_SUCCESS \<and> flags_as False False t"
  using logout_result [of X False s] logout_flags [of X False s r t] by auto

lemma updateProfiles_flags: "isLoggedIn (updateProfiles ps a) = isLoggedIn a" "isLocked (updateProfiles ps a) = isLocked a"
  by (auto simp: updateProfiles_def storeProfiles_def isLoggedIn_def isLocked_def split: option.splits)

lemma syncUnlocked_flags:
  assumes "flags_as l k s" and "syncUnlocked X s = Some (r, t)"
  shows "flags_as l k t \<and> r \<noteq> Inr LOGOUT_SUCCESS"
proof
  have missed: "keeps (flags_as l k) (detectMissed X p)" for p
    unfolding detectMissed_def by (rule keeps_test [OF _ keeps_skip]) (intro flags.calls)
  have "keeps (flags_as l k) (syncUnlocked X)"
    unfolding syncUnlocked_def
    by (intro keeps_bind keeps_ask missed flags.calls flags_pull keeps_basic keeps_set)
       (simp add: flags_as_def updateProfiles_flags)
  from keepsD [OF this assms(2,1)] show "flags_as l k t" .
  have "yields (\<lambda>x. x \<noteq> LOGOUT_SUCCESS) True (syncUnlocked X)"
    unfolding syncUnlocked_def by (intro yields_rules) auto
  with assms(2) show "r \<noteq> Inr LOGOUT_SUCCESS" by (auto dest: yields_value)
qed

lemma syncLocked_flags:
  assumes "flags_as l k s" and "syncLocked X s = Some (r, t)"
  shows "synced_as l k r t"
proof -
  let ?m = "bindP (askP (\<lambda>s. getJwt (g_auth s))) (\<lambda>token. bindP (netP (\<lambda>_. apiGetProfiles (x_fetch X) token)) (\<lambda>_.
        retP (SYNC_ERROR ''Session is locked - please unlock to sync.'')))"
  have k: "keeps (flags_as l k) ?m" by (intro keeps_bind keeps_ask flags.calls keeps_basic)
  have q: "yields (\<lambda>x. x \<noteq> LOGOUT_SUCCESS) True ?m" by (intro yields_rules) auto
  from assms(2) show ?thesis
    unfolding syncLocked_def
  proof (rule catchP_SomeE)
    fix x assume "?m s = Some (Inr x, t)" "r = Inr x"
    with keepsD [OF k _ assms(1)] yields_value [OF q] show ?thesis by (auto simp: synced_as_def)
  next
    fix e s1 assume m: "?m s = Some (Inl e, s1)" and h: "(if isAuthExpired e then handleLogout X False else throwP e) s1 = Some (r, t)"
    from keepsD [OF k m assms(1)] h show ?thesis
      by (auto simp: synced_as_def dest: expired_flags split: if_splits)
  qed
qed

lemma handleSync_flags:
  assumes "flags_as l k s" and "handleSync X s = Some (r, t)"
  shows "synced_as l k r t"
proof -
  let ?m = "bindP (getP (\<lambda>s. isLocked (g_auth s))) (\<lambda>locked. if locked then syncLocked X else syncUnlocked X)"
  have m: "synced_as l k q u" if "?m s = Some (q, u)" for q u
    using that syncLocked_flags [OF assms(1), of X q u] syncUnlocked_flags [OF assms(1), of X q u]
    by (auto simp: bindP_getP synced_as_def split: if_splits)
  from assms(2) show ?thesis
    unfolding handleSync_def
  proof (rule catchP_SomeE)
    fix x assume "?m s = Some (Inr x, t)" "r = Inr x"
    with m show ?thesis by blast
  next
    fix e s1 assume "?m s = Some (Inl e, s1)"
      and h: "(if isAuthExpired e then handleLogout X False else retP (SYNC_ERROR (errorMessage (x_domText X) e))) s1 = Some (r, t)"
    from m [OF this(1)] h show ?thesis
      by (auto simp: synced_as_def dest: expired_flags split: if_splits)
  qed
qed

lemma delete_account_flags:
  assumes "handleDeleteAccount X auth s = Some (Inr res, t)"
  shows "(if res = DELETE_ACCOUNT_SUCCESS then flags_as False False t else g_auth t = g_auth s)"
proof (cases "getJwt (g_auth s)")
  case (Inl e)
  with assms show ?thesis by (auto simp: handleDeleteAccount_def try_step)
next
  case (Inr token)
  obtain q u where n: "netP (\<lambda>_. apiDeleteAccount (x_fetch X) token auth) s = Some (q, u)" and a: "g_auth u = g_auth s"
    by (cases "apiDeleteAccount (x_fetch X) token auth (g_net s)") (simp add: netP_def)
  show ?thesis
  proof (cases q)
    case (Inl e)
    with n Inr a assms show ?thesis by (auto simp: handleDeleteAccount_def try_step)
  next
    case (Inr y)
    with n \<open>getJwt (g_auth s) = Inr token\<close> assms show ?thesis
      by (auto simp: handleDeleteAccount_def try_step stopRealtimeSync_def detachP_def dbP_def setIcon_def putDb_def putBridge_def
          flags_as_def clearSession_def isLoggedIn_def isLocked_def)
  qed
qed

interpretation worker: session_service "backgroundOf X" "\<lambda>s. isLoggedIn (g_auth s)" "\<lambda>s. isLocked (g_auth s)" for X
proof
  fix msg s r t mail auth wrapping key res clear
  show "backgroundOf X msg s = Some (r, t) \<Longrightarrow> \<exists>res. r = Inr res"
    by (auto dest: backgroundOf_Some)
  show "backgroundOf X GET_STATUS s = Some (Inr res, t) \<Longrightarrow>
      t = s \<and> (\<exists>st. res = STATUS st \<and> st_isLoggedIn st = isLoggedIn (g_auth s) \<and> st_isLocked st = isLocked (g_auth s))"
    by (auto dest!: backgroundOf_Some simp: statusOf_def)
  show "backgroundOf X (LOGIN mail auth wrapping) s = Some (Inr res, t) \<Longrightarrow>
      (\<exists>err. res = LOGIN_ERROR err)
      \<or> (\<exists>ps imp boot new. res = LOGIN_SUCCESS ps imp boot new) \<and> isLoggedIn (g_auth t) \<and> \<not> isLocked (g_auth t)"
    using login_law [of X mail auth wrapping s res t] by (auto dest!: backgroundOf_Some simp: flags_as_def)
  show "backgroundOf X (UNLOCK key) s = Some (Inr res, t) \<Longrightarrow>
      (\<exists>err. res = UNLOCK_ERROR err)
      \<or> (\<exists>active ps changes. res = UNLOCK_SUCCESS active ps changes) \<and> isLoggedIn (g_auth t) \<and> \<not> isLocked (g_auth t)"
    using unlock_law [of X key s res t] by (auto dest!: backgroundOf_Some simp: flags_as_def)
  show "backgroundOf X LOCK s = Some (Inr res, t) \<Longrightarrow>
      isLoggedIn (g_auth t) = isLoggedIn (g_auth s) \<and> isLocked (g_auth t) = isLoggedIn (g_auth s)"
    by (auto dest!: backgroundOf_Some lock_flags simp: flags_as_def)
  show "backgroundOf X (LOGOUT (Some clear)) s = Some (Inr res, t) \<Longrightarrow> \<not> isLoggedIn (g_auth t) \<and> \<not> isLocked (g_auth t)"
    by (auto dest!: backgroundOf_Some logout_flags simp: flags_as_def)
  show "backgroundOf X SYNC s = Some (Inr res, t) \<Longrightarrow>
      (if res = LOGOUT_SUCCESS then \<not> isLoggedIn (g_auth t) \<and> \<not> isLocked (g_auth t)
       else isLoggedIn (g_auth t) = isLoggedIn (g_auth s) \<and> isLocked (g_auth t) = isLocked (g_auth s))"
    using handleSync_flags [of "isLoggedIn (g_auth s)" "isLocked (g_auth s)" s X "Inr res" t]
    by (auto dest!: backgroundOf_Some simp: synced_as_def flags_as_def split: if_splits)
  show "backgroundOf X (DELETE_ACCOUNT auth) s = Some (Inr res, t) \<Longrightarrow>
      (if res = DELETE_ACCOUNT_SUCCESS then \<not> isLoggedIn (g_auth t) \<and> \<not> isLocked (g_auth t)
       else isLoggedIn (g_auth t) = isLoggedIn (g_auth s) \<and> isLocked (g_auth t) = isLocked (g_auth s))"
    using delete_account_flags [of X auth s res t] by (auto dest!: backgroundOf_Some simp: flags_as_def split: if_splits)
qed

subsection \<open>The popup in step\<close>

text \<open>
  The popup refines the session of the background: when an action of the popup that opens,
  closes, syncs or asks for the session returns -- a sign-in or unlock without an error shown -- the
  popup shows ``logged in'' and ``locked'' exactly as the background's session is; starting the
  popup and signing out establish this from any state.
\<close>

theorem popup_in_step:
  assumes "pe_sendOnce E = backgroundOf X" and "runAction E a (p, s) = Some (r, (p', t))"
    and "a \<in> {Startup, SignOut, SignOutAndClear} \<or> p_isLoggedIn p = isLoggedIn (g_auth s) \<and> p_isLocked p = isLocked (g_auth s)"
    and "a = LockNow \<or> a = Unlock \<Longrightarrow> p_isLoggedIn p" and "a = SignIn \<or> a = Unlock \<Longrightarrow> p_error p' = None"
  shows "p_isLoggedIn p' = isLoggedIn (g_auth t) \<and> p_isLocked p' = isLocked (g_auth t)"
proof -
  have "agrees (\<lambda>s. isLoggedIn (g_auth s)) (\<lambda>s. isLocked (g_auth s)) (p', t)"
  proof (cases "a \<in> {Startup, SignOut, SignOutAndClear}")
    case True
    with assms(2) show ?thesis
      by (auto intro: worker.keeps_startup [OF assms(1)] worker.keeps_plain [OF assms(1)])
  next
    case False
    with assms(3) have "agrees (\<lambda>s. isLoggedIn (g_auth s)) (\<lambda>s. isLocked (g_auth s)) (p, s)" by (auto simp: agrees_def)
    from worker.stays_in_step [OF assms(1,2) this assms(4,5)] show ?thesis .
  qed
  then show ?thesis by (simp add: agrees_def)
qed

definition example_env_of :: "('d, 'w, 'n) platform \<Rightarrow> ('d, 'w, 'n) bg popup_env" where
  "example_env_of X =
     \<lparr>pe_sendOnce = backgroundOf X, pe_crypto = example_webcrypto, pe_iv = replicate 12 7,
      pe_stored = (\<lambda>s. ls_protectedSymmetricKey (lstore (g_auth s))), pe_tree = (\<lambda>s. ch_getTree (x_chrome X) (w_browser (g_world s))),
      pe_dateAdded = (\<lambda>i. None), pe_today = ''2026-01-01'', pe_confirm = True, pe_storeTheme = (\<lambda>t s. s), pe_domText = (\<lambda>e. [])\<rparr>"

lemma popup_in_step_witness:
  "\<exists>p t. runAction (example_env_of (example_platform (serving defaultRoots example_folder_tree))) LockNow
       (freshPopup\<lparr>p_isLoggedIn := True\<rparr>, example_worker ()) = Some (Inr (), (p, t))
     \<and> p_isLoggedIn p = isLoggedIn (g_auth t) \<and> p_isLocked p = isLocked (g_auth t) \<and> p_isLocked p"
proof -
  let ?X = "example_platform (serving defaultRoots example_folder_tree)"
  let ?p = "freshPopup\<lparr>p_isLoggedIn := True\<rparr>"
  have E: "pe_sendOnce (example_env_of ?X) = backgroundOf ?X" by (simp add: example_env_of_def)
  have b: "backgroundOf ?X LOCK (example_worker ()) = Some (Inr LOCK_SUCCESS, the (map_option snd (handleLock (example_worker ()))))"
    by (simp add: backgroundOf_def handleLock_def stopRealtimeSync_def detachP_def setIconLocked_def setIcon_def)
  then have run: "runAction (example_env_of ?X) LockNow (?p, example_worker ()) =
      Some (Inr (), (?p\<lparr>p_isLocked := True, p_password := [], p_pendingChanges := None, p_view := MainView\<rparr>,
        the (map_option snd (handleLock (example_worker ())))))"
    by (simp add: lock_def bindP_def worker.sendP_serve [OF E])
  have "p_isLoggedIn ?p = isLoggedIn (g_auth (example_worker ())) \<and> p_isLocked ?p = isLocked (g_auth (example_worker ()))"
    by (simp add: freshPopup_def example_worker_def example_login_def setSession_def isLoggedIn_def isLocked_def)
  then show ?thesis
    using popup_in_step [OF E run] run by auto
qed

subsection \<open>A new master password\<close>

lemma prepared_password:
  assumes "pe_sendOnce E = backgroundOf X" and "submitPassword E (p, s) = Some (r, (p', t))" and "p_changePwSuccess p'"
  obtains m where "changePassword (pe_crypto E) (pe_iv E) (p_currentPassword p) (p_newPassword p) (p_confirmPassword p)
        (p_email p) (pe_stored E s) = Inr m"
    and "handleChangePassword X (cp_oldAuthKey m) (cp_newAuthKey m) (cp_newPsk m) s = Some (Inr CHANGE_PASSWORD_SUCCESS, t)"
proof (cases "p_newPassword p \<noteq> p_confirmPassword p \<or> length (p_newPassword p) < 1")
  case True
  with assms(2,3) show thesis by (auto simp: submitPassword_def split: if_splits)
next
  case False
  let ?p = "p\<lparr>p_changePwError := None, p_changePwSuccess := False, p_changePwLoading := True\<rparr>"
  let ?c = "changePassword (pe_crypto E) (pe_iv E) (p_currentPassword p) (p_newPassword p) (p_confirmPassword p) (p_email p)
    (pe_stored E s)"
  let ?send = "\<lambda>msg. bindP (sendP E (CHANGE_PASSWORD (cp_oldAuthKey msg) (cp_newAuthKey msg) (cp_newPsk msg)))
      (\<lambda>res. modP (onChangePasswordReply res))"
  let ?m = "catchP (bindP (preparePassword E) ?send)
      (\<lambda>err. modP (\<lambda>p. p\<lparr>p_changePwError := Some (errorMessage (pe_domText E) err)\<rparr>))"
  from False assms(2) have "finallyP ?m (modP (\<lambda>p. p\<lparr>p_changePwLoading := False\<rparr>)) (?p, s) = Some (r, (p', t))"
    by (simp add: submitPassword_def)
  then obtain q p1 where m: "?m (?p, s) = Some (q, (p1, t))" and p1: "p' = p1\<lparr>p_changePwLoading := False\<rparr>"
    by (rule finallyP_SomeE) (auto simp: modP_def split: prod.splits)
  have prep: "preparePassword E (?p, s) = Some (?c, (?p, s))" by (simp add: preparePassword_def)
  show thesis
  proof (cases ?c)
    case (Inl e)
    with m prep p1 assms(3) show thesis by (simp add: try_step) (auto simp: modP_def)
  next
    case (Inr msg)
    with m prep have "catchP (?send msg) (\<lambda>err. modP (\<lambda>p. p\<lparr>p_changePwError := Some (errorMessage (pe_domText E) err)\<rparr>)) (?p, s)
        = Some (q, (p1, t))" by (simp add: try_step)
    then obtain res where b: "backgroundOf X (CHANGE_PASSWORD (cp_oldAuthKey msg) (cp_newAuthKey msg) (cp_newPsk msg)) s = Some (Inr res, t)"
      and "p1 = onChangePasswordReply res ?p"
      by (rule worker.answered_try [OF assms(1)]) (auto simp: catchP_def modP_def)
    with p1 assms(3) have "res = CHANGE_PASSWORD_SUCCESS"
      by (auto simp: onChangePasswordReply_def split: ext_response.splits)
    with b Inr that show thesis by (auto dest!: backgroundOf_Some)
  qed
qed

text \<open>
  C28. A change of the master password, from the form to the stored key: when the popup reports success,
  the new password unlocks what the old one unlocked -- the same data key -- the old one is refused
  (where the two derive different wrapping keys), and the session went on with the new protected key.
\<close>

theorem new_password_opens_the_session:
  assumes gcm: "gcm_roundtrip (pe_crypto E)" "gcm_authentic (pe_crypto E)" "length (pe_iv E) = 12"
    and env: "pe_sendOnce E = backgroundOf X" "pe_stored E = (\<lambda>s. ls_protectedSymmetricKey (lstore (g_auth s)))"
    and run: "submitPassword E (p, s) = Some (r, (p', t))" "p_changePwSuccess p'"
  shows "unlockKey (pe_crypto E) (p_newPassword p) (p_email p) (pe_stored E t)
        = unlockKey (pe_crypto E) (p_currentPassword p) (p_email p) (pe_stored E s)
    \<and> (\<exists>k. unlockKey (pe_crypto E) (p_currentPassword p) (p_email p) (pe_stored E s) = Inr k)
    \<and> (wrappingKeyBytes (deriveKeys (pe_crypto E) (p_currentPassword p) (p_email p))
          \<noteq> wrappingKeyBytes (deriveKeys (pe_crypto E) (p_newPassword p) (p_email p)) \<longrightarrow>
        unlockKey (pe_crypto E) (p_currentPassword p) (p_email p) (pe_stored E t) = Inl (JsError ''Incorrect password.''))
    \<and> map_option protectedSymmetricKey (sess (g_auth t)) = pe_stored E t"
proof -
  obtain m where c: "changePassword (pe_crypto E) (pe_iv E) (p_currentPassword p) (p_newPassword p) (p_confirmPassword p)
        (p_email p) (pe_stored E s) = Inr m"
    and h: "handleChangePassword X (cp_oldAuthKey m) (cp_newAuthKey m) (cp_newPsk m) s = Some (Inr CHANGE_PASSWORD_SUCCESS, t)"
    by (rule prepared_password [OF env(1) run])
  from password_result [OF h] have "pe_stored E t = Some (cp_newPsk m)"
    "map_option protectedSymmetricKey (sess (g_auth t)) = Some (cp_newPsk m)" by (auto simp: env(2))
  with changePassword_keeps_key [OF gcm c] show ?thesis by simp
qed

lemma new_password_opens_the_session_witness:
  "\<exists>p t. submitPassword (example_env_of (example_platform (serving defaultRoots example_folder_tree)))
        (freshPopup\<lparr>p_email := ''A@b.c'', p_currentPassword := ''old'', p_newPassword := ''new'', p_confirmPassword := ''new''\<rparr>,
         (example_worker ())\<lparr>g_auth := example_login\<lparr>lstore := (lstore example_login)\<lparr>ls_protectedSymmetricKey := Some example_psk\<rparr>\<rparr>\<rparr>)
      = Some (Inr (), (p, t))
    \<and> unlockKey example_webcrypto ''new'' ''A@b.c'' (ls_protectedSymmetricKey (lstore (g_auth t))) = Inr [5, 6]
    \<and> unlockKey example_webcrypto ''old'' ''A@b.c'' (ls_protectedSymmetricKey (lstore (g_auth t))) =
        Inl (JsError ''Incorrect password.'')"
proof -
  let ?X = "example_platform (serving defaultRoots example_folder_tree)"
  let ?E = "example_env_of ?X"
  let ?p = "freshPopup\<lparr>p_email := ''A@b.c'', p_currentPassword := ''old'', p_newPassword := ''new'', p_confirmPassword := ''new''\<rparr>"
  let ?s = "(example_worker ())\<lparr>g_auth := example_login\<lparr>lstore := (lstore example_login)\<lparr>ls_protectedSymmetricKey := Some example_psk\<rparr>\<rparr>\<rparr>"
  have E: "pe_sendOnce ?E = backgroundOf ?X" "pe_stored ?E = (\<lambda>s. ls_protectedSymmetricKey (lstore (g_auth s)))"
    "pe_crypto ?E = example_webcrypto" "pe_iv ?E = replicate 12 7" "pe_stored ?E ?s = Some example_psk"
    by (simp_all add: example_env_of_def)
  obtain m where m: "changePassword example_webcrypto (replicate 12 7) ''old'' ''new'' ''new'' ''A@b.c'' (Some example_psk) = Inr m"
    using example_password(3) by blast
  have "\<exists>t. handleChangePassword ?X x y z ?s = Some (Inr CHANGE_PASSWORD_SUCCESS, t)" for x y z
    by (simp add: handleChangePassword_def stopRealtimeSync_def changeCredentials_def finallyP_def pausePushesP_def
        waitForSyncIdle_def netP_def apiChangePassword_def fetchJson_def bindA_def throwIfNotOk_def res_ok_def authP_def
        updateJwt_def updateProtectedSymmetricKey_def resumeSync_def resumePushesP_def startSync_def connectEventStream_def
        startPush_def postJob_def getActiveProfileId_def getJwt_def isLoggedIn_def isLocked_def bindP_def catchP_def
        platform_simps example_worker_def fresh_worker_def fresh_with_def example_login_def setSession_def example_profiles_def)
  then obtain t where "handleChangePassword ?X (cp_oldAuthKey m) (cp_newAuthKey m) (cp_newPsk m) ?s =
      Some (Inr CHANGE_PASSWORD_SUCCESS, t)" by blast
  then have b: "backgroundOf ?X (CHANGE_PASSWORD (cp_oldAuthKey m) (cp_newAuthKey m) (cp_newPsk m)) ?s =
      Some (Inr CHANGE_PASSWORD_SUCCESS, t)" by (simp add: backgroundOf_def)
  let ?q = "?p\<lparr>p_changePwError := None, p_changePwSuccess := False, p_changePwLoading := True\<rparr>"
  have prep: "preparePassword ?E (?q, ?s) = Some (Inr m, (?q, ?s))"
    using m by (simp add: preparePassword_def E)
  have "\<exists>p'. submitPassword ?E (?p, ?s) = Some (Inr (), (p', t)) \<and> p_changePwSuccess p'"
    using prep by (simp add: submitPassword_def finallyP_def try_step worker.sendP_serve [OF E(1)] b onChangePasswordReply_def
        catchP_def bindP_def modP_def)
  then obtain p' where run: "submitPassword ?E (?p, ?s) = Some (Inr (), (p', t))" "p_changePwSuccess p'" by blast
  have g: "gcm_roundtrip (pe_crypto ?E)" "gcm_authentic (pe_crypto ?E)" "length (pe_iv ?E) = 12"
    by (simp_all add: E example_webcrypto_ok)
  from new_password_opens_the_session [OF g E(1,2) run] run example_password show ?thesis
    by (auto simp: E)
qed

end
