(* ===== verification/Popup_Faults.thy ===== *)
theory Popup_Faults
  imports Popup_Correct
begin

text \<open>
  Where the popup and the background part: replies that report an error after the background has
  already gone a step, and errors the popup does not show.
\<close>

subsection \<open>A login that fails late\<close>

lemma late_failure:
  assumes "importKey wrapping = Inr k"
    and "loginOrRegister X mail auth k s = Some (Inr (token, q # qs, Some psk, isNew), s1)"
    and "psk \<noteq> []" and "decrypt (e_crypto (x_env X)) k psk = Inr raw" and "importKey raw = Inr key"
    and "initializeDocs X (pi_id q) False True (s1\<lparr>g_auth := setSession token mail key raw psk [] (q # qs) (pi_id q) (g_auth s1)\<rparr>)
      = Some (Inl e, t)"
  shows "handleLogin X mail auth wrapping s = Some (Inr (LOGIN_ERROR (errorString (x_domText X) e)), t)
    \<and> isLoggedIn (g_auth t) \<and> \<not> isLocked (g_auth t)"
proof -
  have "flags_as True False (s1\<lparr>g_auth := setSession token mail key raw psk [] (q # qs) (pi_id q) (g_auth s1)\<rparr>)"
    by (simp add: flags_as_def setSession_def isLoggedIn_def isLocked_def)
  from keepsD [OF flags_init assms(6) this] have f: "flags_as True False t" .
  have "openSession X mail k token (q # qs) (Some psk) isNew s1 = Some (Inl e, t)"
    using assms(3-6) by (simp add: openSession_def truthy_iff)
  then have "handleLogin X mail auth wrapping s = Some (Inr (LOGIN_ERROR (errorString (x_domText X) e)), t)"
    using assms(1,2) by (simp add: handleLogin_def try_step)
  with f show ?thesis by (simp add: flags_as_def)
qed

text \<open>
  A login whose documents cannot be initialised -- the connection drops after the password was
  accepted -- is answered with an error, and the popup goes on to show the sign-in form; but the
  session is open and unlocked, and the next popup that is opened shows the account as signed in.
\<close>

theorem failed_login_leaves_the_session_open:
  assumes env: "pe_sendOnce E = backgroundOf X" and keys: "keys = deriveKeys (pe_crypto E) (p_password p) (p_email p)"
    and form: "panels p = [LoginPanel]"
    and accepted: "importKey (wrappingKeyBytes keys) = Inr k"
      "loginOrRegister X (p_email p) (authKey keys) k s = Some (Inr (token, q # qs, Some psk, isNew), s1)"
      "psk \<noteq> []" "decrypt (e_crypto (x_env X)) k psk = Inr raw" "importKey raw = Inr key"
    and failed: "initializeDocs X (pi_id q) False True
        (s1\<lparr>g_auth := setSession token (p_email p) key raw psk [] (q # qs) (pi_id q) (g_auth s1)\<rparr>) = Some (Inl e, t)"
  shows "\<exists>p' st. login E (p, s) = Some (Inr (), (p', t))
    \<and> panels p' = [LoginPanel] \<and> p_error p' = Some (errorString (x_domText X) e)
    \<and> isLoggedIn (g_auth t) \<and> \<not> isLocked (g_auth t)
    \<and> backgroundOf X GET_STATUS t = Some (Inr (STATUS st), t)
    \<and> LoginPanel \<notin> set (panels ((onStatus st freshPopup)\<lparr>p_initializing := False\<rparr>))"
proof -
  from late_failure [OF accepted failed] have b: "backgroundOf X (LOGIN (p_email p) (authKey keys) (wrappingKeyBytes keys)) s =
      Some (Inr (LOGIN_ERROR (errorString (x_domText X) e)), t)" and f: "isLoggedIn (g_auth t)" "\<not> isLocked (g_auth t)"
    by (simp_all add: backgroundOf_def)
  obtain p' where run: "login E (p, s) = Some (Inr (), (p', t))" and err: "p_error p' = Some (errorString (x_domText X) e)"
    and same: "panels p' = panels p"
    using b by (simp add: login_def try_step worker.sendP_serve [OF env] keys [symmetric] catchP_def panel_simps)
  obtain st where st: "backgroundOf X GET_STATUS t = Some (Inr (STATUS st), t)" "st_isLoggedIn st"
    using f by (simp add: backgroundOf_def statusOf_def)
  then have "LoginPanel \<notin> set (panels ((onStatus st freshPopup)\<lparr>p_initializing := False\<rparr>))"
    by (simp add: panel_simps)
  with run err same form f st show ?thesis by auto
qed

text \<open>The example: the wait for the browser's roots rejects.\<close>

definition broken_platform :: "(bytes, unit, unit) platform" where
  "broken_platform = (two_platform empty_browser)\<lparr>x_rootsReady := Inl (JsError ''no roots'')\<rparr>"

lemma failed_login_leaves_the_session_open_witness:
  "\<exists>p' t. login (example_env_of broken_platform)
       (freshPopup\<lparr>p_initializing := False, p_email := ''e'', p_password := replicate 32 (CHR 0x01)\<rparr>, two_worker) = Some (Inr (), (p', t))
     \<and> panels p' = [LoginPanel] \<and> p_error p' = Some ''Error: no roots'' \<and> isLoggedIn (g_auth t) \<and> \<not> isLocked (g_auth t)"
proof -
  let ?X = broken_platform and ?E = "example_env_of broken_platform" and ?K = "replicate 32 1 :: bytes"
  let ?p = "freshPopup\<lparr>p_initializing := False, p_email := ''e'', p_password := replicate 32 (CHR 0x01)\<rparr>"
  let ?keys = "deriveKeys (pe_crypto ?E) (p_password ?p) (p_email ?p)"
  let ?q = "\<lparr>pi_id = ''p2'', pi_name = ''Work''\<rparr>" and ?sealed = "encrypt example_webcrypto (replicate 12 7) ?K ?K"
  have E: "pe_sendOnce ?E = backgroundOf ?X" by (simp add: example_env_of_def)
  have w: "wrappingKeyBytes ?keys = ?K"
    by (simp add: example_env_of_def deriveKeys_def example_webcrypto_def Let_def numeral_eq_Suc freshPopup_def)
  have k: "importKey ?K = Inr ?K" by (simp add: importKey_def)
  then have kw: "importKey (wrappingKeyBytes ?keys) = Inr ?K" unfolding w .
  have l: "loginOrRegister ?X (p_email ?p) (authKey ?keys) ?K two_worker = Some (Inr (''t'', [?q], Some ?sealed, False), two_worker)"
    by (simp add: loginOrRegister_def netP_def apiLogin_def bindA_def broken_platform_def two_platform_def example_with_def delta_fetch_def
        example_fetch_def throwIfNotOk_def res_ok_def catchP_def bindP_def)
  have d: "decrypt (e_crypto (x_env ?X)) ?K ?sealed = Inr ?K"
    using decrypt_encrypt [OF example_webcrypto_ok(1)]
    by (simp add: broken_platform_def two_platform_def example_with_def example_env_def)
  have i: "initializeDocs ?X ''p2'' False True u = Some (Inl (JsError ''no roots''), u)" for u
    by (simp add: initializeDocs_def browserRootsReady_def broken_platform_def)
  have f: "panels ?p = [LoginPanel]" by (simp add: panel_simps freshPopup_def)
  have "initializeDocs ?X (pi_id ?q) False True u = Some (Inl (JsError ''no roots''), u)" for u using i by simp
  from failed_login_leaves_the_session_open [OF E refl f kw l two_sealed d k this]
  show ?thesis by (auto simp: errorString_def)
qed

subsection \<open>Changes made while locked\<close>

text \<open>
  When applying or discarding the changes made while locked fails for any other reason than a
  wrong key, the popup shows the lock screen, but the session in the background is as open as
  before, and it no longer asks: a second answer is refused.
\<close>

theorem failed_resolve_locks_only_the_popup:
  assumes env: "pe_sendOnce E = backgroundOf X"
    and pending: "g_pendingUnlockProfileId s = Some pid" "pid \<noteq> []" and unlocked: "isLoggedIn (g_auth s)" "\<not> isLocked (g_auth s)"
    and failed: "completeUnlockInit X pid apply (s\<lparr>g_pendingChanges := None, g_pendingUnlockProfileId := None\<rparr>) = Some (Inl err, t)"
      "err \<noteq> OperationError"
  shows "\<exists>p'. resolveChanges E apply (p, s) = Some (Inr (), (p', t))
    \<and> p_isLocked p' \<and> p_error p' = Some (errorMessage (x_domText X) err)
    \<and> isLoggedIn (g_auth t) \<and> \<not> isLocked (g_auth t)
    \<and> handleMessage X arrivals (RESOLVE_LOCKED_CHANGES again) t = Some (Inr (RESOLVE_ERROR ''No pending unlock to resolve.''), t)"
proof -
  let ?s = "s\<lparr>g_pendingChanges := None, g_pendingUnlockProfileId := None\<rparr>"
  have "keeps (flags_as True False) (completeUnlockInit X pid apply)"
    unfolding completeUnlockInit_def by (intro keeps_intros flags.calls flags_pull flags.tearing_down)
  from keepsD [OF this failed(1)] unlocked have f: "isLoggedIn (g_auth t)" "\<not> isLocked (g_auth t)"
    by (simp_all add: flags_as_def)
  have "keeps (waiting_as ?s) (completeUnlockInit X pid apply)"
    unfolding completeUnlockInit_def by (intro keeps_intros waiting.calls waiting_pull waiting.tearing_down)
  from keepsD [OF this failed(1)] have n: "g_pendingUnlockProfileId t = None" by (simp add: waiting_as_def)
  have "handleResolveLockedChanges X apply s = Some (Inr (RESOLVE_ERROR (errorMessage (x_domText X) err)), t)"
    using pending failed by (simp add: handleResolveLockedChanges_def bindP_getP truthy_iff try_step)
  then have "backgroundOf X (RESOLVE_LOCKED_CHANGES apply) s = Some (Inr (RESOLVE_ERROR (errorMessage (x_domText X) err)), t)"
    by (simp add: backgroundOf_def)
  with f n show ?thesis
    by (simp add: resolveChanges_def bindP_def modP_def worker.sendP_serve [OF env] handleResolveLockedChanges_def Let_def)
qed

lemma failed_resolve_locks_only_the_popup_witness:
  "\<exists>p'. resolveChanges (example_env_of broken_platform) True
       (freshPopup, (two_worker)\<lparr>g_pendingUnlockProfileId := Some ''p1''\<rparr>) =
       Some (Inr (), (p', two_worker\<lparr>g_pendingChanges := None, g_pendingUnlockProfileId := None\<rparr>))
     \<and> p_isLocked p' \<and> \<not> isLocked (g_auth two_worker)"
proof -
  let ?s = "two_worker\<lparr>g_pendingUnlockProfileId := Some ''p1''\<rparr>"
  have E: "pe_sendOnce (example_env_of broken_platform) = backgroundOf broken_platform" by (simp add: example_env_of_def)
  have u: "isLoggedIn (g_auth ?s)" "\<not> isLocked (g_auth ?s)"
    by (simp_all add: two_worker_def fresh_with_def example_login_def setSession_def isLoggedIn_def isLocked_def)
  have "completeUnlockInit broken_platform ''p1'' True (?s\<lparr>g_pendingChanges := None, g_pendingUnlockProfileId := None\<rparr>) =
      Some (Inl (JsError ''no roots''), two_worker\<lparr>g_pendingChanges := None, g_pendingUnlockProfileId := None\<rparr>)"
    by (simp add: completeUnlockInit_def browserRootsReady_def broken_platform_def)
  from failed_resolve_locks_only_the_popup [OF E _ _ u this] show ?thesis by auto
qed

subsection \<open>The import conflict\<close>

lemma resolve_import_forgets:
  assumes "handleResolveImport X choice excl name target s = Some (r, t)" and "g_pendingImport s = Some v"
  shows "g_pendingImport t = None"
proof -
  let ?s = "s\<lparr>g_pendingImport := None, g_auth := (g_auth s)\<lparr>sstore := (sstore (g_auth s))\<lparr>ss_pendingImport := None\<rparr>\<rparr>\<rparr>"
  obtain orig diff where v: "v = (orig, diff)" by (cases v)
  define m where "m = orReply X RESOLVE_IMPORT_ERROR
             (bindP (browserRootsReady X) (\<lambda>_.
              let targetProfileId = orElse target orig
              in bindP (case choice of
                     Overwrite \<Rightarrow> bindP (importOverwrite X orig targetProfileId) (\<lambda>_. retP None)
                   | Merge \<Rightarrow> bindP (importMerge X orig targetProfileId (orElse excl True)) (\<lambda>_. retP None)
                   | NewProfile \<Rightarrow> bindP (importNewProfile X orig name) (\<lambda>p. retP (Some p))) (\<lambda>created.
                 bindP (setIconLocked False) (\<lambda>_.
                 bindP startSync (\<lambda>_.
                 if created \<noteq> None then retP (RESOLVE_IMPORT_SUCCESS created None)
                 else getP (\<lambda>s. RESOLVE_IMPORT_SUCCESS None
                   (if targetProfileId \<noteq> orig then getActiveProfile (g_auth s) else None)))))))"
  have e: "m ?s = Some (r, t)"
    using assms by (simp add: handleResolveImport_def setPendingImport_def v m_def)
  have "keeps (waiting_as ?s) m"
    unfolding m_def orReply_def Let_def
    by (intro keeps_intros waiting.tearing_down waiting.calls waiting.importing waiting_pull waiting.starting)
  from keepsD [OF this e] show ?thesis by (simp add: waiting_as_def)
qed

text \<open>
  When resolving an import conflict fails, the popup closes the panel and shows no error; the
  background has forgotten the conflict as well, so that neither a second attempt nor a new popup
  comes back to it.
\<close>

theorem failed_import_is_not_shown:
  assumes env: "pe_sendOnce E = backgroundOf X" and pending: "g_pendingImport s = Some v"
    and failed: "backgroundOf X (resolveImportMessage p) s = Some (Inr (RESOLVE_IMPORT_ERROR err), t)"
  shows "\<exists>st. resolveImport E (p, s) = Some (Inr (), (p\<lparr>p_importResolving := False, p_pendingImport := None\<rparr>, t))
    \<and> handleMessage X arrivals (RESOLVE_IMPORT choice excl name target) t =
        Some (Inr (RESOLVE_IMPORT_ERROR ''No pending import to resolve.''), t)
    \<and> backgroundOf X GET_STATUS t = Some (Inr (STATUS st), t) \<and> ImportPanel \<notin> set (panels ((onStatus st freshPopup)\<lparr>p_initializing := False\<rparr>))"
proof -
  have "handleResolveImport X (p_importAction p) (Some (p_importExcludeDupes p)) (Some (p_importProfileName p))
      (if p_importAction p = Merge \<or> p_importAction p = Overwrite then Some (p_importComparedProfileId p) else None) s =
      Some (Inr (RESOLVE_IMPORT_ERROR err), t)"
    using backgroundOf_Some [OF failed] by (simp add: resolveImportMessage_def)
  from resolve_import_forgets [OF this pending] have n: "g_pendingImport t = None" .
  have m: "resolveImportMessage (p\<lparr>p_importResolving := True\<rparr>) = resolveImportMessage p" by (simp add: resolveImportMessage_def)
  have "resolveImport E (p, s) = Some (Inr (), (p\<lparr>p_importResolving := False, p_pendingImport := None\<rparr>, t))"
    using failed by (simp add: resolveImport_def m bindP_def modP_def lookP_def getP_def setP_def worker.sendP_serve [OF env] onResolveImportReply_def)
  with n show ?thesis
    by (simp add: handleResolveImport_def bindP_getP backgroundOf_def statusOf_def panel_simps onStatus_def Let_def)
qed

lemma failed_import_is_not_shown_witness:
  "\<exists>t. resolveImport (example_env_of broken_platform)
       (freshPopup, two_worker\<lparr>g_pendingImport := Some (''p1'', \<lparr>localOnly = 3, serverOnly = 0\<rparr>)\<rparr>) = Some (Inr (), (freshPopup, t))
     \<and> g_pendingImport t = None
     \<and> handleMessage broken_platform [] (RESOLVE_IMPORT Merge None None None) t =
         Some (Inr (RESOLVE_IMPORT_ERROR ''No pending import to resolve.''), t)"
proof -
  let ?s = "two_worker\<lparr>g_pendingImport := Some (''p1'', \<lparr>localOnly = 3, serverOnly = 0\<rparr>)\<rparr>"
  have E: "pe_sendOnce (example_env_of broken_platform) = backgroundOf broken_platform" by (simp add: example_env_of_def)
  obtain t where t: "backgroundOf broken_platform (resolveImportMessage freshPopup) ?s = Some (Inr (RESOLVE_IMPORT_ERROR ''no roots''), t)"
    and n: "g_pendingImport t = None"
    by (simp add: backgroundOf_def resolveImportMessage_def freshPopup_def handleResolveImport_def bindP_getP setPendingImport_def
        orReply_def try_step browserRootsReady_def broken_platform_def)
  have p: "g_pendingImport ?s = Some (''p1'', \<lparr>localOnly = 3, serverOnly = 0\<rparr>)" by simp
  have "freshPopup\<lparr>p_importResolving := False, p_pendingImport := None\<rparr> = freshPopup" by (simp add: freshPopup_def)
  with failed_import_is_not_shown [OF E p t] n show ?thesis by auto
qed

end
