(* ===== verification/Popup_Profiles.thy ===== *)
theory Popup_Profiles
  imports Popup_Correct
begin

text \<open>
  The list of profiles: the popup edits its own copy from the replies, the background the session's.
  Creating, renaming and deleting keep the two equal, and with them the profile shown as active.
\<close>

subsection \<open>What the background does to the list\<close>

definition with_profiles :: "profileInfo list \<Rightarrow> auth \<Rightarrow> auth \<Rightarrow> bool" where
  "with_profiles ps a a' \<longleftrightarrow> (\<exists>u. sess a = Some u \<and> sess a' = Some (u\<lparr>profiles := ps\<rparr>))"

lemma with_profiles_gets:
  "with_profiles ps a a' \<Longrightarrow> getProfiles a' = ps"
  "with_profiles ps a a' \<Longrightarrow> getActiveProfile a' = find (\<lambda>p. Inr (pi_id p) = getActiveProfileId a) ps"
  by (auto simp: with_profiles_def getProfiles_def getActiveProfile_def getActiveProfileId_def)

lemma netP_keeps_auth: "\<exists>r t. netP m s = Some (r, t) \<and> g_auth t = g_auth s"
  by (cases "m (g_auth s) (g_net s)") (simp add: netP_def)

lemma jwt_session: "getJwt a = Inr token \<Longrightarrow> \<exists>u. sess a = Some u"
  by (auto simp: getJwt_def split: option.splits)

lemma rename_law:
  assumes "handleRenameProfile X pid name s = Some (Inr res, t)"
  shows "(\<exists>e. res = RENAME_PROFILE_ERROR e) \<and> g_auth t = g_auth s
    \<or> (\<exists>new. res = RENAME_PROFILE_SUCCESS new \<and> with_profiles (renamed pid new (getProfiles (g_auth s))) (g_auth s) (g_auth t))"
proof (cases "trim name = [] \<or> (\<exists>e. getJwt (g_auth s) = Inl e)")
  case True
  with assms show ?thesis by (auto simp: handleRenameProfile_def Let_def orReply_def try_step split: if_splits)
next
  case False
  then obtain token where j: "getJwt (g_auth s) = Inr token" by (cases "getJwt (g_auth s)") auto
  obtain r u where n: "netP (\<lambda>_. apiRenameProfile (x_fetch X) pid (trim name) token) s = Some (r, u)" "g_auth u = g_auth s"
    using netP_keeps_auth by blast
  show ?thesis
  proof (cases r)
    case (Inl e)
    with assms False j n show ?thesis by (auto simp: handleRenameProfile_def Let_def orReply_def try_step)
  next
    case (Inr y)
    with jwt_session [OF j] assms False j n show ?thesis
      by (auto simp: handleRenameProfile_def Let_def orReply_def try_step updateProfiles_def storeProfiles_def with_profiles_def
          renamed_def catchP_def bindP_def)
  qed
qed

lemma delete_law:
  assumes "handleDeleteProfile X pid s = Some (Inr res, t)"
  shows "(\<exists>e. res = DELETE_PROFILE_ERROR e) \<and> g_auth t = g_auth s
    \<or> res = DELETE_PROFILE_SUCCESS \<and> getActiveProfileId (g_auth s) \<noteq> Inr pid
       \<and> with_profiles (filter (\<lambda>p. pi_id p \<noteq> pid) (getProfiles (g_auth s))) (g_auth s) (g_auth t)"
proof (cases "getActiveProfileId (g_auth s)")
  case (Inl e)
  with assms show ?thesis by (simp add: handleDeleteProfile_def)
next
  case (Inr active)
  then obtain u where u: "sess (g_auth s) = Some u" by (auto simp: getActiveProfileId_def split: option.splits)
  then have j: "getJwt (g_auth s) = Inr (jwt u)" by (simp add: getJwt_def)
  obtain r v where n: "netP (\<lambda>_. apiDeleteProfile (x_fetch X) pid (jwt u)) s = Some (r, v)" "g_auth v = g_auth s"
    using netP_keeps_auth by blast
  show ?thesis
  proof (cases "pid = active")
    case True
    with assms Inr show ?thesis by (auto simp: handleDeleteProfile_def)
  next
    case False
    note ne = this
    show ?thesis
    proof (cases r)
      case (Inl e)
      with assms ne \<open>getActiveProfileId (g_auth s) = Inr active\<close> j n show ?thesis
        by (auto simp: handleDeleteProfile_def orReply_def try_step)
    next
      case (Inr y)
      with assms ne \<open>getActiveProfileId (g_auth s) = Inr active\<close> j n u show ?thesis
        by (auto simp: handleDeleteProfile_def orReply_def try_step removeProfile_def storeProfiles_def with_profiles_def
            getProfiles_def dbP_def putDb_def catchP_def bindP_def)
    qed
  qed
qed

lemma create_law:
  assumes "handleCreateProfile X name s = Some (Inr res, t)"
  shows "(\<exists>e. res = CREATE_PROFILE_ERROR e) \<and> g_auth t = g_auth s
    \<or> (\<exists>created. res = CREATE_PROFILE_SUCCESS created \<and> with_profiles (getProfiles (g_auth s) @ [created]) (g_auth s) (g_auth t))"
proof (cases "getEncryptionKey (g_auth s)")
  case (Inl e)
  with assms show ?thesis by (auto simp: handleCreateProfile_def orReply_def try_step)
next
  case (Inr key)
  then obtain u where u: "sess (g_auth s) = Some u" by (auto simp: getEncryptionKey_def split: option.splits)
  then have j: "getJwt (g_auth s) = Inr (jwt u)" by (simp add: getJwt_def)
  obtain md v where seal: "sealP X key emptyObject s = Some (Inr md, v)" and v: "g_auth v = g_auth s"
    by (simp add: sealP_def putBridge_def Let_def)
  obtain r w where n: "netP (\<lambda>_. apiCreateProfile (x_fetch X) name md (jwt u)) v = Some (r, w)" "g_auth w = g_auth v"
    using netP_keeps_auth by blast
  show ?thesis
  proof (cases r)
    case (Inl e)
    with assms \<open>getEncryptionKey (g_auth s) = Inr key\<close> j seal v n show ?thesis
      by (auto simp: handleCreateProfile_def orReply_def try_step)
  next
    case (Inr created)
    with assms \<open>getEncryptionKey (g_auth s) = Inr key\<close> j seal v n u show ?thesis
      by (auto simp: handleCreateProfile_def orReply_def try_step authP_def addProfile_def storeProfiles_def with_profiles_def
          getProfiles_def dbP_def putDb_def catchP_def bindP_def)
  qed
qed

subsection \<open>The copy in the popup\<close>

datatype profile_action = Create | Rename | Delete string

primrec runEdit :: "'b popup_env \<Rightarrow> profile_action \<Rightarrow> ('b, unit) ui" where
  "runEdit E Create = createProfile E"
| "runEdit E Rename = submitRename E"
| "runEdit E (Delete i) = confirmDeleteProfile E i"

definition lists_agree :: "popup \<Rightarrow> auth \<Rightarrow> bool" where
  "lists_agree p a \<longleftrightarrow> p_profiles p = getProfiles a \<and> p_profile p = getActiveProfile a \<and> getActiveProfile a \<noteq> None"

text \<open>The copy before an edit, abstracted: the list, and the one that is active in it.\<close>

lemma agree_session:
  assumes "lists_agree p a"
  obtains u where "sess a = Some u" and "p_profiles p = profiles u" and "p_profile p = findProfile (activeProfileId u) (profiles u)"
    and "p_profile p \<noteq> None"
proof (cases "sess a")
  case None
  with assms show thesis by (simp add: lists_agree_def getActiveProfile_def)
next
  case (Some u)
  with assms show thesis
    by (intro that [OF Some]) (auto simp: lists_agree_def getProfiles_def getActiveProfile_def findProfile_def)
qed

lemma agree_after:
  assumes "with_profiles ps a a'" and "sess a = Some u" and "p_profiles p' = ps" and "p_profile p' = findProfile (activeProfileId u) ps"
    and "p_profile p' \<noteq> None"
  shows "lists_agree p' a'"
  using assms by (auto simp: with_profiles_def lists_agree_def getProfiles_def getActiveProfile_def findProfile_def)

lemma find_append_some: "findProfile i ps \<noteq> None \<Longrightarrow> findProfile i (ps @ qs) = findProfile i ps"
  unfolding findProfile_def by (induction ps) auto

lemma find_filter: "i \<noteq> j \<Longrightarrow> findProfile i (filter (\<lambda>q. pi_id q \<noteq> j) ps) = findProfile i ps"
  unfolding findProfile_def by (induction ps) auto

lemma find_renamed:
  "findProfile i (renamed j new ps) = map_option (\<lambda>q. if i = j then q\<lparr>pi_name := new\<rparr> else q) (findProfile i ps)"
  unfolding findProfile_def renamed_def by (induction ps) auto

lemma found_id: "findProfile i ps = Some q \<Longrightarrow> pi_id q = i"
  unfolding findProfile_def by (induction ps) (auto split: if_splits)

lemma create_in_step:
  assumes "pe_sendOnce E = backgroundOf X" and "lists_agree p (g_auth s)" and "createProfile E (p, s) = Some (r, (p', t))"
  shows "lists_agree p' (g_auth t)"
proof -
  from assms(3) have "bindP (sendP E (CREATE_PROFILE (p_newProfileName p))) (\<lambda>res. bindP (modP (\<lambda>p. p\<lparr>p_loading := False\<rparr>)) (\<lambda>_.
      modP (onCreateReply res))) (p\<lparr>p_loading := True, p_profileError := None\<rparr>, s) = Some (r, (p', t))"
    by (simp add: createProfile_def)
  then obtain res where b: "backgroundOf X (CREATE_PROFILE (p_newProfileName p)) s = Some (Inr res, t)"
    and p': "p' = onCreateReply res (p\<lparr>p_profileError := None, p_loading := False\<rparr>)"
    by (rule worker.answered [OF assms(1)]) simp
  obtain u where u: "sess (g_auth s) = Some u" "p_profiles p = profiles u" "p_profile p = findProfile (activeProfileId u) (profiles u)"
    "p_profile p \<noteq> None" by (rule agree_session [OF assms(2)])
  from b have "handleCreateProfile X (p_newProfileName p) s = Some (Inr res, t)" by (auto dest!: backgroundOf_Some)
  from create_law [OF this] show ?thesis
  proof (elim disjE conjE exE)
    fix e assume "res = CREATE_PROFILE_ERROR e" "g_auth t = g_auth s"
    with p' assms(2) show ?thesis by (simp add: onCreateReply_def lists_agree_def)
  next
    fix created assume c: "res = CREATE_PROFILE_SUCCESS created" and w: "with_profiles (getProfiles (g_auth s) @ [created]) (g_auth s) (g_auth t)"
    show ?thesis
      by (rule agree_after [OF w u(1)]) (use p' c u in \<open>simp_all add: onCreateReply_def getProfiles_def find_append_some\<close>)
  qed
qed

lemma rename_in_step:
  assumes "pe_sendOnce E = backgroundOf X" and "lists_agree p (g_auth s)" and "submitRename E (p, s) = Some (r, (p', t))"
  shows "lists_agree p' (g_auth t)"
proof (cases "truthy (p_editingProfileId p)")
  case False
  with assms(2,3) show ?thesis by (simp add: submitRename_def)
next
  case True
  then obtain i where i: "p_editingProfileId p = Some i" by (auto simp: truthy_iff)
  from assms(3) True i have "bindP (sendP E (RENAME_PROFILE i (p_editingProfileName p))) (\<lambda>res. bindP (modP (\<lambda>p. p\<lparr>p_editingLoading := False\<rparr>)) (\<lambda>_.
      modP (onRenameReply i res))) (p\<lparr>p_editingLoading := True, p_editingError := None\<rparr>, s) = Some (r, (p', t))"
    by (simp add: submitRename_def)
  then obtain res where b: "backgroundOf X (RENAME_PROFILE i (p_editingProfileName p)) s = Some (Inr res, t)"
    and p': "p' = onRenameReply i res (p\<lparr>p_editingError := None, p_editingLoading := False\<rparr>)"
    by (rule worker.answered [OF assms(1)]) simp
  obtain u where u: "sess (g_auth s) = Some u" "p_profiles p = profiles u" "p_profile p = findProfile (activeProfileId u) (profiles u)"
    "p_profile p \<noteq> None" by (rule agree_session [OF assms(2)])
  from b have "handleRenameProfile X i (p_editingProfileName p) s = Some (Inr res, t)" by (auto dest!: backgroundOf_Some)
  from rename_law [OF this] show ?thesis
  proof (elim disjE conjE exE)
    fix e assume "res = RENAME_PROFILE_ERROR e" "g_auth t = g_auth s"
    with p' assms(2) show ?thesis by (simp add: onRenameReply_def lists_agree_def)
  next
    fix new assume c: "res = RENAME_PROFILE_SUCCESS new" and w: "with_profiles (renamed i new (getProfiles (g_auth s))) (g_auth s) (g_auth t)"
    from u(3,4) obtain q where q: "findProfile (activeProfileId u) (profiles u) = Some q" "p_profile p = Some q" "pi_id q = activeProfileId u"
      using found_id by (cases "findProfile (activeProfileId u) (profiles u)") auto
    show ?thesis
      by (rule agree_after [OF w u(1)]) (use p' c u q in \<open>auto simp: onRenameReply_def Let_def getProfiles_def find_renamed\<close>)
  qed
qed

lemma delete_in_step:
  assumes "pe_sendOnce E = backgroundOf X" and "lists_agree p (g_auth s)" and "confirmDeleteProfile E i (p, s) = Some (r, (p', t))"
  shows "lists_agree p' (g_auth t)"
proof -
  from assms(3) have "bindP (sendP E (DELETE_PROFILE i)) (\<lambda>res. modP (onDeleteReply i res)) (p\<lparr>p_deleteError := None\<rparr>, s) = Some (r, (p', t))"
    by (simp add: confirmDeleteProfile_def)
  then obtain res where b: "backgroundOf X (DELETE_PROFILE i) s = Some (Inr res, t)"
    and p': "p' = onDeleteReply i res (p\<lparr>p_deleteError := None\<rparr>)"
    by (rule worker.answered [OF assms(1)]) simp
  obtain u where u: "sess (g_auth s) = Some u" "p_profiles p = profiles u" "p_profile p = findProfile (activeProfileId u) (profiles u)"
    "p_profile p \<noteq> None" by (rule agree_session [OF assms(2)])
  from b have "handleDeleteProfile X i s = Some (Inr res, t)" by (auto dest!: backgroundOf_Some)
  from delete_law [OF this] show ?thesis
  proof (elim disjE conjE exE)
    fix e assume "res = DELETE_PROFILE_ERROR e" "g_auth t = g_auth s"
    with p' assms(2) show ?thesis by (simp add: onDeleteReply_def lists_agree_def)
  next
    assume c: "res = DELETE_PROFILE_SUCCESS" and "getActiveProfileId (g_auth s) \<noteq> Inr i"
      and w: "with_profiles (filter (\<lambda>p. pi_id p \<noteq> i) (getProfiles (g_auth s))) (g_auth s) (g_auth t)"
    with u(1) have "activeProfileId u \<noteq> i" by (simp add: getActiveProfileId_def)
    then show ?thesis
      by (intro agree_after [OF w u(1)]) (use p' c u in \<open>simp_all add: onDeleteReply_def getProfiles_def find_filter\<close>)
  qed
qed

text \<open>
  C32. The popup's list of profiles and its active profile stay those of the session through every
  create, rename and delete that returns, successful or not: a rename is seen under the trimmed name
  the server got, a refused delete changes neither side.
\<close>

theorem profile_edits_stay_in_step:
  assumes "pe_sendOnce E = backgroundOf X" and "runEdit E a (p, s) = Some (r, (p', t))"
    and "p_profiles p = getProfiles (g_auth s)" and "p_profile p = getActiveProfile (g_auth s)" and "getActiveProfile (g_auth s) \<noteq> None"
  shows "p_profiles p' = getProfiles (g_auth t) \<and> p_profile p' = getActiveProfile (g_auth t) \<and> getActiveProfile (g_auth t) \<noteq> None"
proof -
  from assms(3-) have "lists_agree p (g_auth s)" by (simp add: lists_agree_def)
  then have "lists_agree p' (g_auth t)"
    using assms(2)
    by (cases a) (auto dest: create_in_step [OF assms(1)] rename_in_step [OF assms(1)] delete_in_step [OF assms(1)])
  then show ?thesis by (simp add: lists_agree_def)
qed

lemma profile_edits_stay_in_step_witness:
  "\<exists>p' t. runEdit (example_env_of (example_platform (serving defaultRoots example_folder_tree))) Rename
       (freshPopup\<lparr>p_profiles := example_profiles, p_profile := Some (hd example_profiles), p_editingProfileId := Some ''p1'',
          p_editingProfileName := '' Home ''\<rparr>, example_worker ()) = Some (Inr (), (p', t))
     \<and> p_profiles p' = getProfiles (g_auth t) \<and> p_profile p' = getActiveProfile (g_auth t)
     \<and> p_profile p' = Some \<lparr>pi_id = ''p1'', pi_name = ''Home''\<rparr>"
proof -
  let ?X = "example_platform (serving defaultRoots example_folder_tree)" and ?s = "example_worker ()"
  let ?p = "freshPopup\<lparr>p_profiles := example_profiles, p_profile := Some (hd example_profiles), p_editingProfileId := Some ''p1'',
          p_editingProfileName := '' Home ''\<rparr>"
  have E: "pe_sendOnce (example_env_of ?X) = backgroundOf ?X" by (simp add: example_env_of_def)
  have tr: "trim '' Home '' = ''Home''" by (simp add: trim_def isSpace_def)
  have "\<exists>t. backgroundOf ?X (RENAME_PROFILE ''p1'' '' Home '') ?s = Some (Inr (RENAME_PROFILE_SUCCESS ''Home''), t)"
    by (simp add: backgroundOf_def handleRenameProfile_def Let_def tr orReply_def try_step getJwt_def netP_def apiRenameProfile_def
        throwIfNotOk_def res_ok_def bindA_def catchP_def bindP_def platform_simps example_worker_def fresh_worker_def fresh_with_def
        example_login_def setSession_def)
  then obtain t where b: "backgroundOf ?X (RENAME_PROFILE ''p1'' '' Home '') ?s = Some (Inr (RENAME_PROFILE_SUCCESS ''Home''), t)" by blast
  have "\<exists>p'. runEdit (example_env_of ?X) Rename (?p, ?s) = Some (Inr (), (p', t)) \<and> p_profile p' = Some \<lparr>pi_id = ''p1'', pi_name = ''Home''\<rparr>"
    by (simp add: submitRename_def bindP_def modP_def lookP_def getP_def setP_def worker.sendP_serve [OF E] b onRenameReply_def
        renamed_def findProfile_def example_profiles_def Let_def)
  then obtain p' where run: "runEdit (example_env_of ?X) Rename (?p, ?s) = Some (Inr (), (p', t))"
    and q: "p_profile p' = Some \<lparr>pi_id = ''p1'', pi_name = ''Home''\<rparr>" by blast
  have i: "p_profiles ?p = getProfiles (g_auth ?s)" "p_profile ?p = getActiveProfile (g_auth ?s)" "getActiveProfile (g_auth ?s) \<noteq> None"
    by (simp_all add: example_worker_def example_login_def setSession_def getProfiles_def getActiveProfile_def example_profiles_def)
  from profile_edits_stay_in_step [OF E run i] run q show ?thesis by auto
qed

end
