(* ===== verification/Popup_Page.thy ===== *)
theory Popup_Page
  imports Popup
begin

text \<open>
  extension/src/popup/index.tsx, lines 751-1327: the markup. A page is the list of its elements in
  the order of the markup, each with what it shows and, if it can be operated, the click it stands
  for; a \<^verbatim>\<open>Show\<close> is a condition in front of a list. \<^verbatim>\<open>offers\<close> are the clicks that the
  browser lets the user make: no disabled control, no form with an empty required field, no change
  to what is chosen already. \<^verbatim>\<open>perform\<close> runs the action behind a click. Layout, icons and help
  texts without a signal in them are left out.
\<close>

subsection \<open>Clicks\<close>

datatype field = EmailField | PasswordField | ImportNameField | OnboardingNameField | NewProfileField | RenameField
  | CurrentPasswordField | NewPasswordField | ConfirmPasswordField | DeletePasswordField

datatype click =
    Type_in field string | GoBack | SyncClick | OpenSettings
  | SubmitLogin | SubmitUnlock | LogoutClick
  | ResolveChangesClick bool
  | CompareWith string | ChooseImport importChoice | TickExcludeDupes bool | SubmitImport
  | ChooseOnboardingTimeout sessionTimeout | TickExport bool | SubmitOnboarding
  | DismissNotice | SwitchClick string | ToggleAdding | SubmitProfile
  | LockClick | LogoutAndClearClick | ChooseTheme theme | OpenManageProfiles | OpenAccountSecurity
  | SubmitRename | CancelRename | StartRename profileInfo | ExportClick profileInfo
  | ToggleDelete profileInfo | CancelDelete | ConfirmDelete string
  | ChooseTimeout sessionTimeout | SubmitPassword
  | AskDeleteAccount | CancelDeleteAccount | ConfirmDeleteAccount

text \<open>\<^verbatim>\<open>onInput\<close> of the text fields.\<close>

primrec typed :: "field \<Rightarrow> string \<Rightarrow> popup \<Rightarrow> popup" where
  "typed EmailField v p = p\<lparr>p_email := v\<rparr>"
| "typed PasswordField v p = p\<lparr>p_password := v\<rparr>"
| "typed ImportNameField v p = p\<lparr>p_importProfileName := v\<rparr>"
| "typed OnboardingNameField v p = p\<lparr>p_onboardingProfileName := v\<rparr>"
| "typed NewProfileField v p = p\<lparr>p_newProfileName := v\<rparr>"
| "typed RenameField v p = p\<lparr>p_editingProfileName := v\<rparr>"
| "typed CurrentPasswordField v p = p\<lparr>p_currentPassword := v\<rparr>"
| "typed NewPasswordField v p = p\<lparr>p_newPassword := v\<rparr>"
| "typed ConfirmPasswordField v p = p\<lparr>p_confirmPassword := v\<rparr>"
| "typed DeletePasswordField v p = p\<lparr>p_deleteAccountPassword := v\<rparr>"

definition changeTheme :: "'b popup_env \<Rightarrow> theme \<Rightarrow> ('b, unit) ui" where
  "changeTheme E t = bindP (modP (\<lambda>p. p\<lparr>p_theme := t\<rparr>)) (\<lambda>_. setP (\<lambda>(p, b). (p, pe_storeTheme E t b)))"

primrec perform :: "'b popup_env \<Rightarrow> click \<Rightarrow> ('b, unit) ui" where
  "perform E (Type_in f v) = modP (typed f v)"
| "perform E GoBack = modP goBack"
| "perform E SyncClick = syncNow E"
| "perform E OpenSettings = modP (\<lambda>p. p\<lparr>p_view := SettingsView\<rparr>)"
| "perform E SubmitLogin = login E"
| "perform E SubmitUnlock = unlock E"
| "perform E LogoutClick = logout E"
| "perform E (ResolveChangesClick apply) = resolveChanges E apply"
| "perform E (CompareWith i) = catchP (recomputeImportDiff E i) (\<lambda>_. retP ())"
| "perform E (ChooseImport c) = modP (\<lambda>p. p\<lparr>p_importAction := c\<rparr>)"
| "perform E (TickExcludeDupes v) = modP (\<lambda>p. p\<lparr>p_importExcludeDupes := v\<rparr>)"
| "perform E SubmitImport = resolveImport E"
| "perform E (ChooseOnboardingTimeout v) = modP (changeOnboardingTimeout E v)"
| "perform E (TickExport v) = modP (\<lambda>p. p\<lparr>p_exportOnGetStarted := v\<rparr>)"
| "perform E SubmitOnboarding = finishOnboarding E"
| "perform E DismissNotice = modP (\<lambda>p. p\<lparr>p_bootstrapNotice := False\<rparr>)"
| "perform E (SwitchClick i) = switchTo E i"
| "perform E ToggleAdding = modP toggleAdding"
| "perform E SubmitProfile = createProfile E"
| "perform E LockClick = lock E"
| "perform E LogoutAndClearClick = logoutAndClear E"
| "perform E (ChooseTheme t) = changeTheme E t"
| "perform E OpenManageProfiles = modP openManageProfiles"
| "perform E OpenAccountSecurity = modP openAccountSecurity"
| "perform E SubmitRename = submitRename E"
| "perform E CancelRename = modP cancelRename"
| "perform E (StartRename q) = modP (startRename q)"
| "perform E (ExportClick q) = exportProfile E (pi_id q) (pi_name q)"
| "perform E (ToggleDelete q) = modP (toggleDelete q)"
| "perform E CancelDelete = modP cancelDelete"
| "perform E (ConfirmDelete i) = confirmDeleteProfile E i"
| "perform E (ChooseTimeout v) = changeSessionTimeout E v"
| "perform E SubmitPassword = submitPassword E"
| "perform E AskDeleteAccount = modP askDeleteAccount"
| "perform E CancelDeleteAccount = modP cancelDeleteAccount"
| "perform E ConfirmDeleteAccount = deleteAccount E"

subsection \<open>Elements\<close>

text \<open>
  Label, whether it is enabled, and the click; a field with its value; a radio button with whether
  it is chosen; a selection with the chosen value and its options; a submit button with the values
  of the required fields of its form.
\<close>

datatype element =
    Says string
  | Button string bool click
  | Field string string bool field
  | Radio string bool click
  | Checkbox string bool click
  | Select string bool "(string \<times> bool \<times> click) list"
  | Submit string bool "string list" click

fun offered_by :: "element \<Rightarrow> click \<Rightarrow> bool" where
  "offered_by (Says s) a = False"
| "offered_by (Button l on c) a = (on \<and> a = c)"
| "offered_by (Field l v on f) a = (on \<and> (case a of Type_in g w \<Rightarrow> g = f | _ \<Rightarrow> False))"
| "offered_by (Radio l chosen c) a = (\<not> chosen \<and> a = c)"
| "offered_by (Checkbox l checked c) a = (a = c)"
| "offered_by (Select l on opts) a = (on \<and> (\<exists>(t, chosen, c)\<in>set opts. \<not> chosen \<and> a = c))"
| "offered_by (Submit l on required c) a = (on \<and> [] \<notin> set required \<and> a = c)"

definition shownIf :: "bool \<Rightarrow> element list \<Rightarrow> element list" where
  "shownIf c es = (if c then es else [])"

text \<open>An error signal that is set and not empty.\<close>

definition errorLine :: "string option \<Rightarrow> element list" where
  "errorLine err = shownIf (truthy err) [Says (the err)]"

definition errorFor :: "string \<Rightarrow> (string \<times> string) option \<Rightarrow> element list" where
  "errorFor i err = (case err of Some (j, msg) \<Rightarrow> shownIf (j = i) [Says msg] | None \<Rightarrow> [])"

subsection \<open>The frame\<close>

definition tabTitle :: "view \<Rightarrow> string" where
  "tabTitle v = (case v of MainView \<Rightarrow> ''Vaultmarks'' | SettingsView \<Rightarrow> ''Settings''
     | ManageProfilesView \<Rightarrow> ''Manage Profiles'' | AccountSecurityView \<Rightarrow> ''Account Security'')"

definition tabBar :: "popup \<Rightarrow> element list" where
  "tabBar p =
     shownIf (p_view p \<noteq> MainView) [Button ''Back'' True GoBack]
     @ [Says (tabTitle (p_view p))]
     @ shownIf (p_view p = MainView \<and> isReady p) [Button ''Sync now'' (\<not> p_syncing p) SyncClick]
     @ shownIf (p_view p = MainView \<and> \<not> p_initializing p \<and> p_isLoggedIn p \<and> \<not> p_isLocked p \<and> \<not> p_onboarding p)
         [Button ''Settings'' True OpenSettings]"

definition statusLine :: "(int \<Rightarrow> string) \<Rightarrow> popup \<Rightarrow> element list" where
  "statusLine formatTime p = (let t = fst (statusBar formatTime p) in shownIf (t \<noteq> []) [Says t])"

subsection \<open>The main view\<close>

definition loginForm :: "popup \<Rightarrow> element list" where
  "loginForm p =
     [Field ''Email'' (p_email p) True EmailField, Field ''Master password'' (p_password p) True PasswordField]
     @ errorLine (p_error p)
     @ [Submit (if p_loading p then p_loadingLabel p else ''Unlock'') (\<not> p_loading p) [p_email p, p_password p] SubmitLogin]"

definition lockedForm :: "popup \<Rightarrow> element list" where
  "lockedForm p =
     [Field ''Email'' (p_email p) False EmailField, Field ''Master password'' (p_password p) True PasswordField]
     @ errorLine (p_error p)
     @ [Button ''Sign out'' True LogoutClick,
        Submit (if p_loading p then p_loadingLabel p else ''Unlock'') (\<not> p_loading p) [p_password p] SubmitUnlock]"

definition changesPanel :: "popup \<Rightarrow> element list" where
  "changesPanel p =
     (case p_pendingChanges p of
        None \<Rightarrow> []
      | Some c \<Rightarrow> map Says (changeLines c)
          @ [Button ''Discard changes'' (\<not> p_resolving p) (ResolveChangesClick False),
             Button (if p_resolving p then ''Applying...'' else ''Keep my changes'') (\<not> p_resolving p) (ResolveChangesClick True)])"

definition importChoices :: "popup \<Rightarrow> element list" where
  "importChoices p =
     (let localOnlyText = plural (localOnly (shownDiff p)) ''browser-only bookmark''; name = importComparedProfileName p
      in [Radio ''Use account's bookmarks'' (p_importAction p = Overwrite) (ChooseImport Overwrite),
          Says (''Discard the '' @ localOnlyText @ '' and keep your synced account as-is.''),
          Radio (''Merge into '' @ name) (p_importAction p = Merge) (ChooseImport Merge),
          Says (''Add the '' @ localOnlyText @ '' into '' @ name @ ''.'')]
         @ shownIf (p_importAction p = Merge)
             [Checkbox (''Skip bookmarks already in '' @ name) (p_importExcludeDupes p) (TickExcludeDupes (\<not> p_importExcludeDupes p))]
         @ [Radio ''Save as new profile'' (p_importAction p = NewProfile) (ChooseImport NewProfile),
            Says (''Keep the '' @ localOnlyText @ '' in a separate profile alongside your account.'')]
         @ shownIf (p_importAction p = NewProfile) [Field ''Profile name'' (p_importProfileName p) True ImportNameField])"

definition importPanel :: "popup \<Rightarrow> element list" where
  "importPanel p =
     shownIf (length (p_profiles p) > 1)
       [Select ''Compare with'' (\<not> p_importRecomputingDiff p)
          (map (\<lambda>q. (pi_name q, pi_id q = p_importComparedProfileId p, CompareWith (pi_id q))) (p_profiles p))]
     @ shownIf (p_importRecomputingDiff p) [Says ''Comparing...'']
     @ map Says (importLines p)
     @ shownIf (localOnly (shownDiff p) > 0) (importChoices p)
     @ (case importButton p of (label, disabled) \<Rightarrow> [Submit label (\<not> disabled) [] SubmitImport])"

text \<open>The two ways to end a session, at the onboarding and among the settings.\<close>

definition timeoutChoices :: "sessionTimeout \<Rightarrow> (sessionTimeout \<Rightarrow> click) \<Rightarrow> element list" where
  "timeoutChoices current pick =
     [Radio ''On browser restart'' (current = OnRestart) (pick OnRestart), Radio ''Never'' (current = Never) (pick Never)]"

definition onboardingForm :: "popup \<Rightarrow> element list" where
  "onboardingForm p =
     [Field ''Profile name'' (p_onboardingProfileName p) True OnboardingNameField]
     @ timeoutChoices (p_onboardingTimeout p) ChooseOnboardingTimeout
     @ shownIf (p_hadExistingBookmarks p)
         [Checkbox ''Export bookmarks backup (.html) before getting started'' (p_exportOnGetStarted p)
            (TickExport (\<not> p_exportOnGetStarted p))]
     @ [Submit (if p_onboardingLoading p then ''Saving...'' else ''Get started'') (\<not> p_onboardingLoading p) [] SubmitOnboarding]"

definition activeName :: "popup \<Rightarrow> string" where
  "activeName p = (case map_option pi_name (p_profile p) of Some (c # cs) \<Rightarrow> c # cs | _ \<Rightarrow> ''Default'')"

definition isActive :: "popup \<Rightarrow> profileInfo \<Rightarrow> bool" where
  "isActive p q \<longleftrightarrow> map_option pi_id (p_profile p) = Some (pi_id q)"

definition profileButton :: "popup \<Rightarrow> profileInfo \<Rightarrow> element" where
  "profileButton p q = Button (pi_name q) (p_switchingProfileId p = None) (SwitchClick (pi_id q))"

definition readyPanel :: "popup \<Rightarrow> element list" where
  "readyPanel p =
     shownIf (p_bootstrapNotice p)
       [Says (''Your existing bookmarks were saved to your '' @ [CHR 0x22] @ activeName p @ [CHR 0x22] @ '' profile.''),
        Button ''Dismiss'' True DismissNotice]
     @ map (profileButton p) (p_profiles p)
     @ shownIf (length (p_profiles p) > 1) [Says ''Alt+Shift+J / K to switch profiles'']
     @ [Button (if p_addingProfile p then ''Cancel'' else ''+ Add'') True ToggleAdding]
     @ shownIf (p_addingProfile p)
         ([Field ''Profile name'' (p_newProfileName p) True NewProfileField,
           Submit (if p_loading p then ''...'' else ''Add'') (\<not> p_loading p) [p_newProfileName p] SubmitProfile]
          @ errorLine (p_profileError p))"

definition mainPage :: "popup \<Rightarrow> element list" where
  "mainPage p =
     shownIf (p_initializing p) [Says ''Loading...'']
     @ shownIf (showLogin p) (loginForm p)
     @ shownIf (showLocked p) (lockedForm p)
     @ shownIf (showChanges p) (changesPanel p)
     @ shownIf (showImport p) (importPanel p)
     @ shownIf (showOnboarding p) (onboardingForm p)
     @ shownIf (isReady p) (readyPanel p)"

subsection \<open>The other views\<close>

definition settingsPage :: "popup \<Rightarrow> element list" where
  "settingsPage p =
     [Says (p_email p), Button ''Lock'' True LockClick, Button ''Sign out'' True LogoutClick,
      Button ''Sign out & clear bookmarks'' True LogoutAndClearClick,
      Select ''Theme'' True
        [(''System'', p_theme p = SystemTheme, ChooseTheme SystemTheme), (''Light'', p_theme p = LightTheme, ChooseTheme LightTheme),
         (''Dark'', p_theme p = DarkTheme, ChooseTheme DarkTheme)],
      Button ''Manage profiles...'' True OpenManageProfiles, Button ''Account security...'' True OpenAccountSecurity]"

definition renameForm :: "popup \<Rightarrow> element list" where
  "renameForm p =
     [Field [] (p_editingProfileName p) True RenameField,
      Submit (if p_editingLoading p then ''...'' else ''Save'') (\<not> p_editingLoading p) [p_editingProfileName p] SubmitRename,
      Button ''Cancel rename'' True CancelRename]
     @ errorLine (p_editingError p)"

definition deleteBox :: "popup \<Rightarrow> profileInfo \<Rightarrow> element list" where
  "deleteBox p q =
     [Says ''All bookmarks in this profile will be permanently deleted.'', Button ''Cancel'' True CancelDelete,
      Button ''Confirm Delete'' True (ConfirmDelete (pi_id q))]
     @ errorFor (pi_id q) (p_deleteError p)"

definition profileRow :: "popup \<Rightarrow> profileInfo \<Rightarrow> element list" where
  "profileRow p q =
     (let confirming = (p_deletingProfileId p = Some (pi_id q))
      in if p_editingProfileId p = Some (pi_id q) then renameForm p
         else
           [Says (pi_name q)]
           @ shownIf (isActive p q) [Says ''active'']
           @ shownIf (\<not> confirming)
               [Button ''Rename'' True (StartRename q),
                Button ''Export bookmarks'' (p_exportingProfileId p \<noteq> Some (pi_id q)) (ExportClick q)]
           @ [Button
                (if isActive p q then ''Switch to another profile before deleting''
                 else if confirming then ''Cancel delete'' else ''Delete profile'')
                (\<not> isActive p q) (ToggleDelete q)]
           @ errorFor (pi_id q) (p_exportError p)
           @ shownIf confirming (deleteBox p q))"

definition manageProfilesPage :: "popup \<Rightarrow> element list" where
  "manageProfilesPage p = concat (map (profileRow p) (p_profiles p))"

definition passwordForm :: "popup \<Rightarrow> element list" where
  "passwordForm p =
     [Field ''Current password'' (p_currentPassword p) True CurrentPasswordField,
      Field ''New password'' (p_newPassword p) True NewPasswordField,
      Field ''Confirm new password'' (p_confirmPassword p) True ConfirmPasswordField]
     @ errorLine (p_changePwError p)
     @ shownIf (p_changePwSuccess p) [Says ''Password changed successfully.'']
     @ [Submit (if p_changePwLoading p then ''Changing...'' else ''Change password'') (\<not> p_changePwLoading p) [] SubmitPassword]"

definition dangerZone :: "popup \<Rightarrow> element list" where
  "dangerZone p =
     shownIf (\<not> p_deleteAccountConfirm p) [Button ''Delete account and all data...'' True AskDeleteAccount]
     @ shownIf (p_deleteAccountConfirm p)
         ([Says ''Delete account?'',
           Field ''Enter your password to confirm'' (p_deleteAccountPassword p) (\<not> p_deleteAccountLoading p) DeletePasswordField]
          @ errorLine (p_deleteAccountError p)
          @ [Button ''Cancel'' (\<not> p_deleteAccountLoading p) CancelDeleteAccount,
             Button (if p_deleteAccountLoading p then ''Deleting...'' else ''Permanently delete'') (\<not> p_deleteAccountLoading p)
               ConfirmDeleteAccount])"

definition securityPage :: "popup \<Rightarrow> element list" where
  "securityPage p = timeoutChoices (p_sessionTimeout p) ChooseTimeout @ passwordForm p @ dangerZone p"

subsection \<open>The page\<close>

definition viewPage :: "popup \<Rightarrow> element list" where
  "viewPage p = (case p_view p of MainView \<Rightarrow> mainPage p | SettingsView \<Rightarrow> settingsPage p
     | ManageProfilesView \<Rightarrow> manageProfilesPage p | AccountSecurityView \<Rightarrow> securityPage p)"

definition page :: "(int \<Rightarrow> string) \<Rightarrow> popup \<Rightarrow> element list" where
  "page formatTime p = tabBar p @ viewPage p @ statusLine formatTime p"

text \<open>The status line offers nothing.\<close>

definition offers :: "popup \<Rightarrow> click \<Rightarrow> bool" where
  "offers p a = list_ex (\<lambda>e. offered_by e a) (tabBar p @ viewPage p)"

lemma offers_page: "list_ex (\<lambda>e. offered_by e a) (page formatTime p) = offers p a"
  by (simp add: page_def offers_def statusLine_def shownIf_def Let_def)

end
