(* ===== verification/Popup_Run.thy ===== *)
theory Popup_Run
  imports Popup_Page Popup_Correct
begin

text \<open>
  A popup while it is open, together with the service worker: the clicks its page offers, the
  messages it is told, the reply to the sync it started at the beginning, and whatever the worker
  does meanwhile. First what every page has in common, then the shape of the popup's knowledge of
  the session, and the deletions.
\<close>

subsection \<open>What a page offers\<close>

lemma shownIf_offers [simp]: "list_ex P (shownIf c es) = (c \<and> list_ex P es)"
  by (simp add: shownIf_def)

lemma lines_offer_nothing [simp]:
  "\<not> list_ex (\<lambda>e. offered_by e a) (errorLine err)" "\<not> list_ex (\<lambda>e. offered_by e a) (errorFor i err')"
  "\<not> list_ex (\<lambda>e. offered_by e a) (map Says ls)"
  by (auto simp: errorLine_def errorFor_def split: option.split) (simp add: list_ex_iff)

text \<open>The clicks that open, close or change the session, and where they are.\<close>

lemmas page_simps = offers_def tabBar_def viewPage_def mainPage_def loginForm_def lockedForm_def changesPanel_def importPanel_def
  importChoices_def onboardingForm_def readyPanel_def profileButton_def timeoutChoices_def settingsPage_def manageProfilesPage_def
  profileRow_def renameForm_def deleteBox_def securityPage_def passwordForm_def dangerZone_def Let_def

lemma offers_map [simp]: "list_ex P (map f xs) = (\<exists>x\<in>set xs. P (f x))" "list_ex P (concat (map g xs)) = (\<exists>x\<in>set xs. list_ex P (g x))"
  by (auto simp: list_ex_iff)

lemma offers_main:
  "offers p SubmitLogin \<Longrightarrow> p_view p = MainView \<and> showLogin p"
  "offers p SubmitUnlock \<Longrightarrow> p_view p = MainView \<and> showLocked p"
  "offers p (ResolveChangesClick apply) \<Longrightarrow> p_view p = MainView \<and> showChanges p"
  "offers p SyncClick \<Longrightarrow> p_view p = MainView \<and> isReady p"
  by (auto simp: page_simps split: view.splits prod.splits option.splits if_splits)

lemma offers_elsewhere:
  "offers p LockClick \<Longrightarrow> p_view p = SettingsView"
  "offers p LogoutAndClearClick \<Longrightarrow> p_view p = SettingsView"
  "offers p OpenManageProfiles \<Longrightarrow> p_view p = SettingsView"
  "offers p OpenAccountSecurity \<Longrightarrow> p_view p = SettingsView"
  "offers p OpenSettings \<Longrightarrow> p_view p = MainView \<and> p_isLoggedIn p \<and> \<not> p_isLocked p"
  "offers p GoBack \<Longrightarrow> p_view p \<noteq> MainView"
  "offers p (ConfirmDelete i) \<Longrightarrow> p_view p = ManageProfilesView \<and> p_deletingProfileId p = Some i"
  "offers p ConfirmDeleteAccount \<Longrightarrow> p_view p = AccountSecurityView \<and> p_deleteAccountConfirm p"
  by (auto simp: page_simps split: view.splits prod.splits option.splits if_splits)

text \<open>The forms of somebody who is signed out or locked.\<close>

definition formClick :: "click \<Rightarrow> bool" where
  "formClick a \<longleftrightarrow> (\<exists>v. a = Type_in EmailField v \<or> a = Type_in PasswordField v) \<or> a \<in> {SubmitLogin, SubmitUnlock, LogoutClick}"

lemma forms_only:
  assumes "p_view p = MainView" and "\<not> p_initializing p" and "p_isLocked p \<or> \<not> p_isLoggedIn p" and "offers p a"
  shows "formClick a"
  using assms
  by (cases a) (auto simp: formClick_def page_simps panel_simps split: prod.splits option.splits if_splits)

subsection \<open>The frame of the popup\<close>

text \<open>
  What decides which view and which panels are shown. Views other than the main one are only reached
  with an open session, and a locked popup has a session.
\<close>

definition frame :: "popup \<Rightarrow> bool \<times> view \<times> bool \<times> bool" where
  "frame p = (p_initializing p, p_view p, p_isLoggedIn p, p_isLocked p)"

definition gate :: "popup \<Rightarrow> bool" where
  "gate p \<longleftrightarrow> \<not> p_initializing p \<and> (p_view p \<noteq> MainView \<longrightarrow> p_isLoggedIn p \<and> \<not> p_isLocked p) \<and> (p_isLocked p \<longrightarrow> p_isLoggedIn p)"

lemma gate_frame: "frame p' = frame p \<Longrightarrow> gate p' = gate p"
  by (simp add: frame_def gate_def)

text \<open>The sign-in form or the unlock form, with an error.\<close>

definition error_form :: "popup \<Rightarrow> bool" where
  "error_form p \<longleftrightarrow> p_view p = MainView \<and> (\<not> p_isLoggedIn p \<or> p_isLocked p) \<and> p_error p \<noteq> None"

lemma gate_page:
  assumes "gate p" and "\<not> p_isLoggedIn p \<or> p_isLocked p" and "p_view p = MainView"
  shows "viewPage p \<in> {loginForm p, lockedForm p}"
  using assms by (cases "p_isLocked p") (auto simp: gate_def viewPage_def mainPage_def panel_simps shownIf_def)

text \<open>The clicks that open, close or ask for the session, and those that change the view.\<close>

fun loud :: "click \<Rightarrow> bool" where
  "loud SubmitLogin = True" | "loud SubmitUnlock = True" | "loud LogoutClick = True" | "loud LogoutAndClearClick = True"
| "loud LockClick = True" | "loud SyncClick = True" | "loud (ResolveChangesClick apply) = True" | "loud ConfirmDeleteAccount = True"
| "loud GoBack = True" | "loud OpenSettings = True" | "loud OpenManageProfiles = True" | "loud OpenAccountSecurity = True"
| "loud a = False"

lemma quiet_form_click: "formClick a \<Longrightarrow> \<not> loud a \<Longrightarrow> \<exists>v. a = Type_in EmailField v \<or> a = Type_in PasswordField v"
  by (auto simp: formClick_def)

lemma frame_updates:
  "frame (typed f v p) = frame p" "p_error (typed f v p) = p_error p"
  "frame (onRecomputeReply i res p) = frame p" "frame (onResolveImportReply res p) = frame p" "frame (onCreateReply res p) = frame p"
  "frame (onDeleteReply i res p) = frame p" "frame (onRenameReply i res p) = frame p" "frame (onChangePasswordReply res p) = frame p"
  "frame (onSynced at ps p) = frame p" "p_error (onSynced at ps p) = p_error p"
  "frame (changeOnboardingTimeout E t p) = frame p" "frame (toggleAdding p) = frame p" "frame (cancelRename p) = frame p"
  "frame (startRename q p) = frame p" "frame (toggleDelete q p) = frame p" "frame (cancelDelete p) = frame p"
  "frame (askDeleteAccount p) = frame p" "frame (cancelDeleteAccount p) = frame p"
  by (cases f; simp add: frame_def; fail)+
     (simp_all add: frame_def onRecomputeReply_def onResolveImportReply_def onCreateReply_def onDeleteReply_def onRenameReply_def
        onChangePasswordReply_def onSynced_def changeOnboardingTimeout_def toggleAdding_def cancelRename_def startRename_def
        toggleDelete_def cancelDelete_def askDeleteAccount_def cancelDeleteAccount_def Let_def
        split: ext_response.split option.split)

lemma reply_views [simp]:
  "p_view (onLoginReply res p) = p_view p" "p_initializing (onLoginReply res p) = p_initializing p"
  "p_view (onUnlockReply res p) = p_view p" "p_initializing (onUnlockReply res p) = p_initializing p"
  by (simp_all add: onLoginReply_def onUnlockReply_def openImport_def Let_def split: ext_response.split)

subsection \<open>The startup in two parts\<close>

text \<open>The reply to the sync is not awaited: it comes when the popup has long been in use.\<close>

definition openPopup :: "'b popup_env \<Rightarrow> ('b, bool) ui" where
  "openPopup E =
     bindP (catchP (bindP (sendP E GET_STATUS) (onStatusReply E)) (\<lambda>_. retP False)) (\<lambda>sync.
     bindP (modP (\<lambda>p. p\<lparr>p_initializing := False\<rparr>)) (\<lambda>_. retP sync))"

definition startupSync :: "'b popup_env \<Rightarrow> ('b, unit) ui" where
  "startupSync E = catchP (bindP (sendP E SYNC) (\<lambda>res. modP (onSyncReply res))) (\<lambda>_. retP ())"

lemma popupStartup_parts: "popupStartup E = bindP (openPopup E) (\<lambda>sync. whenP sync (startupSync E))"
  by (simp add: popupStartup_def openPopup_def startupSync_def bindP_assoc io_laws)

subsection \<open>What an open popup relies on\<close>

text \<open>From one state of the background to the next the flags stay, or the session has ended.\<close>

definition calm :: "('b \<Rightarrow> bool) \<Rightarrow> ('b \<Rightarrow> bool) \<Rightarrow> 'b \<Rightarrow> 'b \<Rightarrow> bool" where
  "calm loggedIn locked b b' \<longleftrightarrow> loggedIn b' = loggedIn b \<and> locked b' = locked b \<or> \<not> loggedIn b'"

fun opensSession :: "ext_message \<Rightarrow> bool" where
  "opensSession (LOGIN mail auth wrapping) = True" | "opensSession (UNLOCK key) = True" | "opensSession LOCK = True"
| "opensSession (RESOLVE_LOCKED_CHANGES apply) = True"
| "opensSession msg = False"

text \<open>A popup in step: it agrees with the session, or shows a form with an error, or the session has ended.\<close>

definition in_step :: "('b \<Rightarrow> bool) \<Rightarrow> ('b \<Rightarrow> bool) \<Rightarrow> popup \<times> 'b \<Rightarrow> bool" where
  "in_step loggedIn locked s \<longleftrightarrow> agrees loggedIn locked s \<or> error_form (fst s) \<or> \<not> loggedIn (snd s)"

text \<open>A view of the popup's signals unchanged, and the background calm.\<close>

definition quiet_from :: "('b \<Rightarrow> 'b \<Rightarrow> bool) \<Rightarrow> (popup \<Rightarrow> 'f) \<Rightarrow> 'f \<Rightarrow> 'b \<Rightarrow> popup \<times> 'b \<Rightarrow> bool" where
  "quiet_from C h fr b0 s \<longleftrightarrow> h (fst s) = fr \<and> C b0 (snd s)"

lemma quiet_modP: "(\<And>p. h (f p) = h p) \<Longrightarrow> keeps (quiet_from C h fr b0) (modP f)"
  by (auto simp: keeps_def quiet_from_def modP_def)

lemma keeps_lookP [keeps_intros]: "keeps P (lookP f)" "keeps P (envP g)"
  by (auto simp: keeps_def lookP_def envP_def)

lemma keeps_bind_look: "(\<And>p. keeps P (f (h p))) \<Longrightarrow> keeps P (bindP (lookP h) f)"
  by (auto simp: keeps_def bindP_def lookP_def)

locale popup_service = session_service serve loggedIn locked
  for serve :: "ext_message \<Rightarrow> ('b, ext_response) io" and loggedIn :: "'b \<Rightarrow> bool" and locked :: "'b \<Rightarrow> bool" +
  assumes locked_session: "locked b \<Longrightarrow> loggedIn b"
    and other: "serve msg b = Some (Inr res, b') \<Longrightarrow> \<not> opensSession msg \<Longrightarrow> calm loggedIn locked b b'"
    and resolve: "serve (RESOLVE_LOCKED_CHANGES apply) b = Some (Inr res, b') \<Longrightarrow>
      (\<exists>err. res = RESOLVE_ERROR err) \<or> calm loggedIn locked b b'"
begin

lemma calm_trans: "calm loggedIn locked b0 b \<Longrightarrow> calm loggedIn locked b b' \<Longrightarrow> calm loggedIn locked b0 b'"
  by (auto simp: calm_def)

lemma quiet_sendP:
  assumes "pe_sendOnce E = serve" and "\<not> opensSession msg"
  shows "keeps (quiet_from (calm loggedIn locked) h fr b0) (sendP E msg)"
proof (rule keepsI)
  fix s r t assume p: "quiet_from (calm loggedIn locked) h fr b0 s" and e: "sendP E msg s = Some (r, t)"
  obtain q b where s: "s = (q, b)" by (cases s)
  from e s obtain b' where v: "serve msg b = Some (r, b')" "t = (q, b')"
    by (auto simp: sendP_serve [OF assms(1)] split: option.splits)
  with answers obtain res where "r = Inr res" by blast
  with v other [of msg b res b'] assms(2) p s show "quiet_from (calm loggedIn locked) h fr b0 t"
    by (auto simp: quiet_from_def intro: calm_trans)
qed

lemma quiet_downloads:
  "keeps (quiet_from C frame fr b0) (treeBody E)" "keeps (quiet_from C frame fr b0) (saveExport E name html)"
  "keeps (quiet_from C frame fr b0) (exportBookmarksBackup E)"
proof -
  show get: "keeps (quiet_from C frame fr b0) (treeBody E)"
    unfolding treeBody_def by (intro keeps_intros) (auto split: list.split intro: keeps_basic)
  have "keeps (quiet_from C frame fr b0) (download name html)" for name html
    unfolding download_def by (rule quiet_modP) (simp add: frame_def)
  with get show "keeps (quiet_from C frame fr b0) (saveExport E name html)" "keeps (quiet_from C frame fr b0) (exportBookmarksBackup E)"
    unfolding saveExport_def exportBookmarksBackup_def by (auto intro: keeps_bind)
qed

abbreviation still :: "bool \<times> view \<times> bool \<times> bool \<Rightarrow> 'b \<Rightarrow> popup \<times> 'b \<Rightarrow> bool" where
  "still \<equiv> quiet_from (calm loggedIn locked) frame"

lemmas still_steps = keeps_bind keeps_if keeps_when keeps_catch keeps_finally keeps_lookP keeps_basic quiet_downloads quiet_modP quiet_sendP

lemma quiet_profiles:
  assumes E: "pe_sendOnce E = serve"
  shows "keeps (still fr b0) (recomputeImportDiff E i)" "keeps (still fr b0) (resolveImport E)" "keeps (still fr b0) (switchTo E i)"
    "keeps (still fr b0) (createProfile E)" "keeps (still fr b0) (confirmDeleteProfile E i)" "keeps (still fr b0) (submitRename E)"
    "keeps (still fr b0) (exportProfile E i name)"
proof -
  show "keeps (still fr b0) (recomputeImportDiff E i)"
    unfolding recomputeImportDiff_def by (intro still_steps E) (simp_all add: frame_updates, simp_all add: frame_def)
  show "keeps (still fr b0) (resolveImport E)"
    unfolding resolveImport_def
    by (intro keeps_bind [OF quiet_modP] keeps_bind_look, simp add: frame_def, intro still_steps E)
       (simp_all add: frame_updates resolveImportMessage_def, simp_all add: frame_def)
  show "keeps (still fr b0) (switchTo E i)"
    unfolding switchTo_def by (intro still_steps E) (simp_all add: frame_def split: ext_response.split)
  show "keeps (still fr b0) (createProfile E)"
    unfolding createProfile_def by (intro still_steps E) (simp_all add: frame_updates, simp_all add: frame_def)
  show "keeps (still fr b0) (confirmDeleteProfile E i)"
    unfolding confirmDeleteProfile_def by (intro still_steps E) (simp_all add: frame_updates, simp_all add: frame_def)
  show "keeps (still fr b0) (submitRename E)"
    unfolding submitRename_def by (intro still_steps E) (simp_all add: frame_updates, simp_all add: frame_def)
  have "keeps (still fr b0) (case res of
                EXPORT_PROFILE_SUCCESS bms \<Rightarrow> saveExport E name (buildHtmlFromLoroBookmarks bms)
              | EXPORT_PROFILE_ERROR err \<Rightarrow> modP (\<lambda>p. p\<lparr>p_exportError := Some (i, err)\<rparr>)
              | _ \<Rightarrow> modP (\<lambda>p. p\<lparr>p_exportError := Some (i, ''Export failed.'')\<rparr>))" for res
    by (cases res) (auto intro!: quiet_modP quiet_downloads simp: frame_def)
  then show "keeps (still fr b0) (exportProfile E i name)"
    unfolding exportProfile_def by (intro still_steps E) (simp_all add: frame_def)
qed

lemma quiet_settings:
  assumes E: "pe_sendOnce E = serve"
  shows "keeps (still fr b0) (changeSessionTimeout E v)" "keeps (still fr b0) (submitPassword E)" "keeps (still fr b0) (finishOnboarding E)"
proof -
  show "keeps (still fr b0) (changeSessionTimeout E v)"
    unfolding changeSessionTimeout_def by (intro still_steps E) (simp_all add: frame_def)
  have "keeps (still fr b0) (preparePassword E)"
    unfolding preparePassword_def by (intro still_steps)
  then show "keeps (still fr b0) (submitPassword E)"
    unfolding submitPassword_def by (intro still_steps keeps_prod E) (simp_all add: frame_updates, simp_all add: frame_def)
  have "keeps (still fr b0) (applyTimeout E)"
    unfolding applyTimeout_def by (intro still_steps E) (simp_all add: frame_def)
  moreover have "keeps (still fr b0) (renameFirst E q)" for q
    unfolding renameFirst_def by (intro still_steps E) (simp_all add: frame_def Let_def split: ext_response.split)
  ultimately show "keeps (still fr b0) (finishOnboarding E)"
    unfolding finishOnboarding_def by (intro still_steps keeps_option E) (simp_all add: frame_def Let_def)
qed

lemma quiet_click:
  assumes E: "pe_sendOnce E = serve" and theme: "\<And>t b. calm loggedIn locked b (pe_storeTheme E t b)" and a: "\<not> loud a"
  shows "keeps (still fr b0) (perform E a)"
proof -
  have "keeps (still fr b0) (changeTheme E t)" for t
    unfolding changeTheme_def
    by (intro keeps_bind quiet_modP keeps_set) (auto simp: frame_def quiet_from_def intro: calm_trans [OF _ theme])
  with a show ?thesis
    by (cases a) (auto intro!: quiet_profiles [OF E] quiet_settings [OF E] quiet_modP keeps_catch keeps_basic simp: frame_updates,
      simp_all add: frame_def)
qed

text \<open>The loud clicks: how they leave the frame, and what the popup knows afterwards.\<close>

abbreviation knows :: "popup \<times> 'b \<Rightarrow> bool" where
  "knows \<equiv> agrees loggedIn locked"

lemma login_result:
  assumes E: "pe_sendOnce E = serve" and run: "login E (p, b) = Some (r, (p', b'))"
  shows "p_view p' = p_view p \<and> p_initializing p' = p_initializing p
    \<and> (knows (p', b') \<and> p_isLoggedIn p' \<and> \<not> p_isLocked p' \<or> frame p' = frame p \<and> p_error p' \<noteq> None)"
proof (rule login_answer [OF E run])
  fix res assume q: "serve (LOGIN (p_email p) (authKey (deriveKeys (pe_crypto E) (p_password p) (p_email p)))
        (wrappingKeyBytes (deriveKeys (pe_crypto E) (p_password p) (p_email p)))) b = Some (Inr res, b')"
    and p': "p' = onLoginReply res (p\<lparr>p_error := None, p_loadingLabel := ''Authenticating...'', p_loading := False\<rparr>)"
  from log_in [OF q] show ?thesis using p' by (auto simp: frame_def agrees_def)
qed

lemma unlock_result:
  assumes E: "pe_sendOnce E = serve" and run: "unlock E (p, b) = Some (r, (p', b'))" and "p_isLoggedIn p"
  shows "p_view p' = p_view p \<and> p_initializing p' = p_initializing p \<and> p_isLoggedIn p'
    \<and> (knows (p', b') \<and> \<not> p_isLocked p' \<or> frame p' = frame p \<and> p_error p' \<noteq> None)"
proof (cases "unlockKey (pe_crypto E) (p_password p) (p_email p) (pe_stored E b)")
  case (Inl e)
  with run assms(3) show ?thesis by (auto simp: unlock_def try_step failLoading_def frame_def)
next
  case (Inr k)
  show ?thesis
  proof (rule unlock_answer [OF E run Inr])
    fix res assume q: "serve (UNLOCK k) b = Some (Inr res, b')"
      and p': "p' = onUnlockReply res (p\<lparr>p_error := None, p_loadingLabel := ''Unlocking...'', p_loading := False\<rparr>)"
    from un_lock [OF q] show ?thesis using p' assms(3) by (auto simp: frame_def agrees_def)
  qed
qed

lemma delete_result:
  assumes E: "pe_sendOnce E = serve" and run: "deleteAccount E (p, b) = Some (r, (p', b'))"
  shows "frame p' = frame p \<and> loggedIn b' = loggedIn b \<and> locked b' = locked b
    \<or> frame p' = (p_initializing p, MainView, False, False) \<and> \<not> loggedIn b'"
proof (cases "p_deleteAccountPassword p = []")
  case True
  with run show ?thesis by (auto simp: deleteAccount_def frame_def)
next
  case False
  show ?thesis
  proof (rule delete_answer [OF E run False])
    fix res assume q: "serve (DELETE_ACCOUNT (authKey (deriveKeys (pe_crypto E) (p_deleteAccountPassword p) (p_email p)))) b = Some (Inr res, b')"
      and p': "p' = (onDeleteAccountReply res (p\<lparr>p_deleteAccountLoading := True, p_deleteAccountError := None\<rparr>))\<lparr>p_deleteAccountLoading := False\<rparr>"
    from delete [OF q] show ?thesis
      using p' by (auto simp: frame_def onDeleteAccountReply_def split: ext_response.splits if_splits)
  qed
qed

lemma signed_out: "p_isLoggedIn p' = False \<Longrightarrow> p_isLocked p' = False \<Longrightarrow> \<not> loggedIn b' \<Longrightarrow> knows (p', b')"
  using locked_session by (auto simp: agrees_def)

lemma signing_out_result:
  assumes "pe_sendOnce E = serve"
  shows "logout E (p, b) = Some (r, (p', b')) \<Longrightarrow> p' = afterLogout p \<and> knows (p', b')"
    and "logoutAndClear E (p, b) = Some (r, (p', b')) \<Longrightarrow> p' = afterLogout p \<and> knows (p', b')"
  unfolding logout_def logoutAndClear_def
  by (erule answered [OF assms], auto simp: agrees_def afterLogout_def dest!: log_out)+

lemma lock_result:
  assumes "pe_sendOnce E = serve" and "lock E (p, b) = Some (r, (p', b'))"
  shows "p' = p\<lparr>p_isLocked := True, p_password := [], p_pendingChanges := None, p_view := MainView\<rparr>
    \<and> loggedIn b' = loggedIn b \<and> locked b' = loggedIn b"
  using assms(2) unfolding lock_def by (elim answered [OF assms(1)]) (auto dest!: to_lock)

text \<open>A reply to a sync: the session is as it was and so is the popup, or it has ended.\<close>

lemma sync_reply:
  assumes "serve SYNC b = Some (Inr res, b')"
  shows "(frame (onSyncReply res p) = frame p \<and> p_error (onSyncReply res p) = p_error p \<and> loggedIn b' = loggedIn b \<and> locked b' = locked b)
    \<or> onSyncReply res p = signedOut p \<and> \<not> loggedIn b'"
  using sync [OF assms] by (auto simp: onSyncReply_def frame_updates split: ext_response.splits if_splits)

lemma resolve_result:
  assumes E: "pe_sendOnce E = serve" and run: "resolveChanges E apply (p, b) = Some (r, (p', b'))"
  shows "frame p' = frame p \<and> calm loggedIn locked b b'
    \<or> frame p' = (p_initializing p, p_view p, p_isLoggedIn p, True) \<and> p_error p' \<noteq> None"
proof -
  from run obtain res where q: "serve (RESOLVE_LOCKED_CHANGES apply) b = Some (Inr res, b')"
    and p': "p' = (let p1 = p\<lparr>p_resolving := False, p_pendingChanges := None\<rparr>
        in case res of RESOLVE_ERROR err \<Rightarrow> p1\<lparr>p_isLocked := True, p_error := Some err\<rparr> | _ \<Rightarrow> p1)"
    unfolding resolveChanges_def by (simp, elim answered [OF E]) auto
  from resolve [OF q] p' show ?thesis
    by (auto simp: frame_def Let_def split: ext_response.splits)
qed

lemma syncNow_result:
  assumes E: "pe_sendOnce E = serve" and run: "syncNow E (p, b) = Some (r, (p', b'))"
  shows "frame p' = frame p \<and> p_error p' = p_error p \<and> loggedIn b' = loggedIn b \<and> locked b' = locked b
    \<or> frame p' = (p_initializing p, MainView, False, False) \<and> \<not> loggedIn b'"
proof -
  from run obtain res where q: "serve SYNC b = Some (Inr res, b')" and p': "p' = onSyncReply res (p\<lparr>p_syncing := False\<rparr>)"
    unfolding syncNow_def by (simp, elim answered [OF E]) auto
  from sync_reply [OF q, of "p\<lparr>p_syncing := False\<rparr>"] p' show ?thesis
    by (auto simp: frame_def signedOut_def)
qed

text \<open>An offered click.\<close>

lemma loud_click:
  assumes E: "pe_sendOnce E = serve" and g: "gate p" and k: "in_step loggedIn locked (p, b)"
    and o: "offers p a" and l: "loud a" and run: "perform E a (p, b) = Some (r, (p', b'))"
  shows "gate p' \<and> in_step loggedIn locked (p', b')"
proof (cases a)
  case SubmitLogin
  with o have "p_view p = MainView" "showLogin p" using offers_main(1) by auto
  with login_result [OF E, of p b r p' b'] run SubmitLogin g show ?thesis
    by (auto simp: gate_def in_step_def error_form_def frame_def panel_simps)
next
  case SubmitUnlock
  with o have "p_view p = MainView" "showLocked p" using offers_main(2) by auto
  with unlock_result [OF E, of p b r p' b'] run SubmitUnlock g show ?thesis
    by (auto simp: gate_def in_step_def error_form_def frame_def panel_simps)
next
  case LogoutClick
  with signing_out_result(1) [OF E, of p b r p' b'] run g show ?thesis
    by (auto simp: gate_def in_step_def afterLogout_def)
next
  case LogoutAndClearClick
  with signing_out_result(2) [OF E, of p b r p' b'] run g show ?thesis
    by (auto simp: gate_def in_step_def afterLogout_def)
next
  case LockClick
  with o have "p_view p = SettingsView" using offers_elsewhere(1) by auto
  with lock_result [OF E, of p b r p' b'] LockClick run g k show ?thesis
    by (auto simp: gate_def in_step_def agrees_def error_form_def)
next
  case SyncClick
  with o have "isReady p" using offers_main(4) by auto
  with syncNow_result [OF E, of p b r p' b'] SyncClick run g k locked_session [of b'] show ?thesis
    by (auto simp: gate_def in_step_def agrees_def error_form_def frame_def panel_simps)
next
  case (ResolveChangesClick keep)
  with o have "p_view p = MainView" "showChanges p" using offers_main(3) by auto
  with resolve_result [OF E, of keep p b r p' b'] ResolveChangesClick run g k show ?thesis
    by (auto simp: gate_def in_step_def agrees_def error_form_def frame_def panel_simps calm_def)
next
  case ConfirmDeleteAccount
  with o have "p_view p = AccountSecurityView" using offers_elsewhere(8) by auto
  with delete_result [OF E, of p b r p' b'] ConfirmDeleteAccount run g k show ?thesis
    by (auto simp: gate_def in_step_def agrees_def error_form_def frame_def)
next
  case GoBack
  with o have "p_view p \<noteq> MainView" using offers_elsewhere(6) by auto
  with GoBack run g k show ?thesis
    by (cases "p_view p = SettingsView") (auto simp: gate_def in_step_def agrees_def error_form_def goBack_def)
next
  case OpenSettings
  with o have "p_isLoggedIn p" "\<not> p_isLocked p" using offers_elsewhere(5) by auto
  with OpenSettings run g k show ?thesis by (auto simp: gate_def in_step_def agrees_def error_form_def)
next
  case OpenManageProfiles
  with o have "p_view p = SettingsView" using offers_elsewhere(3) by auto
  with OpenManageProfiles run g k show ?thesis by (auto simp: gate_def in_step_def agrees_def error_form_def openManageProfiles_def)
next
  case OpenAccountSecurity
  with o have "p_view p = SettingsView" using offers_elsewhere(4) by auto
  with OpenAccountSecurity run g k show ?thesis by (auto simp: gate_def in_step_def agrees_def error_form_def openAccountSecurity_def)
qed (use l in simp_all)

lemma click_step:
  assumes E: "pe_sendOnce E = serve" and theme: "\<And>t b. calm loggedIn locked b (pe_storeTheme E t b)"
    and g: "gate p" and k: "in_step loggedIn locked (p, b)" and o: "offers p a" and run: "perform E a (p, b) = Some (r, (p', b'))"
  shows "gate p' \<and> in_step loggedIn locked (p', b')"
proof (cases "loud a")
  case True
  with loud_click [OF E g k o _ run] show ?thesis .
next
  case False
  have "still (frame p) b (p, b)" by (simp add: quiet_from_def calm_def)
  from keepsD [OF quiet_click [OF E theme False] run this] have f: "frame p' = frame p" and c: "calm loggedIn locked b b'"
    by (simp_all add: quiet_from_def)
  show ?thesis
  proof (cases "error_form p")
    case True
    with g have "formClick a" using forms_only [OF _ _ _ o] by (auto simp: error_form_def gate_def)
    with quiet_form_click [of a] \<open>\<not> loud a\<close> run have "p_error p' = p_error p \<and> b' = b"
      by (auto simp: frame_updates modP_def)
    with True f show ?thesis using gate_frame [OF f] g by (auto simp: in_step_def error_form_def frame_def)
  next
    case False
    with k c f show ?thesis using gate_frame [OF f] g by (auto simp: in_step_def agrees_def frame_def calm_def)
  qed
qed

text \<open>What happens to the popup without a click.\<close>

lemma late_step:
  assumes E: "pe_sendOnce E = serve" and g: "gate p" and k: "in_step loggedIn locked (p, b)"
    and run: "startupSync E (p, b) = Some (r, (p', b'))"
  shows "gate p' \<and> in_step loggedIn locked (p', b')"
proof -
  from run obtain res where q: "serve SYNC b = Some (Inr res, b')" and p': "p' = onSyncReply res p"
    unfolding startupSync_def by (elim answered_try [OF E]) (auto simp: catchP_def)
  from sync_reply [OF q, of p] p' g k locked_session [of b'] show ?thesis
    by (auto simp: gate_def in_step_def agrees_def error_form_def frame_def signedOut_def)
qed

lemma told_step:
  assumes E: "pe_sendOnce E = serve" and g: "gate p" and k: "in_step loggedIn locked (p, b)"
    and run: "onPush E m (p, b) = Some (r, (p', b'))"
  shows "gate p' \<and> in_step loggedIn locked (p', b')"
proof (cases m)
  case (PROFILE_SWITCHED i)
  with run g k show ?thesis by (auto simp: onPush_def gate_def in_step_def agrees_def error_form_def)
next
  case (SWITCH_SETTLED i)
  let ?view = "\<lambda>p. (frame p, p_error p)"
  have "keeps (quiet_from (calm loggedIn locked) ?view (?view p) b) (onPush E m)"
    unfolding onPush_def SWITCH_SETTLED ext_push.case
    by (intro still_steps E) (simp_all add: frame_updates split: ext_response.split, simp_all add: frame_def)
  moreover have "quiet_from (calm loggedIn locked) ?view (?view p) b (p, b)" by (simp add: quiet_from_def calm_def)
  ultimately have "frame p' = frame p" "p_error p' = p_error p" "calm loggedIn locked b b'"
    using run keepsD by (fastforce simp: quiet_from_def)+
  with g k show ?thesis by (auto simp: gate_def in_step_def agrees_def error_form_def frame_def calm_def)
qed

lemma opening_step:
  assumes E: "pe_sendOnce E = serve" and run: "openPopup E (p, b) = Some (r, (p', b'))" and main: "p_view p = MainView"
  shows "gate p' \<and> in_step loggedIn locked (p', b')"
proof -
  let ?m = "bindP (sendP E GET_STATUS) (onStatusReply E)"
  from run obtain q u where "?m (p, b) = Some (q, u)"
    by (cases "?m (p, b)") (auto simp: openPopup_def bindP_def catchP_def)
  then obtain res b1 where s: "serve GET_STATUS b = Some (Inr res, b1)"
    by (rule answered [OF E])
  from status [OF s] obtain st where st: "b1 = b" "res = STATUS st" "st_isLoggedIn st = loggedIn b" "st_isLocked st = locked b"
    by blast
  let ?sync = "st_isLoggedIn st \<and> \<not> st_isLocked st \<and> st_pendingChanges st = None \<and> st_pendingImport st = None"
  have m: "?m (p, b) = Some (Inr ?sync, (onStatus st p, b))"
    using s st(1,2) by (simp add: sendP_serve [OF E] onStatusReply_def bindP_def modP_def)
  have "catchP ?m (\<lambda>_. retP False) (p, b) = Some (Inr ?sync, (onStatus st p, b))"
    unfolding catchP_def m by simp
  with run have "p' = (onStatus st p)\<lparr>p_initializing := False\<rparr>" "b' = b"
    unfolding openPopup_def bindP_def by auto
  moreover have "p_view (onStatus st p) = MainView" using main by (simp add: onStatus_def openImport_def Let_def)
  ultimately show ?thesis
    using st(3,4) locked_session [of b] by (auto simp: gate_def in_step_def agrees_def)
qed

end

subsection \<open>The background provides it\<close>

text \<open>The session as it was, or none.\<close>

definition flags_or_out :: "bool \<Rightarrow> bool \<Rightarrow> ('d, 'w, 'n) bg \<Rightarrow> bool" where
  "flags_or_out l k s \<longleftrightarrow> flags_as l k s \<or> \<not> isLoggedIn (g_auth s)"

interpretation calmly: quiet_worker "flags_or_out l k" for l k
proof
  fix X p n skip exclusive
  have "doc_invariant (flags_or_out l k)" by unfold_locales (auto simp: flags_or_out_def flags_as_def blind_def)
  then show "keeps (flags_or_out l k) (syncFrom X p n skip exclusive)"
    by (rule doc_invariant.syncFrom_keeps) (simp add: flags_or_out_def flags_as_def)
qed (auto simp: flags_or_out_def flags_as_def blind_def dest: quiet_flags)

abbreviation worker_calm :: "('d, 'w, 'n) bg \<Rightarrow> ('d, 'w, 'n) bg \<Rightarrow> bool" where
  "worker_calm \<equiv> calm (\<lambda>s. isLoggedIn (g_auth s)) (\<lambda>s. isLocked (g_auth s))"

lemma calmI: "keeps (flags_or_out (isLoggedIn (g_auth s)) (isLocked (g_auth s))) m \<Longrightarrow> m s = Some (r, t) \<Longrightarrow> worker_calm s t"
  by (drule keepsD) (auto simp: flags_or_out_def flags_as_def calm_def)

lemma calm_message:
  assumes "\<not> opensSession msg" and "handleMessage X [] msg s = Some (r, t)"
  shows "worker_calm s t"
proof -
  have "keeps (flags_or_out (isLoggedIn (g_auth s)) (isLocked (g_auth s))) (handleMessage X [] msg)"
    using assms(1)
    by (cases msg)
       (auto intro!: keeps_bind keeps_basic calmly.keeps_quiet quiet_timeout calmly.logout calmly.resolving_import calmly.profile_list
          calmly.syncing calmly.recomputing calmly.exporting calmly.deleting_account calmly.changing_password calmly.switching
          simp: flags_or_out_def flags_as_def)
  from calmI [OF this assms(2)] show ?thesis .
qed

lemma calm_resolve:
  assumes "handleResolveLockedChanges X apply s = Some (Inr res, t)"
  shows "(\<exists>err. res = RESOLVE_ERROR err) \<or> worker_calm s t"
proof (cases "truthy (g_pendingUnlockProfileId s)")
  case False
  with assms show ?thesis by (auto simp: handleResolveLockedChanges_def)
next
  case True
  let ?m = "bindP (completeUnlockInit X (the (g_pendingUnlockProfileId s)) apply) (\<lambda>_. bindP (setIconLocked False) (\<lambda>_.
      bindP startSync (\<lambda>_. retP RESOLVE_SUCCESS)))"
  let ?s = "s\<lparr>g_pendingChanges := None, g_pendingUnlockProfileId := None\<rparr>"
  have k: "keeps (flags_or_out (isLoggedIn (g_auth ?s)) (isLocked (g_auth ?s))) ?m"
    unfolding completeUnlockInit_def
    by (intro keeps_bind keeps_when calmly.calls calmly.tearing_down calmly.starting calmly.pulling keeps_basic)
  from assms True show ?thesis
    unfolding handleResolveLockedChanges_def
    by (simp add: bindP_getP, elim catchP_SomeE) (use calmI [OF k, of "Inr res" t] in \<open>auto simp: calm_def setIconLocked_def setIcon_def split: if_splits\<close>)
qed

interpretation worker_page: popup_service "backgroundOf X" "\<lambda>s. isLoggedIn (g_auth s)" "\<lambda>s. isLocked (g_auth s)" for X
proof
  fix s t msg res keep
  show "backgroundOf X msg s = Some (Inr res, t) \<Longrightarrow> \<not> opensSession msg \<Longrightarrow> worker_calm s t"
    by (auto dest!: backgroundOf_Some intro: calm_message)
  show "backgroundOf X (RESOLVE_LOCKED_CHANGES keep) s = Some (Inr res, t) \<Longrightarrow> (\<exists>err. res = RESOLVE_ERROR err) \<or> worker_calm s t"
    by (auto dest!: backgroundOf_Some calm_resolve)
  show "isLocked (g_auth s) \<Longrightarrow> isLoggedIn (g_auth s)" by (rule locked_is_logged_in)
qed

end
