(* ===== verification/Popup_Open.thy ===== *)
theory Popup_Open
  imports Popup_Run
begin

text \<open>
  An open popup over the service worker: a step relation whose events are the clicks the page offers,
  the messages of the background, the late reply to the first sync, and the steps the worker takes
  on its own. What a popup knows of the session at any time, what it offers while the session is
  locked, and that nothing is deleted that the user did not ask to delete.
\<close>

subsection \<open>The worker on its own\<close>

inductive worker_alone :: "('d, 'w, 'n) platform \<Rightarrow> ('d, 'w, 'n) bg \<Rightarrow> ('d, 'w, 'n) bg \<Rightarrow> bool" for X where
  alone_job: "j \<in> set (g_jobs s) \<Longrightarrow> runJob X j (s\<lparr>g_jobs := remove1 j (g_jobs s)\<rparr>) = Some (r, t) \<Longrightarrow> worker_alone X s t"
| alone_alarm: "onAlarm X a s = Some (r, t) \<Longrightarrow> worker_alone X s t"
| alone_callback: "onCallback X p c s = Some (r, t) \<Longrightarrow> worker_alone X s t"
| alone_keyboard: "onCommand X arrivals c s = Some (r, t) \<Longrightarrow> worker_alone X s t"
| alone_stream: "worker_alone X s (s\<lparr>g_sse := v, g_alarms := alarms\<rparr>)"
| alone_world: "worker_alone X s (s\<lparr>g_world := w, g_net := n\<rparr>)"

lemma alone_is_step: "worker_alone X s t \<Longrightarrow> bg_step X s t"
  by (induction rule: worker_alone.induct) (auto intro: bg_step.intros)

lemma alone_calm:
  assumes "worker_alone X s t"
  shows "worker_calm s t"
proof -
  let ?P = "flags_or_out (isLoggedIn (g_auth s)) (isLocked (g_auth s))"
  have p: "?P s" by (simp add: flags_or_out_def flags_as_def)
  have switch: "keeps ?P (handleSwitchProfile X arrivals i)" for arrivals i
    by (rule calmly.switching) (simp add: flags_or_out_def flags_as_def)
  from assms have "?P t"
  proof cases
    case (alone_job j r)
    with calmly.unseen_doc(4) [of "isLoggedIn (g_auth s)" "isLocked (g_auth s)"] p show ?thesis by (auto intro: keepsD [OF calmly.jobs])
  next
    case (alone_alarm a r)
    with p show ?thesis by (auto intro: keepsD [OF calmly.alarms])
  next
    case (alone_callback i c r)
    with p show ?thesis by (auto intro: keepsD [OF calmly.reacting(4)])
  next
    case (alone_keyboard arrivals c r)
    with p show ?thesis by (auto intro: keepsD [OF calmly.commands [OF switch]])
  qed (simp_all add: flags_or_out_def flags_as_def)
  then show ?thesis by (auto simp: flags_or_out_def flags_as_def calm_def)
qed

subsection \<open>Runs\<close>

datatype popup_event = Clicked click | Told ext_push | FirstSync | Elsewhere

text \<open>
  The events of a run, the latest first. The reply to the first sync may come at any time; the run
  lets it come more than once.
\<close>

inductive popup_run ::
  "('d, 'w, 'n) platform \<Rightarrow> ('d, 'w, 'n) bg popup_env \<Rightarrow> popup_event list \<Rightarrow> popup \<times> ('d, 'w, 'n) bg \<Rightarrow> bool" for X E where
  opened: "openPopup E (themeOf stored freshPopup, s) = Some (r, u) \<Longrightarrow> popup_run X E [] u"
| clicked: "popup_run X E tr (p, s) \<Longrightarrow> offers p a \<Longrightarrow> perform E a (p, s) = Some (r, u) \<Longrightarrow> popup_run X E (Clicked a # tr) u"
| told: "popup_run X E tr (p, s) \<Longrightarrow> onPush E m (p, s) = Some (r, u) \<Longrightarrow> popup_run X E (Told m # tr) u"
| first_sync: "popup_run X E tr (p, s) \<Longrightarrow> startupSync E (p, s) = Some (r, u) \<Longrightarrow> popup_run X E (FirstSync # tr) u"
| elsewhere: "popup_run X E tr (p, s) \<Longrightarrow> worker_alone X s t \<Longrightarrow> popup_run X E (Elsewhere # tr) (p, t)"

inductive_cases clicked_run: "popup_run X E (Clicked a # tr) u"

abbreviation popup_in_step_with :: "popup \<times> ('d, 'w, 'n) bg \<Rightarrow> bool" where
  "popup_in_step_with \<equiv> in_step (\<lambda>s. isLoggedIn (g_auth s)) (\<lambda>s. isLocked (g_auth s))"

lemma run_in_step:
  assumes "popup_run X E tr u" and E: "pe_sendOnce E = backgroundOf X"
    and theme: "\<And>t s. g_auth (pe_storeTheme E t s) = g_auth s"
  shows "gate (fst u) \<and> popup_in_step_with u"
  using assms(1)
proof (induction rule: popup_run.induct)
  case (opened stored s r u)
  have "p_view (themeOf stored freshPopup) = MainView" by (simp add: themeOf_def freshPopup_def)
  with opened show ?case using worker_page.opening_step [OF E, of "themeOf stored freshPopup" s r "fst u" "snd u"] by simp
next
  case (clicked tr p s a r u)
  have "worker_calm s (pe_storeTheme E t s)" for t s by (simp add: calm_def theme)
  with clicked show ?case
    using worker_page.click_step [OF E _ _ _ clicked.hyps(2), of s r "fst u" "snd u"] by simp
next
  case (told tr p s m r u)
  then show ?case using worker_page.told_step [OF E, of p s m r "fst u" "snd u"] by simp
next
  case (first_sync tr p s r u)
  then show ?case using worker_page.late_step [OF E, of p s r "fst u" "snd u"] by simp
next
  case (elsewhere tr p s t)
  with alone_calm [OF elsewhere(2)] show ?case by (auto simp: in_step_def agrees_def calm_def)
qed

subsection \<open>Examples\<close>

text \<open>A popup opened over the worker of somebody who is signed in.\<close>

lemma example_status:
  "backgroundOf X GET_STATUS (example_worker w) = Some (Inr (STATUS \<lparr>st_isLoggedIn = True, st_isLocked = False, st_email = Some ''e'',
      st_profile = Some (hd example_profiles), st_profiles = example_profiles, st_lastSynced = None, st_pendingChanges = None,
      st_pendingImport = None, st_sessionTimeout = OnRestart\<rparr>), example_worker w)"
  by (simp add: backgroundOf_def statusOf_def example_worker_def fresh_worker_def fresh_with_def example_login_def setSession_def
      isLoggedIn_def isLocked_def getEmail_def getActiveProfile_def getProfiles_def example_profiles_def freshAuth_def Let_def)

lemma example_opened:
  obtains p where "popup_run X (example_env_of X) [] (p, example_worker w)"
    and "p_view p = MainView" "isReady p" "p_profiles p = example_profiles" "p_profile p = Some (hd example_profiles)"
    and "p_deletingProfileId p = None" "p_editingProfileId p = None" "p_email p = ''e''"
proof -
  have E: "pe_sendOnce (example_env_of X) = backgroundOf X" by (simp add: example_env_of_def)
  obtain r p where o: "openPopup (example_env_of X) (themeOf None freshPopup, example_worker w) = Some (r, (p, example_worker w))"
    and "p_view p = MainView" "isReady p" "p_profiles p = example_profiles" "p_profile p = Some (hd example_profiles)"
      "p_deletingProfileId p = None" "p_editingProfileId p = None" "p_email p = ''e''"
    by (simp add: openPopup_def bindP_def catchP_def worker.sendP_serve [OF E] example_status onStatusReply_def onStatus_def themeOf_def
        freshPopup_def isReady_def)
  with that opened [OF o] show thesis by blast
qed

text \<open>Two clicks on: the session is locked from the settings.\<close>

lemma example_locked:
  fixes X :: "(bookmarks, 'w, unit) platform"
  obtains p t where "popup_run X (example_env_of X) [Clicked LockClick, Clicked OpenSettings] (p, t)"
    and "isLocked (g_auth t)" "p_isLocked p" "p_view p = MainView" "\<not> p_initializing p"
proof (rule example_opened [of X w])
  fix p
  assume run: "popup_run X (example_env_of X) [] (p, example_worker w)" and p: "p_view p = MainView" "isReady p"
  let ?E = "example_env_of X" and ?q = "p\<lparr>p_view := SettingsView\<rparr>"
  have E: "pe_sendOnce ?E = backgroundOf X" by (simp add: example_env_of_def)
  from p have "offers p OpenSettings" by (simp add: offers_def tabBar_def isReady_def)
  from clicked [OF run this] have run1: "popup_run X ?E [Clicked OpenSettings] (?q, example_worker w)" by simp
  have o: "offers ?q LockClick" by (simp add: offers_def viewPage_def settingsPage_def)
  obtain t where b: "backgroundOf X LOCK (example_worker w) = Some (Inr LOCK_SUCCESS, t)" and l: "isLocked (g_auth t)"
    by (simp add: backgroundOf_def handleLock_def stopRealtimeSync_def detachP_def setIconLocked_def setIcon_def putBridge_def
        example_worker_def example_login_def setSession_def lockSession_def isLocked_def)
  have "perform ?E LockClick (?q, example_worker w) =
      Some (Inr (), (?q\<lparr>p_isLocked := True, p_password := [], p_pendingChanges := None, p_view := MainView\<rparr>, t))"
    by (simp add: lock_def bindP_def worker.sendP_serve [OF E] b)
  from clicked [OF run1 o this] that l p(2) show thesis by (simp add: isReady_def)
qed

text \<open>Four clicks on: the bin of the profile that is not active, and its confirmation.\<close>

lemma example_deletion:
  fixes X :: "(bookmarks, 'w, unit) platform"
  assumes "x_fetch X = example_fetch"
  shows "\<exists>u. popup_run X (example_env_of X)
     [Clicked (ConfirmDelete ''p2''), Clicked (ToggleDelete (example_profiles ! 1)), Clicked OpenManageProfiles, Clicked OpenSettings] u"
proof (rule example_opened [of X])
  fix p w
  assume run: "popup_run X (example_env_of X) [] (p, example_worker w)" and p: "p_view p = MainView" "isReady p"
    "p_profiles p = example_profiles" "p_profile p = Some (hd example_profiles)" "p_editingProfileId p = None"
  let ?E = "example_env_of X" and ?s = "example_worker w" and ?q = "example_profiles ! 1"
  let ?p1 = "p\<lparr>p_view := SettingsView\<rparr>" let ?p2 = "openManageProfiles ?p1" let ?p3 = "toggleDelete ?q ?p2"
  have E: "pe_sendOnce ?E = backgroundOf X" by (simp add: example_env_of_def)
  from p have "offers p OpenSettings" by (simp add: offers_def tabBar_def isReady_def)
  from clicked [OF run this] have 1: "popup_run X ?E [Clicked OpenSettings] (?p1, ?s)" by simp
  have "offers ?p1 OpenManageProfiles" by (simp add: offers_def viewPage_def settingsPage_def)
  from clicked [OF 1 this] have 2: "popup_run X ?E [Clicked OpenManageProfiles, Clicked OpenSettings] (?p2, ?s)" by simp
  have "offers ?p2 (ToggleDelete ?q)" using p
    by (simp add: offers_def viewPage_def manageProfilesPage_def profileRow_def openManageProfiles_def example_profiles_def isActive_def)
  from clicked [OF 2 this] have 3: "popup_run X ?E [Clicked (ToggleDelete ?q), Clicked OpenManageProfiles, Clicked OpenSettings] (?p3, ?s)"
    by simp
  have o: "offers ?p3 (ConfirmDelete ''p2'')" using p
    by (simp add: offers_def viewPage_def manageProfilesPage_def profileRow_def deleteBox_def openManageProfiles_def toggleDelete_def
        example_profiles_def isActive_def)
  have "\<exists>t. backgroundOf X (DELETE_PROFILE ''p2'') ?s = Some (Inr DELETE_PROFILE_SUCCESS, t)"
    by (simp add: backgroundOf_def handleDeleteProfile_def orReply_def try_step getJwt_def netP_def apiDeleteProfile_def assms
        throwIfNotOk_def res_ok_def bindA_def catchP_def bindP_def example_fetch_def example_worker_def fresh_worker_def fresh_with_def
        example_login_def setSession_def getActiveProfileId_def dbP_def)
  then obtain t where "backgroundOf X (DELETE_PROFILE ''p2'') ?s = Some (Inr DELETE_PROFILE_SUCCESS, t)" by blast
  then have "\<exists>u. perform ?E (ConfirmDelete ''p2'') (?p3, ?s) = Some (Inr (), u)"
    by (simp add: confirmDeleteProfile_def bindP_def worker.sendP_serve [OF E])
  with clicked [OF 3 o] show ?thesis by blast
qed

subsection \<open>What the popup knows\<close>





subsection \<open>Deletions\<close>

text \<open>What the popup waits to have confirmed: the account or not, and at most one profile.\<close>

definition armed :: "bool \<Rightarrow> string option \<Rightarrow> popup \<times> 'b \<Rightarrow> bool" where
  "armed c d s \<longleftrightarrow> (p_deleteAccountConfirm (fst s) \<longrightarrow> c) \<and> p_deletingProfileId (fst s) \<in> {None, d}"

text \<open>A change of the signals after which nothing else is waited for.\<close>

definition asks_less :: "popup \<Rightarrow> popup \<Rightarrow> bool" where
  "asks_less p' p \<longleftrightarrow> (p_deleteAccountConfirm p' \<longrightarrow> p_deleteAccountConfirm p) \<and> p_deletingProfileId p' \<in> {None, p_deletingProfileId p}"

lemma armed_less: "asks_less p' p \<Longrightarrow> armed c d (p, b) \<Longrightarrow> armed c d (p', b)"
  by (auto simp: armed_def asks_less_def)

lemma armed_modP: "(\<And>p. asks_less (f p) p) \<Longrightarrow> keeps (armed c d) (modP f)"
  by (auto simp: keeps_def modP_def intro: armed_less)

lemma armed_sendP: "keeps (armed c d) (sendP E msg)"
  by (auto simp: keeps_def armed_def sendP_def split: option.splits)

lemmas armed_steps = keeps_bind keeps_if keeps_when keeps_catch keeps_finally keeps_lookP keeps_basic keeps_option keeps_prod
  armed_modP armed_sendP

lemma less_replies:
  "asks_less (typed f v p) p" "asks_less (onLoginReply res p) p" "asks_less (onUnlockReply res p) p"
  "asks_less (onSyncReply res p) p" "asks_less (onSynced at ps p) p" "asks_less (afterLogout p) p"
  "asks_less (onRecomputeReply i res p) p" "asks_less (onResolveImportReply res p) p" "asks_less (onCreateReply res p) p"
  "asks_less (onRenameReply i res p) p" "asks_less (onChangePasswordReply res p) p" "asks_less (openImport i qs p) p"
  "asks_less (changeOnboardingTimeout E t p) p" "asks_less (toggleAdding p) p" "asks_less (cancelRename p) p"
  "asks_less (openAccountSecurity p) p" "asks_less (onDeleteReply i res p) p" "asks_less (onDeleteAccountReply res p) p"
  "asks_less (goBack p) p" "asks_less (openManageProfiles p) p" "asks_less (startRename q p) p" "asks_less (cancelDelete p) p"
  "asks_less (cancelDeleteAccount p) p"
  by (cases f; simp add: asks_less_def; fail)+
     (simp_all add: asks_less_def onLoginReply_def onUnlockReply_def onSyncReply_def onSynced_def signedOut_def afterLogout_def
        onRecomputeReply_def onResolveImportReply_def onCreateReply_def onRenameReply_def onChangePasswordReply_def openImport_def
        changeOnboardingTimeout_def toggleAdding_def cancelRename_def openAccountSecurity_def onDeleteReply_def
        onDeleteAccountReply_def goBack_def openManageProfiles_def startRename_def cancelDelete_def cancelDeleteAccount_def Let_def
        split: ext_response.split option.split)

lemma armed_sessions:
  "keeps (armed c d) (login E)" "keeps (armed c d) (unlock E)" "keeps (armed c d) (lock E)" "keeps (armed c d) (logout E)"
  "keeps (armed c d) (logoutAndClear E)" "keeps (armed c d) (syncNow E)" "keeps (armed c d) (resolveChanges E keep)"
  "keeps (armed c d) (startupSync E)"
proof -
  show "keeps (armed c d) (login E)"
    unfolding login_def setLabel_def failLoading_def by (intro armed_steps) (simp_all add: less_replies, simp_all add: asks_less_def)
  show "keeps (armed c d) (unlock E)"
    unfolding unlock_def setLabel_def failLoading_def by (intro armed_steps) (simp_all add: less_replies, simp_all add: asks_less_def)
  show "keeps (armed c d) (lock E)"
    unfolding lock_def by (intro armed_steps) (simp_all add: asks_less_def Let_def split: ext_response.split)
  show "keeps (armed c d) (logout E)"
    unfolding logout_def by (intro armed_steps) (simp_all add: less_replies)
  show "keeps (armed c d) (logoutAndClear E)"
    unfolding logoutAndClear_def by (intro armed_steps) (simp_all add: less_replies)
  show "keeps (armed c d) (syncNow E)"
    unfolding syncNow_def by (intro armed_steps) (simp_all add: less_replies, simp_all add: asks_less_def)
  show "keeps (armed c d) (resolveChanges E keep)"
    unfolding resolveChanges_def by (intro armed_steps) (simp_all add: asks_less_def Let_def split: ext_response.split)
  show "keeps (armed c d) (startupSync E)"
    unfolding startupSync_def by (intro armed_steps) (simp_all add: less_replies)
qed

lemma armed_downloads:
  "keeps (armed c d) (treeBody E)" "keeps (armed c d) (saveExport E name html)" "keeps (armed c d) (exportBookmarksBackup E)"
proof -
  show get: "keeps (armed c d) (treeBody E)"
    unfolding treeBody_def by (intro armed_steps) (auto split: list.split intro: keeps_basic)
  have "keeps (armed c d) (download name html)" for name html
    unfolding download_def by (rule armed_modP) (simp add: asks_less_def)
  with get show "keeps (armed c d) (saveExport E name html)" "keeps (armed c d) (exportBookmarksBackup E)"
    unfolding saveExport_def exportBookmarksBackup_def by (auto intro: keeps_bind)
qed

lemma armed_profiles:
  "keeps (armed c d) (recomputeImportDiff E i)" "keeps (armed c d) (resolveImport E)" "keeps (armed c d) (switchTo E i)"
  "keeps (armed c d) (createProfile E)" "keeps (armed c d) (submitRename E)" "keeps (armed c d) (exportProfile E i name)"
  "keeps (armed c d) (confirmDeleteProfile E i)"
proof -
  show "keeps (armed c d) (recomputeImportDiff E i)"
    unfolding recomputeImportDiff_def by (intro armed_steps) (simp_all add: less_replies, simp_all add: asks_less_def)
  show "keeps (armed c d) (resolveImport E)"
    unfolding resolveImport_def by (intro armed_steps) (simp_all add: less_replies, simp_all add: asks_less_def)
  show "keeps (armed c d) (switchTo E i)"
    unfolding switchTo_def by (intro armed_steps) (simp_all add: asks_less_def Let_def split: ext_response.split)
  show "keeps (armed c d) (createProfile E)"
    unfolding createProfile_def by (intro armed_steps) (simp_all add: less_replies, simp_all add: asks_less_def)
  show "keeps (armed c d) (submitRename E)"
    unfolding submitRename_def by (intro armed_steps) (simp_all add: less_replies, simp_all add: asks_less_def)
  have "keeps (armed c d) (case res of
                EXPORT_PROFILE_SUCCESS bms \<Rightarrow> saveExport E name (buildHtmlFromLoroBookmarks bms)
              | EXPORT_PROFILE_ERROR err \<Rightarrow> modP (\<lambda>p. p\<lparr>p_exportError := Some (i, err)\<rparr>)
              | _ \<Rightarrow> modP (\<lambda>p. p\<lparr>p_exportError := Some (i, ''Export failed.'')\<rparr>))" for res
    by (cases res) (auto intro!: armed_modP armed_downloads simp: asks_less_def)
  then show "keeps (armed c d) (exportProfile E i name)"
    unfolding exportProfile_def by (intro armed_steps armed_downloads) (simp_all add: asks_less_def)
  show "keeps (armed c d) (confirmDeleteProfile E i)"
    unfolding confirmDeleteProfile_def by (intro armed_steps) (simp_all add: less_replies, simp_all add: asks_less_def)
qed

lemma armed_settings:
  "keeps (armed c d) (changeSessionTimeout E t)" "keeps (armed c d) (submitPassword E)" "keeps (armed c d) (finishOnboarding E)"
  "keeps (armed c d) (changeTheme E v)" "keeps (armed c d) (deleteAccount E)"
proof -
  show "keeps (armed c d) (changeSessionTimeout E t)"
    unfolding changeSessionTimeout_def by (intro armed_steps) (simp_all add: asks_less_def)
  have "keeps (armed c d) (preparePassword E)"
    unfolding preparePassword_def by (intro armed_steps)
  then show "keeps (armed c d) (submitPassword E)"
    unfolding submitPassword_def by (intro armed_steps) (simp_all add: less_replies, simp_all add: asks_less_def)
  have "keeps (armed c d) (applyTimeout E)"
    unfolding applyTimeout_def by (intro armed_steps) (simp_all add: asks_less_def)
  moreover have "keeps (armed c d) (renameFirst E q)" for q
    unfolding renameFirst_def by (intro armed_steps) (simp_all add: asks_less_def Let_def split: ext_response.split)
  ultimately show "keeps (armed c d) (finishOnboarding E)"
    unfolding finishOnboarding_def by (intro armed_steps armed_downloads) (simp_all add: asks_less_def Let_def)
  show "keeps (armed c d) (changeTheme E v)"
    unfolding changeTheme_def by (intro keeps_bind armed_modP keeps_set) (auto simp: asks_less_def armed_def)
  show "keeps (armed c d) (deleteAccount E)"
    unfolding deleteAccount_def by (intro armed_steps) (simp_all add: less_replies, simp_all add: asks_less_def)
qed

lemma armed_click:
  assumes "a \<noteq> AskDeleteAccount" and "\<And>q. a \<noteq> ToggleDelete q"
  shows "keeps (armed c d) (perform E a)"
  using assms
  by (cases a) (auto intro!: armed_sessions armed_profiles armed_settings armed_modP keeps_catch keeps_basic simp: less_replies,
    simp_all add: asks_less_def)

lemma armed_events:
  "keeps (armed c d) (openPopup E)" "keeps (armed c d) (onPush E m)"
proof -
  have "asks_less (onStatus st p) p" for st p
    by (simp add: asks_less_def onStatus_def openImport_def Let_def)
  then have "keeps (armed c d) (onStatusReply E res)" for res
    unfolding onStatusReply_def by (cases res) (auto intro!: armed_steps)
  then show "keeps (armed c d) (openPopup E)"
    unfolding openPopup_def by (intro armed_steps) (simp_all add: asks_less_def)
  show "keeps (armed c d) (onPush E m)"
    unfolding onPush_def
    by (cases m) (auto intro!: armed_steps simp: less_replies split: ext_response.split, simp_all add: asks_less_def)
qed

text \<open>
  The user asked for the deletion of the account, or of a profile, and has not taken it back. A bin is
  taken back by its second click too, which this does not count.
\<close>

fun takesBack :: "popup_event \<Rightarrow> bool" where
  "takesBack (Clicked CancelDelete) = True"
| "takesBack (Clicked OpenManageProfiles) = True"
| "takesBack (Clicked (StartRename q)) = True"
| "takesBack e = False"

definition asked :: "popup_event list \<Rightarrow> bool" where
  "asked tr \<longleftrightarrow> Clicked AskDeleteAccount \<in> set (takeWhile (\<lambda>e. e \<noteq> Clicked CancelDeleteAccount) tr)"

definition binned :: "string \<Rightarrow> popup_event list \<Rightarrow> bool" where
  "binned i tr \<longleftrightarrow> (\<exists>q. pi_id q = i \<and> Clicked (ToggleDelete q) \<in> set (takeWhile (\<lambda>e. \<not> takesBack e) tr))"

definition confirmable :: "popup_event list \<Rightarrow> popup \<Rightarrow> bool" where
  "confirmable tr p \<longleftrightarrow> (p_deleteAccountConfirm p \<longrightarrow> asked tr) \<and> (\<forall>i. p_deletingProfileId p = Some i \<longrightarrow> binned i tr)"

lemma asked_Cons: "asked (e # tr) \<longleftrightarrow> e \<noteq> Clicked CancelDeleteAccount \<and> (e = Clicked AskDeleteAccount \<or> asked tr)"
  by (auto simp: asked_def)

lemma binned_Cons:
  "binned i (e # tr) \<longleftrightarrow> \<not> takesBack e \<and> ((\<exists>q. pi_id q = i \<and> e = Clicked (ToggleDelete q)) \<or> binned i tr)"
  by (auto simp: binned_def)

text \<open>An event after which nothing new is waited for.\<close>

lemma confirmable_event:
  assumes "\<And>c d. keeps (armed c d) m" and "m (p, s) = Some (r, u)" and "confirmable tr p"
    and "e \<noteq> Clicked CancelDeleteAccount" and "\<not> takesBack e"
  shows "confirmable (e # tr) (fst u)"
proof -
  have "armed (p_deleteAccountConfirm p) (p_deletingProfileId p) (p, s)" by (simp add: armed_def)
  from keepsD [OF assms(1,2) this] assms(3-) show ?thesis
    by (auto simp: armed_def confirmable_def asked_Cons binned_Cons)
qed

lemma confirmable_click:
  assumes "perform E a (p, s) = Some (r, u)" and "confirmable tr p"
  shows "confirmable (Clicked a # tr) (fst u)"
proof (cases "a = AskDeleteAccount \<or> a = CancelDeleteAccount \<or> takesBack (Clicked a) \<or> (\<exists>q. a = ToggleDelete q)")
  case True
  with assms show ?thesis
    by (cases a) (auto simp: confirmable_def asked_Cons binned_Cons askDeleteAccount_def cancelDeleteAccount_def openManageProfiles_def
        startRename_def toggleDelete_def cancelDelete_def split: if_splits)
next
  case False
  then show ?thesis by (intro confirmable_event [OF armed_click assms]) auto
qed

lemma run_confirmable: "popup_run X E tr u \<Longrightarrow> confirmable tr (fst u)"
proof (induction rule: popup_run.induct)
  case (opened stored s r u)
  have "armed False None (themeOf stored freshPopup, s)" by (simp add: armed_def themeOf_def freshPopup_def)
  from keepsD [OF armed_events(1) opened this] show ?case by (auto simp: armed_def confirmable_def)
next
  case (clicked tr p s a r u)
  then show ?case by (auto intro: confirmable_click)
next
  case (told tr p s m r u)
  then show ?case by (auto intro: confirmable_event [OF armed_events(2)])
next
  case (first_sync tr p s r u)
  then show ?case by (auto intro: confirmable_event [OF armed_sessions(8)])
next
  case (elsewhere tr p s t)
  then show ?case by (simp add: confirmable_def asked_Cons binned_Cons)
qed



end
