(* ===== verification/Server_Invariant.thy ===== *)
theory Server_Invariant
  imports Server
begin

text \<open>
  What holds of the server's tables whatever it is asked: the referential integrity of the schema,
  the limits of the handlers, and that a request only touches what belongs to the user it is
  authenticated for. All are proved over the writes of Server.thy.
\<close>

subsection \<open>Integrity of the tables\<close>

text \<open>
  Emails and ids are unique, emails are lower-case, every profile has its user, every delta and every
  snapshot its profile, token versions fit an INTEGER, nobody has more than twenty profiles, and the
  ids still to be drawn are in no table.
\<close>

definition uuids_fresh :: "crates \<Rightarrow> srv \<Rightarrow> bool" where
  "uuids_fresh C s \<longleftrightarrow> (\<forall>n \<ge> next_uuid s. uuidv7 C n \<notin> u_id ` set (users s) \<union> p_id ` set (profile_rows s))"

definition owned :: "srv \<Rightarrow> bool" where
  "owned s \<longleftrightarrow> p_user ` set (profile_rows s) \<subseteq> u_id ` set (users s)
     \<and> d_profile ` set (deltas s) \<subseteq> p_id ` set (profile_rows s)
     \<and> dom (snapshots s) \<subseteq> p_id ` set (profile_rows s)"

definition bounded :: "srv \<Rightarrow> bool" where
  "bounded s \<longleftrightarrow> (\<forall>u \<in> set (users s). 0 \<le> u_token_version u \<and> u_token_version u < 2 ^ 31)
     \<and> (\<forall>uid. count_profiles_by_user s uid \<le> maxProfilesPerUser)"

definition tables_ok :: "crates \<Rightarrow> srv \<Rightarrow> bool" where
  "tables_ok C s \<longleftrightarrow> distinct (map u_email (users s)) \<and> distinct (map u_id (users s))
     \<and> distinct (map p_id (profile_rows s)) \<and> (\<forall>u \<in> set (users s). toLowerCase (u_email u) = u_email u)
     \<and> owned s \<and> bounded s \<and> uuids_fresh C s"

lemma count_profiles_simps:
  "count_profiles_by_user s uid = length (filter (\<lambda>p. p_user p = uid) (profile_rows s))"
  by (simp add: count_profiles_by_user_def find_profiles_by_user_def)

lemma belongs_row: "profile_belongs_to_user s p uid \<Longrightarrow> p \<in> p_id ` set (profile_rows s)"
  by (auto simp: profile_belongs_to_user_def)

lemma tables_okD:
  assumes "tables_ok C s"
  shows "p_user ` set (profile_rows s) \<subseteq> u_id ` set (users s)"
    and "d_profile ` set (deltas s) \<subseteq> p_id ` set (profile_rows s)"
    and "dom (snapshots s) \<subseteq> p_id ` set (profile_rows s)"
    and "\<forall>u \<in> set (users s). 0 \<le> u_token_version u \<and> u_token_version u < 2 ^ 31"
    and "distinct (map u_id (users s))" and "distinct (map u_email (users s))" and "distinct (map p_id (profile_rows s))"
  using assms by (simp_all add: tables_ok_def owned_def bounded_def)

lemma no_user_no_profiles:
  assumes "tables_ok C s" and "uid \<notin> u_id ` set (users s)"
  shows "find_profiles_by_user s uid = []"
proof -
  have "p_user p \<noteq> uid" if "p \<in> set (profile_rows s)" for p
    using that assms(2) tables_okD(1) [OF assms(1)] by blast
  then show ?thesis by (simp add: find_profiles_by_user_def filter_empty_conv)
qed

text \<open>Writes that only change what the invariant does not look at.\<close>

lemma tables_ok_cong:
  assumes "map u_email (users t) = map u_email (users s)" and "map u_id (users t) = map u_id (users s)"
    and "map p_id (profile_rows t) = map p_id (profile_rows s)"
    and "map p_user (profile_rows t) = map p_user (profile_rows s)"
    and "d_profile ` set (deltas t) \<subseteq> p_id ` set (profile_rows s)"
    and "dom (snapshots t) \<subseteq> p_id ` set (profile_rows s)"
    and "\<forall>u \<in> set (users t). 0 \<le> u_token_version u \<and> u_token_version u < 2 ^ 31"
    and "next_uuid t = next_uuid s" and "tables_ok C s"
  shows "tables_ok C t"
proof -
  have sets: "u_id ` set (users t) = u_id ` set (users s)" "u_email ` set (users t) = u_email ` set (users s)"
    "p_id ` set (profile_rows t) = p_id ` set (profile_rows s)" "p_user ` set (profile_rows t) = p_user ` set (profile_rows s)"
    using assms(1-4) by (metis list.set_map)+
  have count: "count_profiles_by_user r uid = length (filter (\<lambda>x. x = uid) (map p_user (profile_rows r)))" for uid r
    by (simp add: count_profiles_simps filter_map o_def)
  have "count_profiles_by_user t uid = count_profiles_by_user s uid" for uid
    unfolding count assms(4) ..
  moreover have "toLowerCase (u_email u) = u_email u" if "u \<in> set (users t)" for u
  proof -
    have "u_email u \<in> u_email ` set (users s)" using that unfolding sets [symmetric] by simp
    then show ?thesis using assms(9) by (auto simp: tables_ok_def)
  qed
  ultimately show ?thesis
    using assms by (simp add: tables_ok_def owned_def bounded_def uuids_fresh_def sets)
qed

lemma tables_ok_delete_profiles_where:
  assumes "tables_ok C s"
  shows "tables_ok C (delete_profiles_where P s)"
proof -
  have "length (filter (\<lambda>p. p_user p = uid) (filter Q xs)) \<le> length (filter (\<lambda>p. p_user p = uid) xs)" for uid Q xs
    unfolding filter_filter by (induction xs) auto
  then have "count_profiles_by_user (delete_profiles_where P s) uid \<le> count_profiles_by_user s uid" for uid
    by (simp only: count_profiles_simps delete_profiles_where_simps)
  then have "\<forall>uid. count_profiles_by_user (delete_profiles_where P s) uid \<le> maxProfilesPerUser"
    using assms unfolding tables_ok_def bounded_def by (meson le_trans)
  moreover have "owned (delete_profiles_where P s)"
  proof -
    have left: "q \<in> p_id ` set (filter (\<lambda>p. \<not> P p) (profile_rows s))"
      if "q \<in> p_id ` set (profile_rows s)" and "q \<notin> p_id ` {p \<in> set (profile_rows s). P p}" for q
      using that by auto
    have "d_profile d \<in> p_id ` set (profile_rows s)" if "d \<in> set (deltas s)" for d
      using that tables_okD(2) [OF assms] by blast
    moreover have "q \<in> p_id ` set (profile_rows s)" if "snapshots s q = Some x" for q x
      using that tables_okD(3) [OF assms] by blast
    moreover note left tables_okD(1) [OF assms]
    ultimately show ?thesis
      unfolding owned_def deltas_delete_profiles_where delete_profiles_where_simps
      by (auto simp: snapshots_delete_profiles_where dom_def split: if_splits)
  qed
  ultimately show ?thesis
    using assms by (auto simp: tables_ok_def bounded_def uuids_fresh_def distinct_map_filter)
qed

lemma tables_ok_delete_user:
  assumes "tables_ok C s"
  shows "tables_ok C (delete_user uid s)"
proof -
  let ?t = "delete_profiles_where (\<lambda>p. p_user p = uid) s"
  have "tables_ok C ?t" using assms by (rule tables_ok_delete_profiles_where)
  moreover have "owned (delete_user uid s)"
    using \<open>tables_ok C ?t\<close> by (auto simp: tables_ok_def owned_def delete_user_def)
  ultimately show ?thesis
    by (auto simp: tables_ok_def bounded_def uuids_fresh_def delete_user_def distinct_map_filter count_profiles_simps)
qed

lemma tables_ok_sign_up:
  assumes ok: "tables_ok C s" and "inj (uuidv7 C)" and "find_user_by_email s mail = None" and "toLowerCase mail = mail"
    and u: "u = \<lparr>u_id = uuidv7 C (next_uuid s), u_email = mail, u_auth_hash = h, u_psk = psk, u_token_version = 0\<rparr>"
    and p: "p = \<lparr>p_id = uuidv7 C (Suc (next_uuid s)), p_user = u_id u, p_name = name, p_metadata = data\<rparr>"
  shows "tables_ok C (s\<lparr>users := users s @ [u], profile_rows := profile_rows s @ [p], next_uuid := Suc (Suc (next_uuid s))\<rparr>)"
    (is "tables_ok C ?t")
proof -
  have fresh: "u_id u \<notin> u_id ` set (users s)" "p_id p \<notin> p_id ` set (profile_rows s)"
    using ok by (auto simp: tables_ok_def uuids_fresh_def u p)
  have "count_profiles_by_user s (u_id u) = 0"
    by (simp add: count_profiles_by_user_def no_user_no_profiles [OF ok fresh(1)])
  then have "bounded ?t"
    using ok by (auto simp: tables_ok_def bounded_def count_profiles_simps u p maxProfilesPerUser_def)
  moreover have "uuids_fresh C ?t"
    using ok assms(2) by (auto simp: tables_ok_def uuids_fresh_def u p dest: injD)
  moreover have "owned ?t"
    using ok by (auto simp: tables_ok_def owned_def p)
  ultimately show ?thesis
    using ok fresh assms(3,4) by (auto simp: tables_ok_def find_user_by_email_None u)
qed

lemma tables_ok_create:
  assumes ok: "tables_ok C s" and "inj (uuidv7 C)" and "find_user s uid \<noteq> None"
    and "count_profiles_by_user s uid < maxProfilesPerUser"
    and p: "p = \<lparr>p_id = uuidv7 C (next_uuid s), p_user = uid, p_name = name, p_metadata = data\<rparr>"
  shows "tables_ok C (s\<lparr>next_uuid := Suc (next_uuid s), profile_rows := profile_rows s @ [p]\<rparr>)" (is "tables_ok C ?t")
proof -
  have "p_id p \<notin> p_id ` set (profile_rows s)"
    using ok by (auto simp: tables_ok_def uuids_fresh_def p)
  moreover have "bounded ?t"
    using ok assms(4) by (auto simp: tables_ok_def bounded_def count_profiles_simps p)
  moreover have "uuids_fresh C ?t"
    using ok assms(2) by (auto simp: tables_ok_def uuids_fresh_def p dest: injD)
  moreover have "owned ?t"
    using ok assms(3) by (auto simp: tables_ok_def owned_def p find_user_None)
  ultimately show ?thesis
    using ok by (auto simp: tables_ok_def)
qed

lemma tables_ok_write:
  assumes "table_write C a s t" and inj: "inj (uuidv7 C)" and ok: "tables_ok C s"
  shows "tables_ok C t"
  using assms(1)
proof cases
  case Salt
  then show ?thesis by (intro tables_ok_cong [OF _ _ _ _ _ _ _ _ ok]) (use tables_okD [OF ok] in auto)
next
  case (SignUp mail u h psk p name data)
  then show ?thesis using tables_ok_sign_up [OF ok inj] by simp
next
  case (Password uid u h psk)
  have "\<forall>v \<in> set (users s). u_id v = uid \<longrightarrow> v = u"
    using tables_okD(5) [OF ok] find_user_Some [OF Password(3)] by (auto simp: distinct_map dest: inj_onD)
  then show ?thesis using Password
    by (intro tables_ok_cong [OF _ _ _ _ _ _ _ _ ok]) (use tables_okD [OF ok] in auto)
next
  case (Create uid p name data)
  then show ?thesis using tables_ok_create [OF ok inj] by simp
next
  case (Rename uid q name)
  then show ?thesis
    by (intro tables_ok_cong [OF _ _ _ _ _ _ _ _ ok]) (use tables_okD [OF ok] in \<open>auto simp: rename_profile_def\<close>)
next
  case (Push q uid data)
  with tables_okD [OF ok] belongs_row [OF Push(3)] show ?thesis
    by (intro tables_ok_cong [OF _ _ _ _ _ _ _ _ ok]) auto
next
  case (Snapshot q uid m n data)
  then have "dom (snapshots t) \<subseteq> insert q (dom (snapshots s))" and "users t = users s" "profile_rows t = profile_rows s"
    "deltas t = deltas s" "next_uuid t = next_uuid s"
    by (auto simp: upsert_profile_snapshot_def split: option.splits if_splits)
  moreover from this(1) have "dom (snapshots t) \<subseteq> p_id ` set (profile_rows s)"
    using tables_okD(3) [OF ok] belongs_row [OF Snapshot(3)] by blast
  ultimately show ?thesis
    using tables_okD [OF ok] by (intro tables_ok_cong [OF _ _ _ _ _ _ _ _ ok]) simp_all
qed (simp_all add: ok delete_profile_def tables_ok_delete_profiles_where tables_ok_delete_user)

lemma tables_ok_serve: "tables_ok C s \<Longrightarrow> inj (uuidv7 C) \<Longrightarrow> tables_ok C (snd (serve C req s))"
  by (rule serve_keeps [OF tables_ok_write])

subsection \<open>What one account can see\<close>

definition accountView ::
  "srv \<Rightarrow> string \<Rightarrow> user_row option \<times> profile_row list \<times> delta_row list \<times> (string \<Rightarrow> (int \<times> bytes) option)" where
  "accountView s b =
     (find_user s b, find_profiles_by_user s b,
      filter (\<lambda>d. profile_belongs_to_user s (d_profile d) b) (deltas s),
      (\<lambda>p. if profile_belongs_to_user s p b then snapshots s p else None))"

lemma belongs_iff: "profile_belongs_to_user s p b \<longleftrightarrow> p \<in> p_id ` set (find_profiles_by_user s b)"
  by (auto simp: profile_belongs_to_user_def find_profiles_by_user_def)

lemma one_owner:
  "tables_ok C s \<Longrightarrow> profile_belongs_to_user s p a \<Longrightarrow> profile_belongs_to_user s p b \<Longrightarrow> a = b"
  using tables_okD(7) [of C s] by (auto simp: profile_belongs_to_user_def distinct_map dest: inj_onD)

lemma accountView_cong:
  assumes "find_user t b = find_user s b" and "find_profiles_by_user t b = find_profiles_by_user s b"
    and "\<And>p. profile_belongs_to_user s p b \<Longrightarrow> snapshots t p = snapshots s p"
    and "filter (\<lambda>d. profile_belongs_to_user s (d_profile d) b) (deltas t) =
         filter (\<lambda>d. profile_belongs_to_user s (d_profile d) b) (deltas s)"
  shows "accountView t b = accountView s b"
  using assms by (auto simp: accountView_def belongs_iff fun_eq_iff)

lemma find_map_user:
  "(\<And>u. u_id (f u) = u_id u) \<Longrightarrow> (\<And>u. u_id u = b \<Longrightarrow> f u = u) \<Longrightarrow>
     find (\<lambda>u. u_id u = b) (map f us) = find (\<lambda>u. u_id u = b) us"
  by (induction us) auto

lemma find_snoc: "\<not> P x \<Longrightarrow> find P (xs @ [x]) = find P xs"
  by (induction xs) auto

lemma view_delete_profiles_where:
  assumes "\<And>p. P p \<Longrightarrow> p_user p \<noteq> b" and "tables_ok C s"
  shows "accountView (delete_profiles_where P s) b = accountView s b"
proof (rule accountView_cong)
  have "q \<notin> p_id ` {p \<in> set (profile_rows s). P p}" if "profile_belongs_to_user s q b" for q
    using that assms(1) tables_okD(7) [OF assms(2)]
    by (auto simp: profile_belongs_to_user_def distinct_map dest: inj_onD)
  note kept = this
  show "snapshots (delete_profiles_where P s) q = snapshots s q" if "profile_belongs_to_user s q b" for q
    using kept [OF that] by (simp add: snapshots_delete_profiles_where)
  show "filter (\<lambda>d. profile_belongs_to_user s (d_profile d) b) (deltas (delete_profiles_where P s)) =
         filter (\<lambda>d. profile_belongs_to_user s (d_profile d) b) (deltas s)"
    unfolding deltas_delete_profiles_where filter_filter using kept by (intro filter_cong refl) blast
  show "find_profiles_by_user (delete_profiles_where P s) b = find_profiles_by_user s b"
    unfolding find_profiles_by_user_def delete_profiles_where_simps filter_filter
    using assms(1) by (intro filter_cong refl) auto
qed (simp add: find_user_def)

lemma view_write:
  assumes "table_write C a s t" and "tables_ok C s" and "a \<noteq> Some b" and "find_user s b \<noteq> None"
  shows "accountView t b = accountView s b"
  using assms(1)
proof cases
  case (SignUp mail u h psk p name data)
  have "u_id u \<noteq> b"
    using assms(2,4) SignUp(5) by (auto simp: tables_ok_def uuids_fresh_def find_user_None)
  then show ?thesis using SignUp
    by (intro accountView_cong) (auto simp: find_user_def find_profiles_by_user_def find_snoc)
next
  case (Password uid u h psk)
  then show ?thesis using assms(3)
    by (intro accountView_cong) (auto simp: find_user_def find_profiles_by_user_def intro!: find_map_user)
next
  case (Leave uid)
  let ?r = "delete_profiles_where (\<lambda>p. p_user p = uid) s"
  have "accountView ?r b = accountView s b"
    using view_delete_profiles_where [OF _ assms(2)] Leave assms(3) by auto
  moreover have "find (\<lambda>u. u_id u = b) (filter (\<lambda>u. u_id u \<noteq> uid) us) = find (\<lambda>u. u_id u = b) us" for us
    using Leave assms(3) by (induction us) auto
  then have "accountView t b = accountView ?r b"
    unfolding Leave delete_user_def by (intro accountView_cong) (auto simp: find_user_def find_profiles_by_user_def)
  ultimately show ?thesis by simp
next
  case (Create uid p name data)
  then show ?thesis using assms(3)
    by (intro accountView_cong) (auto simp: find_user_def find_profiles_by_user_def)
next
  case (Rename uid q name)
  have "filter (\<lambda>p. p_user p = b) (map (\<lambda>p. if p_id p = q \<and> p_user p = uid then p\<lparr>p_name := name\<rparr> else p) ps) =
      filter (\<lambda>p. p_user p = b) ps" for ps
    using Rename assms(3) by (induction ps) auto
  then show ?thesis
    unfolding Rename rename_profile_def by (intro accountView_cong) (auto simp: find_user_def find_profiles_by_user_def)
next
  case (Drop uid q)
  then show ?thesis
    unfolding Drop(2) delete_profile_def using assms(3) Drop(1) by (intro view_delete_profiles_where [OF _ assms(2)]) auto
next
  case (Push q uid data)
  then have "\<not> profile_belongs_to_user s q b" using one_owner [OF assms(2)] assms(3) by blast
  then show ?thesis using Push
    by (intro accountView_cong) (auto simp: find_user_def find_profiles_by_user_def)
next
  case (Snapshot q uid m n data)
  then have "\<not> profile_belongs_to_user s q b" using one_owner [OF assms(2)] assms(3) by blast
  then show ?thesis using Snapshot
    by (intro accountView_cong)
      (auto simp: find_user_def find_profiles_by_user_def upsert_profile_snapshot_def split: option.splits)
next
  case Salt
  then show ?thesis by (intro accountView_cong) (simp_all add: find_user_def find_profiles_by_user_def)
qed

lemma view_writes:
  assumes "table_writes C a s t" and "tables_ok C s" and "inj (uuidv7 C)" and "a \<noteq> Some b" and "find_user s b \<noteq> None"
  shows "accountView t b = accountView s b"
  using assms(1)
proof (induction rule: rtranclp_induct)
  case (step t r)
  have "tables_ok C t"
    using step(1) assms(2) by (induction rule: rtranclp_induct) (auto intro: tables_ok_write [OF _ assms(3)])
  moreover have "find_user t b \<noteq> None" using step(3) assms(5) by (auto simp: accountView_def)
  ultimately show ?case using view_write [OF step(2)] assms(4) step(3) by simp
qed simp

text \<open>Whom a request acts for, and the requests that only read.\<close>

definition actsFor :: "crates \<Rightarrow> string \<Rightarrow> request \<Rightarrow> bool" where
  "actsFor C b req =
     (case Option.bind (tokenOf req) (verify_token C) of None \<Rightarrow> False | Some (uid, v) \<Rightarrow> uid = b)"

fun isRead :: "request \<Rightarrow> bool" where
  "isRead (GetProfiles _) = True"
| "isRead (GetSnapshot _ _) = True"
| "isRead (GetPull _ _ _) = True"
| "isRead _ = False"

definition serveAll :: "crates \<Rightarrow> request list \<Rightarrow> srv \<Rightarrow> srv" where
  "serveAll C = fold (\<lambda>req s. snd (serve C req s))"

lemma serveAll_simps [simp]:
  "serveAll C [] s = s" "serveAll C (req # reqs) s = serveAll C reqs (snd (serve C req s))"
  by (simp_all add: serveAll_def)

lemma view_serve:
  assumes "tables_ok C s" and "inj (uuidv7 C)" and "\<not> actsFor C b req" and "find_user s b \<noteq> None"
  shows "accountView (snd (serve C req s)) b = accountView s b"
proof (cases "tokenOf req")
  case None
  then show ?thesis
    using view_writes [OF register_writes assms(1,2) _ assms(4)] by (cases req) (simp_all add: serve_def split_beta)
next
  case (Some token)
  show ?thesis
  proof (cases "authUser C s token")
    case (Inr uid)
    then have "Some uid \<noteq> Some b" using assms(3) Some by (auto simp: actsFor_def authUser_Inr_iff)
    from view_writes [OF serve_writes [OF Some Inr] assms(1,2) this assms(4)] show ?thesis .
  qed (simp add: serve_refused [OF Some])
qed

lemma tables_ok_serveAll: "tables_ok C s \<Longrightarrow> inj (uuidv7 C) \<Longrightarrow> tables_ok C (serveAll C reqs s)"
  by (induction reqs arbitrary: s) (auto intro: tables_ok_serve)

lemma view_serveAll:
  assumes "tables_ok C s" and "inj (uuidv7 C)" and "\<not> list_ex (actsFor C b) reqs" and "find_user s b \<noteq> None"
  shows "accountView (serveAll C reqs s) b = accountView s b"
  using assms
proof (induction reqs arbitrary: s)
  case (Cons req reqs)
  let ?t = "snd (serve C req s)"
  have v: "accountView ?t b = accountView s b" using view_serve [OF Cons(2,3) _ Cons(5)] Cons(4) by simp
  then have "find_user ?t b \<noteq> None" using Cons(5) by (auto simp: accountView_def)
  then show ?case using v Cons.IH [OF tables_ok_serve [OF Cons(2,3)] Cons(3)] Cons(4) by simp
qed simp

lemma read_sees_view:
  assumes v: "accountView t b = accountView s b" and "isRead req" and "actsFor C b req"
  shows "fst (serve C req t) = fst (serve C req s)"
proof -
  have parts: "find_user t b = find_user s b" "find_profiles_by_user t b = find_profiles_by_user s b"
    "profile_belongs_to_user t p b = profile_belongs_to_user s p b"
    "profile_belongs_to_user s p b \<Longrightarrow> snapshots t p = snapshots s p"
    "filter (\<lambda>d. profile_belongs_to_user t (d_profile d) b) (deltas t) =
     filter (\<lambda>d. profile_belongs_to_user s (d_profile d) b) (deltas s)" for p
    using v by (auto simp: accountView_def belongs_iff dest: fun_cong [where x = p])
  obtain token ver where tok: "tokenOf req = Some token" "verify_token C token = Some (b, ver)"
    using assms(3) by (auto simp: actsFor_def bind_eq_Some_conv split: option.splits)
  then have auth: "authUser C t token = authUser C s token" and uid: "authUser C s token = Inr uid \<Longrightarrow> uid = b" for uid
    using parts(1) by (auto simp: authUser_def find_user_def split: option.splits if_splits)
  have one: "filter (\<lambda>d. d_profile d = p \<and> Q d) (deltas r) =
      filter (\<lambda>d. d_profile d = p \<and> Q d) (filter (\<lambda>d. profile_belongs_to_user r (d_profile d) b) (deltas r))"
    if "profile_belongs_to_user r p b" for p Q r
    unfolding filter_filter using that by (intro filter_cong refl) auto
  have "rows_since t p n = rows_since s p n" if "profile_belongs_to_user s p b" for p n
    unfolding rows_since_def one [OF that] one [OF that [folded parts(3)]] parts(5) ..
  then have "pull C b p n t = pull C b p n s" "get_snapshot C b p t = get_snapshot C b p s"
    "list_profiles b t = list_profiles b s" for p n
    by (auto simp: pull_def get_snapshot_def list_profiles_def fetch_deltas_since_def parts)
  with tok auth uid assms(2) show ?thesis
    by (cases req; cases "authUser C s token") (auto simp: serve_def)
qed

subsection \<open>Properties\<close>

text \<open>The database after the migrations.\<close>

definition emptySrv :: srv where
  "emptySrv = \<lparr>users = [], profile_rows = [], deltas = [], snapshots = Map.empty, next_seq = 1,
               next_uuid = 0, next_salt = 0\<rparr>"

lemma emptySrv_ok: "tables_ok C emptySrv" "srv_ok emptySrv"
  by (simp_all add: tables_ok_def owned_def bounded_def uuids_fresh_def emptySrv_def srv_ok_def
      count_profiles_by_user_def find_profiles_by_user_def)

text \<open>
  C5. The limits of the server: whatever requests it handles one after the other from an empty
  database, no user has more than twenty profiles, every token version is within the range of an
  INTEGER (so the increment of a password change never wraps), no two users share an email or an id,
  and no profile, delta or snapshot outlives the row it refers to.
\<close>

theorem server_limits:
  assumes "inj (uuidv7 C)" and "s = serveAll C reqs emptySrv"
  shows "(\<forall>uid. length (find_profiles_by_user s uid) \<le> 20)
    \<and> (\<forall>u \<in> set (users s). 0 \<le> u_token_version u \<and> u_token_version u < 2 ^ 31)
    \<and> distinct (map u_email (users s)) \<and> distinct (map u_id (users s))
    \<and> p_user ` set (profile_rows s) \<subseteq> u_id ` set (users s)
    \<and> d_profile ` set (deltas s) \<subseteq> p_id ` set (profile_rows s)
    \<and> dom (snapshots s) \<subseteq> p_id ` set (profile_rows s)"
proof -
  have ok: "tables_ok C s" unfolding assms(2) by (rule tables_ok_serveAll [OF emptySrv_ok(1) assms(1)])
  moreover have "length (find_profiles_by_user s uid) \<le> 20" for uid
    using ok by (simp add: tables_ok_def bounded_def count_profiles_by_user_def maxProfilesPerUser_def)
  ultimately show ?thesis using tables_okD [OF ok] by blast
qed

lemma server_limits_witness:
  "length (find_profiles_by_user (serveAll example_crates
     [PostRegister ''A@b.c'' ''key'' ''Default'' (toBase64 []) ''psk''] emptySrv) ''#'') \<le> 20"
  using server_limits [OF _ refl, of example_crates "[PostRegister ''A@b.c'' ''key'' ''Default'' (toBase64 []) ''psk'']"]
    example_crates_sound by (simp add: crates_ok_def)

text \<open>
  The limit is checked before the insert and by a query of its own: two requests that create a profile
  at the same time are both checked against the same count, so an account with nineteen profiles
  ends with twenty-one.
\<close>

theorem overlapping_creates_exceed_limit:
  assumes "count_profiles_by_user s uid = 19" and "find_user s uid \<noteq> None"
    and "create_check C uid name1 meta1 s = Inr data1" and "create_check C uid name2 meta2 s = Inr data2"
    and "create_insert C uid name1 data1 s = (r1, s1)" and "create_insert C uid name2 data2 s1 = (r2, s2)"
  shows "status r1 = 200 \<and> status r2 = 200 \<and> count_profiles_by_user s2 uid = 21"
  using assms by (auto simp: create_insert_def create_profile_def Let_def count_profiles_by_user_def
      find_profiles_by_user_def find_user_def reply_def)

definition crowded_srv :: srv where
  "crowded_srv = example_srv\<lparr>profile_rows :=
     map (\<lambda>i. \<lparr>p_id = replicate i (CHR ''p''), p_user = ''u1'', p_name = ''Default'', p_metadata = []\<rparr>) [0..<19]\<rparr>"

lemma overlapping_creates_exceed_limit_witness:
  "\<exists>r1 r2 s1 s2. create_insert example_crates ''u1'' ''Work'' [] crowded_srv = (r1, s1)
     \<and> create_insert example_crates ''u1'' ''Home'' [] s1 = (r2, s2) \<and> count_profiles_by_user s2 ''u1'' = 21"
proof -
  have count: "count_profiles_by_user crowded_srv ''u1'' = 19"
    by (simp add: count_profiles_by_user_def find_profiles_by_user_def crowded_srv_def filter_map o_def)
  then have "create_check example_crates ''u1'' ''Work'' [] crowded_srv = Inr []"
    "create_check example_crates ''u1'' ''Home'' [] crowded_srv = Inr []"
    by (simp_all add: create_check_def maxProfilesPerUser_def example_crates_def trimName_def whiteSpace_def fromBase64_def
        atob_def strip_padding_def Let_def)
  moreover have "find_user crowded_srv ''u1'' \<noteq> None"
    by (simp add: find_user_def crowded_srv_def example_srv_def)
  moreover obtain r1 s1 r2 s2 where "create_insert example_crates ''u1'' ''Work'' [] crowded_srv = (r1, s1)"
    "create_insert example_crates ''u1'' ''Home'' [] s1 = (r2, s2)" by (metis prod.collapse)
  ultimately show ?thesis using overlapping_creates_exceed_limit [OF count] by blast
qed

text \<open>
  C4. Accounts are separated: whatever requests other users send (with tokens of their own, to register,
  to log in, and with any profile id they like), every read of a user gives the same answer as before.
\<close>

theorem accounts_are_separated:
  assumes "tables_ok C s" and "inj (uuidv7 C)" and "find_user s b \<noteq> None"
    and "\<not> list_ex (actsFor C b) reqs" and "isRead req" and "actsFor C b req"
  shows "fst (serve C req (serveAll C reqs s)) = fst (serve C req s)"
  by (rule read_sees_view [OF view_serveAll [OF assms(1,2,4,3)] assms(5,6)])

text \<open>Two users, each with a profile of its own.\<close>

definition shared_srv :: srv where
  "shared_srv = example_srv\<lparr>users := users example_srv @
       [\<lparr>u_id = ''u2'', u_email = ''x@y.z'', u_auth_hash = ''.k2'', u_psk = ''psk2'', u_token_version = 0\<rparr>],
     profile_rows := profile_rows example_srv @
       [\<lparr>p_id = ''p2'', p_user = ''u2'', p_name = ''Default'', p_metadata = []\<rparr>]\<rparr>"

lemma shared_srv_ok: "tables_ok example_crates shared_srv"
  by (auto simp: tables_ok_def owned_def bounded_def uuids_fresh_def shared_srv_def example_srv_def
      count_profiles_by_user_def find_profiles_by_user_def maxProfilesPerUser_def example_crates_def toLowerCase_def
      toLower_def)

lemma accounts_are_separated_witness:
  "fst (serve example_crates (GetPull ''.u2'' ''p2'' 0)
     (serveAll example_crates [DeleteProfile ''tok'' ''p2'', PostPush ''tok'' ''p2'' [], DeleteAccount ''tok'' ''key''] shared_srv))
   = Inr (reply 200 (PullJson [] (Some False)))"
proof -
  have ver: "verify_token example_crates ''tok'' = Some (''u1'', 0)" "verify_token example_crates ''.u2'' = Some (''u2'', 0)"
    by (simp_all add: example_crates_def)
  have "fst (serve example_crates (GetPull ''.u2'' ''p2'' 0)
     (serveAll example_crates [DeleteProfile ''tok'' ''p2'', PostPush ''tok'' ''p2'' [], DeleteAccount ''tok'' ''key''] shared_srv))
   = fst (serve example_crates (GetPull ''.u2'' ''p2'' 0) shared_srv)"
  proof (rule accounts_are_separated [OF shared_srv_ok, of "''u2''"])
    show "inj (uuidv7 example_crates)" using example_crates_sound by (simp add: crates_ok_def)
    show "find_user shared_srv ''u2'' \<noteq> None" by (simp add: find_user_def shared_srv_def example_srv_def)
  qed (simp_all add: actsFor_def ver)
  also have "\<dots> = Inr (reply 200 (PullJson [] (Some False)))"
    by (simp add: serve_def authUser_def ver shared_srv_def example_srv_def pull_def profile_belongs_to_user_def
        fetch_deltas_since_def rows_since_def)
  finally show ?thesis .
qed

end
