(* ===== verification/Server_Sessions.thy ===== *)
theory Server_Sessions
  imports Server_Invariant
begin

text \<open>
  What the account routes mean to a client: the functions of sync/client.ts run against the server of
  Server.thy. Registering, logging in, changing the password and deleting the account; which tokens and
  keys work before and after.
\<close>

subsection \<open>One request at a time\<close>

text \<open>A stored hash that verifies for one key only.\<close>

definition hashes :: "crates \<Rightarrow> string \<Rightarrow> string \<Rightarrow> bool" where
  "hashes C h k \<longleftrightarrow> (\<forall>k'. verify_password C h k' = Some (k' = k))"

lemma crates_okD:
  assumes "crates_ok C"
  shows "codec_ok C" and "inj (uuidv7 C)"
    and "0 \<le> v \<Longrightarrow> \<exists>t. issue_token C uid v = Some t \<and> verify_token C t = Some (uid, v)"
    and "\<exists>h. hash_password C n k = Some h \<and> hashes C h k"
  using assms by (auto simp: crates_ok_def hashes_def)

lemma verify_auth_key_hashes: "hashes C h k \<Longrightarrow> verify_auth_key C k' h = (if k' = k then Inr () else Inl unauthorized)"
  by (simp add: hashes_def verify_auth_key_def)

lemma verified_key: "hashes C h k \<Longrightarrow> verify_auth_key C k' h = Inr x \<Longrightarrow> k' = k"
  by (simp add: verify_auth_key_hashes split: if_splits)

lemma find_unique:
  assumes "distinct (map f xs)" and "x \<in> set xs"
  shows "find (\<lambda>y. f y = f x) xs = Some x"
  using assms by (induction xs) (auto simp: image_iff)

lemma find_user_row: "tables_ok C s \<Longrightarrow> u \<in> set (users s) \<Longrightarrow> find_user s (u_id u) = Some u"
  unfolding find_user_def by (rule find_unique) (simp_all add: tables_okD)

lemma find_email_row: "tables_ok C s \<Longrightarrow> u \<in> set (users s) \<Longrightarrow> find_user_by_email s (u_email u) = Some u"
  unfolding find_user_by_email_def by (rule find_unique) (simp_all add: tables_okD)

lemma issued_token:
  assumes "crates_ok C" and "tables_ok C s" and "u \<in> set (users s)"
  obtains token where "issue_token C (u_id u) (u_token_version u) = Some token"
    and "authUser C s token = Inr (u_id u)"
proof -
  have "0 \<le> u_token_version u" using tables_okD(4) [OF assms(2)] assms(3) by blast
  then obtain token where "issue_token C (u_id u) (u_token_version u) = Some token"
    "verify_token C token = Some (u_id u, u_token_version u)"
    using crates_okD(3) [OF assms(1)] by blast
  with find_user_row [OF assms(2,3)] show ?thesis by (intro that) (auto simp: authUser_Inr_iff)
qed

text \<open>Logging in is decided by the row of the email.\<close>

definition signedIn :: "crates \<Rightarrow> srv \<Rightarrow> user_row \<Rightarrow> string \<times> profileInfo list \<times> string option \<Rightarrow> bool" where
  "signedIn C s u x \<longleftrightarrow>
     (case x of (token, ps, psk) \<Rightarrow> authUser C s token = Inr (u_id u)
        \<and> ps = profileInfos (find_profiles_by_user s (u_id u)) \<and> psk = Some (u_psk u))"

lemma apiLogin_serve:
  assumes "crates_ok C" and "tables_ok C s" and "u \<in> set (users s)" and "hashes C (u_auth_hash u) k"
    and "toLowerCase mail = u_email u"
  shows "k' = k \<Longrightarrow> \<exists>x. apiLogin (serve C) mail k' s = (Inr x, s) \<and> signedIn C s u x"
    and "k' \<noteq> k \<Longrightarrow> apiLogin (serve C) mail k' s = (Inl InvalidCredentialsError, s)"
proof -
  have rows: "find_user_by_email s (toLowerCase mail) = Some u" "find_user s (u_id u) = Some u"
    using find_email_row [OF assms(2,3)] find_user_row [OF assms(2,3)] assms(5) by simp_all
  have ver: "login_verify C mail k' s = (if k' = k then Inr u else Inl unauthorized)"
    by (simp add: login_verify_def rows verify_auth_key_hashes [OF assms(4)])
  show "apiLogin (serve C) mail k' s = (Inl InvalidCredentialsError, s)" if "k' \<noteq> k"
    using that by (simp add: apiLogin_def bindA_def serve_def login_account_def ver unauthorized_def reply_def)
  obtain token where "issue_token C (u_id u) (u_token_version u) = Some token" "authUser C s token = Inr (u_id u)"
    using issued_token [OF assms(1-3)] .
  moreover from this(1) have "login_account C mail k' s =
      reply 200 (LoginJson token (profileInfos (find_profiles_by_user s (u_id u))) (Some (u_psk u)))" if "k' = k"
    using that ver by (simp add: login_account_def login_issue_def rows tokenReply_def Let_def)
  ultimately show "\<exists>x. apiLogin (serve C) mail k' s = (Inr x, s) \<and> signedIn C s u x" if "k' = k"
    using that by (simp add: apiLogin_def bindA_def serve_def reply_def throwIfNotOk_def res_ok_def signedIn_def)
qed

lemma apiLogin_unknown:
  "find_user_by_email s (toLowerCase mail) = None \<Longrightarrow>
     apiLogin (serve C) mail k s = (Inl InvalidCredentialsError, s)"
  by (simp add: apiLogin_def bindA_def serve_def login_account_def login_verify_def unauthorized_def reply_def)

text \<open>Registering.\<close>

lemma apiRegister_new:
  assumes "crates_ok C" and "tables_ok C s" and "find_user_by_email s (toLowerCase mail) = None"
    and "trimName name \<noteq> []"
  obtains token u p s' where "apiRegister (serve C) mail k name (toBase64 data) psk s = (Inr (token, p_id p), s')"
    and "tables_ok C s'" and "u \<in> set (users s')" and "u_email u = toLowerCase mail" and "hashes C (u_auth_hash u) k"
    and "u_psk u = psk" and "find_profiles_by_user s' (u_id u) = [p]" and "p_name p = trimName name"
    and "authUser C s' token = Inr (u_id u)"
proof -
  obtain h where h: "hash_password C (next_salt s) k = Some h" "hashes C h k" using crates_okD(4) [OF assms(1)] by blast
  let ?u = "\<lparr>u_id = uuidv7 C (next_uuid s), u_email = toLowerCase mail, u_auth_hash = h, u_psk = psk, u_token_version = 0\<rparr>"
  let ?p = "\<lparr>p_id = uuidv7 C (Suc (next_uuid s)), p_user = u_id ?u, p_name = trimName name, p_metadata = data\<rparr>"
  let ?s = "s\<lparr>users := users s @ [?u], profile_rows := profile_rows s @ [?p],
              next_uuid := Suc (Suc (next_uuid s)), next_salt := Suc (next_salt s)\<rparr>"
  have decode: "b64_engine_decode C (toBase64 data) = Some data" using crates_okD(1) [OF assms(1)] by (simp add: codec_ok_def)
  have reg: "register C mail k name (toBase64 data) psk s =
      (tokenReply C (u_id ?u) 0 (\<lambda>token. RegisterJson token (p_id ?p)), ?s)"
    using assms(3,4) h(1) by (simp add: register_def register_prepare_def hash_auth_key_def decode Let_def
        register_insert_def create_user_def create_profile_def find_user_None find_user_by_email_None)
  have "?s = snd (serve C (PostRegister mail k name (toBase64 data) psk) s)" by (simp add: serve_def reg)
  then have ok: "tables_ok C ?s" using tables_ok_serve [OF assms(2) crates_okD(2) [OF assms(1)]] by metis
  then obtain token where token: "issue_token C (u_id ?u) 0 = Some token" "authUser C ?s token = Inr (u_id ?u)"
    using issued_token [OF assms(1) ok, of ?u] by auto
  have "u_id ?u \<notin> u_id ` set (users s)" using assms(2) by (auto simp: tables_ok_def uuids_fresh_def)
  then have "find_profiles_by_user s (u_id ?u) = []" by (rule no_user_no_profiles [OF assms(2)])
  then have "find_profiles_by_user ?s (u_id ?u) = [?p]" by (simp add: find_profiles_by_user_def)
  moreover have "apiRegister (serve C) mail k name (toBase64 data) psk s = (Inr (token, p_id ?p), ?s)"
    by (simp add: apiRegister_def fetchJson_def bindA_def serve_def reg tokenReply_def token(1) [simplified]
        reply_def throwIfNotOk_def res_ok_def)
  ultimately show ?thesis using that [of token ?p ?s ?u] ok h(2) token(2) by simp
qed

lemma apiRegister_taken:
  assumes "codec_ok C" and "find_user_by_email s (toLowerCase mail) \<noteq> None" and "trimName name \<noteq> []"
  shows "apiRegister (serve C) mail k name (toBase64 data) psk s = (Inl (JsError ''email already registered''), s)"
  using assms by (simp add: apiRegister_def fetchJson_def bindA_def serve_def register_def register_prepare_def
      codec_ok_def Let_def badRequest_def reply_def throwIfNotOk_def res_ok_def readErrorMessage_def)

subsection \<open>Changing the password\<close>

text \<open>A change that is answered with a token wrote the row of the user it was authenticated for.\<close>

definition changedRow :: "user_row \<Rightarrow> string \<Rightarrow> string \<Rightarrow> user_row" where
  "changedRow u h psk = u\<lparr>u_auth_hash := h, u_psk := psk, u_token_version := u_token_version u + 1\<rparr>"

definition withRow :: "user_row \<Rightarrow> srv \<Rightarrow> srv" where
  "withRow v s = s\<lparr>users := map (\<lambda>w. if u_id w = u_id v then v else w) (users s), next_salt := Suc (next_salt s)\<rparr>"

lemma change_password_success:
  assumes "tables_ok C s" and "u \<in> set (users s)"
    and "change_password C (u_id u) old new psk s = (r, s')" and "status r = 200"
  obtains h where "hash_password C (next_salt s) new = Some h" and "verify_auth_key C old (u_auth_hash u) = Inr ()"
    and "s' = withRow (changedRow u h psk) s"
    and "r = tokenReply C (u_id u) (u_token_version u + 1) TokenJson"
proof -
  have "\<forall>w \<in> set (users s). u_id w = u_id u \<longrightarrow> w = u"
    using tables_okD(5) [OF assms(1)] assms(2) by (auto simp: distinct_map dest: inj_onD)
  then have rows: "map (\<lambda>v. if u_id v = u_id u then v\<lparr>u_auth_hash := h, u_psk := psk,
        u_token_version := u_token_version v + 1\<rparr> else v) (users s) =
      map (\<lambda>w. if u_id w = u_id (changedRow u h psk) then changedRow u h psk else w) (users s)" for h
    by (simp add: changedRow_def) metis
  have err: "status internalError \<noteq> 200" "status unauthorized \<noteq> 200" "status databaseError \<noteq> 200"
    by (simp_all add: internalError_def unauthorized_def databaseError_def reply_def)
  obtain h where h: "hash_password C (next_salt s) new = Some h" and v: "verify_auth_key C old (u_auth_hash u) = Inr ()"
    using assms(3,4) err by (auto simp: change_password_def find_user_row [OF assms(1,2)] hash_auth_key_def
        verify_auth_key_def split: option.splits if_splits)
  then have "s' = withRow (changedRow u h psk) s \<and> r = tokenReply C (u_id u) (u_token_version u + 1) TokenJson"
    using assms(3,4) err by (auto simp: change_password_def find_user_row [OF assms(1,2)] hash_auth_key_def Let_def
        withRow_def rows split: if_splits)
  with h v show ?thesis by (intro that) auto
qed

lemma apiChangePassword_serve:
  assumes "tables_ok C s" and "authUser C s token = Inr uid"
    and "apiChangePassword (serve C) old new psk token s = (Inr newToken, s')"
  obtains u h where "u \<in> set (users s)" and "u_id u = uid" and "hash_password C (next_salt s) new = Some h"
    and "verify_auth_key C old (u_auth_hash u) = Inr ()" and "s' = withRow (changedRow u h psk) s"
    and "issue_token C uid (u_token_version u + 1) = Some newToken"
proof -
  obtain u where u: "u \<in> set (users s)" "u_id u = uid"
    using assms(2) find_user_Some by (fastforce simp: authUser_Inr_iff)
  obtain r t where r: "change_password C uid old new psk s = (r, t)" by (cases "change_password C uid old new psk s")
  have "res_ok r" "t = s'" and b: "body r = TokenJson newToken"
    using assms(3) by (auto simp: apiChangePassword_def fetchJson_def bindA_def serve_def assms(2) r throwIfNotOk_def
        split: if_splits payload.splits)
  moreover have "status r \<in> {200, 401, 500}"
    using r by (auto simp: change_password_def hash_auth_key_def verify_auth_key_def tokenReply_def unauthorized_def
        internalError_def databaseError_def reply_def Let_def split: option.splits if_splits)
  ultimately have "status r = 200" by (auto simp: res_ok_def)
  from change_password_success [OF assms(1) u(1) r [folded u(2)] this] obtain h where
    "hash_password C (next_salt s) new = Some h" "verify_auth_key C old (u_auth_hash u) = Inr ()"
    "t = withRow (changedRow u h psk) s" "r = tokenReply C (u_id u) (u_token_version u + 1) TokenJson" .
  with that [OF u, of h] b \<open>t = s'\<close> u(2) show ?thesis
    by (auto simp: tokenReply_def reply_def internalError_def split: option.splits)
qed

lemma withRow_user: "u \<in> set (users s) \<Longrightarrow> u_id v = u_id u \<Longrightarrow> v \<in> set (users (withRow v s))"
  by (auto simp: withRow_def image_iff)

text \<open>
  C6. A password change takes effect at once: after a successful call every token that worked
  before is refused, the returned token works, the new key (and no other) logs in, with any case of the
  email, and a login returns the new protected key with the same profiles.
\<close>

theorem password_change_takes_effect:
  assumes "crates_ok C" and "tables_ok C s" and "authUser C s token = Inr uid"
    and "apiChangePassword (serve C) old new psk token s = (Inr newToken, s')"
    and "find_user s uid = Some u" and "toLowerCase mail = u_email u"
  shows "authUser C s' newToken = Inr uid
    \<and> (authUser C s t = Inr uid \<longrightarrow> authUser C s' t = Inl (reply 401 NoJson))
    \<and> (\<exists>token'. apiLogin (serve C) mail new s' =
          (Inr (token', profileInfos (find_profiles_by_user s uid), Some psk), s'))
    \<and> (k \<noteq> new \<longrightarrow> apiLogin (serve C) mail k s' = (Inl InvalidCredentialsError, s'))"
proof -
  obtain h where u: "u \<in> set (users s)" "u_id u = uid" and h: "hash_password C (next_salt s) new = Some h"
    and s': "s' = withRow (changedRow u h psk) s" and new: "issue_token C uid (u_token_version u + 1) = Some newToken"
    using apiChangePassword_serve [OF assms(2-4)] assms(5) find_user_row [OF assms(2)] by (metis option.inject)
  let ?v = "changedRow u h psk"
  have "hashes C h new" using crates_okD(4) [OF assms(1), of "next_salt s" new] h by auto
  moreover have "s' = snd (serve C (PostChangePassword token old new psk) s)"
    using assms(4) by (auto simp: apiChangePassword_def fetchJson_def bindA_def split: prod.splits sum.splits payload.splits)
  then have ok: "tables_ok C s'" using tables_ok_serve [OF assms(2) crates_okD(2) [OF assms(1)]] by simp
  moreover have v: "?v \<in> set (users s')" "u_id ?v = uid" "u_email ?v = u_email u" "u_psk ?v = psk" "u_auth_hash ?v = h"
    unfolding s' using withRow_user [OF u(1)] u(2) by (simp_all add: changedRow_def)
  moreover have "find_profiles_by_user s' uid = find_profiles_by_user s uid"
    by (simp add: s' withRow_def find_profiles_by_user_def)
  ultimately have "\<exists>token'. apiLogin (serve C) mail new s' =
          (Inr (token', profileInfos (find_profiles_by_user s uid), Some psk), s')"
    and "k \<noteq> new \<Longrightarrow> apiLogin (serve C) mail k s' = (Inl InvalidCredentialsError, s')"
    using apiLogin_serve [OF assms(1) ok v(1), of new mail] assms(6) by (auto simp: signedIn_def)
  moreover have "find_user s' uid = Some ?v" using find_user_row [OF ok v(1)] v(2) by simp
  moreover have ver: "u_token_version ?v = u_token_version u + 1" by (simp add: changedRow_def)
  moreover have "verify_token C newToken = Some (uid, u_token_version u + 1)"
    using crates_okD(3) [OF assms(1), of "u_token_version u + 1" uid] new tables_okD(4) [OF assms(2)] u(1) by auto
  ultimately show ?thesis
    using assms(5) by (auto simp: authUser_Inr_iff) (auto simp: authUser_def find_user_def)
qed

lemma example_srv_tables: "tables_ok example_crates example_srv"
  by (auto simp: tables_ok_def owned_def bounded_def uuids_fresh_def example_srv_def
      count_profiles_by_user_def find_profiles_by_user_def maxProfilesPerUser_def example_crates_def toLowerCase_def
      toLower_def)

lemma example_srv_user:
  "find_user example_srv ''u1'' = Some \<lparr>u_id = ''u1'', u_email = ''a@b.c'', u_auth_hash = ''.key'', u_psk = ''psk'', u_token_version = 0\<rparr>"
  "authUser example_crates example_srv ''tok'' = Inr ''u1''"
  "hashes example_crates ''.key'' ''key''"
  by (auto simp: find_user_def example_srv_def authUser_def example_crates_def hashes_def)

lemma example_lower: "toLowerCase ''A@b.c'' = ''a@b.c''"
  by code_simp

lemma example_change:
  obtains s' where "change_password example_crates ''u1'' ''key'' ''new'' ''psk2'' example_srv = (reply 200 (TokenJson ''v.u1''), s')"
proof -
  have "hash_auth_key example_crates ''new'' example_srv = (Inr ''.new'', example_srv\<lparr>next_salt := 1\<rparr>)"
    by (simp add: hash_auth_key_def example_crates_def example_srv_def)
  moreover have "tokenReply example_crates ''u1'' 1 TokenJson = reply 200 (TokenJson ''v.u1'')"
    by (simp add: tokenReply_def example_crates_def)
  moreover have "verify_auth_key example_crates ''key'' ''.key'' = Inr ()"
    by (simp add: verify_auth_key_hashes [OF example_srv_user(3)])
  ultimately show ?thesis by (intro that) (simp add: change_password_def example_srv_user(1) Let_def)
qed

lemma example_api_change:
  "change_password example_crates ''u1'' ''key'' ''new'' ''psk2'' example_srv = (reply 200 (TokenJson tok), s') \<Longrightarrow>
     apiChangePassword (serve example_crates) ''key'' ''new'' ''psk2'' ''tok'' example_srv = (Inr tok, s')"
  by (simp add: apiChangePassword_def fetchJson_def bindA_def serve_def example_srv_user(2) reply_def throwIfNotOk_def res_ok_def)

lemma password_change_takes_effect_witness:
  "\<exists>newToken s'. apiChangePassword (serve example_crates) ''key'' ''new'' ''psk2'' ''tok'' example_srv = (Inr newToken, s')
     \<and> authUser example_crates s' newToken = Inr ''u1'' \<and> authUser example_crates s' ''tok'' = Inl (reply 401 NoJson)
     \<and> apiLogin (serve example_crates) ''A@b.c'' ''key'' s' = (Inl InvalidCredentialsError, s')"
proof -
  obtain newToken s' where c:
    "apiChangePassword (serve example_crates) ''key'' ''new'' ''psk2'' ''tok'' example_srv = (Inr newToken, s')"
    using example_change by (metis (no_types) example_api_change)
  from password_change_takes_effect [OF example_crates_sound example_srv_tables example_srv_user(2) c
      example_srv_user(1), of "''A@b.c''" "''tok''" "''key''"] c
  show ?thesis using example_srv_user(2) by (auto simp: example_lower)
qed

subsection \<open>A login that overlaps a password change\<close>

text \<open>
  Login verifies the key against one read of the user row and takes the token's version
  from a later one. A password change in between does not stop it: the device that knew the old password
  only gets a token of the new version, which works, together with the old protected key, although the
  old key no longer logs in.
\<close>

theorem overlapping_login_survives_password_change:
  assumes "crates_ok C" and "tables_ok C s"
    and "login_verify C mail old s = Inr u" and "hashes C (u_auth_hash u) old" and "old \<noteq> new"
    and "change_password C (u_id u) old new psk s = (r, s')" and "status r = 200"
  shows "\<exists>token ps. login_issue C u s' = reply 200 (LoginJson token ps (Some (u_psk u)))
    \<and> authUser C s' token = Inr (u_id u)
    \<and> apiLogin (serve C) mail old s' = (Inl InvalidCredentialsError, s')"
proof -
  have u: "u \<in> set (users s)" and mail: "u_email u = toLowerCase mail"
    using assms(3) find_user_by_email_Some by (fastforce simp: login_verify_def split: option.splits sum.splits)+
  obtain h where h: "hash_password C (next_salt s) new = Some h" and s': "s' = withRow (changedRow u h psk) s"
    using change_password_success [OF assms(2) u assms(6,7)] .
  let ?v = "changedRow u h psk"
  have hash: "hashes C h new" using crates_okD(4) [OF assms(1), of "next_salt s" new] h by auto
  have "table_writes C (Some (u_id u)) s s'"
    using change_password_writes [of C "u_id u" s old new psk] assms(6) by simp
  then have ok: "tables_ok C s'"
    by (induction rule: rtranclp_induct) (auto intro: assms(2) tables_ok_write [OF _ crates_okD(2) [OF assms(1)]])
  have v: "?v \<in> set (users s')" unfolding s' by (rule withRow_user [OF u]) (simp add: changedRow_def)
  have ids: "u_id ?v = u_id u" "u_email ?v = u_email u" "u_auth_hash ?v = h" by (simp_all add: changedRow_def)
  obtain token where "issue_token C (u_id ?v) (u_token_version ?v) = Some token" "authUser C s' token = Inr (u_id ?v)"
    using issued_token [OF assms(1) ok v] .
  moreover have "find_user s' (u_id u) = Some ?v" using find_user_row [OF ok v] ids(1) by simp
  moreover have "apiLogin (serve C) mail old s' = (Inl InvalidCredentialsError, s')"
    using apiLogin_serve(2) [OF assms(1) ok v _ _ assms(5)] hash ids mail by simp
  ultimately show ?thesis
    by (intro exI [of _ token] exI [of _ "profileInfos (find_profiles_by_user s' (u_id u))"])
       (simp add: login_issue_def tokenReply_def ids Let_def)
qed

lemma overlapping_login_survives_password_change_witness:
  "\<exists>u r s' token ps. login_verify example_crates ''A@b.c'' ''key'' example_srv = Inr u
     \<and> change_password example_crates ''u1'' ''key'' ''new'' ''psk2'' example_srv = (r, s')
     \<and> login_issue example_crates u s' = reply 200 (LoginJson token ps (Some ''psk''))
     \<and> authUser example_crates s' token = Inr ''u1''"
proof -
  let ?u = "\<lparr>u_id = ''u1'', u_email = ''a@b.c'', u_auth_hash = ''.key'', u_psk = ''psk'', u_token_version = 0\<rparr>"
  have v: "login_verify example_crates ''A@b.c'' ''key'' example_srv = Inr ?u"
    by (simp add: login_verify_def example_lower find_user_by_email_def example_srv_def
        verify_auth_key_hashes [OF example_srv_user(3)])
  obtain r s' where c: "change_password example_crates ''u1'' ''key'' ''new'' ''psk2'' example_srv = (r, s')" "status r = 200"
    using example_change by (metis reply_def response.select_convs(1))
  from overlapping_login_survives_password_change [OF example_crates_sound example_srv_tables v, of "''new''" "''psk2''" r s'] c v
  show ?thesis by (auto simp: example_srv_user(3))
qed

subsection \<open>Deleting the account\<close>

text \<open>
  C7. A successful deletion needs the right key and leaves nothing of the account: no user row,
  no profile, no delta and no snapshot of a profile of the user; every token of the user is refused,
  no key logs in, and the email can be registered again.
\<close>

theorem deleted_account_leaves_nothing:
  assumes "crates_ok C" and "tables_ok C s" and "authUser C s token = Inr uid" and "find_user s uid = Some u"
    and "apiDeleteAccount (serve C) token auth s = (Inr (), s')" and "toLowerCase mail = u_email u"
  shows "verify_auth_key C auth (u_auth_hash u) = Inr ()
    \<and> find_user s' uid = None \<and> find_profiles_by_user s' uid = []
    \<and> (profile_belongs_to_user s p uid \<longrightarrow> p \<notin> d_profile ` set (deltas s') \<and> snapshots s' p = None)
    \<and> authUser C s' t \<noteq> Inr uid
    \<and> apiLogin (serve C) mail k s' = (Inl InvalidCredentialsError, s')
    \<and> (\<exists>x s''. apiRegister (serve C) mail k ''Default'' (toBase64 data) psk s' = (Inr x, s''))"
proof -
  have ver: "verify_auth_key C auth (u_auth_hash u) = Inr ()" and s': "s' = delete_user uid s"
    using assms(5) by (auto simp: apiDeleteAccount_def bindA_def serve_def assms(3,4) delete_account_def
        verify_auth_key_def unauthorized_def internalError_def reply_def throwIfNotOk_def res_ok_def
        split: option.splits if_splits)
  have ok: "tables_ok C s'" unfolding s' by (rule tables_ok_delete_user [OF assms(2)])
  have none: "find_user s' uid = None" by (auto simp: s' delete_user_def find_user_None)
  have u: "u \<in> set (users s)" "u_id u = uid" using find_user_Some [OF assms(4)] by auto
  have "w = u" if "w \<in> set (users s)" and "u_email w = u_email u" for w
    using tables_okD(6) [OF assms(2)] that u(1) by (auto simp: distinct_map dest: inj_onD)
  then have mail: "find_user_by_email s' (toLowerCase mail) = None"
    using assms(6) u(2) by (auto simp: s' delete_user_def find_user_by_email_None)
  have "p \<notin> d_profile ` set (deltas s') \<and> snapshots s' p = None" if "profile_belongs_to_user s p uid" for p
    using that by (auto simp: s' delete_user_def deltas_delete_profiles_where snapshots_delete_profiles_where
        profile_belongs_to_user_def)
  moreover have "trimName ''Default'' \<noteq> []" by (simp add: trimName_def whiteSpace_def)
  then have "\<exists>x s''. apiRegister (serve C) mail k ''Default'' (toBase64 data) psk s' = (Inr x, s'')"
    using apiRegister_new [OF assms(1) ok mail] by metis
  moreover have "find_profiles_by_user s' uid = []"
    using no_user_no_profiles [OF ok] none by (simp add: find_user_None)
  ultimately show ?thesis
    using ver none apiLogin_unknown [OF mail] by (auto simp: authUser_Inr_iff)
qed

lemma deleted_account_leaves_nothing_witness:
  "\<exists>s'. apiDeleteAccount (serve example_crates) ''tok'' ''key'' example_srv = (Inr (), s')
     \<and> ''p1'' \<notin> d_profile ` set (deltas s') \<and> snapshots s' ''p1'' = None"
proof -
  obtain s' where d: "apiDeleteAccount (serve example_crates) ''tok'' ''key'' example_srv = (Inr (), s')"
    by (simp add: apiDeleteAccount_def bindA_def serve_def example_srv_user(1,2) delete_account_def
        verify_auth_key_hashes [OF example_srv_user(3)] reply_def throwIfNotOk_def res_ok_def)
  have "profile_belongs_to_user example_srv ''p1'' ''u1''" by (simp add: profile_belongs_to_user_def example_srv_def)
  with deleted_account_leaves_nothing [OF example_crates_sound example_srv_tables example_srv_user(2,1) d, of "''A@b.c''" "''p1''"] d
  show ?thesis by (simp add: example_lower)
qed

end
