(* ===== verification/Signing_In.thy ===== *)
theory Signing_In
  imports Server_Sessions Background_Correct
begin

text \<open>
  Two devices and the server: what \<^verbatim>\<open>loginOrRegister\<close> of the background (login, and
  register when the credentials are refused) relies on is the interface \<^verbatim>\<open>account_service\<close>;
  the server of Server.thy provides it. Then the account that two devices leave without profiles.
\<close>

subsection \<open>What signing in relies on\<close>

text \<open>A platform that calls this server and whose random values have the lengths the browser gives them.\<close>

definition soundPlatform :: "'n fetch \<Rightarrow> ('d, 'w, 'n) platform \<Rightarrow> bool" where
  "soundPlatform fetch X \<longleftrightarrow> x_fetch X = fetch \<and> gcm_roundtrip (e_crypto (x_env X))
     \<and> (\<forall>k. length (x_newKey X k) = 32) \<and> (\<forall>k. length (e_iv (x_env X) k) = 12)"

text \<open>
  \<^verbatim>\<open>has n mail k psk\<close>: the lower-case email is registered with the key \<^verbatim>\<open>k\<close> and the
  protected key \<^verbatim>\<open>psk\<close>.
\<close>

locale account_service =
  fixes fetch :: "'n fetch" and good :: "'n \<Rightarrow> bool" and free :: "'n \<Rightarrow> string \<Rightarrow> bool"
    and has :: "'n \<Rightarrow> string \<Rightarrow> string \<Rightarrow> string \<Rightarrow> bool"
  assumes right_key: "good n \<Longrightarrow> has n (toLowerCase mail) k psk \<Longrightarrow>
      \<exists>token ps. apiLogin fetch mail k n = (Inr (token, ps, Some psk), n)"
    and wrong_key: "good n \<Longrightarrow> has n (toLowerCase mail) k psk \<Longrightarrow> k' \<noteq> k \<Longrightarrow>
      apiLogin fetch mail k' n = (Inl InvalidCredentialsError, n)"
    and no_account: "free n (toLowerCase mail) \<Longrightarrow> apiLogin fetch mail k n = (Inl InvalidCredentialsError, n)"
    and taken: "good n \<Longrightarrow> has n (toLowerCase mail) k psk \<Longrightarrow>
      apiRegister fetch mail k' ''Default'' (toBase64 data) psk' n = (Inl (JsError ''email already registered''), n)"
    and registers: "good n \<Longrightarrow> free n (toLowerCase mail) \<Longrightarrow>
      \<exists>token profileId n'. apiRegister fetch mail k ''Default'' (toBase64 data) psk n = (Inr (token, profileId), n')
        \<and> good n' \<and> has n' (toLowerCase mail) k psk"
begin

lemma signs_in:
  assumes "soundPlatform fetch X" and "good (g_net s)" and "has (g_net s) (toLowerCase mail) k psk"
  shows "\<exists>token ps. loginOrRegister X mail k wk s = Some (Inr (token, ps, Some psk, False), s)"
proof -
  from right_key [OF assms(2,3)] obtain token ps where "apiLogin fetch mail k (g_net s) = (Inr (token, ps, Some psk), g_net s)"
    by blast
  with assms(1) show ?thesis
    by (simp add: loginOrRegister_def soundPlatform_def netP_def catchP_def)
qed

text \<open>The registration a refused login falls back to: the new key is sealed twice before the call.\<close>

lemma registerAccount_call:
  assumes "soundPlatform fetch X"
  obtains key psk data t where "length key = 32" and "g_net t = g_net s"
    and "decrypt (e_crypto (x_env X)) wk psk = Inr key" and "psk \<noteq> []"
    and "registerAccount X mail k wk s =
      bindP (netP (\<lambda>_. apiRegister fetch mail k ''Default'' (toBase64 data) psk)) (\<lambda>(token, profileId).
        retP (token, [\<lparr>pi_id = profileId, pi_name = ''Default''\<rparr>], Some psk, True)) t"
proof -
  let ?W = "e_crypto (x_env X)" and ?iv = "e_iv (x_env X)" and ?u = "uuids (g_bridge s)"
  let ?key = "x_newKey X ?u" and ?psk = "encrypt ?W (?iv (Suc ?u)) wk (x_newKey X ?u)"
  let ?t = "putBridge ((g_bridge s)\<lparr>uuids := Suc (Suc (Suc ?u))\<rparr>) s"
  let ?data = "?iv (Suc (Suc ?u)) @ gcm_encrypt ?W ?key (?iv (Suc (Suc ?u))) emptyObject"
  have iv: "length (?iv m) = 12" and gcm: "gcm_roundtrip ?W" and len: "length ?key = 32" for m
    using assms by (simp_all add: soundPlatform_def)
  have "registerAccount X mail k wk s =
      bindP (netP (\<lambda>_. apiRegister fetch mail k ''Default'' (toBase64 ?data) ?psk)) (\<lambda>(token, profileId).
        retP (token, [\<lparr>pi_id = profileId, pi_name = ''Default''\<rparr>], Some ?psk, True)) ?t"
    using assms len by (simp add: registerAccount_def newKeyP_def sealP_def importKey_def Let_def soundPlatform_def putBridge_def)
      (simp add: encrypt_def)
  moreover have "?psk \<noteq> []" using iv [of "Suc ?u"] by (auto simp: encrypt_nonempty)
  moreover have "g_net ?t = g_net s" by (simp add: putBridge_def)
  ultimately show ?thesis using that [OF len _ decrypt_encrypt [OF gcm iv]] by blast
qed

lemma refused:
  assumes "soundPlatform fetch X" and "good (g_net s)" and "has (g_net s) (toLowerCase mail) k psk" and "k' \<noteq> k"
  shows "\<exists>t. loginOrRegister X mail k' wk s = Some (Inl (JsError ''Incorrect email or password.''), t) \<and> g_net t = g_net s"
proof -
  obtain psk' data t where t: "g_net t = g_net s" "registerAccount X mail k' wk s =
      bindP (netP (\<lambda>_. apiRegister fetch mail k' ''Default'' (toBase64 data) psk')) (\<lambda>(token, profileId).
        retP (token, [\<lparr>pi_id = profileId, pi_name = ''Default''\<rparr>], Some psk', True)) t"
    by (rule registerAccount_call [OF assms(1), of s wk mail k']) blast
  have f: "x_fetch X = fetch" using assms(1) by (simp add: soundPlatform_def)
  show ?thesis
    using taken [OF assms(2,3), of k' data psk'] wrong_key [OF assms(2-4)]
    by (simp add: loginOrRegister_def netP_def catchP_def f t)
qed

lemma signs_up:
  assumes "soundPlatform fetch X" and "good (g_net s)" and "free (g_net s) (toLowerCase mail)"
  obtains token profileId psk key t where
    "loginOrRegister X mail k wk s = Some (Inr (token, [\<lparr>pi_id = profileId, pi_name = ''Default''\<rparr>], Some psk, True), t)"
    and "good (g_net t)" and "has (g_net t) (toLowerCase mail) k psk"
    and "decrypt (e_crypto (x_env X)) wk psk = Inr key" and "length key = 32"
proof -
  obtain key psk data t where t: "length key = 32" "g_net t = g_net s" "decrypt (e_crypto (x_env X)) wk psk = Inr key"
    "registerAccount X mail k wk s =
      bindP (netP (\<lambda>_. apiRegister fetch mail k ''Default'' (toBase64 data) psk)) (\<lambda>(token, profileId).
        retP (token, [\<lparr>pi_id = profileId, pi_name = ''Default''\<rparr>], Some psk, True)) t"
    by (rule registerAccount_call [OF assms(1), of s wk mail k]) blast
  obtain token profileId n where n:
    "apiRegister fetch mail k ''Default'' (toBase64 data) psk (g_net s) = (Inr (token, profileId), n)"
    "good n" "has n (toLowerCase mail) k psk" using registers [OF assms(2,3)] by blast
  have f: "x_fetch X = fetch" using assms(1) by (simp add: soundPlatform_def)
  have "loginOrRegister X mail k wk s =
      Some (Inr (token, [\<lparr>pi_id = profileId, pi_name = ''Default''\<rparr>], Some psk, True), t\<lparr>g_net := n\<rparr>)"
    using no_account [OF assms(3), of k] n(1) t(2,4) by (simp add: loginOrRegister_def netP_def catchP_def f)
  with n(2,3) t(1,3) show ?thesis by (intro that [of token profileId psk "t\<lparr>g_net := n\<rparr>" key]) simp_all
qed

end

subsection \<open>The server provides it\<close>

definition registered :: "crates \<Rightarrow> srv \<Rightarrow> string \<Rightarrow> string \<Rightarrow> string \<Rightarrow> bool" where
  "registered C s mail k psk \<longleftrightarrow> (\<exists>u \<in> set (users s). u_email u = mail \<and> hashes C (u_auth_hash u) k \<and> u_psk u = psk)"

definition serverGood :: "crates \<Rightarrow> srv \<Rightarrow> bool" where
  "serverGood C s \<longleftrightarrow> crates_ok C \<and> tables_ok C s"

definition serverFree :: "srv \<Rightarrow> string \<Rightarrow> bool" where
  "serverFree s mail \<longleftrightarrow> find_user_by_email s mail = None"

lemma default_name: "trimName ''Default'' = ''Default''"
  by (simp add: trimName_def whiteSpace_def)

lemma server_login:
  assumes "serverGood C n" and "registered C n (toLowerCase mail) k psk"
  shows "\<exists>token ps. apiLogin (serve C) mail k n = (Inr (token, ps, Some psk), n)"
    and "k' \<noteq> k \<Longrightarrow> apiLogin (serve C) mail k' n = (Inl InvalidCredentialsError, n)"
    and "apiRegister (serve C) mail k' ''Default'' (toBase64 data) psk' n = (Inl (JsError ''email already registered''), n)"
proof -
  have C: "crates_ok C" and ok: "tables_ok C n" using assms(1) by (simp_all add: serverGood_def)
  obtain u where u: "u \<in> set (users n)" "toLowerCase mail = u_email u" "hashes C (u_auth_hash u) k" "u_psk u = psk"
    using assms(2) by (auto simp: registered_def)
  note login = apiLogin_serve [OF C ok u(1,3,2)]
  show "\<exists>token ps. apiLogin (serve C) mail k n = (Inr (token, ps, Some psk), n)"
    using login(1) [OF refl] u(4) by (auto simp: signedIn_def)
  show "k' \<noteq> k \<Longrightarrow> apiLogin (serve C) mail k' n = (Inl InvalidCredentialsError, n)" by (rule login(2))
  show "apiRegister (serve C) mail k' ''Default'' (toBase64 data) psk' n = (Inl (JsError ''email already registered''), n)"
    using find_email_row [OF ok u(1)] u(2) crates_okD(1) [OF C] by (intro apiRegister_taken) (simp_all add: default_name)
qed

lemma server_register:
  assumes "serverGood C n" and "serverFree n (toLowerCase mail)"
  shows "\<exists>token profileId n'. apiRegister (serve C) mail k ''Default'' (toBase64 data) psk n = (Inr (token, profileId), n')
        \<and> serverGood C n' \<and> registered C n' (toLowerCase mail) k psk"
proof -
  have C: "crates_ok C" and ok: "tables_ok C n" using assms(1) by (simp_all add: serverGood_def)
  have "trimName ''Default'' \<noteq> []" by (simp add: default_name)
  then obtain token and p :: profile_row and s' u where r: "apiRegister (serve C) mail k ''Default'' (toBase64 data) psk n = (Inr (token, p_id p), s')"
    and s': "tables_ok C s'" "u \<in> set (users s')" "u_email u = toLowerCase mail" "hashes C (u_auth_hash u) k" "u_psk u = psk"
    by (rule apiRegister_new [OF C ok assms(2) [unfolded serverFree_def], where k = k and data = data and psk = psk]) blast
  have "registered C s' (toLowerCase mail) k psk" unfolding registered_def using s' by blast
  with r s'(1) C show ?thesis unfolding serverGood_def by blast
qed

interpretation accounts: account_service "serve C" "serverGood C" serverFree "registered C" for C
  by unfold_locales (use server_login server_register apiLogin_unknown in \<open>auto simp: serverFree_def\<close>)

subsection \<open>Properties\<close>

text \<open>
  C3. Signing up on one device and signing in on another: for an email the server does not
  know, the first sign-in creates the account and a fresh data key sealed by the password's wrapping key.
  Any other device that signs in afterwards with the same password (and the email in any
  case) gets the same protected key and opens the same data key from it, and changes nothing on the server. A key
  that differs is answered ``Incorrect email or password.'' and creates nothing.
\<close>

theorem sign_up_then_sign_in:
  assumes "crates_ok C" and "tables_ok C (g_net s)" and "find_user_by_email (g_net s) (toLowerCase mail) = None"
    and "soundPlatform (serve C) X" and "soundPlatform (serve C) Y" and W: "e_crypto (x_env X) = W"
    and "toLowerCase mail' = toLowerCase mail"
    and "loginOrRegister X mail (authKey (deriveKeys W pw mail)) (wrappingKeyBytes (deriveKeys W pw mail)) s = Some (r, t)"
    and "g_net s' = g_net t"
  shows "\<exists>token profileId psk key. r = Inr (token, [\<lparr>pi_id = profileId, pi_name = ''Default''\<rparr>], Some psk, True)
    \<and> length key = 32
    \<and> (\<exists>token' ps. loginOrRegister Y mail' (authKey (deriveKeys W pw mail')) (wrappingKeyBytes (deriveKeys W pw mail')) s'
          = Some (Inr (token', ps, Some psk, False), s'))
    \<and> decrypt W (wrappingKeyBytes (deriveKeys W pw mail')) psk = Inr key
    \<and> (k \<noteq> authKey (deriveKeys W pw mail) \<longrightarrow>
         (\<exists>t'. loginOrRegister Y mail' k wk s' = Some (Inl (JsError ''Incorrect email or password.''), t') \<and> g_net t' = g_net s'))"
proof -
  let ?D = "deriveKeys W pw mail"
  have same: "deriveKeys W pw mail' = ?D" using deriveKeys_toLowerCase [of W pw mail] deriveKeys_toLowerCase [of W pw mail'] assms(7) by simp
  have good: "serverGood C (g_net s)" "serverFree (g_net s) (toLowerCase mail)"
    using assms(1-3) by (simp_all add: serverGood_def serverFree_def)
  obtain token profileId psk key t' where up:
    "loginOrRegister X mail (authKey ?D) (wrappingKeyBytes ?D) s =
       Some (Inr (token, [\<lparr>pi_id = profileId, pi_name = ''Default''\<rparr>], Some psk, True), t')"
    "serverGood C (g_net t')" "registered C (g_net t') (toLowerCase mail) (authKey ?D) psk"
    "decrypt W (wrappingKeyBytes ?D) psk = Inr key" "length key = 32"
    by (rule accounts.signs_up [OF assms(4) good, where k = "authKey ?D" and wk = "wrappingKeyBytes ?D", unfolded W])
  then have "t' = t" and r: "r = Inr (token, [\<lparr>pi_id = profileId, pi_name = ''Default''\<rparr>], Some psk, True)"
    using assms(8) by simp_all
  then have there: "serverGood C (g_net s')" "registered C (g_net s') (toLowerCase mail') (authKey ?D) psk"
    using up(2,3) assms(7,9) by simp_all
  note again = accounts.signs_in [OF assms(5) there, of "wrappingKeyBytes ?D"]
  show ?thesis
    unfolding same using r up(4,5) again accounts.refused [OF assms(5) there, of k wk]
    by (intro exI [of _ token] exI [of _ profileId] exI [of _ psk] exI [of _ key]) simp
qed

definition idle_browser :: "unit chrome" where
  "idle_browser = serving defaultRoots (TreeNode ''0'' None None '''' None [])"

definition serving_platform :: "(bookmarks, unit, srv) platform" where
  "serving_platform = example_with keeping_loro (serve example_crates) idle_browser"

definition serving_worker :: "auth \<Rightarrow> srv \<Rightarrow> (bookmarks, unit, srv) bg" where
  "serving_worker a n =
     \<lparr>g_auth = a, g_world = \<lparr>w_bridge = emptyBridge keeping_loro, w_db = emptyDb, w_browser = (), w_ignore = 0\<rparr>,
      g_hasDoc = False, g_attached = False, g_net = n, g_pushPaused = False, g_sse = None, g_alarms = {},
      g_icon = IconSignedout, g_jobs = [], g_outbox = [], g_lastSynced = None, g_pendingChanges = None,
      g_pendingUnlockProfileId = None, g_pendingImport = None, g_syncInProgress = False, g_syncPaused = False,
      g_switchInProgress = False, g_pendingSwitchProfileId = None, g_resyncRequested = False\<rparr>"

lemma serving_simps [simp]:
  "g_net (serving_worker a n) = n" "g_auth (serving_worker a n) = a"
  "x_fetch serving_platform = serve example_crates" "e_crypto (x_env serving_platform) = example_webcrypto"
  by (simp_all add: serving_worker_def serving_platform_def example_with_def example_env_def)

lemma serving_platform_sound: "soundPlatform (serve example_crates) serving_platform"
  by (simp add: soundPlatform_def example_webcrypto_ok) (simp add: serving_platform_def example_with_def example_env_def)

lemma sign_up_then_sign_in_witness:
  "\<exists>r t token' ps psk. loginOrRegister serving_platform ''a@b.c'' (authKey (deriveKeys example_webcrypto ''pw'' ''a@b.c''))
       (wrappingKeyBytes (deriveKeys example_webcrypto ''pw'' ''a@b.c'')) (serving_worker freshAuth emptySrv) = Some (r, t)
     \<and> loginOrRegister serving_platform ''A@b.c'' (authKey (deriveKeys example_webcrypto ''pw'' ''A@b.c''))
         (wrappingKeyBytes (deriveKeys example_webcrypto ''pw'' ''A@b.c'')) (serving_worker freshAuth (g_net t))
       = Some (Inr (token', ps, Some psk, False), serving_worker freshAuth (g_net t))"
proof -
  let ?s = "serving_worker freshAuth emptySrv" and ?D = "deriveKeys example_webcrypto ''pw'' ''a@b.c''"
  have free: "find_user_by_email (g_net ?s) m = None" for m by (simp add: emptySrv_def find_user_by_email_def)
  have ok: "tables_ok example_crates (g_net ?s)" by (simp add: emptySrv_ok)
  then have good: "serverGood example_crates (g_net ?s)" by (simp add: serverGood_def example_crates_sound)
  obtain r t where "loginOrRegister serving_platform ''a@b.c'' (authKey ?D) (wrappingKeyBytes ?D) ?s = Some (r, t)"
    using accounts.signs_up [OF serving_platform_sound good, of "''a@b.c''" "authKey ?D" "wrappingKeyBytes ?D"] free
    by (metis serverFree_def)
  moreover have "toLowerCase ''A@b.c'' = toLowerCase ''a@b.c''" by code_simp
  ultimately show ?thesis
    using sign_up_then_sign_in [OF example_crates_sound ok free serving_platform_sound serving_platform_sound serving_simps(4),
        of "''A@b.c''" "''a@b.c''" "''pw''" r t "serving_worker freshAuth (g_net t)"] by fastforce
qed

subsection \<open>An account without profiles\<close>

text \<open>The server deletes any profile of the user, the last one included.\<close>

lemma deleteProfile_step:
  assumes "x_fetch X = serve C" and "getActiveProfileId (g_auth s) = Inr active" and "profileId \<noteq> active"
    and "getJwt (g_auth s) = Inr token" and "authUser C (g_net s) token = Inr uid"
    and "profile_belongs_to_user (g_net s) profileId uid"
  shows "\<exists>t. handleDeleteProfile X profileId s = Some (Inr DELETE_PROFILE_SUCCESS, t)
    \<and> g_net t = delete_profile profileId uid (g_net s)"
  using assms by (simp add: handleDeleteProfile_def orReply_def catchP_def bindP_def netP_def apiDeleteProfile_def bindA_def
      serve_def delete_profile_route_def reply_def throwIfNotOk_def res_ok_def dbP_def putDb_def)

lemma delete_profile_left:
  "find_profiles_by_user (delete_profile q uid s) uid = filter (\<lambda>p. p_id p \<noteq> q) (find_profiles_by_user s uid)"
  by (auto simp: delete_profile_def find_profiles_by_user_def intro: filter_cong)

lemma delete_profile_authUser [simp]: "authUser C (delete_profile q uid s) token = authUser C s token"
  unfolding authUser_def delete_profile_def delete_profiles_where_simps ..

lemma login_without_profiles:
  assumes "crates_ok C" and "tables_ok C (g_net s)" and "u \<in> set (users (g_net s))" and "toLowerCase mail = u_email u"
    and "hashes C (u_auth_hash u) k0" and "find_profiles_by_user (g_net s) (u_id u) = []" and "soundPlatform (serve C) X"
  shows "\<exists>msg t. handleLogin X mail k wk s = Some (Inr (LOGIN_ERROR msg), t)"
proof -
  have fails: "\<exists>msg t. handleLogin X mail k wk s = Some (Inr (LOGIN_ERROR msg), t)"
    if "importKey wk = Inr wk'" and "bindP (loginOrRegister X mail k wk') (\<lambda>(token, ps, psk, n). openSession X mail wk' token ps psk n) s
        = Some (Inl e, t)" for wk' e t
    using that by (simp add: handleLogin_def catchP_def)
  show ?thesis
  proof (cases "importKey wk")
    case (Inl e)
    then show ?thesis by (simp add: handleLogin_def catchP_def)
  next
    case (Inr wk')
    show ?thesis
    proof (cases "k = k0")
      case True
      then obtain token where "apiLogin (serve C) mail k (g_net s) = (Inr (token, [], Some (u_psk u)), g_net s)"
        using apiLogin_serve(1) [OF assms(1-3,5,4)] assms(6) by (auto simp: signedIn_def profileInfos_def)
      then have "loginOrRegister X mail k wk' s = Some (Inr (token, [], Some (u_psk u), False), s)"
        using assms(7) by (simp add: loginOrRegister_def soundPlatform_def netP_def catchP_def)
      moreover have "\<exists>e. openSession X mail wk' token [] (Some (u_psk u)) False s = Some (Inl e, s)"
        by (cases "truthy (Some (u_psk u))"; cases "decrypt (e_crypto (x_env X)) wk' (u_psk u)")
           (auto simp: openSession_def importKey_def bindP_def)
      ultimately show ?thesis using fails [OF Inr] by auto
    next
      case False
      have "serverGood C (g_net s)" "registered C (g_net s) (toLowerCase mail) k0 (u_psk u)"
        using assms(1-5) by (auto simp: serverGood_def registered_def)
      from accounts.refused [OF assms(7) this False, of wk'] show ?thesis using fails [OF Inr] by auto
    qed
  qed
qed

text \<open>
  C39. The background only refuses to delete the active profile, and the server refuses
  nothing: two devices with different active profiles of an account with two profiles can each delete
  the profile of the other. Both deletions succeed, and from then on nobody can sign in to
  the account on any device with any key: the profile list of the login is empty and the
  background reads its first element.
\<close>

theorem two_devices_empty_the_account:
  assumes "crates_ok C" and "tables_ok C (g_net sA)" and "find_user (g_net sA) uid = Some u"
    and "hashes C (u_auth_hash u) k0" and "map p_id (find_profiles_by_user (g_net sA) uid) = [p1, p2]"
    and A: "x_fetch X = serve C" "getActiveProfileId (g_auth sA) = Inr p1" "getJwt (g_auth sA) = Inr tA"
      "authUser C (g_net sA) tA = Inr uid" "handleDeleteProfile X p2 sA = Some (rA, sA')"
    and B: "x_fetch Y = serve C" "g_net sB = g_net sA'" "getActiveProfileId (g_auth sB) = Inr p2" "getJwt (g_auth sB) = Inr tB"
      "authUser C (g_net sA) tB = Inr uid" "handleDeleteProfile Y p1 sB = Some (rB, sB')"
    and L: "soundPlatform (serve C) Z" "g_net s = g_net sB'" "toLowerCase mail = u_email u"
  shows "rA = Inr DELETE_PROFILE_SUCCESS \<and> rB = Inr DELETE_PROFILE_SUCCESS
    \<and> (\<exists>msg t. handleLogin Z mail k wk s = Some (Inr (LOGIN_ERROR msg), t))"
proof -
  let ?n = "g_net sA"
  have "distinct (map p_id (profile_rows ?n))" using assms(2) by (rule tables_okD)
  then have "distinct (map p_id (find_profiles_by_user ?n uid))" unfolding find_profiles_by_user_def by (rule distinct_map_filter)
  then have ne: "p1 \<noteq> p2" unfolding assms(5) by simp
  have "set (map p_id (find_profiles_by_user ?n uid)) = {p1, p2}" unfolding assms(5) by simp
  then have own: "profile_belongs_to_user ?n p1 uid" "profile_belongs_to_user ?n p2 uid" by (auto simp: belongs_iff)
  from deleteProfile_step [OF A(1,2) ne [symmetric] A(3,4) own(2)] A(5)
  have a: "rA = Inr DELETE_PROFILE_SUCCESS" "g_net sB = delete_profile p2 uid ?n" using B(2) by auto
  have "profile_belongs_to_user (g_net sB) p1 uid"
    using own(1) ne by (auto simp: a(2) belongs_iff delete_profile_left)
  from deleteProfile_step [OF B(1,3) ne B(4) _ this] B(5,6) L(2) a(2)
  have b: "rB = Inr DELETE_PROFILE_SUCCESS" "g_net s = delete_profile p1 uid (delete_profile p2 uid ?n)" by auto
  have "find_profiles_by_user (g_net s) uid = []"
    unfolding b(2) delete_profile_left using assms(5) by (auto simp: filter_empty_conv dest!: arg_cong [where f = set])
  moreover have "tables_ok C (g_net s)"
    unfolding b(2) delete_profile_def by (intro tables_ok_delete_profiles_where assms(2))
  moreover have "u \<in> set (users (g_net s))" "u_id u = uid"
    using find_user_Some [OF assms(3)] by (simp_all add: b(2) delete_profile_def)
  ultimately show ?thesis
    using a(1) b(1) login_without_profiles [OF assms(1) _ _ L(3) assms(4) _ L(1)] by auto
qed

definition two_profile_srv :: srv where
  "two_profile_srv = example_srv\<lparr>profile_rows := profile_rows example_srv @
     [\<lparr>p_id = ''p2'', p_user = ''u1'', p_name = ''Work'', p_metadata = []\<rparr>]\<rparr>"

definition on_profile :: "string \<Rightarrow> auth" where
  "on_profile p = setSession ''tok'' ''a@b.c'' (replicate 32 1) (replicate 32 1) ''psk'' ''u1''
     [\<lparr>pi_id = ''p1'', pi_name = ''Default''\<rparr>, \<lparr>pi_id = ''p2'', pi_name = ''Work''\<rparr>] p freshAuth"

lemma two_devices_empty_the_account_witness:
  "\<exists>sA' sB' msg t. handleDeleteProfile serving_platform ''p2'' (serving_worker (on_profile ''p1'') two_profile_srv) = Some (Inr DELETE_PROFILE_SUCCESS, sA')
     \<and> handleDeleteProfile serving_platform ''p1'' (serving_worker (on_profile ''p2'') (g_net sA')) = Some (Inr DELETE_PROFILE_SUCCESS, sB')
     \<and> handleLogin serving_platform ''A@b.c'' ''key'' (replicate 32 1) (serving_worker freshAuth (g_net sB')) = Some (Inr (LOGIN_ERROR msg), t)"
proof -
  let ?A = "serving_worker (on_profile ''p1'') two_profile_srv"
  have tables: "tables_ok example_crates (g_net ?A)"
    by (auto simp: tables_ok_def owned_def bounded_def uuids_fresh_def two_profile_srv_def example_srv_def
        count_profiles_by_user_def find_profiles_by_user_def maxProfilesPerUser_def example_crates_def toLowerCase_def toLower_def)
  have user: "find_user (g_net ?A) ''u1'' = Some \<lparr>u_id = ''u1'', u_email = ''a@b.c'', u_auth_hash = ''.key'', u_psk = ''psk'', u_token_version = 0\<rparr>"
    and ids: "map p_id (find_profiles_by_user (g_net ?A) ''u1'') = [''p1'', ''p2'']"
    and auth: "authUser example_crates (g_net ?A) ''tok'' = Inr ''u1''"
    by (simp_all add: two_profile_srv_def find_user_def example_srv_def find_profiles_by_user_def authUser_def example_crates_def)
  have sess: "getActiveProfileId (on_profile p) = Inr p" "getJwt (on_profile p) = Inr ''tok''" for p
    by (simp_all add: on_profile_def setSession_def getActiveProfileId_def getJwt_def)
  have own: "profile_belongs_to_user (g_net ?A) ''p1'' ''u1''" "profile_belongs_to_user (g_net ?A) ''p2'' ''u1''"
    by (simp_all add: two_profile_srv_def example_srv_def profile_belongs_to_user_def)
  from deleteProfile_step [of serving_platform example_crates ?A "''p1''" "''p2''" "''tok''" "''u1''"] sess auth own(2)
  obtain sA' where a: "handleDeleteProfile serving_platform ''p2'' ?A = Some (Inr DELETE_PROFILE_SUCCESS, sA')"
    "g_net sA' = delete_profile ''p2'' ''u1'' (g_net ?A)" by auto
  let ?B = "serving_worker (on_profile ''p2'') (g_net sA')"
  have "profile_belongs_to_user (g_net sA') ''p1'' ''u1''"
    by (simp add: a(2) two_profile_srv_def example_srv_def profile_belongs_to_user_def delete_profile_def)
  with deleteProfile_step [of serving_platform example_crates ?B "''p2''" "''p1''" "''tok''" "''u1''"] sess auth a(2)
  obtain sB' where b: "handleDeleteProfile serving_platform ''p1'' ?B = Some (Inr DELETE_PROFILE_SUCCESS, sB')" by auto
  from two_devices_empty_the_account [OF example_crates_sound tables user _ ids, where X = serving_platform and Y = serving_platform
      and Z = serving_platform and tA = "''tok''" and tB = "''tok''" and sB = ?B and s = "serving_worker freshAuth (g_net sB')"
      and mail = "''A@b.c''" and k0 = "''key''" and k = "''key''" and wk = "replicate 32 1"]
  show ?thesis
    using a(1) b sess auth example_srv_user(3) example_lower serving_platform_sound by auto
qed

end
