(* ===== verification/Server_Events.thy ===== *)
theory Server_Events
  imports Server Event_Stream
begin

text \<open>
  The way of a notification (server/src/routes/sync.rs, main.rs, routes/events.rs): a push notifies
  \<^verbatim>\<open>profile:sequence\<close> on the channel of the database, the listener task parses and
  broadcasts it, the bridge of a connection lets those of its profile through, and the client parses the
  event. axum's framing of an event and the text of a uuid are crates, so they are parameters. A
  receiver that lags behind loses broadcasts; that is the list of broadcasts the bridge gets.
\<close>

subsection \<open>Opening the stream\<close>

text \<open>A rejection is a bare status.\<close>

definition events_handler :: "crates \<Rightarrow> srv \<Rightarrow> string \<Rightarrow> string \<Rightarrow> response option" where
  "events_handler C s token profileId =
     (case verify_token C token of
        None \<Rightarrow> Some (reply 401 NoJson)
      | Some (uid, ver) \<Rightarrow>
          (case find (\<lambda>u. u_id u = uid) (users s) of
             None \<Rightarrow> Some (reply 401 NoJson)
           | Some u \<Rightarrow>
               if u_token_version u \<noteq> ver then Some (reply 401 NoJson)
               else if \<not> profile_belongs_to_user s profileId uid then Some (reply 403 NoJson)
               else None))"

lemma events_handler_authUser:
  "events_handler C s token profileId =
     (case authUser C s token of
        Inl r \<Rightarrow> Some r
      | Inr uid \<Rightarrow> if profile_belongs_to_user s profileId uid then None else Some (reply 403 NoJson))"
  by (simp add: events_handler_def authUser_def split: option.split prod.split)

subsection \<open>The payload of a notification\<close>

text \<open>\<^verbatim>\<open>format!("{}:{}", profile_id, sequence_id)\<close>; sequence ids of the database are positive.\<close>

definition notify_payload :: "string \<Rightarrow> int \<Rightarrow> string" where
  "notify_payload profileId seq = profileId @ CHR '':'' # show_nat (nat seq)"

fun split_once :: "char \<Rightarrow> string \<Rightarrow> (string \<times> string) option" where
  "split_once c [] = None"
| "split_once c (d # rest) =
     (if d = c then Some ([], rest) else map_option (\<lambda>(a, b). (d # a, b)) (split_once c rest))"

text \<open>\<^verbatim>\<open>str::parse::<i64>\<close>: an optional sign, digits, and the range of the type.\<close>

definition parse_i64 :: "string \<Rightarrow> int option" where
  "parse_i64 s =
     (let (negative, ds) = (case s of c # rest \<Rightarrow> if c = CHR ''-'' then (True, rest)
                              else if c = CHR ''+'' then (False, rest) else (False, s) | [] \<Rightarrow> (False, s))
      in if ds = [] then None
         else (case digitsValue 0 ds of
                 None \<Rightarrow> None
               | Some n \<Rightarrow> (let v = if negative then - int n else int n
                            in if - (2 ^ 63) \<le> v \<and> v < 2 ^ 63 then Some v else None)))"

definition parse_notify :: "(string \<Rightarrow> string option) \<Rightarrow> string \<Rightarrow> (string \<times> int) option" where
  "parse_notify parse_uuid text =
     (case split_once (CHR '':'') text of
        None \<Rightarrow> None
      | Some (pid, seq) \<Rightarrow>
          (case parse_uuid pid of None \<Rightarrow> None
           | Some p \<Rightarrow> (case parse_i64 seq of None \<Rightarrow> None | Some n \<Rightarrow> Some (p, n))))"

text \<open>The listener broadcasts what parses, the bridge of a connection forwards its own profile's.\<close>

definition listener :: "(string \<Rightarrow> string option) \<Rightarrow> string list \<Rightarrow> (string \<times> int) list" where
  "listener parse_uuid payloads = List.map_filter (parse_notify parse_uuid) payloads"

definition bridge_task :: "string \<Rightarrow> (string \<times> int) list \<Rightarrow> int list" where
  "bridge_task profileId msgs = map snd (filter (\<lambda>m. fst m = profileId) msgs)"

subsection \<open>The event on the wire\<close>

text \<open>
  What the client relies on of axum and serde_json: an event is one data line with a text that parses to
  the sequence id, closed by an empty line; between events there are comments that keep the
  connection alive.
\<close>

datatype sse_item = Note int | KeepAlive

definition frames_ok :: "(int \<Rightarrow> string) \<Rightarrow> (string \<Rightarrow> int option) \<Rightarrow> bool" where
  "frames_ok text parse \<longleftrightarrow> (\<forall>n. newline \<notin> set (text n) \<and> parse (text n) = Some n)"

fun frame :: "(int \<Rightarrow> string) \<Rightarrow> sse_item \<Rightarrow> string" where
  "frame text (Note n) = dataPrefix @ text n @ [newline, newline]"
| "frame text KeepAlive = [CHR '':'', newline, newline]"

fun noted :: "sse_item \<Rightarrow> int option" where
  "noted (Note n) = Some n"
| "noted KeepAlive = None"

lemma parse_i64_show:
  assumes "0 \<le> n" and "n < 2 ^ 63"
  shows "parse_i64 (show_nat (nat n)) = Some n"
proof -
  obtain c rest where s: "show_nat (nat n) = c # rest" "digit c \<noteq> None" using show_nat_head by blast
  then have "c \<noteq> CHR ''-''" "c \<noteq> CHR ''+''" by (auto simp: digit_def Let_def)
  moreover have "digitsValue 0 (c # rest) = Some (nat n)" using digitsValue_show_nat [of "nat n"] s(1) by simp
  ultimately show ?thesis
    using assms by (simp add: parse_i64_def s(1) Let_def)
qed

lemma split_once_first: "c \<notin> set a \<Longrightarrow> split_once c (a @ c # b) = Some (a, b)"
  by (induction a) auto

lemma parse_notify_payload:
  assumes "CHR '':'' \<notin> set p" and "parse_uuid p = Some p" and "0 \<le> n" and "n < 2 ^ 63"
  shows "parse_notify parse_uuid (notify_payload p n) = Some (p, n)"
  using assms by (simp add: parse_notify_def notify_payload_def split_once_first parse_i64_show)

lemma splitDouble_frame: "newline \<notin> set line \<Longrightarrow> splitDouble part (line @ [newline, newline]) = [part @ line, []]"
proof (induction line arbitrary: part)
  case (Cons c line)
  then show ?case by (cases "line @ [newline, newline]") auto
qed simp

lemma splitLines_single: "newline \<notin> set line \<Longrightarrow> splitLines part line = [part @ line]"
  by (induction line arbitrary: part) auto

lemma feed_frame:
  assumes "frames_ok text parse"
  shows "feed parse [] (frame text i) = (case noted i of None \<Rightarrow> [] | Some n \<Rightarrow> [n], [])"
proof (cases i)
  case (Note n)
  have "newline \<notin> set (dataPrefix @ text n)" using assms by (auto simp: frames_ok_def dataPrefix_def newline_def)
  moreover have "take 6 (dataPrefix @ text n) = dataPrefix" "drop 6 (dataPrefix @ text n) = text n"
    by (simp_all add: dataPrefix_def)
  ultimately show ?thesis
    using splitDouble_frame [of "dataPrefix @ text n" "[]"] splitLines_single [of "dataPrefix @ text n" "[]"] assms Note
    by (simp add: feed_def eventSeqs_def Let_def frames_ok_def List.map_filter_def)
next
  case KeepAlive
  then show ?thesis
    by (simp add: feed_def eventSeqs_def Let_def newline_def dataPrefix_def List.map_filter_def)
qed

lemma feed_frames:
  assumes "frames_ok text parse"
  shows "feed parse [] (concat (map (frame text) items)) = (List.map_filter noted items, [])"
proof (induction items)
  case (Cons i items)
  then show ?case
    using feed_frame [OF assms, of i] by (simp add: feed_append List.map_filter_def split: option.splits)
qed (simp add: feed_def List.map_filter_def Let_def)

subsection \<open>Properties\<close>


text \<open>A text of sequence ids that parses: a sign and as many marks.\<close>

definition unary :: "int \<Rightarrow> string" where
  "unary n = (if 0 \<le> n then CHR ''p'' else CHR ''m'') # replicate (nat \<bar>n\<bar>) (CHR ''x'')"

definition readUnary :: "string \<Rightarrow> int option" where
  "readUnary s = (case s of [] \<Rightarrow> None | c # r \<Rightarrow> Some (if c = CHR ''p'' then int (length r) else - int (length r)))"


end
