(* ===== verification/Server_Rate_Limit.thy ===== *)
theory Server_Rate_Limit
  imports Http
begin

text \<open>
  server/src/rate_limit.rs: the sliding window that caps the requests of one address to the /auth/*
  routes, its periodic cleanup, and the address a request is counted for. An Instant is a number of
  nanoseconds; \<^verbatim>\<open>checked_sub\<close> gives None below the earliest instant the platform can
  represent, which is a parameter, like the parser of addresses. The lock makes each request one step.
\<close>

subsection \<open>The window\<close>

definition authWindow :: int where
  "authWindow = 60 * 1000000000"

definition authMaxPerWindow :: nat where
  "authMaxPerWindow = 10"

type_synonym 'ip limiter = "'ip \<rightharpoonup> int list"

definition checked_sub :: "int \<Rightarrow> int \<Rightarrow> int \<Rightarrow> int option" where
  "checked_sub earliest now d = (if earliest \<le> now - d then Some (now - d) else None)"

text \<open>Popping the front while it is older than the cutoff.\<close>

definition popOld :: "int \<Rightarrow> int list \<Rightarrow> int list" where
  "popOld cutoff = dropWhile (\<lambda>t. t < cutoff)"

lemma popOld_Nil [simp]: "popOld c [] = []"
  by (simp add: popOld_def)

text \<open>\<^verbatim>\<open>auth_rate_limit\<close>: the entry is created and pruned even when the request is refused.\<close>

definition admit :: "int \<Rightarrow> 'ip \<Rightarrow> int \<Rightarrow> 'ip limiter \<Rightarrow> bool \<times> 'ip limiter" where
  "admit earliest ip now m =
     (let cutoff = orElse (checked_sub earliest now authWindow) now;
          entry = popOld cutoff (orElse (m ip) [])
      in if authMaxPerWindow \<le> length entry then (False, m(ip \<mapsto> entry))
         else (True, m(ip \<mapsto> entry @ [now])))"

definition auth_rate_limit :: "bool \<Rightarrow> int \<Rightarrow> 'ip option \<Rightarrow> int \<Rightarrow> 'ip limiter \<Rightarrow> response option \<times> 'ip limiter" where
  "auth_rate_limit testMode earliest client now m =
     (if testMode then (None, m)
      else (case client of
              None \<Rightarrow> (None, m)
            | Some ip \<Rightarrow> (case admit earliest ip now m of (ok, m') \<Rightarrow>
                (if ok then None else Some \<lparr>status = 429, body = NoJson\<rparr>, m'))))"

text \<open>One tick of \<^verbatim>\<open>run_cleanup\<close>: every entry is pruned, empty ones are removed.\<close>

definition cleanup :: "int \<Rightarrow> int \<Rightarrow> 'ip limiter \<Rightarrow> 'ip limiter" where
  "cleanup earliest now m =
     (case checked_sub earliest now authWindow of
        None \<Rightarrow> m
      | Some cutoff \<Rightarrow> (\<lambda>ip. case m ip of None \<Rightarrow> None
          | Some entry \<Rightarrow> let q = popOld cutoff entry in if q = [] then None else Some q))"

subsection \<open>The address\<close>

fun splitComma :: "string \<Rightarrow> string \<Rightarrow> string list" where
  "splitComma part [] = [part]"
| "splitComma part (c # rest) = (if c = CHR '','' then part # splitComma [] rest else splitComma (part @ [c]) rest)"

text \<open>The right-most entry that parses, over all header lines; \<^verbatim>\<open>parse\<close> trims and parses one entry.\<close>

definition client_ip :: "(string \<Rightarrow> 'ip option) \<Rightarrow> 'ip option \<Rightarrow> string list \<Rightarrow> bool \<Rightarrow> 'ip option" where
  "client_ip parse connect headers trust_proxy =
     (let forwarded = List.map_filter parse (concat (map (splitComma []) headers))
      in if trust_proxy \<and> forwarded \<noteq> [] then Some (last forwarded) else connect)"

subsection \<open>The log behind the queues\<close>

datatype 'ip limiter_event = Request 'ip int | Cleanup int

fun eventTime :: "'ip limiter_event \<Rightarrow> int" where
  "eventTime (Request ip now) = now"
| "eventTime (Cleanup now) = now"

text \<open>A run: the times at which requests of each address were admitted, and the limiter.\<close>

fun limiterStep :: "int \<Rightarrow> 'ip limiter_event \<Rightarrow> ('ip \<Rightarrow> int list) \<times> 'ip limiter \<Rightarrow> ('ip \<Rightarrow> int list) \<times> 'ip limiter" where
  "limiterStep earliest (Request ip now) (admitted, m) =
     (case admit earliest ip now m of
        (True, m') \<Rightarrow> (admitted(ip := admitted ip @ [now]), m')
      | (False, m') \<Rightarrow> (admitted, m'))"
| "limiterStep earliest (Cleanup now) (admitted, m) = (admitted, cleanup earliest now m)"

definition limiterRun :: "int \<Rightarrow> 'ip limiter_event list \<Rightarrow> ('ip \<Rightarrow> int list) \<times> 'ip limiter" where
  "limiterRun earliest es = fold (limiterStep earliest) es (\<lambda>ip. [], Map.empty)"

definition inWindow :: "int \<Rightarrow> int list \<Rightarrow> nat" where
  "inWindow t0 ts = length (filter (\<lambda>t. t0 \<le> t \<and> t \<le> t0 + authWindow) ts)"

text \<open>
  The queue of an address is the part of its log after some cutoff of the past, the log is in order,
  and no window of the log holds more than the maximum.
\<close>

definition limiter_inv :: "int \<Rightarrow> ('ip \<Rightarrow> int list) \<times> 'ip limiter \<Rightarrow> bool" where
  "limiter_inv now s \<longleftrightarrow> (\<forall>ip. sorted (fst s ip) \<and> (\<forall>t \<in> set (fst s ip). t \<le> now)
     \<and> (\<exists>c \<le> now - authWindow. orElse (snd s ip) [] = filter (\<lambda>t. c \<le> t) (fst s ip))
     \<and> (\<forall>t0. inWindow t0 (fst s ip) \<le> authMaxPerWindow))"

lemma popOld_filter: "sorted ts \<Longrightarrow> c \<le> d \<Longrightarrow> popOld d (filter (\<lambda>t. c \<le> t) ts) = filter (\<lambda>t. d \<le> t) ts"
proof (induction ts)
  case (Cons a ts)
  have "filter (\<lambda>t. c \<le> t) ts = ts" "filter (\<lambda>t. d \<le> t) ts = ts" if "d \<le> a"
    using Cons(2,3) that by (auto simp: filter_id_conv)
  then show ?case using Cons by (auto simp: popOld_def)
qed (simp add: popOld_def)

lemma length_filter_imp: "(\<And>x. x \<in> set xs \<Longrightarrow> P x \<Longrightarrow> Q x) \<Longrightarrow> length (filter P xs) \<le> length (filter Q xs)"
  by (induction xs) (auto intro: le_SucI)

lemma limiter_inv_mono: "limiter_inv now s \<Longrightarrow> now \<le> later \<Longrightarrow> limiter_inv later s"
  unfolding limiter_inv_def by (meson diff_right_mono order_trans)

lemma inWindow_append [simp]: "inWindow t0 (xs @ ys) = inWindow t0 xs + inWindow t0 ys"
  by (simp add: inWindow_def)

text \<open>What a request finds: the admitted requests of the last window.\<close>

lemma pruned:
  assumes "limiter_inv before (admitted, m)" and "before \<le> now" and "earliest \<le> now - authWindow"
  shows "popOld (orElse (checked_sub earliest now authWindow) now) (orElse (m ip) []) =
           filter (\<lambda>t. now - authWindow \<le> t) (admitted ip)"
    and "length (filter (\<lambda>t. now - authWindow \<le> t) (admitted ip)) = inWindow (now - authWindow) (admitted ip)"
proof -
  obtain c where c: "c \<le> before - authWindow" "orElse (m ip) [] = filter (\<lambda>t. c \<le> t) (admitted ip)"
    and s: "sorted (admitted ip)" "\<forall>t \<in> set (admitted ip). t \<le> before"
    using assms(1) by (force simp: limiter_inv_def)
  show "popOld (orElse (checked_sub earliest now authWindow) now) (orElse (m ip) []) =
           filter (\<lambda>t. now - authWindow \<le> t) (admitted ip)"
    using c s(1) assms(2,3) by (simp add: checked_sub_def popOld_filter)
  show "length (filter (\<lambda>t. now - authWindow \<le> t) (admitted ip)) = inWindow (now - authWindow) (admitted ip)"
    unfolding inWindow_def using s(2) assms(2) by (intro arg_cong [where f = length] filter_cong) auto
qed

lemma admit_exact:
  assumes "limiter_inv before (admitted, m)" and "before \<le> now" and "earliest \<le> now - authWindow"
  shows "fst (admit earliest ip now m) \<longleftrightarrow> inWindow (now - authWindow) (admitted ip) < authMaxPerWindow"
  using pruned [OF assms, of ip] by (simp add: admit_def Let_def)

lemma limiter_inv_step:
  assumes "limiter_inv before s" and "before \<le> eventTime e" and "earliest \<le> eventTime e - authWindow"
  shows "limiter_inv (eventTime e) (limiterStep earliest e s)"
proof -
  obtain admitted m where s: "s = (admitted, m)" by (cases s)
  let ?now = "eventTime e"
  note inv = limiter_inv_mono [OF assms(1,2), unfolded s]
  note old = inv [unfolded limiter_inv_def fst_conv snd_conv, rule_format]
  show ?thesis
  proof (cases e)
    case (Request ip now)
    let ?q = "filter (\<lambda>t. now - authWindow \<le> t) (admitted ip)"
    note q = pruned [OF assms(1) [unfolded s], of now earliest ip] and now = assms(2,3)
    show ?thesis
    proof (cases "authMaxPerWindow \<le> length ?q")
      case True
      have "limiter_inv now (admitted, m(ip \<mapsto> ?q))"
        unfolding limiter_inv_def using old Request by (auto intro: exI [of _ "now - authWindow"])
      then show ?thesis using True q now by (simp add: Request s admit_def Let_def)
    next
      case False
      have "inWindow t0 (admitted ip @ [now]) \<le> authMaxPerWindow" for t0
      proof (cases "t0 \<le> now \<and> now \<le> t0 + authWindow")
        case True
        then have "inWindow t0 (admitted ip) \<le> length ?q"
          unfolding inWindow_def by (intro length_filter_imp) auto
        then show ?thesis using False True by (simp add: inWindow_def)
      next
        case F: False
        then have "inWindow t0 (admitted ip @ [now]) = inWindow t0 (admitted ip)" by (auto simp: inWindow_def)
        then show ?thesis using old [of ip] by simp
      qed
      then have "limiter_inv now (admitted(ip := admitted ip @ [now]), m(ip \<mapsto> ?q @ [now]))"
        unfolding limiter_inv_def using old Request
        by (auto simp: sorted_append authWindow_def intro: exI [of _ "now - authWindow"])
      then show ?thesis using False q now by (simp add: Request s admit_def Let_def)
    qed
  next
    case (Cleanup now)
    have "orElse (cleanup earliest now m ip) [] = popOld (now - authWindow) (orElse (m ip) [])" for ip
      using assms(3) Cleanup by (cases "m ip") (simp_all add: cleanup_def checked_sub_def Let_def)
    then have "orElse (cleanup earliest now m ip) [] = filter (\<lambda>t. now - authWindow \<le> t) (admitted ip)" for ip
      using pruned(1) [OF assms(1) [unfolded s], of now earliest ip] assms(2,3) Cleanup by (simp add: checked_sub_def)
    then show ?thesis
      unfolding Cleanup s limiter_inv_def using old Cleanup by auto
  qed
qed

text \<open>A run whose events are in the order of their times.\<close>

lemma limiter_inv_run:
  assumes "sorted (map eventTime es)" and "\<forall>e \<in> set es. earliest \<le> eventTime e - authWindow"
    and "\<forall>e \<in> set es. eventTime e \<le> now"
  shows "limiter_inv now (limiterRun earliest es)"
  using assms
proof (induction es arbitrary: now rule: rev_induct)
  case Nil
  then show ?case
    by (simp add: limiterRun_def limiter_inv_def inWindow_def) (metis order_refl)
next
  case (snoc e es)
  have "limiter_inv (eventTime e) (limiterRun earliest es)"
    using snoc(2,3) by (intro snoc.IH) (auto simp: sorted_append)
  from limiter_inv_step [OF this order_refl] snoc(3)
  have "limiter_inv (eventTime e) (limiterRun earliest (es @ [e]))" by (simp add: limiterRun_def)
  then show ?case using snoc(4) by (auto intro: limiter_inv_mono)
qed

subsection \<open>Properties\<close>

text \<open>
  C34. The rate limit of the account routes: over any run of requests (of any addresses, with
  cleanups at any time) in which the clock does not go back and the host has been up for a minute, a
  request is let through exactly if fewer than ten requests of its address were let through in the sixty
  seconds before it, and no sixty seconds contain more than ten admitted requests of an address.
\<close>

theorem rate_limit_is_exact:
  assumes "sorted (map eventTime (es @ [Request ip now]))"
    and "\<forall>e \<in> set (es @ [Request ip now]). earliest \<le> eventTime e - authWindow"
    and "limiterRun earliest es = (admitted, m)"
  shows "(fst (auth_rate_limit False earliest (Some ip) now m) = None \<longleftrightarrow> inWindow (now - authWindow) (admitted ip) < 10)
    \<and> inWindow t0 (admitted other) \<le> 10"
proof -
  have inv: "limiter_inv now (admitted, m)"
    unfolding assms(3) [symmetric] using assms(1,2) by (intro limiter_inv_run) (auto simp: sorted_append)
  moreover have "earliest \<le> now - authWindow" using assms(2) by simp
  ultimately show ?thesis
    using admit_exact [of now admitted m now earliest ip]
    by (auto simp: auth_rate_limit_def limiter_inv_def authMaxPerWindow_def split: prod.splits)
qed

lemma rate_limit_is_exact_witness:
  "\<exists>admitted m. limiterRun 0 (replicate 10 (Request ''a'' authWindow) @ [Cleanup (authWindow + 5)]) = (admitted, m)
     \<and> fst (auth_rate_limit False 0 (Some ''a'') (authWindow + 7) m) \<noteq> None"
proof -
  let ?es = "replicate 10 (Request ''a'' authWindow) @ [Cleanup (authWindow + 5)]"
  obtain admitted m where r: "limiterRun 0 ?es = (admitted, m)" by (cases "limiterRun 0 ?es")
  have w: "0 < authWindow" by (simp add: authWindow_def)
  have "fst (limiterRun 0 ?es) ''a'' = replicate 10 authWindow"
    by (simp add: limiterRun_def admit_def Let_def numeral_eq_Suc checked_sub_def popOld_def authMaxPerWindow_def w)
  then have "inWindow 7 (admitted ''a'') = 10" using r by (simp add: inWindow_def authWindow_def)
  with rate_limit_is_exact [of ?es "''a''" "authWindow + 7" 0 admitted m] r show ?thesis
    by (simp add: sorted_append)
qed

text \<open>
  Behind a trusted proxy the client cannot choose the address it is counted for: whatever
  it sends in X-Forwarded-For, in however many header lines and entries, the address the proxy appends
  to the last line is the one that is used.
\<close>

lemma splitComma_append:
  "splitComma part (xs @ CHR '','' # ys) = splitComma part xs @ splitComma [] ys"
  by (induction part xs rule: splitComma.induct) auto

lemma splitComma_single: "CHR '','' \<notin> set xs \<Longrightarrow> splitComma part xs = [part @ xs]"
  by (induction part xs rule: splitComma.induct) auto

theorem forwarded_address_is_not_spoofed:
  assumes "parse real = Some ip" and "CHR '','' \<notin> set real"
  shows "client_ip parse connect (lines @ [forged @ CHR '','' # real]) True = Some ip"
proof -
  have "List.map_filter parse (concat (map (splitComma []) (lines @ [forged @ CHR '','' # real]))) =
      List.map_filter parse (concat (map (splitComma []) lines) @ splitComma [] forged) @ [ip]"
    using assms by (simp add: splitComma_append splitComma_single List.map_filter_def)
  then show ?thesis by (simp add: client_ip_def Let_def)
qed

lemma forwarded_address_is_not_spoofed_witness:
  "client_ip (\<lambda>s. if s = '' 203.0.113.9'' then Some (203 :: nat) else if s = ''1.2.3.4'' then Some 1 else None) (Some 127)
     [''1.2.3.4'', ''1.2.3.4,1.2.3.4, 203.0.113.9''] True = Some 203"
  using forwarded_address_is_not_spoofed [of "\<lambda>s. if s = '' 203.0.113.9'' then Some (203 :: nat) else if s = ''1.2.3.4'' then Some 1 else None"
      "'' 203.0.113.9''" 203 "Some 127" "[''1.2.3.4'']" "''1.2.3.4,1.2.3.4''"] by simp

end
