(* ===== verification/Spec2Isabelle.thy ===== *)
theory Spec2Isabelle
  imports Sync_Protocol Bridge_Import Popup_Faults Popup_Profiles Popup_Open Signing_In Server_Events Server_Rate_Limit
begin

text \<open>
  Vaultmarks keeps the bookmarks of a browser in an end-to-end encrypted document that several
  devices share. This library models the browser extension (src/extension/src, TypeScript) and the
  handlers of the server (src/server/src, Rust), and proves what the parts promise each other. All names below src/extension/src are given without that prefix.

  \<^bold>\<open>The parts and how they interact.\<close> The popup (popup/index.tsx) sends messages to the
  service worker (background/index.ts) and shows what it answers. The worker holds the session
  (auth/session.ts), one CRDT document (crdt/loro-doc.ts) and the bridge between that document and
  the browser's bookmarks (bookmarks/bridge.ts); it keeps snapshots, cursors and a queue of
  outgoing deltas in IndexedDB (storage/db.ts, sync/delta-queue.ts), seals them (crypto/) and
  exchanges them with the server (sync/client.ts), which numbers the deltas and tells the other
  devices through an event stream.

  \<^bold>\<open>Theories and sources.\<close>
  \<^item> Prelude, Types, Messages: errors, actions that thread a state and may throw, JavaScript
    maps and objects; types.ts.
  \<^item> Base64, Crypto: crypto/aes.ts, crypto/kdf.ts, and the key handling of the popup.
  \<^item> Session: auth/session.ts as a record of the memory and the two storage areas, with a step
    relation that includes the restarts of the worker and of the browser.
  \<^item> Storage, Delta_Queue: storage/db.ts, sync/delta-queue.ts.
  \<^item> Http, Sync_Client, Push_Chain, Event_Stream: sync/client.ts -- the routes, the push and the
    paged pull, the promise chain of the pushes, the event stream with its parser and its timers.
  \<^item> Server_Tables, Server_Accounts, Server: the tables of migrations/, server/src/auth.rs and error.rs;
    routes/auth.rs and routes/profiles.rs; routes/sync.rs; db/queries.rs in all three. \<^verbatim>\<open>serve\<close>
    routes every request. Server_Events: the notifications (main.rs, routes/events.rs).
    Server_Rate_Limit: rate_limit.rs, which stands before the routes and is not part of \<^verbatim>\<open>serve\<close>.
  \<^item> Server_Invariant, Server_Sessions: what the server keeps of its tables, of the separation of its
    users, and of tokens and keys. Sync_Protocol, Signing_In: client and server together.
  \<^item> Loro_Doc: crdt/loro-doc.ts over a record of the operations of Loro.
  \<^item> Bookmark_Tree, Id_Mapping, Bridge_Merge, Bridge_Import, Reconcile_Plan, Browser, Reconcile,
    Listeners: bookmarks/bridge.ts and bookmarks/echo-filter.ts in the order of the file; correctness
    in Merge_Correct, Bridge_Import, Reconcile_Correct, Reconcile_Safety, Listeners_Correct.
  \<^item> Background_State, Background_Sync, Background_Docs, Background: background/index.ts; the
    module variables are the record \<^verbatim>\<open>bg\<close>, a handler is one definition with every call it makes.
    Background_Invariant, Background_Worker, Background_Correct, Background_Pull, Background_Switch,
    Background_Conflict, Background_Replies: what the handlers keep and promise.
  \<^item> Popup_Export, Popup: popup/index.tsx; the signals are the record \<^verbatim>\<open>popup\<close>, an action is a
    program over the popup and the background. Popup_Page: its markup, a page as the list of its
    elements, with the clicks it offers. Popup_Correct, Popup_Profiles, Popup_Faults: popup and
    background together. Popup_Run, Popup_Open: an open popup as a step relation over the worker.

  \<^bold>\<open>Interfaces.\<close> \<^verbatim>\<open>kv_store\<close> and \<^verbatim>\<open>ack_queue\<close> (Storage) and \<^verbatim>\<open>id_bimap\<close> (Id_Mapping) state what the
  callers of the database, of the delta queue and of the pair of id maps rely on. \<^verbatim>\<open>doc_invariant\<close>, \<^verbatim>\<open>session_invariant\<close>,
  \<^verbatim>\<open>worker_invariant\<close> and \<^verbatim>\<open>sync_invariant\<close> (Background_Invariant), each extending the one before,
  and \<^verbatim>\<open>quiet_invariant\<close> and \<^verbatim>\<open>quiet_worker\<close> below them, for the handlers that neither open nor lock a session,
  say which predicates on the worker the operations of a layer cannot break; their lemmas run
  through all handlers once and are instantiated with the session simulation, the gate flags, what
  waits for the user and the login flags; \<^verbatim>\<open>world_invariant\<close> (Background_Pull) does the same for
  predicates on the database and the document. \<^verbatim>\<open>session_service\<close> (Popup_Correct) is what the popup
  relies on, \<^verbatim>\<open>popup_service\<close> (Popup_Run) what it relies on while it is open; the background is shown to
  provide both. \<^verbatim>\<open>account_service\<close> (Signing_In) is what signing
  in relies on; the server is shown to provide it.

  \<^bold>\<open>What the lemmas show.\<close> For the data path: what is pushed is pulled, byte by byte and in order;
  the offline merge and the import bring the document and the browser to agree and lose nothing of
  the server's; a reconcile keeps the mapping, touches managed nodes only and leaves alone what an
  offline merge has just taken over; the listeners record what happens when they run alone, and
  two overlapping creations are shown to go wrong. For the server: every handler is a sequence of
  writes to the tables (\<^verbatim>\<open>table_write\<close>), over which the integrity of the tables and the separation of the
  users are proved once; a password change ends the old tokens and keys, a deleted account leaves
  nothing, a first sign-in is found again by any device, notifications arrive, the rate limit is
  exact. For the worker: it refines the session store; its gates
  are open between steps; cursors never get ahead of snapshots; switches end on the last request; a
  conflict after a login waits for the user; every message gets a reply of its kind. For
  the popup: through any run it shows the session as the background has it, or a form with an error,
  a locked session is offered nothing but the forms, nothing is deleted that was not asked for, its profile list stays the session's, a
  changed password opens the session, exports are complete and properly escaped. Where the code
  does not do this, the theorem states the run that goes wrong, on a concrete worker.

  \<^bold>\<open>Parameters and hypotheses.\<close> Not code of the repository, hence arguments: Loro (record
  \<^verbatim>\<open>loro\<close>; the bookmark code relies on a map container that returns what was put), WebCrypto and
  Argon2id (\<^verbatim>\<open>webcrypto\<close>, with \<^verbatim>\<open>gcm_roundtrip\<close> and \<^verbatim>\<open>gcm_authentic\<close> where a property needs them),
  chrome.bookmarks (\<^verbatim>\<open>chrome\<close>, any call may reject), the network (\<^verbatim>\<open>fetch\<close>), random values and the
  clock (\<^verbatim>\<open>env\<close>), and on the server JWTs, base64, Argon2id and uuids (\<^verbatim>\<open>crates\<close>, with
  \<^verbatim>\<open>crates_ok\<close>), the framing of events (\<^verbatim>\<open>frames_ok\<close>), the parser of addresses. Every property with a hypothesis has a witness on
  a concrete platform.

  \<^bold>\<open>Concurrency.\<close> Between two awaits nothing else runs. Where an await lets something in that the
  code has to cope with, the model splits there: the listeners (every await of a creation), the
  push chain, the event stream, the pull (\<^verbatim>\<open>syncFromInner\<close> is the request and
  \<^verbatim>\<open>applyDeltas\<close> its continuation), the drain loop of a switch (the requests that arrive in each
  round are an argument), at the server a push (insert and commit), a registration, a login and the creation of a profile
  (check and write). Elsewhere a handler runs as
  one step, and so does an action of the popup, except that the reply to the sync it starts with
  comes at any time; what a handler starts without awaiting is a job that runs later as its own step.

  \<^bold>\<open>Loops.\<close> An action of the worker that may not return has an optional result: the pull loop ends
  only if the server stops saying there is more, and is \<^verbatim>\<open>partial_function\<close>; that it returns against
  the modelled server is part of a property. The search for descendants is fuelled by the size of
  the snapshot, which is shown to be enough; the replies of the browser to one
  creation are fuelled, and more than the number of managed nodes is shown to be enough. All other loops have measures.

  \<^bold>\<open>Not modelled.\<close> config.ts (constants); the start of the server (axum, CORS, body limits, tracing), the
  reconnects of its listener and the channels of tokio, errors of the database other than the constraints the
  code reacts to, the expiry of tokens; the layout, styles and icons of the popup, the format check of its email field, and the
  time format; console output; delays, of which only the
  order of the timers is kept; the tests and build files. Text outside ASCII is written in ASCII.
\<close>

end
